(* ===== verification/Ocid_Prelude.thy ===== *)
theory Ocid_Prelude
  imports Main "HOL-Library.Word" "HOL-Library.List_Lexorder" "HOL-Library.Char_ord"
    "HOL-Library.AList" "HOL-Library.Sublist" "HOL-Library.Product_Lexorder"
begin

unbundle bit_operations_syntax

text \<open>
  Shared ground of the development: machine-integer and byte-array types, results and their
  sequencing, the string operations of the Rust standard library that the program uses, decimal
  numbers, association lists used as tables, and the record of the third-party crates the
  program calls. A Rust \<open>String\<close> is modelled as its bytes (a \<open>char list\<close>); the white space that
  \<open>trim\<close> and \<open>split_whitespace\<close> look for is the ASCII white space.
\<close>

section \<open>Machine integers and byte arrays\<close>

type_synonym byte = "8 word"
type_synonym u32 = "32 word"
type_synonym u64 = "64 word"
type_synonym bytes32 = "256 word"
type_synonym bytes64 = "512 word"

text \<open>The bytes of a fixed-size array, first byte first; an array of \<open>n\<close> bytes is a word of
  \<open>8 n\<close> bits, so that a value of the type always has the right length.\<close>

fun bytes_of :: "nat \<Rightarrow> 'a::len word \<Rightarrow> byte list" where
  "bytes_of 0 w = []"
| "bytes_of (Suc n) w = bytes_of n (drop_bit 8 w) @ [ucast w]"

definition word_of_bytes :: "byte list \<Rightarrow> 'a::len word" where
  "word_of_bytes bs = foldl (\<lambda>a b. push_bit 8 a OR ucast b) 0 bs"

text \<open>\<open>try_into::<[u8; n]>()\<close>: an array, or nothing when the length differs.\<close>

definition try_array :: "nat \<Rightarrow> byte list \<Rightarrow> 'a::len word option" where
  "try_array n bs = (if length bs = n then Some (word_of_bytes bs) else None)"

lemma length_bytes_of [simp]: "length (bytes_of n w) = n"
  by (induction n arbitrary: w) auto

lemma word_of_bytes_snoc [simp]:
  "word_of_bytes (bs @ [b]) = push_bit 8 (word_of_bytes bs) OR ucast b"
  by (simp add: word_of_bytes_def)

lemma word_of_bytes_Nil [simp]: "word_of_bytes [] = 0"
  by (simp add: word_of_bytes_def)

lemma word_of_bytes_bytes_of:
  fixes w :: "'a::len word"
  shows "word_of_bytes (bytes_of n w) = take_bit (8 * n) w"
proof (induction n arbitrary: w)
  case 0
  show ?case by simp
next
  case (Suc n)
  have "push_bit 8 (take_bit (8 * n) (drop_bit 8 w)) OR ucast (ucast w :: byte)
      = take_bit (8 * Suc n) w"
    by (rule bit_word_eqI) (auto simp: bit_simps)
  with Suc show ?case by simp
qed

lemma try_array_bytes_of [simp]:
  "try_array n (bytes_of n (w :: 'a::len word)) = Some (take_bit (8 * n) w)"
  by (simp add: try_array_def word_of_bytes_bytes_of)

lemma try_array_32 [simp]: "try_array 32 (bytes_of 32 (w :: bytes32)) = Some w"
  by (simp add: take_bit_word_eq_self)

lemma try_array_64 [simp]: "try_array 64 (bytes_of 64 (w :: bytes64)) = Some w"
  by (simp add: take_bit_word_eq_self)

section \<open>Results and their sequencing\<close>

text \<open>
  \<open>Result<T, E>\<close> is the sum \<open>'e + 'a\<close>: \<open>Inl\<close> an error, \<open>Inr\<close> a value. \<open>and_then\<close> is the
  \<open>?\<close> operator: it stops at the first error. \<open>ensure c e\<close> is \<open>if !c { bail!(e) }\<close>.
\<close>

definition and_then :: "'e + 'a \<Rightarrow> ('a \<Rightarrow> 'e + 'b) \<Rightarrow> 'e + 'b" where
  "and_then r f = (case r of Inl e \<Rightarrow> Inl e | Inr x \<Rightarrow> f x)"

definition ensure :: "bool \<Rightarrow> 'e \<Rightarrow> 'e + unit" where
  "ensure c e = (if c then Inr () else Inl e)"

definition ok_or :: "'a option \<Rightarrow> 'e \<Rightarrow> 'e + 'a" where
  "ok_or m e = (case m of None \<Rightarrow> Inl e | Some x \<Rightarrow> Inr x)"

definition to_option :: "'e + 'a \<Rightarrow> 'a option" where
  "to_option r = (case r of Inl e \<Rightarrow> None | Inr x \<Rightarrow> Some x)"

definition is_ok :: "'e + 'a \<Rightarrow> bool" where
  "is_ok r = (case r of Inl e \<Rightarrow> False | Inr x \<Rightarrow> True)"

definition map_err :: "('e \<Rightarrow> 'f) \<Rightarrow> 'e + 'a \<Rightarrow> 'f + 'a" where
  "map_err g r = (case r of Inl e \<Rightarrow> Inl (g e) | Inr x \<Rightarrow> Inr x)"

lemma and_then_simps [simp]:
  "and_then (Inl e) f = Inl e" "and_then (Inr x) f = f x"
  by (simp_all add: and_then_def)

lemma and_then_Inr_iff [simp]:
  "and_then r f = Inr y \<longleftrightarrow> (\<exists>x. r = Inr x \<and> f x = Inr y)"
  by (cases r) auto

lemma and_then_Inl_iff:
  "and_then r f = Inl e \<longleftrightarrow> r = Inl e \<or> (\<exists>x. r = Inr x \<and> f x = Inl e)"
  by (cases r) auto

lemma and_then_cong [fundef_cong]:
  "r = r' \<Longrightarrow> (\<And>x. r' = Inr x \<Longrightarrow> f x = g x) \<Longrightarrow> and_then r f = and_then r' g"
  by (cases r') auto

lemma ensure_simps [simp]:
  "ensure True e = Inr ()" "ensure False e = Inl e"
  by (simp_all add: ensure_def)

lemma ensure_Inr_iff [simp]: "ensure c e = Inr u \<longleftrightarrow> c"
  by (simp add: ensure_def)

lemma ensure_Inl_iff [simp]: "ensure c e = Inl e' \<longleftrightarrow> \<not> c \<and> e' = e"
  by (auto simp: ensure_def)

lemma ok_or_simps [simp]:
  "ok_or None e = Inl e" "ok_or (Some x) e = Inr x"
  by (simp_all add: ok_or_def)

lemma ok_or_Inr_iff [simp]: "ok_or m e = Inr x \<longleftrightarrow> m = Some x"
  by (simp add: ok_or_def split: option.split)

lemma to_option_simps [simp]:
  "to_option (Inl e) = None" "to_option (Inr x) = Some x"
  by (simp_all add: to_option_def)

lemma to_option_Some_iff [simp]: "to_option r = Some x \<longleftrightarrow> r = Inr x"
  by (cases r) auto

lemma is_ok_simps [simp]: "\<not> is_ok (Inl e)" "is_ok (Inr x)"
  by (simp_all add: is_ok_def)

lemma is_ok_iff: "is_ok r \<longleftrightarrow> (\<exists>x. r = Inr x)"
  by (cases r) auto

lemma map_err_simps [simp]:
  "map_err g (Inl e) = Inl (g e)" "map_err g (Inr x) = Inr x"
  by (simp_all add: map_err_def)

lemma map_err_Inr_iff [simp]: "map_err g r = Inr x \<longleftrightarrow> r = Inr x"
  by (cases r) auto

text \<open>Mapping a fallible function over a list stops at the first error, as a \<open>for\<close> loop with
  \<open>?\<close> does.\<close>

fun map_res :: "('a \<Rightarrow> 'e + 'b) \<Rightarrow> 'a list \<Rightarrow> 'e + 'b list" where
  "map_res f [] = Inr []"
| "map_res f (x # xs) =
     and_then (f x) (\<lambda>y. and_then (map_res f xs) (\<lambda>ys. Inr (y # ys)))"

lemma map_res_Inr_iff:
  "map_res f xs = Inr ys \<longleftrightarrow> list_all2 (\<lambda>x y. f x = Inr y) xs ys"
  by (induction xs arbitrary: ys) (auto simp: list_all2_Cons1)

section \<open>Characters and strings\<close>

definition is_digit :: "char \<Rightarrow> bool" where
  "is_digit c \<longleftrightarrow> CHR ''0'' \<le> c \<and> c \<le> CHR ''9''"

definition is_lower :: "char \<Rightarrow> bool" where
  "is_lower c \<longleftrightarrow> CHR ''a'' \<le> c \<and> c \<le> CHR ''z''"

definition is_upper :: "char \<Rightarrow> bool" where
  "is_upper c \<longleftrightarrow> CHR ''A'' \<le> c \<and> c \<le> CHR ''Z''"

definition is_alnum :: "char \<Rightarrow> bool" where
  "is_alnum c \<longleftrightarrow> is_digit c \<or> is_lower c \<or> is_upper c"

definition is_lhex :: "char \<Rightarrow> bool" where
  "is_lhex c \<longleftrightarrow> is_digit c \<or> (CHR ''a'' \<le> c \<and> c \<le> CHR ''f'')"

definition is_hexdigit :: "char \<Rightarrow> bool" where
  "is_hexdigit c \<longleftrightarrow> is_lhex c \<or> (CHR ''A'' \<le> c \<and> c \<le> CHR ''F'')"

text \<open>ASCII white space: tab, line feed, vertical tab, form feed, carriage return, space.\<close>

definition is_space :: "char \<Rightarrow> bool" where
  "is_space c \<longleftrightarrow> c \<in> {CHR 0x09, CHR 0x0A, CHR 0x0B, CHR 0x0C, CHR 0x0D, CHR '' ''}"

lemmas char_class_defs = is_digit_def is_lower_def is_upper_def is_alnum_def is_lhex_def
  is_hexdigit_def is_space_def

definition trim_start_by :: "(char \<Rightarrow> bool) \<Rightarrow> string \<Rightarrow> string" where
  "trim_start_by p s = dropWhile p s"

definition trim_end_by :: "(char \<Rightarrow> bool) \<Rightarrow> string \<Rightarrow> string" where
  "trim_end_by p s = rev (dropWhile p (rev s))"

definition trim_by :: "(char \<Rightarrow> bool) \<Rightarrow> string \<Rightarrow> string" where
  "trim_by p s = trim_end_by p (trim_start_by p s)"

definition trim :: "string \<Rightarrow> string" where
  "trim s = trim_by is_space s"

fun split_on :: "char \<Rightarrow> string \<Rightarrow> string list" where
  "split_on c [] = [[]]"
| "split_on c (x # xs) =
     (if x = c then [] # split_on c xs
      else (case split_on c xs of [] \<Rightarrow> [[x]] | y # ys \<Rightarrow> (x # y) # ys))"

fun split_once :: "char \<Rightarrow> string \<Rightarrow> (string \<times> string) option" where
  "split_once c [] = None"
| "split_once c (x # xs) =
     (if x = c then Some ([], xs)
      else (case split_once c xs of None \<Rightarrow> None | Some (a, b) \<Rightarrow> Some (x # a, b)))"

definition rsplit_once :: "char \<Rightarrow> string \<Rightarrow> (string \<times> string) option" where
  "rsplit_once c s =
     (case split_once c (rev s) of None \<Rightarrow> None | Some (a, b) \<Rightarrow> Some (rev b, rev a))"

definition strip_prefix :: "string \<Rightarrow> string \<Rightarrow> string option" where
  "strip_prefix p s = (if take (length p) s = p then Some (drop (length p) s) else None)"

definition strip_suffix :: "string \<Rightarrow> string \<Rightarrow> string option" where
  "strip_suffix p s = (case strip_prefix (rev p) (rev s) of None \<Rightarrow> None | Some r \<Rightarrow> Some (rev r))"

fun split_ws_aux :: "string \<Rightarrow> string \<Rightarrow> string list" where
  "split_ws_aux cur [] = (if cur = [] then [] else [cur])"
| "split_ws_aux cur (c # cs) =
     (if is_space c then (if cur = [] then split_ws_aux [] cs else cur # split_ws_aux [] cs)
      else split_ws_aux (cur @ [c]) cs)"

definition split_whitespace :: "string \<Rightarrow> string list" where
  "split_whitespace s = split_ws_aux [] s"

fun join_with :: "string \<Rightarrow> string list \<Rightarrow> string" where
  "join_with sep [] = []"
| "join_with sep [x] = x"
| "join_with sep (x # y # ys) = x @ sep @ join_with sep (y # ys)"

text \<open>\<open>find_last p s\<close> is \<open>s.rfind(p)\<close> split there: the text before the last occurrence of
  the pattern \<open>p\<close> and the text after it.\<close>

fun find_last :: "string \<Rightarrow> string \<Rightarrow> (string \<times> string) option" where
  "find_last p [] = (if p = [] then Some ([], []) else None)"
| "find_last p (x # xs) =
     (case find_last p xs of
        Some (a, b) \<Rightarrow> Some (x # a, b)
      | None \<Rightarrow> (case strip_prefix p (x # xs) of None \<Rightarrow> None | Some b \<Rightarrow> Some ([], b)))"

fun contains_str :: "string \<Rightarrow> string \<Rightarrow> bool" where
  "contains_str p [] \<longleftrightarrow> p = []"
| "contains_str p (x # xs) \<longleftrightarrow> take (length p) (x # xs) = p \<or> contains_str p xs"

subsection \<open>Laws of the string operations\<close>

lemma split_once_SomeD:
  "split_once c s = Some (a, b) \<Longrightarrow> s = a @ c # b \<and> c \<notin> set a"
  by (induction s arbitrary: a) (auto split: option.splits if_splits)

lemma split_once_append [simp]: "c \<notin> set a \<Longrightarrow> split_once c (a @ c # b) = Some (a, b)"
  by (induction a) auto

lemma split_once_Some_iff:
  "split_once c s = Some (a, b) \<longleftrightarrow> s = a @ c # b \<and> c \<notin> set a"
  by (metis split_once_SomeD split_once_append)

lemma split_once_None_iff: "split_once c s = None \<longleftrightarrow> c \<notin> set s"
  by (induction s) (auto split: option.splits)

lemma rsplit_once_Some_iff:
  "rsplit_once c s = Some (a, b) \<longleftrightarrow> s = a @ c # b \<and> c \<notin> set b"
proof -
  have "rsplit_once c s = Some (a, b) \<longleftrightarrow> split_once c (rev s) = Some (rev b, rev a)"
    by (auto simp: rsplit_once_def split: option.splits)
  also have "\<dots> \<longleftrightarrow> rev s = rev b @ c # rev a \<and> c \<notin> set b"
    by (simp add: split_once_Some_iff)
  also have "\<dots> \<longleftrightarrow> s = a @ c # b \<and> c \<notin> set b"
    by (metis append.assoc append_Cons append_Nil rev.simps(2) rev_append rev_rev_ident)
  finally show ?thesis .
qed

lemma rsplit_once_None_iff: "rsplit_once c s = None \<longleftrightarrow> c \<notin> set s"
  by (auto simp: rsplit_once_def split_once_None_iff split: option.splits)
     (metis option.distinct(1) set_rev split_once_None_iff)

lemma split_on_nonempty [simp]: "split_on c s \<noteq> []"
  by (induction s) (auto split: list.splits)

lemma split_on_no_sep: "c \<notin> set s \<Longrightarrow> split_on c s = [s]"
  by (induction s) auto

lemma split_on_append_sep: "split_on c (a @ c # b) = split_on c a @ split_on c b"
  by (induction a) (auto split: list.splits)

lemma split_on_parts: "x \<in> set (split_on c s) \<Longrightarrow> c \<notin> set x"
  by (induction s arbitrary: x) (auto split: list.splits if_splits)

lemma join_split_on: "join_with [c] (split_on c s) = s"
proof (induction s)
  case Nil
  show ?case by simp
next
  case (Cons x xs)
  obtain y ys where sp: "split_on c xs = y # ys"
    by (cases "split_on c xs") auto
  with Cons show ?case
    by (cases ys) auto
qed

lemma split_on_join:
  "ts \<noteq> [] \<Longrightarrow> \<forall>t \<in> set ts. c \<notin> set t \<Longrightarrow> split_on c (join_with [c] ts) = ts"
proof (induction ts)
  case (Cons t ts)
  then show ?case
    by (cases ts) (simp_all add: split_on_no_sep split_on_append_sep)
qed simp

lemma concat_join:
  "ts \<noteq> [] \<Longrightarrow> concat (map (\<lambda>t. t @ sep) (butlast ts) @ [last ts]) = join_with sep ts"
proof (induction ts)
  case (Cons t ts)
  then show ?case by (cases ts) simp_all
qed simp

lemma join_with_Cons: "ts \<noteq> [] \<Longrightarrow> join_with sep (t # ts) = t @ sep @ join_with sep ts"
  by (cases ts) simp_all

lemma split_on_inject: "split_on c s = split_on c t \<longleftrightarrow> s = t"
  by (metis join_split_on)

lemma strip_prefix_Some_iff: "strip_prefix p s = Some r \<longleftrightarrow> s = p @ r"
  by (auto simp: strip_prefix_def) (metis append_take_drop_id)

lemma strip_prefix_append [simp]: "strip_prefix p (p @ r) = Some r"
  by (simp add: strip_prefix_Some_iff)

lemma strip_prefix_None_iff: "strip_prefix p s = None \<longleftrightarrow> \<not> prefix p s"
  by (metis not_None_eq prefix_def strip_prefix_Some_iff)

lemma strip_suffix_Some_iff: "strip_suffix p s = Some r \<longleftrightarrow> s = r @ p"
proof -
  have "strip_suffix p s = Some r \<longleftrightarrow> strip_prefix (rev p) (rev s) = Some (rev r)"
    by (auto simp: strip_suffix_def split: option.splits)
  then show ?thesis
    by (metis rev_append rev_rev_ident strip_prefix_Some_iff)
qed

lemma strip_suffix_append [simp]: "strip_suffix p (r @ p) = Some r"
  by (simp add: strip_suffix_Some_iff)

lemma contains_str_iff: "contains_str p s \<longleftrightarrow> (\<exists>a b. s = a @ p @ b)"
proof (induction s)
  case Nil
  show ?case by auto
next
  case (Cons x xs)
  have "take (length p) (x # xs) = p \<longleftrightarrow> (\<exists>b. x # xs = p @ b)"
    by (metis append_eq_conv_conj append_take_drop_id)
  moreover have "(\<exists>a b. x # xs = a @ p @ b) \<longleftrightarrow>
      (\<exists>b. x # xs = p @ b) \<or> (\<exists>a b. xs = a @ p @ b)"
    by (metis append_Cons append_Nil list.inject neq_Nil_conv)
  ultimately show ?case using Cons by simp
qed

lemma find_last_Some: "find_last p s = Some (a, b) \<Longrightarrow> s = a @ p @ b"
  by (induction s arbitrary: a)
     (auto simp: strip_prefix_Some_iff split: option.splits if_splits)

lemma find_last_None_iff: "find_last p s = None \<longleftrightarrow> \<not> contains_str p s"
  by (induction s)
     (auto simp: strip_prefix_def split: option.splits)

text \<open>The pattern is found at its last occurrence: when it does not occur again in what
  follows its first character.\<close>

lemma find_last_append:
  assumes "\<not> contains_str (x # p) (p @ b)"
  shows "find_last (x # p) (a @ (x # p) @ b) = Some (a, b)"
proof (induction a)
  case Nil
  have "find_last (x # p) (p @ b) = None"
    using assms by (simp add: find_last_None_iff)
  moreover have "strip_prefix (x # p) (x # p @ b) = Some b"
    by (simp add: strip_prefix_Some_iff)
  ultimately show ?case by simp
next
  case (Cons y ys)
  then show ?case by simp
qed

lemma split_ws_aux_token:
  "list_all (\<lambda>c. \<not> is_space c) t \<Longrightarrow> split_ws_aux cur (t @ s) = split_ws_aux (cur @ t) s"
  by (induction t arbitrary: cur) auto

lemma is_space_blank [simp]: "is_space CHR '' ''"
  by (simp add: is_space_def)

lemma split_whitespace_token:
  assumes "list_all (\<lambda>c. \<not> is_space c) t" and "t \<noteq> []"
  shows "split_whitespace t = [t]"
    and "split_whitespace (t @ CHR '' '' # s) = t # split_whitespace s"
  using assms split_ws_aux_token [of t "[]" "[]"] split_ws_aux_token [of t "[]" "CHR '' '' # s"]
  by (simp_all add: split_whitespace_def)

lemma split_whitespace_join:
  "list_all (\<lambda>t. t \<noteq> [] \<and> list_all (\<lambda>c. \<not> is_space c) t) ts \<Longrightarrow>
   split_whitespace (join_with '' '' ts) = ts"
proof (induction ts)
  case Nil
  show ?case by (simp add: split_whitespace_def)
next
  case (Cons x xs)
  then show ?case
    by (cases xs) (simp_all add: split_whitespace_token)
qed

subsection \<open>Laws of trimming\<close>

lemma dropWhile_id: "s = [] \<or> \<not> p (hd s) \<Longrightarrow> dropWhile p s = s"
  by (cases s) auto

lemma trim_end_by_id: "s = [] \<or> \<not> p (last s) \<Longrightarrow> trim_end_by p s = s"
  by (cases "s = []") (simp_all add: trim_end_by_def dropWhile_id hd_rev)

lemma trim_by_id:
  "s = [] \<or> (\<not> p (hd s) \<and> \<not> p (last s)) \<Longrightarrow> trim_by p s = s"
  by (auto simp: trim_by_def trim_start_by_def dropWhile_id trim_end_by_id)

lemma trim_by_no_char: "list_all (\<lambda>c. \<not> p c) s \<Longrightarrow> trim_by p s = s"
  by (rule trim_by_id) (cases s; auto simp: list_all_iff)

lemma trim_no_space: "list_all (\<lambda>c. \<not> is_space c) s \<Longrightarrow> trim s = s"
  by (simp add: trim_def trim_by_no_char)

text \<open>\<open>as_bytes\<close>: the bytes of a string.\<close>

definition as_bytes :: "string \<Rightarrow> byte list" where
  "as_bytes s = map (\<lambda>c. of_nat (of_char c)) s"

lemma as_bytes_inject: "as_bytes s = as_bytes t \<longleftrightarrow> s = t"
proof -
  have "inj (\<lambda>c. of_nat (of_char c) :: byte)"
  proof (rule injI)
    fix c d :: char
    assume eq: "(of_nat (of_char c) :: byte) = of_nat (of_char d)"
    have bound: "(of_char e :: nat) < 256" for e by simp
    have "unat (of_nat (of_char e) :: byte) = of_char e" for e
      using bound [of e] by (simp add: unat_of_nat)
    with eq have "(of_char c :: nat) = of_char d" by metis
    then show "c = d" by (simp add: of_char_eq_iff)
  qed
  then show ?thesis by (simp add: as_bytes_def inj_map_eq_map)
qed

section \<open>Decimal numbers\<close>

definition digit_char :: "nat \<Rightarrow> char" where
  "digit_char d = char_of (48 + d)"

definition digit_val :: "char \<Rightarrow> nat" where
  "digit_val c = of_char c - 48"

fun show_nat :: "nat \<Rightarrow> string" where
  "show_nat n = (if n < 10 then [digit_char n] else show_nat (n div 10) @ [digit_char (n mod 10)])"

declare show_nat.simps [simp del]

fun digits_val :: "nat \<Rightarrow> string \<Rightarrow> nat option" where
  "digits_val acc [] = Some acc"
| "digits_val acc (c # cs) =
     (if is_digit c then digits_val (10 * acc + digit_val c) cs else None)"

text \<open>\<open>str::parse::<uN>()\<close>: an optional plus sign, at least one digit, and a value below
  \<open>2 ^ N\<close>.\<close>

definition parse_uint :: "nat \<Rightarrow> string \<Rightarrow> nat option" where
  "parse_uint w s =
     (let ds = (case s of [] \<Rightarrow> [] | c # cs \<Rightarrow> if c = CHR ''+'' then cs else s)
      in if ds = [] then None
         else (case digits_val 0 ds of
                 None \<Rightarrow> None
               | Some n \<Rightarrow> if n < 2 ^ w then Some n else None))"

definition parse_u64 :: "string \<Rightarrow> u64 option" where
  "parse_u64 s = map_option of_nat (parse_uint 64 s)"

definition parse_u32 :: "string \<Rightarrow> u32 option" where
  "parse_u32 s = map_option of_nat (parse_uint 32 s)"

lemma is_digit_digit_char: "d < 10 \<Longrightarrow> is_digit (digit_char d)"
  by (auto simp: is_digit_def digit_char_def less_eq_char_def of_char_of)

lemma digit_val_digit_char: "d < 10 \<Longrightarrow> digit_val (digit_char d) = d"
  by (auto simp: digit_val_def digit_char_def of_char_of)

lemma digits_val_append:
  "digits_val acc (xs @ ys) = (case digits_val acc xs of None \<Rightarrow> None | Some n \<Rightarrow> digits_val n ys)"
  by (induction xs arbitrary: acc) auto

lemma show_nat_digits: "list_all is_digit (show_nat n)"
proof (induction n rule: show_nat.induct)
  case (1 n)
  then show ?case
    by (subst show_nat.simps) (auto intro!: is_digit_digit_char)
qed

lemma show_nat_nonempty [simp]: "show_nat n \<noteq> []"
  by (subst show_nat.simps) simp

lemma digits_val_show_nat: "digits_val 0 (show_nat n) = Some n"
proof (induction n rule: show_nat.induct)
  case (1 n)
  show ?case
  proof (cases "n < 10")
    case True
    then show ?thesis
      by (simp add: show_nat.simps [of n] is_digit_digit_char digit_val_digit_char)
  next
    case False
    with 1 show ?thesis
      by (simp add: show_nat.simps [of n] digits_val_append is_digit_digit_char
          digit_val_digit_char)
  qed
qed

lemma is_digit_not_plus: "is_digit c \<Longrightarrow> c \<noteq> CHR ''+''"
  by (auto simp: is_digit_def)

lemma is_digit_not_space: "is_digit c \<Longrightarrow> \<not> is_space c"
  by (auto simp: is_digit_def is_space_def)

lemma parse_uint_show_nat: "n < 2 ^ w \<Longrightarrow> parse_uint w (show_nat n) = Some n"
proof -
  assume "n < 2 ^ w"
  moreover obtain c cs where s: "show_nat n = c # cs"
    by (cases "show_nat n") auto
  moreover have "c \<noteq> CHR ''+''"
    using show_nat_digits [of n] s is_digit_not_plus by auto
  ultimately show ?thesis
    using digits_val_show_nat [of n] by (simp add: parse_uint_def)
qed

lemma unat_u64_bound: "unat (x :: u64) < 2 ^ 64"
  by (rule order_less_le_trans [OF unsigned_less]) simp

lemma unat_u32_bound: "unat (x :: u32) < 2 ^ 32"
  by (rule order_less_le_trans [OF unsigned_less]) simp

lemma parse_u64_show: "parse_u64 (show_nat (unat x)) = Some x"
  using unat_u64_bound [of x] by (simp add: parse_u64_def parse_uint_show_nat)

lemma parse_u32_show: "parse_u32 (show_nat (unat x)) = Some x"
  using unat_u32_bound [of x] by (simp add: parse_u32_def parse_uint_show_nat)

lemma length_show_nat: "n < 10 ^ Suc k \<Longrightarrow> length (show_nat n) \<le> Suc k"
proof (induction k arbitrary: n)
  case 0
  then show ?case by (simp add: show_nat.simps [of n])
next
  case (Suc k)
  then have "n div 10 < 10 ^ Suc k" by (simp add: less_mult_imp_div_less)
  from Suc.IH [OF this] show ?case by (simp add: show_nat.simps [of n])
qed

lemma length_show_u64: "length (show_nat (unat (x :: u64))) \<le> 20"
proof -
  have "unat x < 10 ^ Suc 19" using unat_u64_bound [of x] by simp
  from length_show_nat [OF this] show ?thesis by simp
qed

lemma show_nat_inject: "show_nat m = show_nat n \<longleftrightarrow> m = n"
  by (metis digits_val_show_nat option.inject)

lemma show_nat_no_char: "\<not> is_digit c \<Longrightarrow> c \<notin> set (show_nat n)"
  using show_nat_digits [of n] by (auto simp: list_all_iff)

section \<open>Filtering maps\<close>

lemma map_filter_Some_iff: "y \<in> set (List.map_filter f xs) \<longleftrightarrow> (\<exists>x \<in> set xs. f x = Some y)"
  by (induction xs) (auto simp: List.map_filter_simps split: option.split)

lemma map_filter_of_map: "List.map_filter f (map g xs) = List.map_filter (\<lambda>x. f (g x)) xs"
  by (induction xs) (simp_all add: List.map_filter_simps split: option.split)

lemma distinct_map_filter:
  "distinct xs \<Longrightarrow> (\<And>x y b. x \<in> set xs \<Longrightarrow> y \<in> set xs \<Longrightarrow> f x = Some b \<Longrightarrow> f y = Some b \<Longrightarrow> x = y) \<Longrightarrow>
   distinct (List.map_filter f xs)"
proof (induction xs)
  case Nil
  then show ?case by (simp add: List.map_filter_simps)
next
  case (Cons x xs)
  have "distinct (List.map_filter f xs)"
    using Cons.prems by (intro Cons.IH) auto
  moreover have "b \<notin> set (List.map_filter f xs)" if "f x = Some b" for b
    using Cons.prems that by (auto simp: map_filter_Some_iff)
  ultimately show ?case by (simp add: List.map_filter_simps split: option.split)
qed

section \<open>Tables\<close>

text \<open>
  A map of the program (a \<open>BTreeMap\<close>, a directory of files keyed by name, the tag table of the
  blob store) is an association list with distinct keys. The interface \<open>keyed_table\<close> states
  what its clients rely on; a client that deletes several keys in a loop gets its lemmas here.
\<close>

type_synonym ('k, 'v) table = "('k \<times> 'v) list"

definition tget :: "('k, 'v) table \<Rightarrow> 'k \<Rightarrow> 'v option" where
  "tget t k = map_of t k"

definition tput :: "'k \<Rightarrow> 'v \<Rightarrow> ('k, 'v) table \<Rightarrow> ('k, 'v) table" where
  "tput k v t = AList.update k v t"

definition tdel :: "'k \<Rightarrow> ('k, 'v) table \<Rightarrow> ('k, 'v) table" where
  "tdel k t = AList.delete k t"

definition table_ok :: "('k, 'v) table \<Rightarrow> bool" where
  "table_ok t \<longleftrightarrow> distinct (map fst t)"

locale keyed_table =
  fixes lookup :: "'s \<Rightarrow> 'k \<Rightarrow> 'v option"
    and insert_at :: "'k \<Rightarrow> 'v \<Rightarrow> 's \<Rightarrow> 's"
    and remove_at :: "'k \<Rightarrow> 's \<Rightarrow> 's"
    and invar :: "'s \<Rightarrow> bool"
  assumes lookup_insert: "invar s \<Longrightarrow>
      lookup (insert_at k v s) k' = (if k' = k then Some v else lookup s k')"
    and lookup_remove: "invar s \<Longrightarrow>
      lookup (remove_at k s) k' = (if k' = k then None else lookup s k')"
    and invar_insert: "invar s \<Longrightarrow> invar (insert_at k v s)"
    and invar_remove: "invar s \<Longrightarrow> invar (remove_at k s)"
begin

lemma invar_remove_all: "invar s \<Longrightarrow> invar (fold remove_at ks s)"
  by (induction ks arbitrary: s) (auto intro: invar_remove)

lemma lookup_remove_all:
  "invar s \<Longrightarrow> lookup (fold remove_at ks s) k = (if k \<in> set ks then None else lookup s k)"
  by (induction ks arbitrary: s) (auto simp: lookup_remove invar_remove)

lemma lookup_overwrite:
  "invar s \<Longrightarrow> lookup (insert_at k w (insert_at k v s)) k' = lookup (insert_at k w s) k'"
  by (simp add: lookup_insert invar_insert)

lemma lookup_insert_remove:
  "invar s \<Longrightarrow> lookup (remove_at k (insert_at k v s)) k' = lookup (remove_at k s) k'"
  by (simp add: lookup_insert lookup_remove invar_insert)

end

lemma tget_tput [simp]: "tget (tput k v t) k' = (if k' = k then Some v else tget t k')"
  by (simp add: tget_def tput_def update_conv')

lemma tget_tdel [simp]: "tget (tdel k t) k' = (if k' = k then None else tget t k')"
  by (simp add: tget_def tdel_def delete_conv')

lemma table_ok_tput [simp]: "table_ok t \<Longrightarrow> table_ok (tput k v t)"
  by (simp add: table_ok_def tput_def distinct_update)

lemma table_ok_tdel [simp]: "table_ok t \<Longrightarrow> table_ok (tdel k t)"
  by (simp add: table_ok_def tdel_def distinct_delete)

lemma table_ok_Nil [simp]: "table_ok []"
  by (simp add: table_ok_def)

lemma tget_Nil [simp]: "tget [] k = None"
  by (simp add: tget_def)

lemma tget_Cons [simp]: "tget ((k, v) # t) k' = (if k' = k then Some v else tget t k')"
  by (simp add: tget_def)

lemma tget_in_set: "table_ok t \<Longrightarrow> tget t k = Some v \<longleftrightarrow> (k, v) \<in> set t"
  by (simp add: tget_def table_ok_def)

lemma tget_SomeD: "tget t k = Some v \<Longrightarrow> (k, v) \<in> set t"
  by (auto simp: tget_def dest: map_of_SomeD)

interpretation tbl: keyed_table tget tput tdel table_ok
  by unfold_locales simp_all

lemma table_ok_filter [simp]: "table_ok t \<Longrightarrow> table_ok (filter P t)"
  unfolding table_ok_def by (induction t) auto

lemma tget_filter_key:
  "tget (filter (\<lambda>(k, v). P k) t) k = (if P k then tget t k else None)"
  unfolding tget_def by (induction t) auto

section \<open>Keys and the third-party crates\<close>

text \<open>
  An iroh \<open>PublicKey\<close> is 32 bytes; it is both the endpoint id of a node and the id of a
  publisher, and it is ordered by its bytes. A Blake3 hash is 32 bytes too.
\<close>

datatype public_key = PublicKey (key_word: bytes32)

definition key_bytes :: "public_key \<Rightarrow> byte list" where
  "key_bytes p = bytes_of 32 (key_word p)"

instantiation public_key :: linorder
begin

definition less_eq_public_key :: "public_key \<Rightarrow> public_key \<Rightarrow> bool" where
  "p \<le> q \<longleftrightarrow> key_word p \<le> key_word q"

definition less_public_key :: "public_key \<Rightarrow> public_key \<Rightarrow> bool" where
  "p < q \<longleftrightarrow> key_word p < key_word q"

instance
  by standard (auto simp: less_eq_public_key_def less_public_key_def public_key.expand)

end

text \<open>
  The functions of third-party crates, a parameter of every definition that uses them:
  the \<open>hex\<close> and \<open>bs58\<close> codecs, the text forms of an iroh key, Ed25519 signatures, SHA-256, and
  the scheme of a parsed relay URL. What the program relies on is stated by the predicates
  below, which the theorems that need them take as hypotheses.
\<close>

record crates =
  hex_encode :: "byte list \<Rightarrow> string"
  hex_decode :: "string \<Rightarrow> byte list option"
  b58_encode :: "byte list \<Rightarrow> string"
  b58_decode :: "string \<Rightarrow> byte list option"
  pk_display :: "public_key \<Rightarrow> string"
  pk_from_str :: "string \<Rightarrow> public_key option"
  pk_from_bytes :: "byte list \<Rightarrow> public_key option"
  pk_verify :: "public_key \<Rightarrow> byte list \<Rightarrow> bytes64 \<Rightarrow> bool"
  sk_public :: "bytes32 \<Rightarrow> public_key"
  sk_sign :: "bytes32 \<Rightarrow> byte list \<Rightarrow> bytes64"
  sha256 :: "byte list \<Rightarrow> byte list"
  url_scheme :: "string \<Rightarrow> string option"

definition hex_laws :: "'z crates_scheme \<Rightarrow> bool" where
  "hex_laws K \<longleftrightarrow> (\<forall>bs. hex_decode K (hex_encode K bs) = Some bs
     \<and> length (hex_encode K bs) = 2 * length bs \<and> list_all is_lhex (hex_encode K bs))"

definition b58_laws :: "'z crates_scheme \<Rightarrow> bool" where
  "b58_laws K \<longleftrightarrow> (\<forall>bs. b58_decode K (b58_encode K bs) = Some bs
     \<and> list_all is_alnum (b58_encode K bs))"

definition key_laws :: "'z crates_scheme \<Rightarrow> bool" where
  "key_laws K \<longleftrightarrow> (\<forall>p. pk_from_str K (pk_display K p) = Some p
     \<and> length (pk_display K p) = 64 \<and> list_all is_lhex (pk_display K p)
     \<and> pk_from_bytes K (key_bytes p) = Some p)"

definition sign_laws :: "'z crates_scheme \<Rightarrow> bool" where
  "sign_laws K \<longleftrightarrow> (\<forall>sk m. pk_verify K (sk_public K sk) m (sk_sign K sk m))"

lemma hex_lawsD:
  assumes "hex_laws K"
  shows "hex_decode K (hex_encode K bs) = Some bs"
    and "length (hex_encode K bs) = 2 * length bs"
    and "list_all is_lhex (hex_encode K bs)"
  using assms by (auto simp: hex_laws_def)

lemma key_lawsD:
  assumes "key_laws K"
  shows "pk_from_str K (pk_display K p) = Some p"
    and "length (pk_display K p) = 64"
    and "list_all is_lhex (pk_display K p)"
    and "pk_from_bytes K (key_bytes p) = Some p"
  using assms by (auto simp: key_laws_def)

lemma pk_display_inject: "key_laws K \<Longrightarrow> pk_display K p = pk_display K q \<longleftrightarrow> p = q"
  by (metis key_lawsD(1) option.inject)

lemma sign_lawsD: "sign_laws K \<Longrightarrow> pk_verify K (sk_public K sk) m (sk_sign K sk m)"
  by (simp add: sign_laws_def)

section \<open>Errors\<close>

text \<open>
  One constructor per \<open>bail!\<close>, \<open>context\<close> or \<open>map_err\<close> site that a caller can observe, grouped
  by the module that raises it; the message text is left out. \<open>Io_err\<close> is an error of the file
  system or of the network.
\<close>

datatype key_err = HexText | ArrayLength | DidPrefix | DidBase58 | DidKind | PublisherText
  | BadSignature | SecretExists | SecretMissing

datatype name_err = DigestAlgorithm | DigestMalformed | NameLength | NameComponent | TagSyntax
  | ReferenceForm | EmptyRepo | NameAfterPublisher | NameAfterAlias | ReleaseVersion

datatype manifest_err = ManifestJson | IndexShape | ImageShape

datatype policy_err = ModeSyntax | ModeNumber | ModeZero | RuleForm | UnknownDomain
  | DomainMapping | PinNeedsTag | AliasSyntax | AliasTargetForm

datatype field_err = FieldForm | FieldKey | FieldTs | FieldSeed | FieldSig | FieldUnknown
  | RecordVersion | MissingKey | MissingTs | MissingSig

datatype dns_err = Field field_err | RelaySpace | RelayText | RelayScheme | RelayLong | ZoneSyntax
  | StaleRecord | PinMismatch | NoZoneRecord | DnsDisabled

datatype store_err = DigestMismatch | SizeMismatch | NoBlob | NoProviders | DownloadFailed

datatype node_err = OwnRelease | NotOwnRelease | NoTopic | NoPeerHas | UnexpectedResponse
  | PeerError | PeerSpec | RmTagAndAll | RmNeedsTag | NotLocal

datatype config_err = FieldType | FieldRange | FieldVariant | FieldMissing | FileText | NameserverPort | NameserverHost

datatype err = Key_err key_err | Name_err name_err | Manifest_err manifest_err
  | Policy_err policy_err | Dns_err dns_err | Store_err store_err | Node_err node_err | Config_err config_err
  | Io_err

type_synonym 'a result = "err + 'a"

end
