(* ===== verification/Demo_Crates.thy ===== *)
theory Demo_Crates
  imports Ocid_Prelude
begin

text \<open>
  A concrete instance of the third-party crates, on which the witnesses of the development are
  evaluated: it shows that the hypotheses \<open>hex_laws\<close>, \<open>b58_laws\<close>, \<open>key_laws\<close> and \<open>sign_laws\<close>
  can hold together. It is not a model of the crates: the signature and the digest are simple
  checksums, and the base-58 codec is played by the hexadecimal one.
\<close>

definition demo_nibble :: "nat \<Rightarrow> char" where
  "demo_nibble n = (if n < 10 then char_of (48 + n) else char_of (87 + n))"

definition demo_nibble_val :: "char \<Rightarrow> nat option" where
  "demo_nibble_val c =
     (let n = of_char c in
      if 48 \<le> n \<and> n \<le> 57 then Some (n - 48)
      else if 97 \<le> n \<and> n \<le> 102 then Some (n - 87) else None)"

fun demo_hex :: "byte list \<Rightarrow> string" where
  "demo_hex [] = []"
| "demo_hex (b # bs) = demo_nibble (unat b div 16) # demo_nibble (unat b mod 16) # demo_hex bs"

fun demo_unhex :: "string \<Rightarrow> byte list option" where
  "demo_unhex [] = Some []"
| "demo_unhex (h # l # cs) =
     (case (demo_nibble_val h, demo_nibble_val l, demo_unhex cs) of
        (Some a, Some b, Some bs) \<Rightarrow> Some (of_nat (16 * a + b) # bs)
      | _ \<Rightarrow> None)"
| "demo_unhex [c] = None"

definition demo_checksum :: "byte list \<Rightarrow> 'a::len word" where
  "demo_checksum m = foldl (\<lambda>a b. 257 * a + ucast b + 1) 0 m"

definition demo_scheme :: "string \<Rightarrow> string option" where
  "demo_scheme s = (case split_once CHR '':'' s of None \<Rightarrow> None | Some (a, b) \<Rightarrow> Some a)"

definition demo_crates :: crates where
  "demo_crates = \<lparr>
     hex_encode = demo_hex, hex_decode = demo_unhex,
     b58_encode = demo_hex, b58_decode = demo_unhex,
     pk_display = (\<lambda>p. demo_hex (key_bytes p)),
     pk_from_str = (\<lambda>s. Option.bind (demo_unhex s) (\<lambda>bs. map_option PublicKey (try_array 32 bs))),
     pk_from_bytes = (\<lambda>bs. map_option PublicKey (try_array 32 bs)),
     pk_verify = (\<lambda>p m s. s = ucast (key_word p) + demo_checksum m),
     sk_public = PublicKey,
     sk_sign = (\<lambda>sk m. ucast sk + demo_checksum m),
     sha256 = (\<lambda>m. bytes_of 32 (demo_checksum m :: bytes32)),
     url_scheme = demo_scheme \<rparr>"

lemma demo_nibble_val_nibble [simp]: "n < 16 \<Longrightarrow> demo_nibble_val (demo_nibble n) = Some n"
  by (auto simp: demo_nibble_val_def demo_nibble_def of_char_of)

lemma demo_nibble_lhex: "n < 16 \<Longrightarrow> is_lhex (demo_nibble n)"
  by (auto simp: demo_nibble_def is_lhex_def is_digit_def less_eq_char_def of_char_of)

lemma unat_byte_bound: "unat (b :: byte) < 256"
  by (rule order_less_le_trans [OF unsigned_less]) simp

lemma demo_unhex_hex [simp]: "demo_unhex (demo_hex bs) = Some bs"
proof (induction bs)
  case (Cons b bs)
  have "unat b div 16 < 16" using unat_byte_bound [of b] by simp
  with Cons show ?case by simp
qed simp

lemma demo_hex_length [simp]: "length (demo_hex bs) = 2 * length bs"
  by (induction bs) auto

lemma demo_hex_lhex: "list_all is_lhex (demo_hex bs)"
proof (induction bs)
  case (Cons b bs)
  have "unat b div 16 < 16" using unat_byte_bound [of b] by simp
  with Cons show ?case by (simp add: demo_nibble_lhex)
qed simp

lemma is_lhex_alnum: "is_lhex c \<Longrightarrow> is_alnum c"
proof -
  assume "is_lhex c"
  moreover have "CHR ''f'' \<le> CHR ''z''" by simp
  ultimately show ?thesis
    by (auto simp: is_alnum_def is_lhex_def is_lower_def intro: order_trans)
qed

lemma demo_hex_laws: "hex_laws demo_crates"
  by (simp add: hex_laws_def demo_crates_def demo_hex_lhex)

lemma demo_hex_alnum: "list_all is_alnum (demo_hex bs)"
  using demo_hex_lhex [of bs] by (auto simp: list_all_iff intro: is_lhex_alnum)

lemma demo_b58_laws: "b58_laws demo_crates"
  by (simp add: b58_laws_def demo_crates_def demo_hex_alnum)

lemma demo_key_laws: "key_laws demo_crates"
  by (simp add: key_laws_def demo_crates_def demo_hex_lhex key_bytes_def del: try_array_bytes_of)

lemma demo_sign_laws: "sign_laws demo_crates"
  by (simp add: sign_laws_def demo_crates_def)

lemmas demo_laws = demo_hex_laws demo_b58_laws demo_key_laws demo_sign_laws

end
