(* ===== verification/Identity.thy ===== *)
theory Identity
  imports Ocid_Prelude Demo_Crates
begin

text \<open>
  \<^verbatim>\<open>crates/ocid-core/src/hash.rs\<close> and \<^verbatim>\<open>identity.rs\<close>: the BLAKE3 hash type and its hexadecimal
  form, the key pair of a node and the file it is kept in, the two textual forms of a publisher
  id (hexadecimal and \<open>did:key\<close>), and signature verification. The text forms are instances of
  the interface \<open>text_codec\<close>, which later theories interpret for their own formats too.
\<close>

section \<open>Text formats that can be read back\<close>

text \<open>What a module that prints and parses a type promises: reading back what was printed gives
  the value. Two valid values with the same text are then equal, and a table may be keyed by the
  text.\<close>

locale text_codec =
  fixes enc :: "'a \<Rightarrow> string" and dec :: "string \<Rightarrow> 'e + 'a" and valid :: "'a \<Rightarrow> bool"
  assumes dec_enc: "valid x \<Longrightarrow> dec (enc x) = Inr x"
begin

lemma enc_inject: "valid x \<Longrightarrow> valid y \<Longrightarrow> enc x = enc y \<longleftrightarrow> x = y"
  by (metis dec_enc sum.inject(2))

lemma enc_inj_on: "inj_on enc (Collect valid)"
  by (auto simp: inj_on_def enc_inject)

lemma distinct_map_enc: "\<forall>x \<in> set xs. valid x \<Longrightarrow> distinct (map enc xs) \<longleftrightarrow> distinct xs"
  by (metis (mono_tags, lifting) distinct_map enc_inject inj_on_def)

lemma map_res_dec_enc: "\<forall>x \<in> set xs. valid x \<Longrightarrow> map_res dec (map enc xs) = Inr xs"
  by (induction xs) (simp_all add: dec_enc)

end

section \<open>BLAKE3 hashes\<close>

datatype blake3 = Blake3 (hash_word: bytes32)

definition hash_bytes :: "blake3 \<Rightarrow> byte list" where
  "hash_bytes h = bytes_of 32 (hash_word h)"

definition hash_to_hex :: "'z crates_scheme \<Rightarrow> blake3 \<Rightarrow> string" where
  "hash_to_hex K h = hex_encode K (hash_bytes h)"

definition hash_fmt_short :: "'z crates_scheme \<Rightarrow> blake3 \<Rightarrow> string" where
  "hash_fmt_short K h = hex_encode K (take 5 (hash_bytes h))"

definition hash_from_str :: "'z crates_scheme \<Rightarrow> string \<Rightarrow> blake3 result" where
  "hash_from_str K s =
     and_then (ok_or (hex_decode K s) (Key_err HexText)) (\<lambda>bs.
     and_then (ok_or (try_array 32 bs) (Key_err ArrayLength)) (\<lambda>a. Inr (Blake3 a)))"

lemma hash_round_trip: "hex_laws K \<Longrightarrow> hash_from_str K (hash_to_hex K h) = Inr h"
  by (simp add: hash_from_str_def hash_to_hex_def hash_bytes_def hex_lawsD
      del: try_array_bytes_of)

interpretation hash_text: text_codec "hash_to_hex K" "hash_from_str K" "\<lambda>h. hex_laws K" for K
  by unfold_locales (rule hash_round_trip)

section \<open>The identity of a node\<close>

text \<open>The secret key file: its contents and its permission bits.\<close>

record key_file =
  contents :: string
  mode_bits :: nat

definition identity_id :: "'z crates_scheme \<Rightarrow> bytes32 \<Rightarrow> public_key" where
  "identity_id K sk = sk_public K sk"

definition identity_sign :: "'z crates_scheme \<Rightarrow> bytes32 \<Rightarrow> byte list \<Rightarrow> bytes64" where
  "identity_sign K sk msg = sk_sign K sk msg"

definition identity_load :: "'z crates_scheme \<Rightarrow> key_file option \<Rightarrow> bytes32 result" where
  "identity_load K f =
     and_then (ok_or f (Key_err SecretMissing)) (\<lambda>kf.
     and_then (ok_or (hex_decode K (trim (contents kf))) (Key_err HexText)) (\<lambda>bs.
     ok_or (try_array 32 bs) (Key_err ArrayLength)))"

definition identity_save ::
  "'z crates_scheme \<Rightarrow> bytes32 \<Rightarrow> key_file option \<Rightarrow> key_file option \<times> unit result" where
  "identity_save K sk f =
     (case f of
        Some kf \<Rightarrow> (f, Inl (Key_err SecretExists))
      | None \<Rightarrow> (Some \<lparr>contents = hex_encode K (bytes_of 32 sk), mode_bits = 384\<rparr>, Inr ()))"

lemma is_lhex_not_space: "is_lhex c \<Longrightarrow> \<not> is_space c"
  by (auto simp: is_lhex_def is_digit_def is_space_def)

lemma lhex_no_space: "list_all is_lhex s \<Longrightarrow> list_all (\<lambda>c. \<not> is_space c) s"
  by (auto simp: list_all_iff is_lhex_not_space)

lemma trim_lhex: "list_all is_lhex s \<Longrightarrow> trim s = s"
  by (simp add: trim_no_space lhex_no_space)

text \<open>A freshly saved secret key is loaded back unchanged and its file is readable by the owner
  only; saving never overwrites an existing key.\<close>

lemma identity_save_load:
  "hex_laws K \<Longrightarrow> identity_save K sk None = (f, r) \<Longrightarrow>
     r = Inr () \<and> identity_load K f = Inr sk \<and> map_option mode_bits f = Some 384"
  by (auto simp: identity_save_def identity_load_def hex_lawsD trim_lhex
      simp del: try_array_bytes_of)

lemma identity_save_existing:
  "identity_save K sk (Some kf) = (Some kf, Inl (Key_err SecretExists))"
  by (simp add: identity_save_def)

section \<open>Textual forms of a publisher id\<close>

definition did_key :: "'z crates_scheme \<Rightarrow> public_key \<Rightarrow> string" where
  "did_key K pk = ''did:key:z'' @ b58_encode K ([0xed, 0x01] @ key_bytes pk)"

definition parse_publisher :: "'z crates_scheme \<Rightarrow> string \<Rightarrow> public_key result" where
  "parse_publisher K s0 =
     (let s = trim s0 in
      case strip_prefix ''did:key:'' s of
        Some rest \<Rightarrow>
          and_then (ok_or (strip_prefix ''z'' rest) (Key_err DidPrefix)) (\<lambda>b58.
          and_then (ok_or (b58_decode K b58) (Key_err DidBase58)) (\<lambda>bytes.
          and_then (ensure (length bytes = 34 \<and> bytes ! 0 = 0xed \<and> bytes ! 1 = 0x01)
                      (Key_err DidKind)) (\<lambda>_.
          ok_or (pk_from_bytes K (drop 2 bytes)) (Key_err PublisherText))))
      | None \<Rightarrow> ok_or (pk_from_str K s) (Key_err PublisherText))"

definition is_hex_publisher :: "string \<Rightarrow> bool" where
  "is_hex_publisher s \<longleftrightarrow> length s = 64 \<and> list_all is_lhex s"

definition verify_signature ::
  "'z crates_scheme \<Rightarrow> public_key \<Rightarrow> byte list \<Rightarrow> bytes64 \<Rightarrow> unit result" where
  "verify_signature K pk msg sig = ensure (pk_verify K pk msg sig) (Key_err BadSignature)"

lemma is_hex_publisher_display: "key_laws K \<Longrightarrow> is_hex_publisher (pk_display K p)"
  by (simp add: is_hex_publisher_def key_lawsD)

lemma lhex_no_did: "list_all is_lhex s \<Longrightarrow> strip_prefix ''did:key:'' s = None"
  by (auto simp: strip_prefix_None_iff prefix_def is_lhex_def is_digit_def)

lemma parse_publisher_display:
  "key_laws K \<Longrightarrow> parse_publisher K (pk_display K p) = Inr p"
  by (simp add: parse_publisher_def key_lawsD trim_lhex lhex_no_did)

lemma is_alnum_not_space: "is_alnum c \<Longrightarrow> \<not> is_space c"
  by (auto simp: is_alnum_def is_digit_def is_lower_def is_upper_def is_space_def)

lemma did_key_no_space:
  assumes "b58_laws K"
  shows "list_all (\<lambda>c. \<not> is_space c) (did_key K p)"
proof -
  have "list_all is_alnum (b58_encode K bs)" for bs
    using assms by (simp add: b58_laws_def)
  then have "list_all (\<lambda>c. \<not> is_space c) (b58_encode K bs)" for bs
    by (auto simp: list_all_iff is_alnum_not_space)
  then show ?thesis
    by (simp add: did_key_def is_space_def)
qed

lemma parse_publisher_did_key:
  assumes "b58_laws K" and "key_laws K"
  shows "parse_publisher K (did_key K p) = Inr p"
proof -
  have "strip_prefix ''did:key:'' (did_key K p)
      = Some (''z'' @ b58_encode K ([0xed, 0x01] @ key_bytes p))"
    by (simp add: strip_prefix_Some_iff did_key_def)
  moreover have "length (key_bytes p) = 32"
    by (simp add: key_bytes_def)
  moreover have "trim (did_key K p) = did_key K p"
    by (rule trim_no_space) (rule did_key_no_space [OF assms(1)])
  moreover have "strip_prefix ''z'' (''z'' @ s) = Some s" for s
    by (rule strip_prefix_append)
  ultimately show ?thesis
    using assms by (simp add: parse_publisher_def b58_laws_def key_lawsD)
qed

interpretation did_text: text_codec "did_key K" "parse_publisher K"
    "\<lambda>p. b58_laws K \<and> key_laws K" for K
  by unfold_locales (simp add: parse_publisher_did_key)

interpretation key_text: text_codec "pk_display K" "parse_publisher K" "\<lambda>p. key_laws K" for K
  by unfold_locales (simp add: parse_publisher_display)

section \<open>Properties\<close>

text \<open>A publisher id printed in either of its textual forms, the 64-digit hexadecimal form of
  registry paths or the \<open>did:key\<close> form of the command line, is parsed back to the same key.\<close>

theorem publisher_text_round_trip:
  assumes "b58_laws K" and "key_laws K"
  shows "parse_publisher K (did_key K p) = Inr p
    \<and> parse_publisher K (pk_display K p) = Inr p
    \<and> is_hex_publisher (pk_display K p) \<and> \<not> is_hex_publisher (did_key K p)"
proof -
  have "\<not> is_hex_publisher (did_key K p)"
    by (simp add: is_hex_publisher_def did_key_def is_lhex_def is_digit_def)
  with assms show ?thesis
    by (simp add: parse_publisher_did_key parse_publisher_display is_hex_publisher_display)
qed

theorem publisher_text_round_trip_witness:
  "parse_publisher demo_crates (did_key demo_crates (PublicKey 7)) = Inr (PublicKey 7)"
  using publisher_text_round_trip [OF demo_b58_laws demo_key_laws, of "PublicKey 7"] by simp

end
