(* ===== verification/Oci.thy ===== *)
theory Oci
  imports Identity
begin

text \<open>
  \<^verbatim>\<open>crates/ocid-core/src/oci.rs\<close> without the manifest types (theory \<open>Manifest\<close>) and without the
  resolution of a repository path through the policy (theory \<open>Resolve\<close>): content digests, the
  syntax of image names and tags, the split of \<open>name[:tag]\<close>, registry locations, and fully
  explicit image references with their printed form.
\<close>

section \<open>Digests\<close>

datatype digest = Digest (digest_str: string)

instantiation digest :: linorder
begin

definition less_eq_digest :: "digest \<Rightarrow> digest \<Rightarrow> bool" where
  "d \<le> e \<longleftrightarrow> digest_str d \<le> digest_str e"

definition less_digest :: "digest \<Rightarrow> digest \<Rightarrow> bool" where
  "d < e \<longleftrightarrow> digest_str d < digest_str e"

instance
  by standard (auto simp: less_eq_digest_def less_digest_def digest.expand)

end

definition digest_from_bytes :: "'z crates_scheme \<Rightarrow> byte list \<Rightarrow> digest" where
  "digest_from_bytes K bs = Digest (''sha256:'' @ hex_encode K bs)"

definition digest_sha256 :: "'z crates_scheme \<Rightarrow> byte list \<Rightarrow> digest" where
  "digest_sha256 K d = digest_from_bytes K (sha256 K d)"

definition digest_hex :: "digest \<Rightarrow> string" where
  "digest_hex d = drop 7 (digest_str d)"

definition digest_from_str :: "string \<Rightarrow> digest result" where
  "digest_from_str s =
     and_then (ok_or (strip_prefix ''sha256:'' s) (Name_err DigestAlgorithm)) (\<lambda>hex.
     and_then (ensure (length hex = 64 \<and> list_all is_lhex hex) (Name_err DigestMalformed)) (\<lambda>_.
     Inr (Digest s)))"

lemma digest_from_str_Inr_iff:
  "digest_from_str s = Inr d \<longleftrightarrow> d = Digest s \<and> s = ''sha256:'' @ digest_hex d
     \<and> length (digest_hex d) = 64 \<and> list_all is_lhex (digest_hex d)"
  by (auto simp: digest_from_str_def digest_hex_def strip_prefix_Some_iff)

definition digest_ok :: "digest \<Rightarrow> bool" where
  "digest_ok d \<longleftrightarrow> digest_from_str (digest_str d) = Inr d"

lemma digest_ok_hex:
  "digest_ok d \<Longrightarrow> digest_str d = ''sha256:'' @ digest_hex d \<and> length (digest_hex d) = 64
     \<and> list_all is_lhex (digest_hex d)"
  by (simp add: digest_ok_def digest_from_str_Inr_iff)

lemma digest_hex_inject: "digest_ok d \<Longrightarrow> digest_ok e \<Longrightarrow> digest_hex d = digest_hex e \<longleftrightarrow> d = e"
  by (metis digest.expand digest_ok_hex)

interpretation digest_text: text_codec digest_str digest_from_str digest_ok
  by unfold_locales (simp add: digest_ok_def)

section \<open>Names, tags and their syntax\<close>

definition name_char :: "char \<Rightarrow> bool" where
  "name_char c \<longleftrightarrow> is_lower c \<or> is_digit c \<or> c = CHR ''.'' \<or> c = CHR ''_'' \<or> c = CHR ''-''"

definition name_component_ok :: "string \<Rightarrow> bool" where
  "name_component_ok part \<longleftrightarrow> part \<noteq> [] \<and> list_all name_char part
     \<and> (case part of [] \<Rightarrow> False | c # _ \<Rightarrow> is_alnum c) \<and> part \<noteq> ''.'' \<and> part \<noteq> ''..''"

definition validate_name :: "string \<Rightarrow> unit result" where
  "validate_name name =
     and_then (ensure (\<not> (name = [] \<or> length name > 255)) (Name_err NameLength)) (\<lambda>_.
     ensure (list_all name_component_ok (split_on CHR ''/'' name)) (Name_err NameComponent))"

definition tag_char :: "char \<Rightarrow> bool" where
  "tag_char c \<longleftrightarrow> is_alnum c \<or> c = CHR ''.'' \<or> c = CHR ''_'' \<or> c = CHR ''-''"

definition validate_tag :: "string \<Rightarrow> unit result" where
  "validate_tag tag =
     ensure (tag \<noteq> [] \<and> length tag \<le> 128 \<and> list_all tag_char tag
        \<and> (case tag of [] \<Rightarrow> False | c # _ \<Rightarrow> is_alnum c \<or> c = CHR ''_'')) (Name_err TagSyntax)"

text \<open>The split after the last slash: everything up to and with it, and the rest.\<close>

definition last_segment :: "string \<Rightarrow> string \<times> string" where
  "last_segment s = (case rsplit_once CHR ''/'' s of None \<Rightarrow> ([], s) | Some (a, b) \<Rightarrow> (a @ ''/'', b))"

definition split_tag :: "string \<Rightarrow> (string \<times> string option) result" where
  "split_tag s =
     (let (dir, base) = last_segment s;
          (name, tag) = (case rsplit_once CHR '':'' base of
              Some (n, t) \<Rightarrow> (dir @ n, Some t)
            | None \<Rightarrow> (s, None))
      in and_then (validate_name name) (\<lambda>_.
         and_then (case tag of None \<Rightarrow> Inr () | Some t \<Rightarrow> validate_tag t) (\<lambda>_.
         Inr (name, tag))))"

definition name_ok :: "string \<Rightarrow> bool" where
  "name_ok name \<longleftrightarrow> validate_name name = Inr ()"

definition tag_ok :: "string \<Rightarrow> bool" where
  "tag_ok tag \<longleftrightarrow> validate_tag tag = Inr ()"

lemma validate_name_iff [simp]: "validate_name n = Inr u \<longleftrightarrow> name_ok n"
  by (simp add: name_ok_def)

lemma validate_tag_iff [simp]: "validate_tag t = Inr u \<longleftrightarrow> tag_ok t"
  by (simp add: tag_ok_def)

lemma name_ok_iff:
  "name_ok n \<longleftrightarrow> n \<noteq> [] \<and> length n \<le> 255 \<and> list_all name_component_ok (split_on CHR ''/'' n)"
  by (auto simp: name_ok_def validate_name_def)

lemma tag_ok_iff:
  "tag_ok t \<longleftrightarrow> t \<noteq> [] \<and> length t \<le> 128 \<and> list_all tag_char t \<and> (is_alnum (hd t) \<or> hd t = CHR ''_'')"
  by (cases t) (simp_all add: tag_ok_def validate_tag_def)

lemma name_char_plain:
  "name_char c \<Longrightarrow> c \<noteq> CHR '':'' \<and> c \<noteq> CHR ''/'' \<and> \<not> is_space c"
  by (auto simp: name_char_def is_lower_def is_digit_def is_space_def)

lemma tag_char_plain:
  "tag_char c \<Longrightarrow> c \<noteq> CHR '':'' \<and> c \<noteq> CHR ''/'' \<and> \<not> is_space c"
  by (auto simp: tag_char_def is_alnum_def is_lower_def is_upper_def is_digit_def is_space_def)

lemma split_on_chars: "c \<in> set s \<Longrightarrow> c = d \<or> (\<exists>x \<in> set (split_on d s). c \<in> set x)"
  by (induction s) (auto split: list.splits)

lemma name_ok_chars: "name_ok n \<Longrightarrow> c \<in> set n \<Longrightarrow> c = CHR ''/'' \<or> name_char c"
  using split_on_chars [of c n "CHR ''/''"]
  by (auto simp: name_ok_iff list_all_iff name_component_ok_def)

lemma name_ok_no_colon: "name_ok n \<Longrightarrow> CHR '':'' \<notin> set n"
  using name_ok_chars name_char_plain by fastforce

lemma name_ok_no_space: "name_ok n \<Longrightarrow> list_all (\<lambda>c. \<not> is_space c) n"
  using name_ok_chars name_char_plain by (fastforce simp: list_all_iff is_space_def)

lemma tag_ok_plain:
  "tag_ok t \<Longrightarrow> CHR '':'' \<notin> set t \<and> CHR ''/'' \<notin> set t \<and> list_all (\<lambda>c. \<not> is_space c) t"
  using tag_char_plain by (fastforce simp: tag_ok_iff list_all_iff)

lemma tag_ok_last: "tag_ok t \<Longrightarrow> last t \<noteq> CHR ''/'' \<and> t \<noteq> []"
  by (metis last_in_set tag_ok_iff tag_ok_plain)

lemma split_on_last: "last (split_on c (s @ [c])) = []"
  using split_on_append_sep [of c s "[]"] by simp

lemma split_on_snoc: "split_on c (s @ [c]) = split_on c s @ [[]]"
  using split_on_append_sep [of c s "[]"] by simp

lemma name_ok_ends:
  assumes "name_ok n"
  shows "hd n \<noteq> CHR ''/''" and "last n \<noteq> CHR ''/''" and "n \<noteq> []"
proof -
  show ne: "n \<noteq> []" using assms by (simp add: name_ok_iff)
  have empty: "[] \<notin> set (split_on CHR ''/'' n)"
    using assms by (auto simp: name_ok_iff list_all_iff name_component_ok_def)
  show "hd n \<noteq> CHR ''/''"
    using empty ne by (cases n) auto
  show "last n \<noteq> CHR ''/''"
  proof
    assume l: "last n = CHR ''/''"
    have "n = butlast n @ [CHR ''/'']"
      using ne l by (metis append_butlast_last_id)
    then have "[] \<in> set (split_on CHR ''/'' n)"
      by (metis in_set_conv_decomp split_on_snoc)
    with empty show False ..
  qed
qed

section \<open>Splitting a name from its tag\<close>

definition name_and_tag :: "string \<Rightarrow> string option \<Rightarrow> string" where
  "name_and_tag name tag = name @ (case tag of None \<Rightarrow> [] | Some t \<Rightarrow> '':'' @ t)"

definition tag_opt_ok :: "string option \<Rightarrow> bool" where
  "tag_opt_ok tag \<longleftrightarrow> (case tag of None \<Rightarrow> True | Some t \<Rightarrow> tag_ok t)"

lemma tag_opt_ok_simps [simp]: "tag_opt_ok None" "tag_opt_ok (Some t) \<longleftrightarrow> tag_ok t"
  by (simp_all add: tag_opt_ok_def)

lemma last_segment_append: "last_segment s = (d, b) \<Longrightarrow> s = d @ b"
  by (auto simp: last_segment_def rsplit_once_Some_iff split: option.splits)

lemma last_segment_suffix:
  assumes "last_segment s = (d, b)" and "CHR ''/'' \<notin> set c"
  shows "last_segment (s @ c) = (d, b @ c)"
proof (cases "rsplit_once CHR ''/'' s")
  case None
  then have "rsplit_once CHR ''/'' (s @ c) = None"
    using assms(2) by (simp add: rsplit_once_None_iff)
  with None assms(1) show ?thesis by (simp add: last_segment_def)
next
  case (Some ab)
  then obtain a' b' where ab: "rsplit_once CHR ''/'' s = Some (a', b')" by (cases ab) auto
  then have "rsplit_once CHR ''/'' (s @ c) = Some (a', b' @ c)"
    using assms(2) by (simp add: rsplit_once_Some_iff)
  with ab assms(1) show ?thesis by (simp add: last_segment_def)
qed

lemma split_tag_sound:
  assumes "split_tag s = Inr (name, tag)"
  shows "name_ok name \<and> tag_opt_ok tag \<and> s = name_and_tag name tag"
proof -
  obtain d b where db: "last_segment s = (d, b)" by (cases "last_segment s")
  show ?thesis
  proof (cases "rsplit_once CHR '':'' b")
    case None
    then have "split_tag s = and_then (validate_name s) (\<lambda>_. Inr (s, None))"
      by (simp add: split_tag_def db)
    with assms show ?thesis by (auto simp: name_and_tag_def)
  next
    case (Some nt)
    then obtain n t where nt: "rsplit_once CHR '':'' b = Some (n, t)" by (cases nt) auto
    then have "split_tag s = and_then (validate_name (d @ n)) (\<lambda>_. and_then (validate_tag t)
        (\<lambda>_. Inr (d @ n, Some t)))"
      by (simp add: split_tag_def db)
    moreover have "s = d @ n @ CHR '':'' # t"
      using last_segment_append [OF db] nt by (simp add: rsplit_once_Some_iff)
    ultimately show ?thesis using assms by (auto simp: name_and_tag_def)
  qed
qed

lemma split_tag_complete:
  assumes n: "name_ok name" and t: "tag_opt_ok tag"
  shows "split_tag (name_and_tag name tag) = Inr (name, tag)"
proof -
  let ?suffix = "case tag of None \<Rightarrow> [] | Some t \<Rightarrow> '':'' @ t"
  obtain d b where db: "last_segment name = (d, b)" by (cases "last_segment name")
  have "CHR ''/'' \<notin> set ?suffix"
    using t tag_ok_plain by (auto split: option.splits)
  from last_segment_suffix [OF db this]
  have seg: "last_segment (name_and_tag name tag) = (d, b @ ?suffix)"
    by (simp add: name_and_tag_def)
  have name: "name = d @ b" by (rule last_segment_append [OF db])
  have colon: "CHR '':'' \<notin> set b"
    using name_ok_no_colon [OF n] name by simp
  show ?thesis
  proof (cases tag)
    case None
    have "rsplit_once CHR '':'' b = None" using colon by (simp add: rsplit_once_None_iff)
    with None seg n show ?thesis by (simp add: split_tag_def name_and_tag_def)
  next
    case (Some tg)
    have "rsplit_once CHR '':'' (b @ CHR '':'' # tg) = Some (b, tg)"
      using t Some tag_ok_plain by (simp add: rsplit_once_Some_iff)
    with Some seg n t name show ?thesis
      by (simp add: split_tag_def)
  qed
qed

lemma split_tag_iff:
  "split_tag s = Inr (name, tag) \<longleftrightarrow>
     name_ok name \<and> tag_opt_ok tag \<and> s = name_and_tag name tag"
  using split_tag_sound split_tag_complete by blast

section \<open>Image references\<close>

definition is_location :: "string \<Rightarrow> bool" where
  "is_location first \<longleftrightarrow> CHR '':'' \<in> set first \<or> first = ''localhost''
     \<or> (list_all (\<lambda>c. is_digit c \<or> c = CHR ''.'') first \<and> CHR ''.'' \<in> set first)"

definition strip_registry_location :: "string \<Rightarrow> string" where
  "strip_registry_location s0 =
     (let s1 = trim s0;
          s = (case strip_prefix ''https://'' s1 of
                 Some r \<Rightarrow> r
               | None \<Rightarrow> (case strip_prefix ''http://'' s1 of Some r \<Rightarrow> r | None \<Rightarrow> s1))
      in case split_once CHR ''/'' s of
           None \<Rightarrow> s
         | Some (first, rest) \<Rightarrow>
             if rest = [] then s else if is_location first then rest else s)"

record image_ref =
  ref_publisher :: public_key
  ref_name :: string
  ref_tag :: "string option"

definition show_image_ref :: "'z crates_scheme \<Rightarrow> image_ref \<Rightarrow> string" where
  "show_image_ref K r =
     pk_display K (ref_publisher r) @ ''/'' @ ref_name r
       @ (case ref_tag r of None \<Rightarrow> [] | Some t \<Rightarrow> '':'' @ t)"

definition tag_or_latest :: "image_ref \<Rightarrow> string" where
  "tag_or_latest r = (case ref_tag r of None \<Rightarrow> ''latest'' | Some t \<Rightarrow> t)"

definition parse_explicit :: "'z crates_scheme \<Rightarrow> string \<Rightarrow> image_ref result" where
  "parse_explicit K s0 =
     (let s = trim_end_by (\<lambda>c. c = CHR ''/'') (trim s0) in
      and_then (ok_or (split_once CHR ''/'' s) (Name_err ReferenceForm)) (\<lambda>(pubs, rest).
      and_then (parse_publisher K pubs) (\<lambda>publisher.
      and_then (split_tag rest) (\<lambda>(name, tag).
      Inr \<lparr>ref_publisher = publisher, ref_name = name, ref_tag = tag\<rparr>))))"

definition image_ref_ok :: "image_ref \<Rightarrow> bool" where
  "image_ref_ok r \<longleftrightarrow> name_ok (ref_name r) \<and> tag_opt_ok (ref_tag r)"

lemma show_image_ref_alt:
  "show_image_ref K r = pk_display K (ref_publisher r) @ ''/'' @ name_and_tag (ref_name r) (ref_tag r)"
  by (simp add: show_image_ref_def name_and_tag_def)

lemma name_and_tag_plain:
  assumes "name_ok n" and "tag_opt_ok t"
  shows "list_all (\<lambda>c. \<not> is_space c) (name_and_tag n t)"
    and "last (name_and_tag n t) \<noteq> CHR ''/''" and "name_and_tag n t \<noteq> []"
proof -
  show "list_all (\<lambda>c. \<not> is_space c) (name_and_tag n t)"
    using assms name_ok_no_space tag_ok_plain
    by (auto simp: name_and_tag_def is_space_def split: option.splits)
  show "name_and_tag n t \<noteq> []"
    using name_ok_ends(3) [OF assms(1)] by (simp add: name_and_tag_def)
  show "last (name_and_tag n t) \<noteq> CHR ''/''"
    using name_ok_ends(2,3) [OF assms(1)] assms(2) tag_ok_last
    by (auto simp: name_and_tag_def last_append split: option.splits)
qed

lemma parse_explicit_text:
  assumes p: "parse_publisher K pubs = Inr p" and plain: "list_all (\<lambda>c. \<not> is_space c) pubs"
    and slash: "CHR ''/'' \<notin> set pubs" and n: "name_ok n" and t: "tag_opt_ok t"
  shows "parse_explicit K (pubs @ ''/'' @ name_and_tag n t)
    = Inr \<lparr>ref_publisher = p, ref_name = n, ref_tag = t\<rparr>"
proof -
  let ?s = "pubs @ ''/'' @ name_and_tag n t"
  have "trim ?s = ?s"
    using plain name_and_tag_plain(1) [OF n t] by (intro trim_no_space) (simp add: is_space_def)
  moreover have "trim_end_by (\<lambda>c. c = CHR ''/'') ?s = ?s"
    using name_and_tag_plain(2,3) [OF n t] by (intro trim_end_by_id) simp
  moreover have "split_once CHR ''/'' ?s = Some (pubs, name_and_tag n t)"
    using slash by (simp add: split_once_Some_iff)
  ultimately show ?thesis
    using p n t by (simp add: parse_explicit_def split_tag_complete)
qed

lemma lhex_no_slash: "list_all is_lhex s \<Longrightarrow> CHR ''/'' \<notin> set s"
  by (auto simp: list_all_iff is_lhex_def is_digit_def)

lemma parse_explicit_show:
  assumes "key_laws K" and "image_ref_ok r"
  shows "parse_explicit K (show_image_ref K r) = Inr r"
  using parse_explicit_text [OF parse_publisher_display [OF assms(1)], of "ref_publisher r"
      "ref_name r" "ref_tag r"] assms
  by (simp add: show_image_ref_alt image_ref_ok_def key_lawsD lhex_no_space lhex_no_slash)

interpretation ref_text: text_codec "show_image_ref K" "parse_explicit K"
    "\<lambda>r. key_laws K \<and> image_ref_ok r" for K
  by unfold_locales (simp add: parse_explicit_show)

section \<open>Properties\<close>

text \<open>Splitting \<open>name[:tag]\<close> succeeds exactly on the texts made of a valid repository name and,
  if there is a colon after the last slash, a valid tag; the parts put together give the text
  back, so nothing of the input is lost or misread.\<close>

theorem split_tag_exact:
  "split_tag s = Inr (name, tag) \<longleftrightarrow>
     validate_name name = Inr ()
     \<and> (case tag of None \<Rightarrow> s = name
        | Some t \<Rightarrow> validate_tag t = Inr () \<and> s = name @ '':'' @ t)"
  by (auto simp: split_tag_iff name_and_tag_def split: option.splits)

text \<open>A fully resolved image reference, printed with the hexadecimal publisher id or written
  with the \<open>did:key\<close> form of it, is parsed back to the same publisher, name and tag.\<close>

theorem image_ref_round_trip:
  assumes "key_laws K" and "b58_laws K"
    and "validate_name (ref_name r) = Inr ()"
    and "\<forall>t. ref_tag r = Some t \<longrightarrow> validate_tag t = Inr ()"
  shows "parse_explicit K (show_image_ref K r) = Inr r
    \<and> parse_explicit K (did_key K (ref_publisher r) @ ''/'' @
         name_and_tag (ref_name r) (ref_tag r)) = Inr r"
proof -
  have ok: "image_ref_ok r"
    using assms(3,4) by (simp add: image_ref_ok_def tag_opt_ok_def split: option.splits)
  have "list_all is_alnum (b58_encode K bs)" for bs
    using assms(2) by (simp add: b58_laws_def)
  moreover have "\<not> is_alnum CHR ''/''"
    by (simp add: char_class_defs)
  ultimately have "CHR ''/'' \<notin> set (b58_encode K bs)" for bs
    by (metis list_all_iff)
  then have "CHR ''/'' \<notin> set (did_key K (ref_publisher r))"
    by (simp add: did_key_def)
  then have "parse_explicit K (did_key K (ref_publisher r) @ ''/'' @
         name_and_tag (ref_name r) (ref_tag r)) = Inr r"
    using parse_explicit_text [OF parse_publisher_did_key [OF assms(2,1)]
        did_key_no_space [OF assms(2)]] ok
    by (simp add: image_ref_ok_def)
  with ok assms(1) show ?thesis
    by (simp add: parse_explicit_show)
qed

theorem image_ref_round_trip_witness:
  "parse_explicit demo_crates (show_image_ref demo_crates
      \<lparr>ref_publisher = PublicKey 5, ref_name = ''team/app'', ref_tag = Some ''1.0''\<rparr>)
    = Inr \<lparr>ref_publisher = PublicKey 5, ref_name = ''team/app'', ref_tag = Some ''1.0''\<rparr>"
proof -
  let ?r = "\<lparr>ref_publisher = PublicKey 5, ref_name = ''team/app'', ref_tag = Some ''1.0''\<rparr>"
  have "validate_name (ref_name ?r) = Inr ()"
    by (simp add: name_ok_iff name_component_ok_def name_char_def char_class_defs)
  moreover have "\<forall>t. ref_tag ?r = Some t \<longrightarrow> validate_tag t = Inr ()"
    by (simp add: tag_ok_iff tag_char_def char_class_defs)
  ultimately show ?thesis
    using image_ref_round_trip [OF demo_key_laws demo_b58_laws, of ?r] by simp
qed

end
