(* ===== verification/Dns.thy ===== *)
theory Dns
  imports Oci
begin

text \<open>
  \<^verbatim>\<open>crates/ocid-core/src/dns.rs\<close>: the signed \<open>_ocid\<close> TXT record that binds a DNS zone to a
  publisher key, its text form and its parser, the payload its signature covers, the split of a
  long record into DNS character-strings, the store of pinned keys (trust on first use), and the
  validation of a record against the pins. The clock is a parameter \<open>now\<close> in Unix seconds.
\<close>

section \<open>Zones and relay hints\<close>

definition zone_label_ok :: "string \<Rightarrow> bool" where
  "zone_label_ok label \<longleftrightarrow> \<not> (label = [] \<or> length label > 63
     \<or> \<not> list_all (\<lambda>c. is_alnum c \<or> c = CHR ''-'') label
     \<or> (case label of [] \<Rightarrow> False | c # _ \<Rightarrow> c = CHR ''-'')
     \<or> (case rev label of [] \<Rightarrow> False | c # _ \<Rightarrow> c = CHR ''-'')
     \<or> list_all is_digit label)"

definition validate_zone :: "string \<Rightarrow> unit result" where
  "validate_zone zone =
     and_then (ensure (\<not> (length zone > 253 \<or> CHR ''.'' \<notin> set zone)) (Dns_err ZoneSyntax)) (\<lambda>_.
     ensure (list_all zone_label_ok (split_on CHR ''.'' zone)) (Dns_err ZoneSyntax))"

definition is_domain_name :: "string \<Rightarrow> bool" where
  "is_domain_name s \<longleftrightarrow> is_ok (validate_zone s)"

definition txt_string_max :: nat where
  "txt_string_max = 255"

definition validate_relay :: "'z crates_scheme \<Rightarrow> string \<Rightarrow> string result" where
  "validate_relay K relay =
     and_then (ensure (\<not> list_ex is_space relay) (Dns_err RelaySpace)) (\<lambda>_.
     and_then (ok_or (url_scheme K relay) (Dns_err RelayText)) (\<lambda>scheme.
     and_then (ensure (scheme = ''http'' \<or> scheme = ''https'') (Dns_err RelayScheme)) (\<lambda>_.
     and_then (ensure (\<not> length relay + length ''relay='' > txt_string_max) (Dns_err RelayLong)) (\<lambda>_.
     Inr relay))))"

section \<open>Records\<close>

record dns_record =
  rec_key :: public_key
  rec_ts :: u64
  rec_relay :: "string option"
  rec_seed :: "public_key option"
  rec_sig :: bytes64

definition opt_text :: "'a option \<Rightarrow> ('a \<Rightarrow> string) \<Rightarrow> string" where
  "opt_text m f = (case m of None \<Rightarrow> [] | Some x \<Rightarrow> f x)"

definition canonical_payload ::
  "'z crates_scheme \<Rightarrow> string \<Rightarrow> public_key \<Rightarrow> u64 \<Rightarrow> string option \<Rightarrow> public_key option \<Rightarrow> string" where
  "canonical_payload K zone key ts relay seed =
     ''ocid1 '' @ zone @ '' '' @ pk_display K key @ '' '' @ show_nat (unat ts)
       @ opt_text relay (\<lambda>r. '' '' @ r) @ opt_text seed (\<lambda>p. '' '' @ pk_display K p)"

definition sign_full ::
  "'z crates_scheme \<Rightarrow> string \<Rightarrow> bytes32 \<Rightarrow> u64 \<Rightarrow> string option \<Rightarrow> public_key option
     \<Rightarrow> dns_record result" where
  "sign_full K zone sk ts relay seed =
     and_then (validate_zone zone) (\<lambda>_.
     and_then (case relay of None \<Rightarrow> Inr None
               | Some r \<Rightarrow> and_then (validate_relay K r) (\<lambda>r'. Inr (Some r'))) (\<lambda>relay'.
     let key = identity_id K sk;
         sig = sk_sign K sk (as_bytes (canonical_payload K zone key ts relay' seed))
     in Inr \<lparr>rec_key = key, rec_ts = ts, rec_relay = relay', rec_seed = seed, rec_sig = sig\<rparr>))"

definition sign_at :: "'z crates_scheme \<Rightarrow> string \<Rightarrow> bytes32 \<Rightarrow> u64 \<Rightarrow> dns_record result" where
  "sign_at K zone sk ts = sign_full K zone sk ts None None"

definition dns_record_new :: "'z crates_scheme \<Rightarrow> u64 \<Rightarrow> string \<Rightarrow> bytes32 \<Rightarrow> dns_record result" where
  "dns_record_new K now zone sk = sign_full K zone sk now None None"

definition to_txt :: "'z crates_scheme \<Rightarrow> dns_record \<Rightarrow> string" where
  "to_txt K r =
     ''v=ocid1 k='' @ pk_display K (rec_key r) @ '' ts='' @ show_nat (unat (rec_ts r))
       @ opt_text (rec_relay r) (\<lambda>u. '' relay='' @ u)
       @ opt_text (rec_seed r) (\<lambda>p. '' seed='' @ pk_display K p)
       @ '' sig='' @ hex_encode K (bytes_of 64 (rec_sig r))"

fun txt_chunks :: "string \<Rightarrow> string list \<Rightarrow> string list" where
  "txt_chunks cur [] = (if cur = [] then [] else [cur])"
| "txt_chunks cur (tok # toks) =
     (if cur \<noteq> [] \<and> length cur + 1 + length tok + 1 > txt_string_max
      then cur # txt_chunks tok toks
      else txt_chunks (if cur \<noteq> [] then cur @ '' '' @ tok else tok) toks)"

definition txt_strings :: "'z crates_scheme \<Rightarrow> dns_record \<Rightarrow> string list" where
  "txt_strings K r =
     (let txt = to_txt K r in
      if length txt \<le> txt_string_max then [txt]
      else let out = txt_chunks [] (split_on CHR '' '' txt)
           in map (\<lambda>chunk. chunk @ '' '') (butlast out) @ [last out])"

section \<open>Parsing\<close>

record raw_fields =
  raw_version :: "string option"
  raw_key :: "public_key option"
  raw_ts :: "u64 option"
  raw_relay :: "string option"
  raw_seed :: "public_key option"
  raw_sig :: "bytes64 option"

definition no_fields :: raw_fields where
  "no_fields = \<lparr>raw_version = None, raw_key = None, raw_ts = None, raw_relay = None,
     raw_seed = None, raw_sig = None\<rparr>"

definition parse_field ::
  "'z crates_scheme \<Rightarrow> raw_fields \<Rightarrow> string \<Rightarrow> raw_fields result" where
  "parse_field K f tok =
     and_then (ok_or (split_once CHR ''='' tok) (Dns_err (Field FieldForm))) (\<lambda>(k, v).
       if k = ''v'' then Inr (f\<lparr>raw_version := Some v\<rparr>)
       else if k = ''k'' then
         and_then (ensure (is_hex_publisher v) (Dns_err (Field FieldKey))) (\<lambda>_.
         and_then (ok_or (pk_from_str K v) (Dns_err (Field FieldKey))) (\<lambda>p.
         Inr (f\<lparr>raw_key := Some p\<rparr>)))
       else if k = ''ts'' then
         and_then (ok_or (parse_u64 v) (Dns_err (Field FieldTs))) (\<lambda>t.
         Inr (f\<lparr>raw_ts := Some t\<rparr>))
       else if k = ''relay'' then
         and_then (validate_relay K v) (\<lambda>u. Inr (f\<lparr>raw_relay := Some u\<rparr>))
       else if k = ''seed'' then
         and_then (ensure (is_hex_publisher v) (Dns_err (Field FieldSeed))) (\<lambda>_.
         and_then (ok_or (pk_from_str K v) (Dns_err (Field FieldSeed))) (\<lambda>p.
         Inr (f\<lparr>raw_seed := Some p\<rparr>)))
       else if k = ''sig'' then
         and_then (ok_or (hex_decode K v) (Dns_err (Field FieldSig))) (\<lambda>bs.
         and_then (ok_or (try_array 64 bs) (Dns_err (Field FieldSig))) (\<lambda>a.
         Inr (f\<lparr>raw_sig := Some a\<rparr>)))
       else Inl (Dns_err (Field FieldUnknown)))"

fun parse_fields ::
  "'z crates_scheme \<Rightarrow> raw_fields \<Rightarrow> string list \<Rightarrow> raw_fields result" where
  "parse_fields K f [] = Inr f"
| "parse_fields K f (tok # toks) = and_then (parse_field K f tok) (\<lambda>f'. parse_fields K f' toks)"

definition parse_record :: "'z crates_scheme \<Rightarrow> string \<Rightarrow> dns_record result" where
  "parse_record K txt =
     and_then (parse_fields K no_fields (split_whitespace txt)) (\<lambda>f.
     and_then (ensure (raw_version f = Some ''ocid1'') (Dns_err (Field RecordVersion))) (\<lambda>_.
     and_then (ok_or (raw_key f) (Dns_err (Field MissingKey))) (\<lambda>key.
     and_then (ok_or (raw_ts f) (Dns_err (Field MissingTs))) (\<lambda>ts.
     and_then (ok_or (raw_sig f) (Dns_err (Field MissingSig))) (\<lambda>sig.
     Inr \<lparr>rec_key = key, rec_ts = ts, rec_relay = raw_relay f, rec_seed = raw_seed f,
          rec_sig = sig\<rparr>)))))"

section \<open>Verification, freshness and pins\<close>

definition verify_sig :: "'z crates_scheme \<Rightarrow> dns_record \<Rightarrow> string \<Rightarrow> unit result" where
  "verify_sig K r zone =
     and_then (validate_zone zone) (\<lambda>_.
     verify_signature K (rec_key r)
       (as_bytes (canonical_payload K zone (rec_key r) (rec_ts r) (rec_relay r) (rec_seed r)))
       (rec_sig r))"

definition saturating_sub :: "u64 \<Rightarrow> u64 \<Rightarrow> u64" where
  "saturating_sub a b = (if a < b then 0 else a - b)"

definition age_secs :: "u64 \<Rightarrow> dns_record \<Rightarrow> u64" where
  "age_secs now r = saturating_sub now (rec_ts r)"

record pin_entry =
  pin_key :: string
  pinned_at :: u64

type_synonym dns_pins = "(string, pin_entry) table"

definition pins_get :: "dns_pins \<Rightarrow> string \<Rightarrow> pin_entry option" where
  "pins_get pins zone = tget pins zone"

definition pins_pin :: "u64 \<Rightarrow> string \<Rightarrow> string \<Rightarrow> dns_pins \<Rightarrow> dns_pins \<times> bool" where
  "pins_pin now zone key_hex pins =
     (let insert_new = (tput zone \<lparr>pin_key = key_hex, pinned_at = now\<rparr> pins, True) in
      case tget pins zone of
        Some p \<Rightarrow> if pin_key p = key_hex then (pins, False) else insert_new
      | None \<Rightarrow> insert_new)"

definition pins_unpin :: "string \<Rightarrow> dns_pins \<Rightarrow> dns_pins \<times> bool" where
  "pins_unpin zone pins = (tdel zone pins, tget pins zone \<noteq> None)"

datatype dns_validated = Pinned public_key | NewPin public_key

definition validate_record ::
  "'z crates_scheme \<Rightarrow> u64 \<Rightarrow> string \<Rightarrow> dns_record \<Rightarrow> dns_pins \<Rightarrow> u64 \<Rightarrow> dns_validated result" where
  "validate_record K now zone record pins max_age_secs =
     and_then (verify_sig K record zone) (\<lambda>_.
     and_then (ensure (\<not> age_secs now record > max_age_secs) (Dns_err StaleRecord)) (\<lambda>_.
     let key_hex = pk_display K (rec_key record) in
     case pins_get pins zone of
       Some p \<Rightarrow> if pin_key p \<noteq> key_hex then Inl (Dns_err PinMismatch) else Inr (Pinned (rec_key record))
     | None \<Rightarrow> Inr (NewPin (rec_key record))))"

section \<open>Reading a record back\<close>

text \<open>The tokens of a record, one per field. A field's token sets that field and no other, so the
  order of the tokens does not matter.\<close>

datatype field_tag = FVersion | FKey | FTs | FRelay | FSeed | FSig

fun field_token :: "'z crates_scheme \<Rightarrow> dns_record \<Rightarrow> field_tag \<Rightarrow> string" where
  "field_token K r FVersion = ''v=ocid1''"
| "field_token K r FKey = ''k='' @ pk_display K (rec_key r)"
| "field_token K r FTs = ''ts='' @ show_nat (unat (rec_ts r))"
| "field_token K r FRelay = ''relay='' @ the (rec_relay r)"
| "field_token K r FSeed = ''seed='' @ pk_display K (the (rec_seed r))"
| "field_token K r FSig = ''sig='' @ hex_encode K (bytes_of 64 (rec_sig r))"

definition record_tags :: "dns_record \<Rightarrow> field_tag list" where
  "record_tags r = [FVersion, FKey, FTs] @ (if rec_relay r = None then [] else [FRelay])
     @ (if rec_seed r = None then [] else [FSeed]) @ [FSig]"

definition record_tokens :: "'z crates_scheme \<Rightarrow> dns_record \<Rightarrow> string list" where
  "record_tokens K r = map (field_token K r) (record_tags r)"

definition record_ok :: "'z crates_scheme \<Rightarrow> dns_record \<Rightarrow> bool" where
  "record_ok K r \<longleftrightarrow> (case rec_relay r of None \<Rightarrow> True | Some u \<Rightarrow> validate_relay K u = Inr u)"

fun set_field :: "dns_record \<Rightarrow> field_tag \<Rightarrow> raw_fields \<Rightarrow> raw_fields" where
  "set_field r FVersion f = f\<lparr>raw_version := Some ''ocid1''\<rparr>"
| "set_field r FKey f = f\<lparr>raw_key := Some (rec_key r)\<rparr>"
| "set_field r FTs f = f\<lparr>raw_ts := Some (rec_ts r)\<rparr>"
| "set_field r FRelay f = f\<lparr>raw_relay := rec_relay r\<rparr>"
| "set_field r FSeed f = f\<lparr>raw_seed := rec_seed r\<rparr>"
| "set_field r FSig f = f\<lparr>raw_sig := Some (rec_sig r)\<rparr>"

lemma validate_relay_Inr:
  "validate_relay K u = Inr u' \<Longrightarrow>
     u' = u \<and> list_all (\<lambda>c. \<not> is_space c) u \<and> length u \<le> 249 \<and> url_scheme K u \<noteq> None"
  by (auto simp: validate_relay_def txt_string_max_def list_ex_iff list_all_iff)

lemma to_txt_tokens: "to_txt K r = join_with '' '' (record_tokens K r)"
  by (auto simp: to_txt_def record_tokens_def record_tags_def opt_text_def split: option.splits)

lemma field_token_plain:
  assumes "key_laws K" "hex_laws K" "record_ok K r" "t \<in> set (record_tags r)"
  shows "list_all (\<lambda>c. \<not> is_space c) (field_token K r t) \<and> field_token K r t \<noteq> []"
proof -
  have digits: "list_all (\<lambda>c. \<not> is_space c) (show_nat n)" for n
    using show_nat_digits [of n] is_digit_not_space by (auto simp: list_all_iff)
  have relay: "rec_relay r = Some u \<Longrightarrow> list_all (\<lambda>c. \<not> is_space c) u" for u
    using assms(3) validate_relay_Inr by (auto simp: record_ok_def)
  have hex: "list_all (\<lambda>c. \<not> is_space c) (pk_display K p)"
      "list_all (\<lambda>c. \<not> is_space c) (hex_encode K bs)" for p bs
    using key_lawsD(3) [OF assms(1)] hex_lawsD(3) [OF assms(2)] by (simp_all add: lhex_no_space)
  show ?thesis
    using assms(4) digits relay hex
    by (auto simp: record_tags_def is_space_def split: if_splits)
qed

lemma parse_field_token:
  assumes "key_laws K" "hex_laws K" "record_ok K r" "t \<in> set (record_tags r)"
  shows "parse_field K f (field_token K r t) = Inr (set_field r t f)"
proof -
  have split: "CHR ''='' \<notin> set k \<Longrightarrow> split_once CHR ''='' (k @ CHR ''='' # v) = Some (k, v)" for k v
    by simp
  have hex: "is_hex_publisher (pk_display K p)" "pk_from_str K (pk_display K p) = Some p" for p
    using assms(1) by (simp_all add: is_hex_publisher_display key_lawsD)
  show ?thesis
  proof (cases t)
    case FVersion
    then show ?thesis using split [of "''v''"] by (simp add: parse_field_def)
  next
    case FKey
    then show ?thesis using split [of "''k''"] hex by (simp add: parse_field_def)
  next
    case FTs
    then show ?thesis using split [of "''ts''"] by (simp add: parse_field_def parse_u64_show)
  next
    case FRelay
    with assms(4) obtain u where "rec_relay r = Some u"
      by (auto simp: record_tags_def split: if_splits)
    with FRelay assms(3) show ?thesis
      using split [of "''relay''"] by (simp add: parse_field_def record_ok_def)
  next
    case FSeed
    with assms(4) obtain p where "rec_seed r = Some p"
      by (auto simp: record_tags_def split: if_splits)
    with FSeed show ?thesis using split [of "''seed''"] hex by (simp add: parse_field_def)
  next
    case FSig
    then show ?thesis
      using split [of "''sig''"] hex_lawsD(1) [OF assms(2)]
      by (simp add: parse_field_def del: try_array_bytes_of)
  qed
qed

lemma parse_fields_tokens:
  assumes "key_laws K" "hex_laws K" "record_ok K r" "set ts \<subseteq> set (record_tags r)"
  shows "parse_fields K f (map (field_token K r) ts) = Inr (fold (set_field r) ts f)"
  using assms(4)
  by (induction ts arbitrary: f) (simp_all add: parse_field_token [OF assms(1-3)])

lemma fold_set_field:
  "fold (set_field r) ts f =
     \<lparr>raw_version = (if FVersion \<in> set ts then Some ''ocid1'' else raw_version f),
      raw_key = (if FKey \<in> set ts then Some (rec_key r) else raw_key f),
      raw_ts = (if FTs \<in> set ts then Some (rec_ts r) else raw_ts f),
      raw_relay = (if FRelay \<in> set ts then rec_relay r else raw_relay f),
      raw_seed = (if FSeed \<in> set ts then rec_seed r else raw_seed f),
      raw_sig = (if FSig \<in> set ts then Some (rec_sig r) else raw_sig f)\<rparr>"
proof (induction ts arbitrary: f)
  case Nil
  show ?case by simp
next
  case (Cons t ts)
  then show ?case by (cases t) auto
qed

lemma parse_record_tags:
  assumes "key_laws K" "hex_laws K" "record_ok K r" "set ts = set (record_tags r)"
  shows "parse_record K (join_with '' '' (map (field_token K r) ts)) = Inr r"
proof -
  have "list_all (\<lambda>t. t \<noteq> [] \<and> list_all (\<lambda>c. \<not> is_space c) t) (map (field_token K r) ts)"
    using field_token_plain [OF assms(1-3)] assms(4) by (auto simp: list_all_iff)
  then have "parse_record K (join_with '' '' (map (field_token K r) ts)) =
      and_then (Inr (fold (set_field r) ts no_fields)) (\<lambda>f.
     and_then (ensure (raw_version f = Some ''ocid1'') (Dns_err (Field RecordVersion))) (\<lambda>_.
     and_then (ok_or (raw_key f) (Dns_err (Field MissingKey))) (\<lambda>key.
     and_then (ok_or (raw_ts f) (Dns_err (Field MissingTs))) (\<lambda>ts.
     and_then (ok_or (raw_sig f) (Dns_err (Field MissingSig))) (\<lambda>sig.
     Inr \<lparr>rec_key = key, rec_ts = ts, rec_relay = raw_relay f, rec_seed = raw_seed f,
          rec_sig = sig\<rparr>)))))"
    using assms(4) parse_fields_tokens [OF assms(1-3)]
    by (simp add: parse_record_def split_whitespace_join)
  then show ?thesis
    by (auto simp: fold_set_field assms(4) record_tags_def no_fields_def)
qed

interpretation record_text: text_codec "to_txt K" "parse_record K"
    "\<lambda>r. key_laws K \<and> hex_laws K \<and> record_ok K r" for K
  by unfold_locales (simp add: to_txt_tokens record_tokens_def parse_record_tags)

section \<open>What a signature covers\<close>

text \<open>What the program relies on in a URL parser: a text with a scheme has a colon.\<close>

definition url_laws :: "'z crates_scheme \<Rightarrow> bool" where
  "url_laws K \<longleftrightarrow> (\<forall>s scheme. url_scheme K s = Some scheme \<longrightarrow> CHR '':'' \<in> set s)"

definition relay_ok :: "'z crates_scheme \<Rightarrow> string option \<Rightarrow> bool" where
  "relay_ok K relay \<longleftrightarrow> (\<forall>u. relay = Some u \<longrightarrow> is_ok (validate_relay K u))"

definition payload_tokens ::
  "'z crates_scheme \<Rightarrow> string \<Rightarrow> public_key \<Rightarrow> u64 \<Rightarrow> string option \<Rightarrow> public_key option \<Rightarrow> string list" where
  "payload_tokens K zone key ts relay seed =
     [''ocid1'', zone, pk_display K key, show_nat (unat ts)]
       @ (case relay of None \<Rightarrow> [] | Some u \<Rightarrow> [u])
       @ (case seed of None \<Rightarrow> [] | Some p \<Rightarrow> [pk_display K p])"

lemma canonical_payload_tokens:
  "canonical_payload K zone key ts relay seed = join_with '' '' (payload_tokens K zone key ts relay seed)"
  by (simp add: canonical_payload_def payload_tokens_def opt_text_def split: option.split)

lemma no_space_no_blank: "list_all (\<lambda>c. \<not> is_space c) s \<Longrightarrow> CHR '' '' \<notin> set s"
  by (auto simp: list_all_iff)

lemma zone_label_chars:
  "zone_label_ok l \<Longrightarrow> c \<in> set l \<Longrightarrow> is_alnum c \<or> c = CHR ''-''"
  unfolding zone_label_ok_def list_all_iff by blast

lemma zone_no_blank:
  assumes "validate_zone zone = Inr u"
  shows "CHR '' '' \<notin> set zone"
proof
  assume "CHR '' '' \<in> set zone"
  then obtain l where "l \<in> set (split_on CHR ''.'' zone)" "CHR '' '' \<in> set l"
    using split_on_chars [of "CHR '' ''" zone "CHR ''.''"] by auto
  moreover have "list_all zone_label_ok (split_on CHR ''.'' zone)"
    using assms by (simp add: validate_zone_def)
  ultimately have "is_alnum CHR '' '' \<or> CHR '' '' = CHR ''-''"
    using zone_label_chars unfolding list_all_iff by blast
  then show False by (simp add: is_alnum_def is_digit_def is_lower_def is_upper_def)
qed

lemma relay_ok_SomeD:
  "relay_ok K (Some u) \<Longrightarrow> list_all (\<lambda>c. \<not> is_space c) u \<and> length u \<le> 249 \<and> url_scheme K u \<noteq> None"
  by (auto simp: relay_ok_def is_ok_iff dest: validate_relay_Inr)

lemma show_nat_no_blank: "CHR '' '' \<notin> set (show_nat n)"
  by (rule show_nat_no_char) (simp add: is_digit_def)

lemma split_canonical_payload:
  assumes "key_laws K" "validate_zone zone = Inr u" "relay_ok K relay"
  shows "split_on CHR '' '' (canonical_payload K zone key ts relay seed)
    = payload_tokens K zone key ts relay seed"
  unfolding canonical_payload_tokens
proof (rule split_on_join)
  have "CHR '' '' \<notin> set (pk_display K p)" for p
    using key_lawsD(3) [OF assms(1)] by (intro no_space_no_blank lhex_no_space)
  then show "\<forall>t \<in> set (payload_tokens K zone key ts relay seed). CHR '' '' \<notin> set t"
    using zone_no_blank [OF assms(2)] assms(3) show_nat_no_blank
    by (auto simp: payload_tokens_def dest!: relay_ok_SomeD no_space_no_blank split: option.splits)
  show "payload_tokens K zone key ts relay seed \<noteq> []"
    by (simp add: payload_tokens_def)
qed

lemma url_not_key:
  assumes "key_laws K" "url_laws K" "url_scheme K u \<noteq> None"
  shows "u \<noteq> pk_display K p"
proof
  assume "u = pk_display K p"
  with assms(2,3) have "CHR '':'' \<in> set (pk_display K p)" by (auto simp: url_laws_def)
  with key_lawsD(3) [OF assms(1), of p] have "is_lhex CHR '':''" by (simp add: list_all_iff)
  then show False by (simp add: is_lhex_def is_digit_def)
qed

lemma unat_eq_imp: "unat a = unat b \<Longrightarrow> a = b"
  by (simp add: word_unat_eq_iff)

lemma canonical_payload_inject:
  assumes laws: "key_laws K" "url_laws K"
    and "validate_zone z = Inr u" "validate_zone z' = Inr u'" "relay_ok K rl" "relay_ok K rl'"
    and eq: "canonical_payload K z k t rl sd = canonical_payload K z' k' t' rl' sd'"
  shows "z = z' \<and> k = k' \<and> t = t' \<and> rl = rl' \<and> sd = sd'"
proof -
  have toks: "payload_tokens K z k t rl sd = payload_tokens K z' k' t' rl' sd'"
    using eq assms by (metis split_canonical_payload)
  have not_key: "\<not> relay_ok K (Some (pk_display K p))" for p
    using url_not_key [OF laws] relay_ok_SomeD by blast
  have inj: "pk_display K p = pk_display K q \<longleftrightarrow> p = q" for p q
    by (rule pk_display_inject [OF laws(1)])
  have zkt: "z = z' \<and> k = k' \<and> t = t'"
    using toks by (simp add: payload_tokens_def inj show_nat_inject unat_eq_imp)
  have rest: "(case rl of None \<Rightarrow> [] | Some u \<Rightarrow> [u]) @ (case sd of None \<Rightarrow> [] | Some p \<Rightarrow> [pk_display K p])
      = (case rl' of None \<Rightarrow> [] | Some u \<Rightarrow> [u]) @ (case sd' of None \<Rightarrow> [] | Some p \<Rightarrow> [pk_display K p])"
    using toks by (simp add: payload_tokens_def)
  have "rl = rl' \<and> sd = sd'"
    using rest assms(5,6) not_key
    by (cases rl; cases rl'; cases sd; cases sd'; auto simp: inj)
  with zkt show ?thesis by simp
qed

section \<open>Character-strings\<close>

lemma txt_chunks_nonempty: "cur \<noteq> [] \<Longrightarrow> txt_chunks cur toks \<noteq> []"
  by (induction toks arbitrary: cur) auto

lemma record_chunks_nonempty: "txt_chunks [] (record_tokens K r) \<noteq> []"
proof -
  obtain ts where "record_tokens K r = ''v=ocid1'' # ts"
    by (simp add: record_tokens_def record_tags_def)
  moreover have "txt_chunks ''v=ocid1'' ts \<noteq> []" for ts
    by (rule txt_chunks_nonempty) simp
  ultimately show ?thesis by (simp only: txt_chunks.simps) simp
qed

lemma join_txt_chunks:
  "\<forall>t \<in> set toks. t \<noteq> [] \<Longrightarrow>
   join_with '' '' (txt_chunks cur toks) = join_with '' '' (if cur = [] then toks else cur # toks)"
proof (induction toks arbitrary: cur)
  case (Cons t toks)
  then have t: "t \<noteq> []" by simp
  show ?case
  proof (cases "cur \<noteq> [] \<and> length cur + 1 + length t + 1 > txt_string_max")
    case True
    with Cons t show ?thesis
      by (simp add: join_with_Cons txt_chunks_nonempty)
  next
    case False
    show ?thesis
    proof (cases "cur = []")
      case True
      with Cons t show ?thesis by simp
    next
      case ne: False
      with Cons.prems have "join_with '' '' (txt_chunks cur (t # toks))
          = join_with '' '' ((cur @ '' '' @ t) # toks)"
        using False Cons.IH [of "cur @ '' '' @ t"] by simp
      with ne show ?thesis by (cases toks) simp_all
    qed
  qed
qed simp

lemma txt_chunks_bound:
  "length cur < txt_string_max \<Longrightarrow> \<forall>t \<in> set toks. length t < txt_string_max \<Longrightarrow>
   \<forall>c \<in> set (txt_chunks cur toks). length c < txt_string_max"
proof (induction toks arbitrary: cur)
  case Nil
  then show ?case by simp
next
  case (Cons t toks)
  have t: "length t < txt_string_max" and ts: "\<forall>t \<in> set toks. length t < txt_string_max"
    using Cons.prems(2) by simp_all
  show ?case
  proof (cases "cur \<noteq> [] \<and> length cur + 1 + length t + 1 > txt_string_max")
    case True
    then show ?thesis using Cons.IH [OF t ts] Cons.prems(1) by simp
  next
    case False
    let ?cur = "if cur \<noteq> [] then cur @ '' '' @ t else t"
    have "length ?cur < txt_string_max" using False t by auto
    from Cons.IH [OF this ts] False show ?thesis
      by (simp only: txt_chunks.simps if_False simp_thms)
  qed
qed

lemma split_to_txt:
  assumes "key_laws K" "hex_laws K" "record_ok K r"
  shows "split_on CHR '' '' (to_txt K r) = record_tokens K r"
  unfolding to_txt_tokens
proof (rule split_on_join)
  show "record_tokens K r \<noteq> []" by (simp add: record_tokens_def record_tags_def)
  show "\<forall>t \<in> set (record_tokens K r). CHR '' '' \<notin> set t"
    using field_token_plain [OF assms] no_space_no_blank by (auto simp: record_tokens_def)
qed

lemma concat_txt_strings:
  assumes "key_laws K" "hex_laws K" "record_ok K r"
  shows "concat (txt_strings K r) = to_txt K r"
proof (cases "length (to_txt K r) \<le> txt_string_max")
  case True
  then show ?thesis by (simp add: txt_strings_def)
next
  case False
  let ?out = "txt_chunks [] (record_tokens K r)"
  have ne: "\<forall>t \<in> set (record_tokens K r). t \<noteq> []"
    using field_token_plain [OF assms] by (auto simp: record_tokens_def)
  have "?out \<noteq> []" by (rule record_chunks_nonempty)
  then have "concat (map (\<lambda>chunk. chunk @ '' '') (butlast ?out) @ [last ?out]) = to_txt K r"
    using join_txt_chunks [OF ne, of "[]"]
    by (simp only: concat_join to_txt_tokens if_True simp_thms)
  with False show ?thesis
    by (simp only: txt_strings_def Let_def split_to_txt [OF assms] if_False)
qed

lemma field_token_bound:
  assumes "key_laws K" "hex_laws K" "t \<in> set (record_tags r)"
    "\<forall>u. rec_relay r = Some u \<longrightarrow> length u \<le> 248"
  shows "length (field_token K r t) < txt_string_max"
  using assms(3,4) length_show_u64 [of "rec_ts r"]
  by (auto simp: record_tags_def txt_string_max_def key_lawsD(2) [OF assms(1)]
      hex_lawsD(2) [OF assms(2)] split: if_splits)

lemma txt_strings_bound:
  assumes "key_laws K" "hex_laws K" "record_ok K r" "\<forall>u. rec_relay r = Some u \<longrightarrow> length u \<le> 248"
  shows "\<forall>c \<in> set (txt_strings K r). length c \<le> txt_string_max"
proof (cases "length (to_txt K r) \<le> txt_string_max")
  case True
  then show ?thesis by (simp add: txt_strings_def)
next
  case False
  let ?out = "txt_chunks [] (record_tokens K r)"
  have "?out \<noteq> []" by (rule record_chunks_nonempty)
  moreover have "\<forall>t \<in> set (record_tokens K r). length t < txt_string_max"
    using field_token_bound [OF assms(1,2) _ assms(4)] by (simp add: record_tokens_def)
  then have "\<forall>c \<in> set ?out. length c < txt_string_max"
    by (intro txt_chunks_bound) (simp_all add: txt_string_max_def)
  ultimately have "\<forall>c \<in> set (map (\<lambda>chunk. chunk @ '' '') (butlast ?out) @ [last ?out]).
      length c \<le> txt_string_max"
    by (auto simp: Suc_le_eq dest!: in_set_butlastD intro: less_imp_le)
  with False show ?thesis
    by (simp only: txt_strings_def Let_def split_to_txt [OF assms(1-3)] if_False)
qed

lemma sign_full_record:
  assumes "sign_full K zone sk ts relay seed = Inr r"
  shows "is_ok (validate_zone zone) \<and> relay_ok K relay \<and> record_ok K r
    \<and> r = \<lparr>rec_key = sk_public K sk, rec_ts = ts, rec_relay = relay, rec_seed = seed,
          rec_sig = sk_sign K sk (as_bytes (canonical_payload K zone (sk_public K sk) ts relay seed))\<rparr>"
proof -
  have "relay_ok K relay"
    using assms validate_relay_Inr
    by (auto simp: sign_full_def relay_ok_def is_ok_iff split: option.splits)
  moreover have "relay = Some v \<Longrightarrow> validate_relay K v = Inr v" for v
    using calculation validate_relay_Inr by (fastforce simp: relay_ok_def is_ok_iff)
  ultimately show ?thesis
    using assms
    by (cases relay) (auto simp: sign_full_def Let_def record_ok_def identity_id_def is_ok_iff)
qed

lemma sign_full_verifies:
  assumes "sign_laws K" "sign_full K zone sk ts relay seed = Inr r"
  shows "verify_sig K r zone = Inr ()"
  using sign_full_record [OF assms(2)] sign_lawsD [OF assms(1)]
  by (auto simp: verify_sig_def verify_signature_def is_ok_iff)

section \<open>Pinned keys\<close>

interpretation pin_table: keyed_table pins_get "\<lambda>zone p. tput zone p"
    "\<lambda>zone pins. fst (pins_unpin zone pins)" table_ok
  by unfold_locales (simp_all add: pins_get_def pins_unpin_def)

lemma pins_pin_get:
  "pins_get (fst (pins_pin now zone k pins)) z =
     (if z = zone \<and> \<not> (\<exists>p. pins_get pins zone = Some p \<and> pin_key p = k)
      then Some \<lparr>pin_key = k, pinned_at = now\<rparr> else pins_get pins z)"
  by (auto simp: pins_pin_def pins_get_def Let_def split: option.split)

lemma pins_pin_key:
  "map_option pin_key (pins_get (fst (pins_pin now zone k pins)) z) =
     (if z = zone then Some k else map_option pin_key (pins_get pins z))"
  by (auto simp: pins_pin_get)

lemma pins_unpin_get:
  "pins_get (fst (pins_unpin zone pins)) z = (if z = zone then None else pins_get pins z)"
  by (simp add: pins_get_def pins_unpin_def)

lemma validate_record_Inr_iff:
  "validate_record K now zone r pins max_age = Inr v \<longleftrightarrow>
     verify_sig K r zone = Inr () \<and> age_secs now r \<le> max_age
     \<and> (case pins_get pins zone of
          None \<Rightarrow> v = NewPin (rec_key r)
        | Some p \<Rightarrow> pin_key p = pk_display K (rec_key r) \<and> v = Pinned (rec_key r))"
  by (auto simp: validate_record_def Let_def not_less split: option.splits)

section \<open>Properties\<close>

text \<open>C30: The text of a record is parsed back to the record, and so is every other arrangement of
  its fields: the parser accepts them in any order and yields the same record.\<close>

theorem dns_record_any_order:
  assumes "key_laws K" "hex_laws K" "record_ok K r" "set ts = set (record_tags r)"
  shows "parse_record K (join_with '' '' (map (field_token K r) ts)) = Inr r
    \<and> parse_record K (to_txt K r) = Inr r"
  using parse_record_tags [OF assms] record_text.dec_enc [of K r] assms(1-3) by blast

definition demo_record :: dns_record where
  "demo_record = \<lparr>rec_key = PublicKey 5, rec_ts = 77, rec_relay = None,
     rec_seed = Some (PublicKey 6), rec_sig = 9\<rparr>"

theorem dns_record_any_order_witness:
  "parse_record demo_crates (join_with '' '' (map (field_token demo_crates demo_record)
     [FSig, FSeed, FTs, FKey, FVersion])) = Inr demo_record"
proof -
  have "record_ok demo_crates demo_record"
    and "set [FSig, FSeed, FTs, FKey, FVersion] = set (record_tags demo_record)"
    by (auto simp: record_ok_def demo_record_def record_tags_def)
  from dns_record_any_order [OF demo_key_laws demo_hex_laws this] show ?thesis by simp
qed


definition demo_one_signature :: "string \<Rightarrow> dns_record \<Rightarrow> crates" where
  "demo_one_signature zone r = demo_crates\<lparr>pk_verify := \<lambda>p m s. p = rec_key r \<and> s = rec_sig r
     \<and> m = as_bytes (canonical_payload demo_crates zone (rec_key r) (rec_ts r) (rec_relay r) (rec_seed r))\<rparr>"


text \<open>C29: A record signed for a zone, published as text, fetched and parsed by a node validates
  exactly when it is fresh and the node has no other key pinned for the zone: with no pin the key is
  offered as a new pin, with the same key pinned it is confirmed, and any other key is refused.\<close>

theorem dns_publish_then_validate:
  assumes "key_laws K" "hex_laws K" "sign_laws K"
    and sg: "sign_full K zone sk ts relay seed = Inr r"
  shows "parse_record K (to_txt K r) = Inr r
    \<and> validate_record K now zone r pins max_age =
       (if unat now - unat ts > unat max_age then Inl (Dns_err StaleRecord)
        else case pins_get pins zone of
          None \<Rightarrow> Inr (NewPin (sk_public K sk))
        | Some p \<Rightarrow> if pin_key p = pk_display K (sk_public K sk) then Inr (Pinned (sk_public K sk))
                    else Inl (Dns_err PinMismatch))"
proof -
  have r: "record_ok K r" "rec_key r = sk_public K sk" "rec_ts r = ts"
    using sign_full_record [OF sg] by auto
  have "age_secs now r > max_age \<longleftrightarrow> unat now - unat ts > unat max_age"
    using r(3) by (auto simp: age_secs_def saturating_sub_def word_less_nat_alt unat_sub word_le_nat_alt)
  then show ?thesis
    using r assms sign_full_verifies [OF assms(3) sg] record_text.dec_enc
    by (auto simp: validate_record_def Let_def split: option.split)
qed

theorem dns_publish_then_validate_witness:
  "\<exists>r. sign_full demo_crates ''a.b'' 5 100 None None = Inr r
     \<and> validate_record demo_crates 150 ''a.b'' r [] 60 = Inr (NewPin (sk_public demo_crates 5))"
proof -
  have zone: "validate_zone ''a.b'' = Inr ()"
    by (simp add: validate_zone_def zone_label_ok_def char_class_defs)
  then obtain r where r: "sign_full demo_crates ''a.b'' 5 100 None None = Inr r"
    by (simp add: sign_full_def Let_def)
  from dns_publish_then_validate [OF demo_key_laws demo_hex_laws demo_sign_laws r, of 150 "[]" 60] r
  show ?thesis by (simp add: pins_get_def)
qed

text \<open>The character-strings published for a record are its text cut between fields: joined they
  are the text, and when the relay hint has at most 248 bytes none of them is longer than the 255
  bytes DNS allows.\<close>

theorem txt_strings_fit:
  assumes "key_laws K" "hex_laws K" "record_ok K r" "\<forall>u. rec_relay r = Some u \<longrightarrow> length u \<le> 248"
  shows "concat (txt_strings K r) = to_txt K r
    \<and> (\<forall>c \<in> set (txt_strings K r). length c \<le> txt_string_max)"
  using concat_txt_strings [OF assms(1-3)] txt_strings_bound [OF assms] by simp

theorem txt_strings_fit_witness:
  "concat (txt_strings demo_crates demo_record) = to_txt demo_crates demo_record
   \<and> list_all (\<lambda>c. length c \<le> txt_string_max) (txt_strings demo_crates demo_record)"
  using txt_strings_fit [OF demo_key_laws demo_hex_laws, of demo_record]
  by (simp add: record_ok_def demo_record_def list_all_iff)

text \<open>The longest relay hint the validator accepts is one byte too long for this: a record with
  a relay of 249 bytes is published with a character-string of 256 bytes, because the blank kept
  at the end of a chunk is not counted for a token that opens one.\<close>

theorem txt_strings_oversized:
  assumes "key_laws K" "hex_laws K" "record_ok K r" "rec_relay r = Some u" "length u = 249"
  shows "\<exists>c \<in> set (txt_strings K r). length c = txt_string_max + 1"
proof -
  let ?relay = "''relay='' @ u"
  obtain tok toks where rest: "record_tokens K r
      = [''v=ocid1'', ''k='' @ pk_display K (rec_key r), ''ts='' @ show_nat (unat (rec_ts r)), ?relay]
        @ tok # toks"
    using assms(4) by (cases "rec_seed r") (auto simp: record_tokens_def record_tags_def)
  have "length (to_txt K r) > txt_string_max"
    using assms(4,5) by (simp add: to_txt_def opt_text_def txt_string_max_def)
  moreover have "\<exists>a. txt_chunks [] (record_tokens K r) = a # ?relay # txt_chunks tok toks"
    unfolding rest using assms(5) length_show_u64 [of "rec_ts r"] key_lawsD(2) [OF assms(1)]
    by (simp add: txt_string_max_def)
  moreover have "tok \<in> set (record_tokens K r)"
    unfolding rest by simp
  then have "tok \<noteq> []"
    using field_token_plain [OF assms(1-3)] by (auto simp: record_tokens_def)
  then have "txt_chunks tok toks \<noteq> []" by (rule txt_chunks_nonempty)
  ultimately have "?relay @ '' '' \<in> set (txt_strings K r)"
    unfolding txt_strings_def Let_def split_to_txt [OF assms(1-3)] by auto
  moreover have "length (?relay @ '' '') = txt_string_max + 1"
    using assms(5) by (simp add: txt_string_max_def)
  ultimately show ?thesis by blast
qed

definition demo_long_record :: dns_record where
  "demo_long_record = demo_record\<lparr>rec_relay := Some (''http:'' @ replicate 244 (CHR ''x''))\<rparr>"

theorem txt_strings_oversized_witness:
  "record_ok demo_crates demo_long_record
   \<and> (\<exists>c \<in> set (txt_strings demo_crates demo_long_record). length c = txt_string_max + 1)"
proof -
  let ?u = "''http:'' @ replicate 244 (CHR ''x'')"
  have u: "rec_relay demo_long_record = Some ?u" "length ?u = 249"
    by (simp_all add: demo_long_record_def)
  have "url_scheme demo_crates ?u = Some ''http''"
    by (simp add: demo_crates_def demo_scheme_def)
  moreover have "\<not> list_ex is_space ?u"
    by (simp add: list_ex_iff is_space_def)
  ultimately have ok: "record_ok demo_crates demo_long_record"
    using u by (simp add: record_ok_def validate_relay_def txt_string_max_def)
  from txt_strings_oversized [OF demo_key_laws demo_hex_laws ok u] ok show ?thesis by simp
qed

end
