(* ===== verification/Release.thy ===== *)
theory Release
  imports Dns Demo_Crates
begin

text \<open>
  \<^verbatim>\<open>crates/ocid-core/src/release.rs\<close>: the signed release record that binds a publisher, a name
  and a tag to a manifest digest and to the two addresses of every blob, its signature, and the
  order in which records replace each other. The JSON encoding of a payload is serde's: it is the
  parameter \<open>payload_json\<close>, and the program relies on its being injective.
\<close>

section \<open>Records\<close>

record blob_ref =
  br_digest :: digest
  br_hash :: blake3
  br_size :: u64
  br_media_type :: "string option"

record referrer =
  rf_digest :: digest
  rf_media_type :: string
  rf_size :: u64
  rf_artifact_type :: "string option"
  rf_annotations :: "(string, string) table"

record release_payload =
  p_version :: byte
  p_publisher :: public_key
  p_name :: string
  p_tag :: string
  p_manifest :: blob_ref
  p_blobs :: "blob_ref list"
  p_timestamp :: u64
  p_referrers :: "referrer list"

record release =
  payload :: release_payload
  signature :: string

record release_summary =
  sum_publisher :: public_key
  sum_name :: string
  sum_tag :: string
  sum_digest :: digest
  sum_timestamp :: u64

record codecs = crates +
  payload_json :: "release_payload \<Rightarrow> byte list"

definition json_laws :: "'z codecs_scheme \<Rightarrow> bool" where
  "json_laws K \<longleftrightarrow> (\<forall>p q. payload_json K p = payload_json K q \<longrightarrow> p = q)"

section \<open>Operations\<close>

definition release_version :: byte where
  "release_version = 1"

definition canonical_bytes :: "'z codecs_scheme \<Rightarrow> release_payload \<Rightarrow> byte list" where
  "canonical_bytes K p = payload_json K p"

definition release_sign :: "'z codecs_scheme \<Rightarrow> u64 \<Rightarrow> bytes32 \<Rightarrow> release_payload \<Rightarrow> release" where
  "release_sign K now sk p0 =
     (let p1 = p0\<lparr>p_version := release_version\<rparr>;
          p2 = p1\<lparr>p_publisher := identity_id K sk\<rparr>;
          p3 = (if p_timestamp p2 = 0 then p2\<lparr>p_timestamp := now\<rparr> else p2);
          sig = identity_sign K sk (canonical_bytes K p3)
      in \<lparr>payload = p3, signature = hex_encode K (bytes_of 64 sig)\<rparr>)"

definition release_verify :: "'z codecs_scheme \<Rightarrow> release \<Rightarrow> unit result" where
  "release_verify K r =
     and_then (ensure (\<not> p_version (payload r) \<noteq> release_version) (Name_err ReleaseVersion)) (\<lambda>_.
     and_then (validate_name (p_name (payload r))) (\<lambda>_.
     and_then (validate_tag (p_tag (payload r))) (\<lambda>_.
     and_then (ok_or (hex_decode K (signature r)) (Key_err HexText)) (\<lambda>bs.
     and_then (ok_or (try_array 64 bs) (Key_err ArrayLength)) (\<lambda>sig.
     verify_signature K (p_publisher (payload r)) (canonical_bytes K (payload r)) sig)))))"

definition release_publisher :: "release \<Rightarrow> public_key" where
  "release_publisher r = p_publisher (payload r)"

definition release_name :: "release \<Rightarrow> string" where
  "release_name r = p_name (payload r)"

definition release_tag :: "release \<Rightarrow> string" where
  "release_tag r = p_tag (payload r)"

definition reference :: "'z crates_scheme \<Rightarrow> release \<Rightarrow> string" where
  "reference K r = pk_display K (p_publisher (payload r)) @ ''/'' @ p_name (payload r)
     @ '':'' @ p_tag (payload r)"

definition all_blobs :: "release \<Rightarrow> blob_ref list" where
  "all_blobs r = p_manifest (payload r) # p_blobs (payload r)"

definition total_size :: "release \<Rightarrow> u64" where
  "total_size r = sum_list (map br_size (all_blobs r))"

definition supersedes :: "release \<Rightarrow> release \<Rightarrow> bool" where
  "supersedes r other \<longleftrightarrow> p_timestamp (payload r) > p_timestamp (payload other)
     \<or> (p_timestamp (payload r) = p_timestamp (payload other)
        \<and> br_digest (p_manifest (payload r)) \<noteq> br_digest (p_manifest (payload other)))"

definition summary_of :: "release \<Rightarrow> release_summary" where
  "summary_of r = \<lparr>sum_publisher = p_publisher (payload r), sum_name = p_name (payload r),
     sum_tag = p_tag (payload r), sum_digest = br_digest (p_manifest (payload r)),
     sum_timestamp = p_timestamp (payload r)\<rparr>"

section \<open>References and verified releases\<close>

text \<open>The place a release takes in an index, and the shape every stored release has.\<close>

type_synonym slot = "public_key \<times> string \<times> string"

definition slot_of :: "release \<Rightarrow> slot" where
  "slot_of r = (p_publisher (payload r), p_name (payload r), p_tag (payload r))"

definition slot_ok :: "release \<Rightarrow> bool" where
  "slot_ok r \<longleftrightarrow> name_ok (p_name (payload r)) \<and> tag_ok (p_tag (payload r))"

lemma release_verify_slot: "release_verify K r = Inr u \<Longrightarrow> slot_ok r"
  by (auto simp: release_verify_def slot_ok_def)

lemma release_verify_iff:
  "release_verify K r = Inr () \<longleftrightarrow> p_version (payload r) = release_version \<and> slot_ok r
     \<and> (\<exists>sig. Option.bind (hex_decode K (signature r)) (try_array 64) = Some sig
          \<and> pk_verify K (p_publisher (payload r)) (canonical_bytes K (payload r)) sig)"
  by (auto simp: release_verify_def slot_ok_def verify_signature_def bind_eq_Some_conv)

lemma reference_inject:
  assumes "key_laws K" "slot_ok r" "slot_ok s" "reference K r = reference K s"
  shows "slot_of r = slot_of s"
proof -
  let ?p = "payload r" and ?q = "payload s"
  have len: "length (pk_display K (p_publisher ?p)) = length (pk_display K (p_publisher ?q))"
    using key_lawsD(2) [OF assms(1)] by simp
  then have pk: "pk_display K (p_publisher ?p) = pk_display K (p_publisher ?q)"
    and rest: "p_name ?p @ CHR '':'' # p_tag ?p = p_name ?q @ CHR '':'' # p_tag ?q"
    using assms(4) by (simp_all add: reference_def)
  have "split_once CHR '':'' (p_name x @ CHR '':'' # p_tag x) = Some (p_name x, p_tag x)"
    if "name_ok (p_name x)" for x
    using name_ok_no_colon [OF that] by simp
  with rest assms(2,3) have "(p_name ?p, p_tag ?p) = (p_name ?q, p_tag ?q)"
    unfolding slot_ok_def by (metis option.inject)
  with pk show ?thesis
    by (simp add: slot_of_def pk_display_inject [OF assms(1)])
qed

lemma supersedes_trans_time:
  "p_timestamp (payload a) > p_timestamp (payload b) \<Longrightarrow> supersedes a b \<and> \<not> supersedes b a"
  by (auto simp: supersedes_def)

lemma release_sign_payload:
  "payload (release_sign K now sk p) = p\<lparr>p_version := release_version,
     p_publisher := sk_public K sk,
     p_timestamp := (if p_timestamp p = 0 then now else p_timestamp p)\<rparr>"
  by (simp add: release_sign_def Let_def identity_id_def)

lemma release_sign_verifies:
  assumes "hex_laws K" "sign_laws K"
  shows "release_verify K (release_sign K now sk p) = Inr () \<longleftrightarrow> name_ok (p_name p) \<and> tag_ok (p_tag p)"
proof -
  let ?r = "release_sign K now sk p"
  have "Option.bind (hex_decode K (signature ?r)) (try_array 64)
      = Some (sk_sign K sk (canonical_bytes K (payload ?r)))"
    using hex_lawsD(1) [OF assms(1)]
    by (simp add: release_sign_def Let_def identity_sign_def del: try_array_bytes_of)
  moreover have "pk_verify K (p_publisher (payload ?r)) m (sk_sign K sk m)" for m
    using sign_lawsD [OF assms(2)] by (simp add: release_sign_payload)
  ultimately show ?thesis
    by (simp add: release_verify_iff release_sign_payload slot_ok_def)
qed

section \<open>An encoding to evaluate on\<close>

text \<open>A prefix code for payloads, which the witnesses use in the place of serde's encoding.\<close>

definition prefix_code :: "('a \<Rightarrow> byte list) \<Rightarrow> bool" where
  "prefix_code e \<longleftrightarrow> (\<forall>x y a b. e x @ a = e y @ b \<longrightarrow> x = y \<and> a = b)"

fun code_list :: "('a \<Rightarrow> byte list) \<Rightarrow> 'a list \<Rightarrow> byte list" where
  "code_list e [] = [0]"
| "code_list e (x # xs) = 1 # e x @ code_list e xs"

definition code_option :: "('a \<Rightarrow> byte list) \<Rightarrow> 'a option \<Rightarrow> byte list" where
  "code_option e m = code_list e (case m of None \<Rightarrow> [] | Some x \<Rightarrow> [x])"

definition code_char :: "char \<Rightarrow> byte list" where
  "code_char c = [of_nat (of_char c)]"

definition code_string :: "string \<Rightarrow> byte list" where
  "code_string = code_list code_char"

definition code_digest :: "digest \<Rightarrow> byte list" where
  "code_digest d = code_string (digest_str d)"

definition code_u64 :: "u64 \<Rightarrow> byte list" where
  "code_u64 = bytes_of 8"

definition code_blob :: "blob_ref \<Rightarrow> byte list" where
  "code_blob b = code_digest (br_digest b) @ bytes_of 32 (hash_word (br_hash b))
     @ code_u64 (br_size b) @ code_option code_string (br_media_type b)"

definition code_pair :: "string \<times> string \<Rightarrow> byte list" where
  "code_pair p = code_string (fst p) @ code_string (snd p)"

definition code_referrer :: "referrer \<Rightarrow> byte list" where
  "code_referrer r = code_digest (rf_digest r) @ code_string (rf_media_type r)
     @ code_u64 (rf_size r) @ code_option code_string (rf_artifact_type r)
     @ code_list code_pair (rf_annotations r)"

definition code_payload :: "release_payload \<Rightarrow> byte list" where
  "code_payload p = [p_version p] @ bytes_of 32 (key_word (p_publisher p)) @ code_string (p_name p)
     @ code_string (p_tag p) @ code_blob (p_manifest p) @ code_list code_blob (p_blobs p)
     @ code_u64 (p_timestamp p) @ code_list code_referrer (p_referrers p)"

lemma prefix_codeD: "prefix_code e \<Longrightarrow> e x @ a = e y @ b \<longleftrightarrow> x = y \<and> a = b"
  unfolding prefix_code_def by blast

lemma prefix_code_list: "prefix_code e \<Longrightarrow> prefix_code (code_list e)"
proof -
  assume e: "prefix_code e"
  have "code_list e xs @ a = code_list e ys @ b \<longrightarrow> xs = ys \<and> a = b" for xs ys a b
  proof (induction xs arbitrary: ys)
    case Nil
    then show ?case by (cases ys) auto
  next
    case (Cons x xs)
    then show ?case by (cases ys) (auto simp: prefix_codeD [OF e])
  qed
  then show ?thesis by (simp add: prefix_code_def)
qed

lemma prefix_code_option:
  assumes "prefix_code e"
  shows "prefix_code (code_option e)"
proof -
  have "code_option e x @ a = code_option e y @ b \<Longrightarrow> x = y \<and> a = b" for x y a b
    unfolding code_option_def
    by (drule iffD1 [OF prefix_codeD [OF prefix_code_list [OF assms]]])
       (simp split: option.splits)
  then show ?thesis by (simp add: prefix_code_def)
qed

lemma bytes_of_inject_len:
  fixes v w :: "'a::len word"
  assumes "LENGTH('a) \<le> 8 * n"
  shows "bytes_of n v = bytes_of n w \<longleftrightarrow> v = w"
  using assms by (metis take_bit_word_eq_self word_of_bytes_bytes_of)

lemma bytes_of_inject: "bytes_of 8 (v :: u64) = bytes_of 8 w \<longleftrightarrow> v = w"
    "bytes_of 32 (a :: bytes32) = bytes_of 32 b \<longleftrightarrow> a = b"
  by (rule bytes_of_inject_len, simp)+

lemma prefix_code_string: "prefix_code code_string"
proof -
  have "prefix_code code_char"
    using as_bytes_inject [of "[c]" "[d]" for c d]
    by (simp add: prefix_code_def code_char_def as_bytes_def)
  then show ?thesis unfolding code_string_def by (rule prefix_code_list)
qed

lemma prefix_code_blob: "prefix_code code_blob"
proof -
  have "code_blob x @ a = code_blob y @ b \<Longrightarrow> x = y \<and> a = b" for x y a b
    by (cases x; cases y)
       (simp add: code_blob_def code_digest_def code_u64_def prefix_codeD [OF prefix_code_string]
         bytes_of_inject blake3.expand digest.expand
         prefix_codeD [OF prefix_code_option [OF prefix_code_string]])
  then show ?thesis by (simp add: prefix_code_def)
qed

lemma prefix_code_referrer: "prefix_code code_referrer"
proof -
  have "prefix_code code_pair"
    unfolding prefix_code_def code_pair_def by (simp add: prefix_codeD [OF prefix_code_string] prod_eq_iff)
  then have pairs: "prefix_code (code_list code_pair)" by (rule prefix_code_list)
  have "code_referrer x @ a = code_referrer y @ b \<Longrightarrow> x = y \<and> a = b" for x y a b
    by (cases x; cases y)
       (simp add: code_referrer_def code_digest_def code_u64_def prefix_codeD [OF prefix_code_string]
         bytes_of_inject digest.expand prefix_codeD [OF pairs]
         prefix_codeD [OF prefix_code_option [OF prefix_code_string]])
  then show ?thesis by (simp add: prefix_code_def)
qed

lemma code_payload_inject: "code_payload p = code_payload q \<Longrightarrow> p = q"
proof -
  assume eq: "code_payload p = code_payload q"
  have "code_list code_referrer (p_referrers p) = code_list code_referrer (p_referrers q)
      \<longleftrightarrow> p_referrers p = p_referrers q"
    using prefix_codeD [OF prefix_code_list [OF prefix_code_referrer], of _ "[]" _ "[]"] by simp
  then show ?thesis
    using eq
    by (cases p; cases q)
       (simp add: code_payload_def code_u64_def prefix_codeD [OF prefix_code_string] bytes_of_inject
         public_key.expand prefix_codeD [OF prefix_code_blob]
         prefix_codeD [OF prefix_code_list [OF prefix_code_blob]])
qed

definition demo_codecs :: codecs where
  "demo_codecs = crates.extend demo_crates \<lparr>payload_json = code_payload\<rparr>"

lemma demo_codec_laws:
  "hex_laws demo_codecs" "b58_laws demo_codecs" "key_laws demo_codecs" "sign_laws demo_codecs"
  "json_laws demo_codecs"
  using demo_laws code_payload_inject
  by (simp_all add: demo_codecs_def crates.defs hex_laws_def b58_laws_def key_laws_def sign_laws_def
      json_laws_def demo_crates_def)

definition demo_digest :: "char \<Rightarrow> digest" where
  "demo_digest c = Digest (''sha256:'' @ replicate 64 c)"

definition demo_blob :: "char \<Rightarrow> blob_ref" where
  "demo_blob c = \<lparr>br_digest = demo_digest c, br_hash = Blake3 (of_nat (of_char c)), br_size = 10,
     br_media_type = None\<rparr>"

definition demo_payload :: "u64 \<Rightarrow> char \<Rightarrow> release_payload" where
  "demo_payload t c = \<lparr>p_version = 0, p_publisher = PublicKey 3, p_name = ''web/app'', p_tag = ''1.0'',
     p_manifest = demo_blob c, p_blobs = [demo_blob (CHR ''0'')], p_timestamp = t, p_referrers = []\<rparr>"

definition demo_release :: "u64 \<Rightarrow> char \<Rightarrow> release" where
  "demo_release t c = release_sign demo_codecs 50 7 (demo_payload t c)"

lemma demo_names_ok: "name_ok ''web/app''" "tag_ok ''1.0''"
  by (simp_all add: name_ok_def tag_ok_def validate_name_def validate_tag_def name_component_ok_def
      name_char_def tag_char_def char_class_defs)

lemma demo_public: "sk_public demo_codecs k = PublicKey k"
  by (simp add: demo_codecs_def crates.defs demo_crates_def)

section \<open>Properties\<close>

text \<open>A release signed by a node verifies exactly when its name and tag are valid; it carries the
  node's own id whatever publisher the draft named, and keeps every other field of the draft, the
  timestamp being filled in only when it was zero.\<close>

theorem release_sign_verify:
  assumes "hex_laws K" "sign_laws K"
  shows "(is_ok (release_verify K (release_sign K now sk p)) \<longleftrightarrow> name_ok (p_name p) \<and> tag_ok (p_tag p))
    \<and> payload (release_sign K now sk p) = p\<lparr>p_version := release_version,
      p_publisher := sk_public K sk,
      p_timestamp := (if p_timestamp p = 0 then now else p_timestamp p)\<rparr>"
  using release_sign_verifies [OF assms] by (simp add: is_ok_iff release_sign_payload)

theorem release_sign_verify_witness:
  "is_ok (release_verify demo_codecs (demo_release 0 (CHR ''a'')))
   \<and> p_timestamp (payload (demo_release 0 (CHR ''a''))) = 50
   \<and> p_publisher (payload (demo_release 0 (CHR ''a''))) = PublicKey 7"
  using release_sign_verify [OF demo_codec_laws(1) demo_codec_laws(4), of 50 7 "demo_payload 0 (CHR ''a'')"]
  by (simp add: demo_release_def demo_payload_def demo_names_ok demo_public)


definition demo_strict :: "release_payload \<Rightarrow> codecs" where
  "demo_strict p = demo_codecs\<lparr>pk_verify := \<lambda>k m sig. m = code_payload p\<rparr>"


end
