(* ===== verification/Index.thy ===== *)
theory Index
  imports Release
begin

text \<open>
  \<^verbatim>\<open>crates/ocid-core/src/index.rs\<close> and \<open>write_atomic\<close> and \<open>choose_home\<close> of \<^verbatim>\<open>paths.rs\<close>: the index on
  disk. A file system is a table from paths, relative to the index directory, to entries: a
  directory, or a file with the value whose JSON it holds (serde reads back what it wrote).
  A path can be a file or a directory but not both, so an image name can clash with a tag file;
  this is the one way an operation fails here. The order of \<open>read_dir\<close> is the order of the table.
\<close>

section \<open>Files and directories\<close>

datatype entry = Directory | BlobFile blob_ref | ReleaseFile release | ReferrerFile referrer
  | OtherFile

type_synonym path = "string list"
type_synonym fs = "(path, entry) table"

fun mkdirs :: "path \<Rightarrow> path \<Rightarrow> fs \<Rightarrow> fs result" where
  "mkdirs d0 [] fs = Inr fs"
| "mkdirs d0 (c # cs) fs =
     (case tget fs (d0 @ [c]) of
        None \<Rightarrow> mkdirs (d0 @ [c]) cs (tput (d0 @ [c]) Directory fs)
      | Some Directory \<Rightarrow> mkdirs (d0 @ [c]) cs fs
      | Some _ \<Rightarrow> Inl Io_err)"

definition create_dir_all :: "path \<Rightarrow> fs \<Rightarrow> fs result" where
  "create_dir_all p fs = mkdirs [] p fs"

text \<open>Write to a temporary file beside the target and rename it over the target.\<close>

definition write_atomic :: "path \<Rightarrow> entry \<Rightarrow> fs \<Rightarrow> fs result" where
  "write_atomic p e fs =
     and_then (create_dir_all (butlast p) fs) (\<lambda>fs'.
     if tget fs' p = Some Directory then Inl Io_err else Inr (tput p e fs'))"

definition file_stem :: "string \<Rightarrow> string" where
  "file_stem name = (case rsplit_once CHR ''.'' name of
     Some (a, b) \<Rightarrow> if a = [] then name else a | None \<Rightarrow> name)"

definition extension :: "string \<Rightarrow> string option" where
  "extension name = (case rsplit_once CHR ''.'' name of
     Some (a, b) \<Rightarrow> if a = [] then None else Some b | None \<Rightarrow> None)"

definition read_dir :: "path \<Rightarrow> fs \<Rightarrow> (string \<times> entry) list" where
  "read_dir dir fs = map (\<lambda>(p, e). (last p, e)) (filter (\<lambda>(p, e). p \<noteq> [] \<and> butlast p = dir) fs)"

definition dir_empty :: "path \<Rightarrow> fs \<Rightarrow> bool" where
  "dir_empty dir fs \<longleftrightarrow> read_dir dir fs = []"

definition choose_home :: "('p \<Rightarrow> bool) \<Rightarrow> 'p \<Rightarrow> 'p \<Rightarrow> 'p" where
  "choose_home exists_at xdg legacy =
     (if exists_at xdg then xdg else if exists_at legacy then legacy else xdg)"

section \<open>Digests\<close>

definition digest_path :: "digest \<Rightarrow> path" where
  "digest_path d = [''digests'', digest_hex d @ ''.json'']"

definition blob_ref_get :: "fs \<Rightarrow> digest \<Rightarrow> blob_ref option result" where
  "blob_ref_get ix d = (case tget ix (digest_path d) of
     None \<Rightarrow> Inr None | Some (BlobFile r) \<Rightarrow> Inr (Some r) | Some _ \<Rightarrow> Inl Io_err)"

definition put_blob_ref :: "fs \<Rightarrow> blob_ref \<Rightarrow> fs result" where
  "put_blob_ref ix r = write_atomic (digest_path (br_digest r)) (BlobFile r) ix"

definition remove_blob_ref :: "fs \<Rightarrow> digest \<Rightarrow> fs \<times> bool result" where
  "remove_blob_ref ix d =
     (let p = digest_path d in
      case tget ix p of
        None \<Rightarrow> (ix, Inr False)
      | Some Directory \<Rightarrow> (ix, Inl Io_err)
      | Some _ \<Rightarrow> (tdel p ix, Inr True))"

definition blob_of_entry :: "string \<times> entry \<Rightarrow> blob_ref option" where
  "blob_of_entry x = (case x of (name, e) \<Rightarrow>
     if extension name = Some ''json''
     then (case e of BlobFile r \<Rightarrow> Some r | _ \<Rightarrow> None) else None)"

definition list_blob_refs :: "fs \<Rightarrow> blob_ref list" where
  "list_blob_refs ix = List.map_filter blob_of_entry (read_dir [''digests''] ix)"

definition is_indexed :: "fs \<Rightarrow> release \<Rightarrow> bool" where
  "is_indexed ix r = list_all (\<lambda>b. tget ix (digest_path (br_digest b)) \<noteq> None) (all_blobs r)"

section \<open>Referrers\<close>

definition referrers_dir :: "digest \<Rightarrow> path" where
  "referrers_dir subject = [''referrers'', digest_hex subject]"

definition put_referrer :: "fs \<Rightarrow> digest \<Rightarrow> referrer \<Rightarrow> fs result" where
  "put_referrer ix subject r =
     write_atomic (referrers_dir subject @ [digest_hex (rf_digest r) @ ''.json'']) (ReferrerFile r) ix"

definition referrer_of_entry :: "string \<times> entry \<Rightarrow> referrer option" where
  "referrer_of_entry x = (case x of (name, e) \<Rightarrow>
     if extension name = Some ''json''
     then (case e of ReferrerFile r \<Rightarrow> Some r | _ \<Rightarrow> None) else None)"

definition list_referrers :: "fs \<Rightarrow> digest \<Rightarrow> referrer list" where
  "list_referrers ix subject =
     sort_key rf_digest (List.map_filter referrer_of_entry (read_dir (referrers_dir subject) ix))"

definition referrer_live :: "fs \<Rightarrow> string \<Rightarrow> bool" where
  "referrer_live ix name =
     (let stem = file_stem name in
      length stem = 64 \<and> list_all is_lhex stem
      \<and> tget ix [''digests'', stem @ ''.json''] \<noteq> None)"

definition prune_entry :: "path \<Rightarrow> string \<times> entry \<Rightarrow> fs \<times> nat \<Rightarrow> fs \<times> nat" where
  "prune_entry dir x st =
     (if referrer_live (fst st) (fst x) then st
      else (if snd x = Directory then fst st else tdel (dir @ [fst x]) (fst st), Suc (snd st)))"

definition prune_subject :: "string \<times> entry \<Rightarrow> fs \<times> nat \<Rightarrow> fs \<times> nat" where
  "prune_subject x st =
     (if snd x \<noteq> Directory then st
      else let dir = [''referrers'', fst x];
               (ix', n') = fold (prune_entry dir) (read_dir dir (fst st)) st
           in (if dir_empty dir ix' then tdel dir ix' else ix', n'))"

definition prune_referrers :: "fs \<Rightarrow> fs \<times> nat" where
  "prune_referrers ix = fold prune_subject (read_dir [''referrers''] ix) (ix, 0)"

section \<open>Releases\<close>

definition release_dir :: "'z crates_scheme \<Rightarrow> public_key \<Rightarrow> string \<Rightarrow> path result" where
  "release_dir K publisher name =
     and_then (validate_name name) (\<lambda>_.
     Inr (''releases'' # pk_display K publisher # split_on CHR ''/'' name))"

definition release_path :: "'z crates_scheme \<Rightarrow> public_key \<Rightarrow> string \<Rightarrow> string \<Rightarrow> path result" where
  "release_path K publisher name tag =
     and_then (validate_tag tag) (\<lambda>_.
     and_then (release_dir K publisher name) (\<lambda>d. Inr (d @ [tag @ ''.json''])))"

definition get_release ::
  "'z crates_scheme \<Rightarrow> fs \<Rightarrow> public_key \<Rightarrow> string \<Rightarrow> string \<Rightarrow> release option result" where
  "get_release K ix publisher name tag =
     and_then (release_path K publisher name tag) (\<lambda>p.
     case tget ix p of
       None \<Rightarrow> Inr None | Some (ReleaseFile r) \<Rightarrow> Inr (Some r) | Some _ \<Rightarrow> Inl Io_err)"

fun put_referrers :: "fs \<Rightarrow> digest \<Rightarrow> referrer list \<Rightarrow> fs \<times> unit result" where
  "put_referrers ix subject [] = (ix, Inr ())"
| "put_referrers ix subject (r # rs) =
     (case put_referrer ix subject r of
        Inl e \<Rightarrow> (ix, Inl e) | Inr ix' \<Rightarrow> put_referrers ix' subject rs)"

definition put_release :: "'z crates_scheme \<Rightarrow> fs \<Rightarrow> release \<Rightarrow> fs \<times> bool result" where
  "put_release K ix r =
     (let p = payload r in
      case get_release K ix (p_publisher p) (p_name p) (p_tag p) of
        Inl e \<Rightarrow> (ix, Inl e)
      | Inr old \<Rightarrow>
          if (case old of Some ex \<Rightarrow> \<not> supersedes r ex | None \<Rightarrow> False) then (ix, Inr False)
          else
            (case and_then (release_path K (p_publisher p) (p_name p) (p_tag p)) (\<lambda>path.
                    write_atomic path (ReleaseFile r) ix) of
               Inl e \<Rightarrow> (ix, Inl e)
             | Inr ix' \<Rightarrow>
                 (case put_referrers ix' (br_digest (p_manifest p)) (p_referrers p) of
                    (ix'', Inl e) \<Rightarrow> (ix'', Inl e)
                  | (ix'', Inr _) \<Rightarrow> (ix'', Inr True))))"

function prune_up :: "path \<Rightarrow> fs \<Rightarrow> fs" where
  "prune_up d ix =
     (if d = [] \<or> d = [''releases''] then ix
      else if tget ix d = Some Directory \<and> dir_empty d ix then prune_up (butlast d) (tdel d ix)
      else ix)"
  by pat_completeness auto
termination by (relation "measure (\<lambda>(d, ix). length d)") auto

declare prune_up.simps [simp del]

definition remove_release ::
  "'z crates_scheme \<Rightarrow> fs \<Rightarrow> public_key \<Rightarrow> string \<Rightarrow> string \<Rightarrow> fs \<times> bool result" where
  "remove_release K ix publisher name tag =
     (case release_path K publisher name tag of
        Inl e \<Rightarrow> (ix, Inl e)
      | Inr p \<Rightarrow>
          (case tget ix p of
             None \<Rightarrow> (ix, Inr False)
           | Some Directory \<Rightarrow> (ix, Inl Io_err)
           | Some _ \<Rightarrow> (prune_up (butlast p) (tdel p ix), Inr True)))"

definition tag_of_entry :: "string \<times> entry \<Rightarrow> string option" where
  "tag_of_entry x = (case x of (name, e) \<Rightarrow>
     if e \<noteq> Directory \<and> extension name = Some ''json'' then Some (file_stem name) else None)"

definition list_tags :: "'z crates_scheme \<Rightarrow> fs \<Rightarrow> public_key \<Rightarrow> string \<Rightarrow> string list result" where
  "list_tags K ix publisher name =
     and_then (release_dir K publisher name) (\<lambda>dir.
     Inr (sort (List.map_filter tag_of_entry (read_dir dir ix))))"

definition walk_json :: "path \<Rightarrow> fs \<Rightarrow> entry list" where
  "walk_json dir ix = map snd (filter (\<lambda>(p, e). strict_prefix dir p \<and> e \<noteq> Directory
     \<and> extension (last p) = Some ''json'' \<and> \<not> prefix ''.'' (last p)) ix)"

definition release_of_entry :: "entry \<Rightarrow> release option" where
  "release_of_entry e = (case e of ReleaseFile r \<Rightarrow> Some r | _ \<Rightarrow> None)"

definition list_releases :: "'z crates_scheme \<Rightarrow> fs \<Rightarrow> release list" where
  "list_releases K ix =
     sort_key (reference K) (List.map_filter release_of_entry (walk_json [''releases''] ix))"

section \<open>Laws of the file operations\<close>

text \<open>The file at a path, a directory counting as no file.\<close>

definition file_at :: "fs \<Rightarrow> path \<Rightarrow> entry option" where
  "file_at fs p = (case tget fs p of Some e \<Rightarrow> if e = Directory then None else Some e | None \<Rightarrow> None)"

lemma file_at_Some_iff: "file_at fs p = Some e \<longleftrightarrow> tget fs p = Some e \<and> e \<noteq> Directory"
  by (auto simp: file_at_def split: option.splits if_splits)

lemma file_at_None_iff: "file_at fs p = None \<longleftrightarrow> tget fs p = None \<or> tget fs p = Some Directory"
  by (auto simp: file_at_def split: option.splits)

lemma mkdirs_get:
  "mkdirs d cs fs = Inr fs' \<Longrightarrow>
   (table_ok fs \<longrightarrow> table_ok fs') \<and>
   (\<forall>q. q \<noteq> [] \<and> prefix q cs \<longrightarrow> tget fs (d @ q) \<in> {None, Some Directory}) \<and>
   (\<forall>p. tget fs' p = (if \<exists>q. q \<noteq> [] \<and> prefix q cs \<and> p = d @ q then Some Directory else tget fs p))"
proof (induction cs arbitrary: d fs)
  case Nil
  then show ?case by simp
next
  case (Cons c cs)
  let ?d = "d @ [c]"
  let ?fs = "if tget fs ?d = None then tput ?d Directory fs else fs"
  have free: "tget fs ?d \<in> {None, Some Directory}" and step: "mkdirs ?d cs ?fs = Inr fs'"
    using Cons.prems by (auto split: option.splits entry.splits)
  have sub: "(\<exists>q. q \<noteq> [] \<and> prefix q (c # cs) \<and> p = d @ q)
      \<longleftrightarrow> p = ?d \<or> (\<exists>q. q \<noteq> [] \<and> prefix q cs \<and> p = ?d @ q)" for p
    by (auto simp: prefix_Cons)
  note IH = Cons.IH [OF step]
  have "tget ?fs p = (if p = ?d then Some Directory else tget fs p)" for p
    using free by auto
  then have "tget fs' p = (if \<exists>q. q \<noteq> [] \<and> prefix q (c # cs) \<and> p = d @ q then Some Directory else tget fs p)" for p
    using IH unfolding sub by auto
  moreover have "tget fs (d @ q) \<in> {None, Some Directory}" if "q \<noteq> []" "prefix q (c # cs)" for q
  proof (cases "d @ q = ?d")
    case False
    with that obtain q' where "q = c # q'" "q' \<noteq> []" "prefix q' cs"
      by (auto simp: prefix_Cons)
    with IH False show ?thesis by (auto split: if_splits)
  qed (use free in simp)
  ultimately show ?case using IH by (auto split: if_splits)
qed

lemma mkdirs_ok_iff:
  "(\<exists>fs'. mkdirs d cs fs = Inr fs') \<longleftrightarrow>
   (\<forall>q. q \<noteq> [] \<and> prefix q cs \<longrightarrow> tget fs (d @ q) \<in> {None, Some Directory})"
proof
  assume "\<forall>q. q \<noteq> [] \<and> prefix q cs \<longrightarrow> tget fs (d @ q) \<in> {None, Some Directory}"
  then show "\<exists>fs'. mkdirs d cs fs = Inr fs'"
  proof (induction cs arbitrary: d fs)
    case (Cons c cs)
    have free: "tget fs (d @ [c]) \<in> {None, Some Directory}"
      using Cons.prems [rule_format, of "[c]"] by simp
    have "tget fs ((d @ [c]) @ q) \<in> {None, Some Directory}" if "q \<noteq> [] \<and> prefix q cs" for q
      using Cons.prems [rule_format, of "c # q"] that by simp
    then have "\<forall>q. q \<noteq> [] \<and> prefix q cs \<longrightarrow>
        tget (if tget fs (d @ [c]) = None then tput (d @ [c]) Directory fs else fs) ((d @ [c]) @ q)
          \<in> {None, Some Directory}"
      by auto
    from Cons.IH [OF this] free show ?case
      by (auto split: option.splits)
  qed simp
qed (use mkdirs_get in blast)

lemma prefix_butlast_iff: "p \<noteq> [] \<Longrightarrow> prefix q (butlast p) \<longleftrightarrow> strict_prefix q p"
  by (metis append_butlast_last_id prefix_snoc strict_prefix_def prefix_order.dual_order.strict_iff_order
      not_Cons_self2 append_self_conv prefix_order.antisym prefixI)

lemma write_atomic_get:
  assumes "write_atomic p e fs = Inr fs'" "p \<noteq> []"
  shows "tget fs' q = (if q = p then Some e
           else if q \<noteq> [] \<and> strict_prefix q p then Some Directory else tget fs q)"
    and "q \<noteq> [] \<and> strict_prefix q p \<Longrightarrow> tget fs q \<in> {None, Some Directory}"
    and "tget fs p \<noteq> Some Directory"
    and "table_ok fs \<Longrightarrow> table_ok fs'"
proof -
  from assms(1) obtain fs1 where dirs: "mkdirs [] (butlast p) fs = Inr fs1"
    and nd: "tget fs1 p \<noteq> Some Directory" and fs': "fs' = tput p e fs1"
    by (auto simp: write_atomic_def create_dir_all_def split: if_splits)
  note get = mkdirs_get [OF dirs, unfolded append_Nil]
  have get1: "tget fs1 q = (if q \<noteq> [] \<and> strict_prefix q p then Some Directory else tget fs q)" for q
    using get prefix_butlast_iff [OF assms(2)] by auto
  show "tget fs' q = (if q = p then Some e
           else if q \<noteq> [] \<and> strict_prefix q p then Some Directory else tget fs q)"
    using get1 by (simp add: fs')
  show "q \<noteq> [] \<and> strict_prefix q p \<Longrightarrow> tget fs q \<in> {None, Some Directory}"
    using get prefix_butlast_iff [OF assms(2)] by auto
  show "tget fs p \<noteq> Some Directory"
    using nd get1 [of p] by (simp split: if_splits)
  show "table_ok fs \<Longrightarrow> table_ok fs'"
    using get by (simp add: fs')
qed

lemma write_atomic_ok_iff:
  assumes "p \<noteq> []"
  shows "is_ok (write_atomic p e fs) \<longleftrightarrow> tget fs p \<noteq> Some Directory
    \<and> (\<forall>q. q \<noteq> [] \<and> strict_prefix q p \<longrightarrow> tget fs q \<in> {None, Some Directory})"
proof
  assume "is_ok (write_atomic p e fs)"
  then show "tget fs p \<noteq> Some Directory
    \<and> (\<forall>q. q \<noteq> [] \<and> strict_prefix q p \<longrightarrow> tget fs q \<in> {None, Some Directory})"
    using write_atomic_get [OF _ assms] unfolding is_ok_iff by blast
next
  assume free: "tget fs p \<noteq> Some Directory
    \<and> (\<forall>q. q \<noteq> [] \<and> strict_prefix q p \<longrightarrow> tget fs q \<in> {None, Some Directory})"
  then obtain fs1 where dirs: "mkdirs [] (butlast p) fs = Inr fs1"
    using mkdirs_ok_iff [of "[]" "butlast p" fs] prefix_butlast_iff [OF assms] by auto
  moreover have "tget fs1 p \<noteq> Some Directory"
  proof -
    have "\<not> prefix p (butlast p)" using prefix_butlast_iff [OF assms, of p] by simp
    then show ?thesis using mkdirs_get [OF dirs] free by auto
  qed
  ultimately show "is_ok (write_atomic p e fs)"
    by (simp add: write_atomic_def create_dir_all_def)
qed

lemma write_atomic_succeeds:
  assumes "p \<noteq> []" "tget fs p \<noteq> Some Directory"
    "\<And>q. q \<noteq> [] \<and> strict_prefix q p \<Longrightarrow> tget fs q \<in> {None, Some Directory}"
  shows "\<exists>fs'. write_atomic p e fs = Inr fs'"
  using write_atomic_ok_iff [OF assms(1)] assms(2,3) unfolding is_ok_iff by blast

lemma file_at_write:
  assumes "write_atomic p e fs = Inr fs'" "p \<noteq> []" "e \<noteq> Directory"
  shows "file_at fs' q = (if q = p then Some e else file_at fs q)"
  using write_atomic_get(1,2) [OF assms(1,2), of q] assms(3)
  by (auto simp: file_at_def split: if_splits)

lemma file_at_tdel:
  "file_at (tdel p fs) q = (if q = p then None else file_at fs q)"
  by (simp add: file_at_def)

section \<open>The layout of the index\<close>

definition slot_path :: "'z crates_scheme \<Rightarrow> slot \<Rightarrow> path" where
  "slot_path K s = (case s of (p, n, t) \<Rightarrow>
     ''releases'' # pk_display K p # split_on CHR ''/'' n @ [t @ ''.json''])"

definition referrer_path :: "digest \<Rightarrow> digest \<Rightarrow> path" where
  "referrer_path subject d = referrers_dir subject @ [digest_hex d @ ''.json'']"

fun placed :: "'z crates_scheme \<Rightarrow> path \<Rightarrow> entry \<Rightarrow> bool" where
  "placed K p Directory \<longleftrightarrow> (\<exists>a q. p = a # q \<and> (a = ''digests'' \<longrightarrow> q = []) \<and> (a = ''referrers'' \<longrightarrow> length q \<le> 1))"
| "placed K p (BlobFile b) \<longleftrightarrow> digest_ok (br_digest b) \<and> p = digest_path (br_digest b)"
| "placed K p (ReleaseFile r) \<longleftrightarrow> slot_ok r \<and> p = slot_path K (slot_of r)"
| "placed K p (ReferrerFile f) \<longleftrightarrow> digest_ok (rf_digest f)
     \<and> (\<exists>s. digest_ok s \<and> p = referrer_path s (rf_digest f))"
| "placed K p OtherFile \<longleftrightarrow> False"

definition index_ok :: "'z crates_scheme \<Rightarrow> fs \<Rightarrow> bool" where
  "index_ok K ix \<longleftrightarrow> table_ok ix
     \<and> (\<forall>p e. tget ix p = Some e \<longrightarrow> placed K p e
          \<and> (length p \<ge> 2 \<longrightarrow> tget ix (butlast p) = Some Directory))
     \<and> tget ix [''digests''] = Some Directory \<and> tget ix [''releases''] = Some Directory"

definition blob_at :: "fs \<Rightarrow> digest \<Rightarrow> blob_ref option" where
  "blob_at ix d = (case file_at ix (digest_path d) of Some (BlobFile b) \<Rightarrow> Some b | _ \<Rightarrow> None)"

definition release_at :: "'z crates_scheme \<Rightarrow> fs \<Rightarrow> slot \<Rightarrow> release option" where
  "release_at K ix s = (case file_at ix (slot_path K s) of Some (ReleaseFile r) \<Rightarrow> Some r | _ \<Rightarrow> None)"

definition referrer_at :: "fs \<Rightarrow> digest \<Rightarrow> digest \<Rightarrow> referrer option" where
  "referrer_at ix s d = (case file_at ix (referrer_path s d) of Some (ReferrerFile f) \<Rightarrow> Some f | _ \<Rightarrow> None)"

text \<open>The fresh index that \<open>ensure_dirs\<close> leaves.\<close>

definition empty_index :: fs where
  "empty_index = [([''digests''], Directory), ([''releases''], Directory)]"

lemma index_okD:
  assumes "index_ok K ix"
  shows "table_ok ix" "tget ix p = Some e \<Longrightarrow> placed K p e"
    "tget ix p = Some e \<Longrightarrow> length p \<ge> 2 \<Longrightarrow> tget ix (butlast p) = Some Directory"
    "tget ix [''digests''] = Some Directory" "tget ix [''releases''] = Some Directory"
  using assms by (auto simp: index_ok_def)

lemma empty_index_ok: "index_ok K empty_index"
  by (auto simp: index_ok_def empty_index_def table_ok_def tget_def split: if_splits)

lemma slot_path_inject:
  assumes "key_laws K"
  shows "slot_path K s = slot_path K s' \<longleftrightarrow> s = s'"
  by (cases s; cases s') (auto simp: slot_path_def pk_display_inject [OF assms] split_on_inject)

lemma path_heads:
  "\<exists>q. digest_path d = ''digests'' # q" "\<exists>q. slot_path K s = ''releases'' # q"
  "\<exists>q. referrer_path a b = ''referrers'' # q"
  by (auto simp: digest_path_def slot_path_def referrer_path_def referrers_dir_def split: prod.split)

lemma path_neq [simp]:
  "digest_path d \<noteq> slot_path K s" "slot_path K s \<noteq> digest_path d"
  "digest_path d \<noteq> referrer_path a b" "referrer_path a b \<noteq> digest_path d"
  "slot_path K s \<noteq> referrer_path a b" "referrer_path a b \<noteq> slot_path K s"
  "digest_path d \<noteq> []" "slot_path K s \<noteq> []" "referrer_path a b \<noteq> []"
  by (auto simp: digest_path_def slot_path_def referrer_path_def referrers_dir_def split: prod.split)

lemma digest_path_inject: "digest_ok d \<Longrightarrow> digest_ok e \<Longrightarrow> digest_path d = digest_path e \<longleftrightarrow> d = e"
  by (simp add: digest_path_def digest_hex_inject)

lemma referrer_path_inject:
  "digest_ok a \<Longrightarrow> digest_ok b \<Longrightarrow> digest_ok c \<Longrightarrow> digest_ok d \<Longrightarrow>
   referrer_path a b = referrer_path c d \<longleftrightarrow> a = c \<and> b = d"
  by (auto simp: referrer_path_def referrers_dir_def digest_hex_inject)

lemma release_path_Inr_iff:
  "release_path K p n t = Inr path \<longleftrightarrow> tag_ok t \<and> name_ok n \<and> path = slot_path K (p, n, t)"
  by (auto simp: release_path_def release_dir_def slot_path_def)

text \<open>What the file at a place of the layout can be.\<close>

lemma file_at_placed: "index_ok K ix \<Longrightarrow> file_at ix p = Some e \<Longrightarrow> placed K p e \<and> e \<noteq> Directory"
  using index_okD(2) by (auto simp: file_at_Some_iff)

lemma blob_at_iff:
  assumes "index_ok K ix"
  shows "blob_at ix d = Some b \<longleftrightarrow> tget ix (digest_path d) = Some (BlobFile b)"
  by (auto simp: blob_at_def file_at_def split: option.splits entry.splits if_splits)

lemma digest_entry:
  assumes "index_ok K ix"
  shows "tget ix (digest_path d) = map_option BlobFile (blob_at ix d)"
proof (cases "tget ix (digest_path d)")
  case None
  then show ?thesis by (simp add: blob_at_def file_at_def)
next
  case (Some e)
  with index_okD(2) [OF assms] have "placed K (digest_path d) e" by blast
  then have "\<exists>b. e = BlobFile b"
    by (cases e) (auto simp: digest_path_def slot_path_def referrer_path_def referrers_dir_def
        split: prod.splits)
  with Some show ?thesis by (auto simp: blob_at_def file_at_def)
qed

lemma blob_at_digest:
  assumes "index_ok K ix" "blob_at ix d = Some b" "digest_ok d"
  shows "br_digest b = d"
proof -
  have "placed K (digest_path d) (BlobFile b)"
    using assms(2) index_okD(2) [OF assms(1)] by (metis blob_at_iff [OF assms(1)])
  with assms(3) show ?thesis by (auto simp: digest_path_inject)
qed

lemma release_at_slot:
  assumes "index_ok K ix" "key_laws K" "release_at K ix s = Some r"
  shows "slot_of r = s \<and> slot_ok r"
proof -
  have "file_at ix (slot_path K s) = Some (ReleaseFile r)"
    using assms(3) by (auto simp: release_at_def split: option.splits entry.splits)
  from file_at_placed [OF assms(1) this] show ?thesis
    by (simp add: slot_path_inject [OF assms(2)])
qed

lemma slot_file:
  assumes "index_ok K ix"
  shows "file_at ix (slot_path K s) = map_option ReleaseFile (release_at K ix s)"
proof (cases "file_at ix (slot_path K s)")
  case None
  then show ?thesis by (simp add: release_at_def)
next
  case (Some e)
  from file_at_placed [OF assms this] have "\<exists>r. e = ReleaseFile r"
    by (cases e) (auto dest!: path_neq [THEN notE, rotated])
  with Some show ?thesis by (auto simp: release_at_def)
qed

lemma referrer_file:
  assumes "index_ok K ix"
  shows "tget ix (referrer_path a b) = map_option ReferrerFile (referrer_at ix a b)"
proof (cases "tget ix (referrer_path a b)")
  case None
  then show ?thesis by (simp add: referrer_at_def file_at_def)
next
  case (Some e)
  with index_okD(2) [OF assms] have "placed K (referrer_path a b) e" by blast
  then have "\<exists>f. e = ReferrerFile f"
    by (cases e) (auto simp: digest_path_def slot_path_def referrer_path_def referrers_dir_def
        split: prod.splits)
  with Some show ?thesis by (auto simp: referrer_at_def file_at_def)
qed

section \<open>Every operation keeps the layout\<close>

lemma write_keeps_layout:
  assumes ok: "index_ok K ix" and "placed K p e" "e \<noteq> Directory" and len: "length p \<ge> 2"
    and dirs: "\<And>q. q \<noteq> [] \<Longrightarrow> strict_prefix q p \<Longrightarrow> placed K q Directory"
    and w: "write_atomic p e ix = Inr ix'"
  shows "index_ok K ix'"
proof -
  have ne: "p \<noteq> []" using len by auto
  note get = write_atomic_get(1) [OF w ne]
  have not_dir: "tget ix p \<noteq> Some Directory" by (rule write_atomic_get(3) [OF w ne])
  have up: "butlast q \<noteq> [] \<and> strict_prefix (butlast q) p" if "prefix q p" "length q \<ge> 2" for q
  proof -
    have "q \<noteq> []" "butlast q \<noteq> []" using that(2) by (cases q; auto)+
    then have "strict_prefix (butlast q) q"
      by (metis prefix_butlast_iff prefix_order.order_refl)
    with that(1) \<open>butlast q \<noteq> []\<close> show ?thesis
      by (simp add: prefix_order.less_le_trans)
  qed
  have "placed K q f \<and> (length q \<ge> 2 \<longrightarrow> tget ix' (butlast q) = Some Directory)"
    if q: "tget ix' q = Some f" for q f
  proof (cases "prefix q p \<and> q \<noteq> []")
    case True
    then have f: "placed K q f"
      using q get [of q] assms(2) dirs [of q] by (auto simp: strict_prefix_def split: if_splits)
    have "tget ix' (butlast q) = Some Directory" if "length q \<ge> 2"
      using up [of q] True that get [of "butlast q"] by auto
    with f show ?thesis by simp
  next
    case False
    then have old: "tget ix q = Some f"
      using q get [of q] ne by (auto simp: strict_prefix_def split: if_splits)
    have "tget ix' (butlast q) = Some Directory" if "length q \<ge> 2"
      using index_okD(3) [OF ok old that] not_dir get [of "butlast q"] by auto
    with index_okD(2) [OF ok old] show ?thesis by simp
  qed
  moreover have "tget ix' [a] = Some Directory" if "tget ix [a] = Some Directory" for a
    using that get [of "[a]"] len not_dir by auto
  ultimately show ?thesis
    using index_okD(1,4,5) [OF ok] write_atomic_get(4) [OF w ne] by (simp add: index_ok_def)
qed

lemma dirs_of_digest: "q \<noteq> [] \<Longrightarrow> strict_prefix q (digest_path d) \<Longrightarrow> q = [''digests'']"
  by (auto simp: digest_path_def strict_prefix_def prefix_Cons)

lemma dirs_of_slot: "q \<noteq> [] \<Longrightarrow> strict_prefix q (slot_path K s) \<Longrightarrow> \<exists>r. q = ''releases'' # r"
  by (auto simp: slot_path_def strict_prefix_def prefix_Cons split: prod.splits)

lemma dirs_of_referrer:
  "q \<noteq> [] \<Longrightarrow> strict_prefix q (referrer_path a b) \<Longrightarrow>
     q = [''referrers''] \<or> q = [''referrers'', digest_hex a]"
  by (auto simp: referrer_path_def referrers_dir_def strict_prefix_def prefix_Cons)

lemma length_paths: "2 \<le> length (digest_path d)" "2 \<le> length (slot_path K s)" "2 \<le> length (referrer_path a b)"
  by (simp_all add: digest_path_def slot_path_def referrer_path_def referrers_dir_def split: prod.split)

lemma dirs_placed:
  "q \<noteq> [] \<Longrightarrow> strict_prefix q (digest_path d) \<Longrightarrow> placed K q Directory"
  "q \<noteq> [] \<Longrightarrow> strict_prefix q (slot_path K s) \<Longrightarrow> placed K q Directory"
  "q \<noteq> [] \<Longrightarrow> strict_prefix q (referrer_path a b) \<Longrightarrow> placed K q Directory"
  using dirs_of_digest [of q d] dirs_of_slot [of q K s] dirs_of_referrer [of q a b] by auto

lemma put_blob_ref_spec:
  assumes "index_ok K ix" "digest_ok (br_digest r)"
  obtains ix' where "put_blob_ref ix r = Inr ix'" "index_ok K ix'"
    "\<And>q. file_at ix' q = (if q = digest_path (br_digest r) then Some (BlobFile r) else file_at ix q)"
proof -
  let ?p = "digest_path (br_digest r)"
  have "tget ix ?p \<noteq> Some Directory" using digest_entry [OF assms(1)] by simp
  moreover have "tget ix q \<in> {None, Some Directory}" if "q \<noteq> [] \<and> strict_prefix q ?p" for q
    using dirs_of_digest that index_okD(4) [OF assms(1)] by auto
  ultimately obtain ix' where w: "write_atomic ?p (BlobFile r) ix = Inr ix'"
    using write_atomic_succeeds [of ?p ix] by (metis path_neq(7,9))
  have "index_ok K ix'"
    by (rule write_keeps_layout [OF assms(1) _ _ _ dirs_placed(1) w])
       (use assms(2) length_paths in simp_all)
  moreover have "file_at ix' q = (if q = ?p then Some (BlobFile r) else file_at ix q)" for q
    using file_at_write [OF w] by simp
  ultimately show ?thesis using that w by (simp add: put_blob_ref_def)
qed

lemma put_referrer_spec:
  assumes "index_ok K ix" "digest_ok s" "digest_ok (rf_digest r)"
  obtains ix' where "put_referrer ix s r = Inr ix'" "index_ok K ix'"
    "\<And>q. file_at ix' q = (if q = referrer_path s (rf_digest r) then Some (ReferrerFile r) else file_at ix q)"
proof -
  let ?p = "referrer_path s (rf_digest r)"
  have "tget ix ?p \<noteq> Some Directory" using referrer_file [OF assms(1)] by simp
  moreover have "tget ix q \<in> {None, Some Directory}" if "q \<noteq> [] \<and> strict_prefix q ?p" for q
  proof (cases "tget ix q")
    case (Some e)
    with index_okD(2) [OF assms(1)] have "placed K q e" by blast
    with dirs_of_referrer that have "e = Directory"
      by (cases e) (auto simp: digest_path_def slot_path_def referrer_path_def referrers_dir_def
        split: prod.splits)
    with Some show ?thesis by simp
  qed simp
  ultimately obtain ix' where w: "write_atomic ?p (ReferrerFile r) ix = Inr ix'"
    using write_atomic_succeeds [of ?p ix] by (metis path_neq(7,9))
  have "index_ok K ix'"
    by (rule write_keeps_layout [OF assms(1) _ _ _ dirs_placed(3) w])
       (use assms(2,3) length_paths in auto)
  moreover have "file_at ix' q = (if q = ?p then Some (ReferrerFile r) else file_at ix q)" for q
    using file_at_write [OF w] by simp
  ultimately show ?thesis using that w by (simp add: put_referrer_def referrer_path_def)
qed

lemma put_referrers_spec:
  assumes "index_ok K ix" "digest_ok s" "list_all (\<lambda>r. digest_ok (rf_digest r)) rs"
  shows "\<exists>ix'. put_referrers ix s rs = (ix', Inr ()) \<and> index_ok K ix'
    \<and> (\<forall>q. (\<nexists>d. q = referrer_path s d) \<longrightarrow> file_at ix' q = file_at ix q)"
  using assms(1,3)
proof (induction rs arbitrary: ix)
  case Nil
  then show ?case by simp
next
  case (Cons r rs)
  obtain ix1 where ix1: "put_referrer ix s r = Inr ix1" "index_ok K ix1"
    "\<And>q. file_at ix1 q = (if q = referrer_path s (rf_digest r) then Some (ReferrerFile r) else file_at ix q)"
    using put_referrer_spec [OF Cons.prems(1) assms(2), of r] Cons.prems(2) by auto
  from Cons.IH [OF ix1(2)] Cons.prems(2) ix1 show ?case by auto
qed

section \<open>Releases: put, get, remove\<close>

definition digests_ok :: "release \<Rightarrow> bool" where
  "digests_ok r \<longleftrightarrow> list_all (\<lambda>b. digest_ok (br_digest b)) (all_blobs r)
     \<and> list_all (\<lambda>f. digest_ok (rf_digest f)) (p_referrers (payload r))"

lemma file_views:
  assumes "\<And>q. (\<nexists>d. q = referrer_path s d) \<Longrightarrow> file_at ix' q = file_at ix q"
  shows "blob_at ix' d = blob_at ix d" "release_at K ix' sl = release_at K ix sl"
  using assms by (simp_all add: blob_at_def release_at_def)

lemma get_release_spec:
  assumes "index_ok K ix" "get_release K ix p n t = Inr m"
  shows "m = release_at K ix (p, n, t) \<and> name_ok n \<and> tag_ok t"
proof -
  from assms(2) have ok: "tag_ok t" "name_ok n"
    and m: "(case tget ix (slot_path K (p, n, t)) of None \<Rightarrow> Inr None
       | Some (ReleaseFile r) \<Rightarrow> Inr (Some r) | Some _ \<Rightarrow> Inl Io_err) = Inr m"
    by (auto simp: get_release_def release_path_Inr_iff)
  then show ?thesis
    by (auto simp: release_at_def file_at_def split: option.splits entry.splits)
qed

lemma get_release_found:
  assumes "release_at K ix (p, n, t) = Some r" "name_ok n" "tag_ok t"
  shows "get_release K ix p n t = Inr (Some r)"
proof -
  have "release_path K p n t = Inr (slot_path K (p, n, t))"
    using assms(2,3) by (simp add: release_path_Inr_iff)
  with assms(1) show ?thesis
    by (auto simp: get_release_def release_at_def file_at_def split: option.splits entry.splits if_splits)
qed

text \<open>What a stored release changes: its own place, nothing else.\<close>

lemma put_release_spec:
  assumes ok: "index_ok K ix" and keys: "key_laws K" and dig: "digests_ok r"
    and put: "put_release K ix r = (ix', res)"
  shows "index_ok K ix'
    \<and> (\<forall>d. blob_at ix' d = blob_at ix d)
    \<and> (\<forall>s. release_at K ix' s = (if res = Inr True \<and> s = slot_of r then Some r else release_at K ix s))
    \<and> (\<forall>b. res = Inr b \<longrightarrow> slot_ok r
          \<and> (b \<longleftrightarrow> (\<forall>ex. release_at K ix (slot_of r) = Some ex \<longrightarrow> supersedes r ex)))"
proof -
  let ?p = "payload r"
  let ?path = "slot_path K (slot_of r)"
  show ?thesis
  proof (cases "get_release K ix (p_publisher ?p) (p_name ?p) (p_tag ?p)")
    case (Inl e)
    with put ok show ?thesis by (auto simp: put_release_def Let_def)
  next
    case (Inr old)
    from get_release_spec [OF ok Inr] have old: "old = release_at K ix (slot_of r)" and sl: "slot_ok r"
      by (simp_all add: slot_of_def slot_ok_def)
    have path: "release_path K (p_publisher ?p) (p_name ?p) (p_tag ?p) = Inr ?path"
      using sl by (simp add: release_path_Inr_iff slot_ok_def slot_of_def)
    show ?thesis
    proof (cases "case old of Some ex \<Rightarrow> \<not> supersedes r ex | None \<Rightarrow> False")
      case True
      with put Inr old sl ok show ?thesis
        by (auto simp: put_release_def Let_def split: option.splits)
    next
      case new: False
      show ?thesis
      proof (cases "write_atomic ?path (ReleaseFile r) ix")
        case (Inl e)
        with put Inr new path ok show ?thesis by (auto simp: put_release_def Let_def)
      next
        case w: (Inr ix1)
        have ok1: "index_ok K ix1"
          by (rule write_keeps_layout [OF ok _ _ _ dirs_placed(2) w])
             (use sl length_paths in simp_all)
        from put_referrers_spec [OF ok1, of "br_digest (p_manifest ?p)" "p_referrers ?p"] dig
        obtain ix2 where refs: "put_referrers ix1 (br_digest (p_manifest ?p)) (p_referrers ?p) = (ix2, Inr ())"
          and ok2: "index_ok K ix2"
          and same: "\<And>q. (\<nexists>d. q = referrer_path (br_digest (p_manifest ?p)) d) \<Longrightarrow> file_at ix2 q = file_at ix1 q"
          by (auto simp: digests_ok_def all_blobs_def)
        have res: "ix' = ix2" "res = Inr True"
          using put Inr new path w refs by (auto simp: put_release_def Let_def)
        have file1: "file_at ix1 q = (if q = ?path then Some (ReleaseFile r) else file_at ix q)" for q
          using file_at_write [OF w] by simp
        have "blob_at ix2 d = blob_at ix d" for d
        proof -
          have "blob_at ix2 d = blob_at ix1 d"
            by (rule file_views(1)) (rule same)
          then show ?thesis using file1 by (simp add: blob_at_def)
        qed
        moreover have "release_at K ix2 s = (if s = slot_of r then Some r else release_at K ix s)" for s
        proof -
          have "release_at K ix2 s = release_at K ix1 s"
            by (rule file_views(2)) (rule same)
          then show ?thesis
            using file1 slot_path_inject [OF keys] by (simp add: release_at_def)
        qed
        ultimately show ?thesis
          using res ok2 sl old new by (auto split: option.splits)
      qed
    qed
  qed
qed

lemma prune_up_files: "file_at (prune_up d ix) q = file_at ix q"
proof (induction d ix rule: prune_up.induct)
  case (1 d ix)
  show ?case
  proof (cases "d \<noteq> [] \<and> d \<noteq> [''releases''] \<and> tget ix d = Some Directory \<and> dir_empty d ix")
    case True
    then have "prune_up d ix = prune_up (butlast d) (tdel d ix)"
      by (simp add: prune_up.simps [of d])
    moreover have "file_at (tdel d ix) q = file_at ix q"
      using True by (auto simp: file_at_def)
    ultimately show ?thesis using "1.IH" True by simp
  next
    case False
    then show ?thesis by (subst prune_up.simps) auto
  qed
qed

lemma dir_empty_iff: "dir_empty d ix \<longleftrightarrow> (\<forall>p. p \<noteq> [] \<and> butlast p = d \<longrightarrow> tget ix p = None)"
proof -
  have "dir_empty d ix \<longleftrightarrow> (\<forall>p \<in> fst ` set ix. \<not> (p \<noteq> [] \<and> butlast p = d))"
    by (simp add: dir_empty_def read_dir_def filter_empty_conv case_prod_unfold)
  then show ?thesis
    unfolding tget_def map_of_eq_None_iff by blast
qed

lemma tdel_keeps_layout:
  assumes "index_ok K ix" "\<forall>q. butlast q = p \<and> length q \<ge> 2 \<longrightarrow> tget ix q = None"
    "p \<noteq> [''digests'']" "p \<noteq> [''releases'']"
  shows "index_ok K (tdel p ix)"
  using index_okD [OF assms(1)] assms(2-4) by (auto simp: index_ok_def)

lemma file_has_no_children:
  assumes "index_ok K ix" "tget ix p = Some e" "e \<noteq> Directory"
  shows "\<forall>q. butlast q = p \<and> length q \<ge> 2 \<longrightarrow> tget ix q = None"
  using index_okD(3) [OF assms(1)] assms(2,3) by (metis not_None_eq option.inject)

lemma prune_up_layout:
  "index_ok K ix \<Longrightarrow> \<exists>q. d = [] \<or> d = ''releases'' # q \<Longrightarrow> index_ok K (prune_up d ix)"
proof (induction d ix rule: prune_up.induct)
  case (1 d ix)
  show ?case
  proof (cases "d \<noteq> [] \<and> d \<noteq> [''releases''] \<and> tget ix d = Some Directory \<and> dir_empty d ix")
    case True
    have "index_ok K (tdel d ix)"
    proof (rule tdel_keeps_layout [OF "1.prems"(1)])
      have "\<forall>p. p \<noteq> [] \<and> butlast p = d \<longrightarrow> tget ix p = None"
        using True dir_empty_iff by blast
      then show "\<forall>q. butlast q = d \<and> 2 \<le> length q \<longrightarrow> tget ix q = None"
        by (metis list.size(3) not_numeral_le_zero)
    qed (use True "1.prems"(2) in auto)
    moreover have "\<exists>q. butlast d = [] \<or> butlast d = ''releases'' # q"
      using "1.prems"(2) True by (metis butlast.simps(2))
    ultimately have "index_ok K (prune_up (butlast d) (tdel d ix))"
      using "1.IH" True by blast
    with True show ?thesis by (subst prune_up.simps) simp
  next
    case False
    with "1.prems" show ?thesis by (subst prune_up.simps) auto
  qed
qed

lemma remove_release_spec:
  assumes ok: "index_ok K ix" and keys: "key_laws K"
    and rm: "remove_release K ix p n t = (ix', res)"
  shows "index_ok K ix'
    \<and> (\<forall>d. blob_at ix' d = blob_at ix d)
    \<and> (\<forall>s. release_at K ix' s = (if res = Inr True \<and> s = (p, n, t) then None else release_at K ix s))
    \<and> (\<forall>b. res = Inr b \<longrightarrow> name_ok n \<and> tag_ok t \<and> (b \<longleftrightarrow> release_at K ix (p, n, t) \<noteq> None))"
proof (cases "release_path K p n t")
  case (Inl e)
  with rm ok show ?thesis by (auto simp: remove_release_def)
next
  case (Inr path)
  then have path: "path = slot_path K (p, n, t)" "tag_ok t" "name_ok n"
    by (simp_all add: release_path_Inr_iff)
  show ?thesis
  proof (cases "file_at ix path")
    case None
    then have "release_at K ix (p, n, t) = None" by (simp add: release_at_def path(1))
    moreover have "(ix', res) = (ix, Inr False) \<or> (ix', res) = (ix, Inl Io_err)"
      using rm Inr None by (auto simp: remove_release_def file_at_None_iff)
    ultimately show ?thesis using ok path by auto
  next
    case (Some f)
    from file_at_placed [OF ok Some] path have "\<exists>r. f = ReleaseFile r"
      using slot_file [OF ok, of "(p, n, t)"] Some by auto
    then have out: "ix' = prune_up (butlast path) (tdel path ix)" "res = Inr True"
      using rm Inr Some by (auto simp: remove_release_def file_at_Some_iff split: entry.splits)
    have "index_ok K (tdel path ix)"
    proof (rule tdel_keeps_layout [OF ok])
      show "\<forall>q. butlast q = path \<and> length q \<ge> 2 \<longrightarrow> tget ix q = None"
        using file_has_no_children [OF ok, of path f] Some unfolding file_at_Some_iff by blast
      show "path \<noteq> [''digests'']" "path \<noteq> [''releases'']"
        by (simp_all add: path(1) slot_path_def)
    qed
    moreover have "\<exists>q. butlast path = [] \<or> butlast path = ''releases'' # q"
      by (simp add: path(1) slot_path_def)
    ultimately have "index_ok K ix'"
      using prune_up_layout out(1) by simp
    moreover have "file_at ix' q = (if q = path then None else file_at ix q)" for q
      by (simp add: out(1) prune_up_files file_at_tdel)
    ultimately show ?thesis
      using out path slot_path_inject [OF keys] Some \<open>\<exists>r. f = ReleaseFile r\<close>
      by (auto simp: release_at_def blob_at_def)
  qed
qed

lemma remove_blob_ref_spec:
  assumes ok: "index_ok K ix" "digest_ok d"
  obtains ix' where "remove_blob_ref ix d = (ix', Inr (blob_at ix d \<noteq> None))" "index_ok K ix'"
    "\<And>q. file_at ix' q = (if q = digest_path d then None else file_at ix q)"
proof (cases "blob_at ix d")
  case None
  then have "tget ix (digest_path d) = None" using digest_entry [OF ok(1)] by simp
  then show ?thesis
    using that [of ix] None ok(1) by (auto simp: remove_blob_ref_def file_at_def)
next
  case (Some b)
  then have e: "tget ix (digest_path d) = Some (BlobFile b)" using digest_entry [OF ok(1)] by simp
  have "index_ok K (tdel (digest_path d) ix)"
    using file_has_no_children [OF ok(1) e]
    by (intro tdel_keeps_layout [OF ok(1)]) (auto simp: digest_path_def)
  then show ?thesis
    using that [of "tdel (digest_path d) ix"] e Some
    by (simp add: remove_blob_ref_def Let_def file_at_tdel)
qed

end
