(* ===== verification/Index_Store.thy ===== *)
theory Index_Store
  imports Index
begin

text \<open>
  The index as its clients see it: what the listings return, the interface of a release store with
  its lemmas proved once, its interpretation on the index on disk, and the properties of the index.
\<close>

section \<open>Listings\<close>

lemma extension_json:
  assumes "s \<noteq> []"
  shows "extension (s @ ''.json'') = Some ''json''" "file_stem (s @ ''.json'') = s"
proof -
  have "rsplit_once CHR ''.'' (s @ ''.json'') = Some (s, ''json'')"
    by (simp add: rsplit_once_Some_iff)
  with assms show "extension (s @ ''.json'') = Some ''json''" "file_stem (s @ ''.json'') = s"
    by (simp_all add: extension_def file_stem_def)
qed

lemma tag_json:
  assumes "tag_ok t"
  shows "extension (t @ ''.json'') = Some ''json''" "file_stem (t @ ''.json'') = t"
    "\<not> prefix ''.'' (t @ ''.json'')"
proof -
  have t: "t \<noteq> []" "hd t \<noteq> CHR ''.''"
    using assms by (auto simp: tag_ok_iff char_class_defs split: list.splits)
  then show "extension (t @ ''.json'') = Some ''json''" "file_stem (t @ ''.json'') = t"
    using extension_json by auto
  show "\<not> prefix ''.'' (t @ ''.json'')"
    using t by (cases t) (auto simp: prefix_Cons)
qed

lemma release_file_iff:
  assumes "index_ok K ix" "key_laws K"
  shows "(p, ReleaseFile r) \<in> set ix \<longleftrightarrow> release_at K ix (slot_of r) = Some r \<and> p = slot_path K (slot_of r)"
proof -
  have "(p, ReleaseFile r) \<in> set ix \<longleftrightarrow> file_at ix p = Some (ReleaseFile r)"
    using tget_in_set [OF index_okD(1) [OF assms(1)]] by (auto simp: file_at_Some_iff)
  moreover have "file_at ix p = Some (ReleaseFile r) \<Longrightarrow> p = slot_path K (slot_of r)"
    using file_at_placed [OF assms(1)] by force
  ultimately show ?thesis
    using slot_file [OF assms(1), of "slot_of r"] by auto
qed

lemma list_releases_set:
  assumes "index_ok K ix" "key_laws K"
  shows "set (list_releases K ix) = {r. release_at K ix (slot_of r) = Some r}"
proof -
  have "ReleaseFile r \<in> set (walk_json [''releases''] ix)
      \<longleftrightarrow> release_at K ix (slot_of r) = Some r" for r
  proof
    assume "ReleaseFile r \<in> set (walk_json [''releases''] ix)"
    then show "release_at K ix (slot_of r) = Some r"
      using release_file_iff [OF assms] by (auto simp: walk_json_def)
  next
    assume r: "release_at K ix (slot_of r) = Some r"
    then have "tag_ok (p_tag (payload r))"
      using release_at_slot [OF assms r] by (simp add: slot_ok_def)
    moreover have "(slot_path K (slot_of r), ReleaseFile r) \<in> set ix"
      using release_file_iff [OF assms] r by simp
    moreover have "strict_prefix [''releases''] (slot_path K (slot_of r))"
      by (simp add: slot_path_def slot_of_def strict_prefix_def)
    moreover have "last (slot_path K (slot_of r)) = p_tag (payload r) @ ''.json''"
      by (simp add: slot_path_def slot_of_def)
    ultimately show "ReleaseFile r \<in> set (walk_json [''releases''] ix)"
      using tag_json by (force simp: walk_json_def)
  qed
  moreover have "release_of_entry e = Some r \<longleftrightarrow> e = ReleaseFile r" for e r
    by (cases e) (auto simp: release_of_entry_def)
  ultimately show ?thesis
    by (auto simp: list_releases_def map_filter_Some_iff)
qed

lemma list_releases_sorted: "sorted (map (reference K) (list_releases K ix))"
  by (simp add: list_releases_def)

lemma list_releases_distinct:
  assumes "index_ok K ix" "key_laws K"
  shows "distinct (map slot_of (list_releases K ix))"
proof -
  let ?es = "filter (\<lambda>(p, e). strict_prefix [''releases''] p \<and> e \<noteq> Directory
     \<and> extension (last p) = Some ''json'' \<and> \<not> prefix ''.'' (last p)) ix"
  have "distinct ix"
    using index_okD(1) [OF assms(1)] by (simp add: table_ok_def distinct_map)
  moreover have "x = y" if "x \<in> set ix" "y \<in> set ix" "release_of_entry (snd x) = Some r"
      "release_of_entry (snd y) = Some r" for x y r
  proof -
    have e: "snd x = ReleaseFile r" "snd y = ReleaseFile r"
      using that(3,4) by (auto simp: release_of_entry_def split: entry.splits)
    then have "(fst x, ReleaseFile r) \<in> set ix" "(fst y, ReleaseFile r) \<in> set ix"
      using that(1,2) by (metis prod.collapse)+
    then have "fst x = fst y" using release_file_iff [OF assms] by metis
    with e show ?thesis by (simp add: prod_eq_iff)
  qed
  ultimately have "distinct (List.map_filter (\<lambda>x. release_of_entry (snd x)) ?es)"
    by (intro distinct_map_filter) auto
  then have "distinct (list_releases K ix)"
    by (simp add: list_releases_def walk_json_def map_filter_of_map)
  moreover have "inj_on slot_of (set (list_releases K ix))"
    unfolding list_releases_set [OF assms] by (rule inj_onI) (metis (mono_tags) mem_Collect_eq option.inject)
  ultimately show ?thesis by (simp add: distinct_map)
qed

text \<open>The files of the directory of an image are the places of its releases.\<close>

abbreviation tags_dir :: "'z crates_scheme \<Rightarrow> public_key \<Rightarrow> string \<Rightarrow> path" where
  "tags_dir K p n \<equiv> ''releases'' # pk_display K p # split_on CHR ''/'' n"

lemma tags_dir_entry:
  assumes ok: "index_ok K ix" and keys: "key_laws K" and that: "(q, e) \<in> set ix"
  shows "e \<noteq> Directory \<and> q \<noteq> [] \<and> butlast q = tags_dir K p n
    \<longleftrightarrow> (\<exists>r t. e = ReleaseFile r \<and> release_at K ix (p, n, t) = Some r \<and> q = slot_path K (p, n, t))"
proof
  assume q: "e \<noteq> Directory \<and> q \<noteq> [] \<and> butlast q = tags_dir K p n"
  then have "file_at ix q = Some e"
    using that tget_in_set [OF index_okD(1) [OF ok]] by (simp add: file_at_Some_iff)
  from file_at_placed [OF ok this] q obtain r where e: "e = ReleaseFile r"
    by (cases e) (auto simp: digest_path_def referrer_path_def referrers_dir_def)
  with that have r: "release_at K ix (slot_of r) = Some r" "q = slot_path K (slot_of r)"
    using release_file_iff [OF ok keys] by auto
  obtain p' n' t' where s: "slot_of r = (p', n', t')" by (cases "slot_of r")
  have "tags_dir K p n = ''releases'' # pk_display K p' # split_on CHR ''/'' n'"
    using q r(2) by (simp add: s slot_path_def butlast_append)
  then have "p' = p \<and> n' = n"
    by (simp add: pk_display_inject [OF keys] split_on_inject)
  with e r s show "\<exists>r t. e = ReleaseFile r \<and> release_at K ix (p, n, t) = Some r \<and> q = slot_path K (p, n, t)"
    by auto
qed (auto simp: slot_path_def butlast_append)

lemma tags_dir_tag:
  assumes ok: "index_ok K ix" and keys: "key_laws K"
    and that: "(q, e) \<in> set (filter (\<lambda>(q, e). q \<noteq> [] \<and> butlast q = tags_dir K p n) ix)"
  shows "tag_of_entry (last q, e) = Some t
    \<longleftrightarrow> (\<exists>r. e = ReleaseFile r \<and> release_at K ix (p, n, t) = Some r \<and> q = slot_path K (p, n, t))"
proof
  assume some: "tag_of_entry (last q, e) = Some t"
  then have "e \<noteq> Directory" by (auto simp: tag_of_entry_def split: if_splits)
  with that tags_dir_entry [OF ok keys, of q e p n] obtain r t' where e: "e = ReleaseFile r" "release_at K ix (p, n, t') = Some r"
      "q = slot_path K (p, n, t')"
    by force
  then have "tag_ok t'" using release_at_slot [OF ok keys e(2)] by (auto simp: slot_of_def slot_ok_def)
  with some e have "t = t'"
    using tag_json by (auto simp: tag_of_entry_def slot_path_def split: if_splits)
  with e show "\<exists>r. e = ReleaseFile r \<and> release_at K ix (p, n, t) = Some r \<and> q = slot_path K (p, n, t)"
    by auto
next
  assume "\<exists>r. e = ReleaseFile r \<and> release_at K ix (p, n, t) = Some r \<and> q = slot_path K (p, n, t)"
  then obtain r where e: "e = ReleaseFile r" "release_at K ix (p, n, t) = Some r" "q = slot_path K (p, n, t)"
    by auto
  then have "tag_ok t" using release_at_slot [OF ok keys e(2)] by (auto simp: slot_of_def slot_ok_def)
  with e show "tag_of_entry (last q, e) = Some t"
    using tag_json by (simp add: tag_of_entry_def slot_path_def)
qed

lemma list_tags_spec:
  assumes ok: "index_ok K ix" and keys: "key_laws K" and tags: "list_tags K ix p n = Inr ts"
  shows "name_ok n \<and> sorted ts \<and> distinct ts \<and> set ts = {t. release_at K ix (p, n, t) \<noteq> None}"
proof -
  let ?dir = "''releases'' # pk_display K p # split_on CHR ''/'' n"
  have n: "name_ok n" and ts: "ts = sort (List.map_filter tag_of_entry (read_dir ?dir ix))"
    using tags by (auto simp: list_tags_def release_dir_def)
  let ?es = "filter (\<lambda>(q, e). q \<noteq> [] \<and> butlast q = ?dir) ix"
  note tag = tags_dir_tag [OF ok keys, of _ _ p n]
  let ?ts = "List.map_filter tag_of_entry (read_dir ?dir ix)"
  have rd: "?ts = List.map_filter (\<lambda>(q, e). tag_of_entry (last q, e)) ?es"
    by (simp add: read_dir_def map_filter_of_map case_prod_unfold)
  have "t \<in> set ?ts \<longleftrightarrow> release_at K ix (p, n, t) \<noteq> None" for t
  proof
    assume "t \<in> set ?ts"
    then show "release_at K ix (p, n, t) \<noteq> None" using tag by (auto simp: rd map_filter_Some_iff)
  next
    assume "release_at K ix (p, n, t) \<noteq> None"
    then obtain r where r: "release_at K ix (p, n, t) = Some r" by auto
    then have "(slot_path K (p, n, t), ReleaseFile r) \<in> set ix"
      using release_file_iff [OF ok keys] release_at_slot [OF ok keys r] by auto
    then have es: "(slot_path K (p, n, t), ReleaseFile r) \<in> set ?es"
      by (auto simp: slot_path_def butlast_append)
    moreover have "tag_of_entry (last (slot_path K (p, n, t)), ReleaseFile r) = Some t"
      using tag [OF es] r by blast
    ultimately show "t \<in> set ?ts"
      unfolding rd map_filter_Some_iff by (intro bexI [OF _ es]) simp
  qed
  moreover have "distinct ?ts"
  proof -
    have "distinct ?es"
      using index_okD(1) [OF ok] by (simp add: table_ok_def distinct_map)
    moreover have "x = y" if "x \<in> set ?es" "y \<in> set ?es" "(\<lambda>(q, e). tag_of_entry (last q, e)) x = Some t"
        "(\<lambda>(q, e). tag_of_entry (last q, e)) y = Some t" for x y t
    proof -
      obtain q e q' e' where xy: "x = (q, e)" "y = (q', e')" by (cases x; cases y)
      with that tag obtain r r' where "e = ReleaseFile r" "release_at K ix (p, n, t) = Some r" "q = slot_path K (p, n, t)"
        "e' = ReleaseFile r'" "release_at K ix (p, n, t) = Some r'" "q' = slot_path K (p, n, t)"
        by (metis (no_types, lifting) case_prod_conv)
      with xy show ?thesis by simp
    qed
    ultimately show ?thesis unfolding rd by (intro distinct_map_filter) auto
  qed
  ultimately show ?thesis using n ts by auto
qed

lemma is_indexed_iff:
  assumes "index_ok K ix"
  shows "is_indexed ix r \<longleftrightarrow> (\<forall>b \<in> set (all_blobs r). blob_at ix (br_digest b) \<noteq> None)"
  by (simp add: is_indexed_def list_all_iff digest_entry [OF assms])

section \<open>The interface of a release store\<close>

text \<open>Apply an operation to every element in turn and stop at the first failure.\<close>

fun run_all :: "('s \<Rightarrow> 'r \<Rightarrow> 's \<times> 'b result) \<Rightarrow> 's \<Rightarrow> 'r list \<Rightarrow> 's option" where
  "run_all f s [] = Some s"
| "run_all f s (r # rs) = (case f s r of (s', Inr _) \<Rightarrow> run_all f s' rs | (s', Inl _) \<Rightarrow> None)"

text \<open>\<open>m\<close> is a newest release of \<open>C\<close>, if there is one.\<close>

definition newest_of :: "release set \<Rightarrow> release option \<Rightarrow> bool" where
  "newest_of C m \<longleftrightarrow> (case m of
     None \<Rightarrow> C = {}
   | Some h \<Rightarrow> h \<in> C \<and> (\<forall>c \<in> C. p_timestamp (payload c) \<le> p_timestamp (payload h)))"

lemma newest_of_unique:
  assumes "newest_of C m" "newest_of C m'" "inj_on (\<lambda>r. p_timestamp (payload r)) C"
  shows "m = m'"
proof (cases "C = {}")
  case True
  with assms(1,2) show ?thesis by (auto simp: newest_of_def split: option.splits)
next
  case False
  with assms(1,2) obtain h g where m: "m = Some h" "m' = Some g" and C: "h \<in> C" "g \<in> C"
    and le: "\<forall>c \<in> C. p_timestamp (payload c) \<le> p_timestamp (payload h)"
      "\<forall>c \<in> C. p_timestamp (payload c) \<le> p_timestamp (payload g)"
    unfolding newest_of_def by (cases m; cases m'; simp)
  have "p_timestamp (payload h) = p_timestamp (payload g)"
    using le C by (intro order_antisym) simp_all
  with assms(3) m C show ?thesis by (simp add: inj_onD)
qed

locale release_store =
  fixes held :: "'s \<Rightarrow> slot \<Rightarrow> release option"
    and put :: "'s \<Rightarrow> release \<Rightarrow> 's \<times> bool result"
    and drop_at :: "'s \<Rightarrow> slot \<Rightarrow> 's \<times> bool result"
    and invar :: "'s \<Rightarrow> bool"
    and storable :: "release \<Rightarrow> bool"
  assumes put_invar: "invar s \<Longrightarrow> storable r \<Longrightarrow> invar (fst (put s r))"
    and put_held: "invar s \<Longrightarrow> storable r \<Longrightarrow> held (fst (put s r)) sl
        = (if snd (put s r) = Inr True \<and> sl = slot_of r then Some r else held s sl)"
    and put_decides: "invar s \<Longrightarrow> storable r \<Longrightarrow> snd (put s r) = Inr b \<Longrightarrow>
        b \<longleftrightarrow> (\<forall>old. held s (slot_of r) = Some old \<longrightarrow> supersedes r old)"
    and drop_invar: "invar s \<Longrightarrow> invar (fst (drop_at s sl))"
    and drop_held: "invar s \<Longrightarrow> held (fst (drop_at s sl)) sl'
        = (if snd (drop_at s sl) = Inr True \<and> sl' = sl then None else held s sl')"
    and held_slot: "invar s \<Longrightarrow> held s sl = Some r \<Longrightarrow> slot_of r = sl"
begin

lemma put_newer:
  assumes "invar s" "storable r" "snd (put s r) = Inr b"
  shows "newest_of ({r} \<union> set_option (held s (slot_of r))) (held (fst (put s r)) (slot_of r))"
proof (cases "b")
  case True
  with assms put_held [OF assms(1,2)] put_decides [OF assms] show ?thesis
    by (auto simp: supersedes_def newest_of_def)
next
  case False
  with put_decides [OF assms] obtain old where "held s (slot_of r) = Some old" "\<not> supersedes r old"
    by auto
  moreover have "held (fst (put s r)) (slot_of r) = held s (slot_of r)"
    using put_held [OF assms(1,2)] assms(3) False by simp
  ultimately show ?thesis by (auto simp: supersedes_def not_less newest_of_def)
qed

lemma newest_of_more:
  assumes "newest_of A (Some h)" "newest_of ({h} \<union> B) m"
  shows "newest_of (A \<union> B) m"
  using assms by (cases m) (auto simp: newest_of_def intro: order_trans)

lemma run_all_newest:
  assumes "invar s" "list_all storable rs" "run_all put s rs = Some s'"
  shows "invar s' \<and>
    newest_of (set_option (held s sl) \<union> {r \<in> set rs. slot_of r = sl}) (held s' sl)"
  using assms
proof (induction rs arbitrary: s)
  case Nil
  then show ?case by (cases "held s' sl") (auto simp: newest_of_def)
next
  case (Cons r rs)
  obtain s1 b where put: "put s r = (s1, Inr b)" and run: "run_all put s1 rs = Some s'"
    using Cons.prems(3) by (auto split: prod.splits sum.splits)
  have st: "storable r" "list_all storable rs" using Cons.prems(2) by simp_all
  have inv: "invar s1" using put_invar [OF Cons.prems(1) st(1)] put by simp
  note IH = Cons.IH [OF inv st(2) run]
  show ?case
  proof (cases "sl = slot_of r")
    case False
    then have "{x \<in> set (r # rs). slot_of x = sl} = {x \<in> set rs. slot_of x = sl}" by auto
    moreover have "held s1 sl = held s sl"
      using put_held [OF Cons.prems(1) st(1), of sl] put False by simp
    ultimately show ?thesis using IH by simp
  next
    case True
    have new: "newest_of ({r} \<union> set_option (held s sl)) (held s1 sl)"
      using put_newer [OF Cons.prems(1) st(1), of b] put True by simp
    then obtain h where h: "held s1 sl = Some h"
      by (cases "held s1 sl") (auto simp: newest_of_def)
    have "newest_of (({r} \<union> set_option (held s sl)) \<union> {x \<in> set rs. slot_of x = sl}) (held s' sl)"
      using newest_of_more [OF new [unfolded h], of "{x \<in> set rs. slot_of x = sl}"] IH
      unfolding h by simp
    moreover have "({r} \<union> set_option (held s sl)) \<union> {x \<in> set rs. slot_of x = sl}
        = set_option (held s sl) \<union> {x \<in> set (r # rs). slot_of x = sl}"
      using True by auto
    ultimately show ?thesis using IH by simp
  qed
qed

lemma newest_unique:
  assumes "invar s" "list_all storable rs" "run_all put s rs = Some s1"
    and "list_all storable rs'" "run_all put s rs' = Some s2" "set rs' = set rs"
    and "inj_on (\<lambda>r. p_timestamp (payload r)) (set_option (held s sl) \<union> {r \<in> set rs. slot_of r = sl})"
  shows "held s1 sl = held s2 sl"
proof -
  let ?C = "set_option (held s sl) \<union> {r \<in> set rs. slot_of r = sl}"
  have "newest_of ?C (held s1 sl)" "newest_of ?C (held s2 sl)"
    using run_all_newest [OF assms(1-3), of sl] run_all_newest [OF assms(1,4,5), of sl] assms(6) by auto
  from newest_of_unique [OF this assms(7)] show ?thesis .
qed

end

text \<open>The index on disk is such a store.\<close>

definition remove_slot :: "'z crates_scheme \<Rightarrow> fs \<Rightarrow> slot \<Rightarrow> fs \<times> bool result" where
  "remove_slot K ix s = (case s of (p, n, t) \<Rightarrow> remove_release K ix p n t)"

interpretation rel_index: release_store "release_at K" "put_release K" "remove_slot K"
    "\<lambda>ix. index_ok K ix \<and> key_laws K" digests_ok for K
proof
  fix s :: fs and r :: release and sl sl' :: slot and b :: bool
  assume s: "index_ok K s \<and> key_laws K"
  {
    assume r: "digests_ok r"
    note spec = put_release_spec [OF conjunct1 [OF s] conjunct2 [OF s] r surjective_pairing]
    show "index_ok K (fst (put_release K s r)) \<and> key_laws K" using spec s by blast
    show "release_at K (fst (put_release K s r)) sl
        = (if snd (put_release K s r) = Inr True \<and> sl = slot_of r then Some r else release_at K s sl)"
      by (rule spec [THEN conjunct2, THEN conjunct2, THEN conjunct1, rule_format])
    show "snd (put_release K s r) = Inr b \<Longrightarrow>
        b \<longleftrightarrow> (\<forall>old. release_at K s (slot_of r) = Some old \<longrightarrow> supersedes r old)"
      using spec [THEN conjunct2, THEN conjunct2, THEN conjunct2, rule_format, of b] by simp
  }
  obtain p n t where sl: "sl = (p, n, t)" by (cases sl)
  note spec = remove_release_spec [OF conjunct1 [OF s] conjunct2 [OF s] surjective_pairing]
  have rm: "remove_slot K s sl = remove_release K s p n t" by (simp add: sl remove_slot_def)
  show "index_ok K (fst (remove_slot K s sl)) \<and> key_laws K"
    unfolding rm using spec [of p n t, THEN conjunct1] s by simp
  show "release_at K (fst (remove_slot K s sl)) sl'
      = (if snd (remove_slot K s sl) = Inr True \<and> sl' = sl then None else release_at K s sl')"
    unfolding rm unfolding sl by (rule spec [THEN conjunct2, THEN conjunct2, THEN conjunct1, rule_format])
  show "release_at K s sl = Some r \<Longrightarrow> slot_of r = sl"
    using release_at_slot s by blast
qed

section \<open>Clashes\<close>

text \<open>A place is free when no directory stands there and no file stands on the way.\<close>

definition slot_free :: "'z crates_scheme \<Rightarrow> fs \<Rightarrow> slot \<Rightarrow> bool" where
  "slot_free K ix s \<longleftrightarrow> tget ix (slot_path K s) \<noteq> Some Directory
     \<and> (\<forall>q. q \<noteq> [] \<and> strict_prefix q (slot_path K s) \<longrightarrow> tget ix q \<in> {None, Some Directory})"

lemma get_release_free:
  assumes "index_ok K ix" "slot_free K ix (p, n, t)" "name_ok n" "tag_ok t"
  shows "get_release K ix p n t = Inr (release_at K ix (p, n, t))"
proof -
  have "release_path K p n t = Inr (slot_path K (p, n, t))"
    using assms(3,4) by (simp add: release_path_Inr_iff)
  moreover have "tget ix (slot_path K (p, n, t)) = map_option ReleaseFile (release_at K ix (p, n, t))"
    using slot_file [OF assms(1), of "(p, n, t)"] assms(2)
    by (auto simp: slot_free_def file_at_def split: option.splits if_splits)
  ultimately show ?thesis
    by (cases "release_at K ix (p, n, t)") (simp_all add: get_release_def)
qed

lemma put_release_free:
  assumes ok: "index_ok K ix" and sl: "slot_ok r" and dig: "digests_ok r" and free: "slot_free K ix (slot_of r)"
  shows "\<exists>b. snd (put_release K ix r) = Inr b"
proof -
  let ?p = "payload r"
  have get: "get_release K ix (p_publisher ?p) (p_name ?p) (p_tag ?p) = Inr (release_at K ix (slot_of r))"
    using get_release_free [OF ok] free sl by (simp add: slot_of_def slot_ok_def)
  have path: "release_path K (p_publisher ?p) (p_name ?p) (p_tag ?p) = Inr (slot_path K (slot_of r))"
    using sl by (simp add: release_path_Inr_iff slot_ok_def slot_of_def)
  obtain ix1 where w: "write_atomic (slot_path K (slot_of r)) (ReleaseFile r) ix = Inr ix1"
    using write_atomic_succeeds [of "slot_path K (slot_of r)" ix "ReleaseFile r"] free
    unfolding slot_free_def by fastforce
  have "index_ok K ix1"
    by (rule write_keeps_layout [OF ok _ _ _ dirs_placed(2) w]) (use sl length_paths in simp_all)
  from put_referrers_spec [OF this, of "br_digest (p_manifest ?p)" "p_referrers ?p"] dig
  obtain ix2 where "put_referrers ix1 (br_digest (p_manifest ?p)) (p_referrers ?p) = (ix2, Inr ())"
    by (auto simp: digests_ok_def all_blobs_def)
  with get path w show ?thesis by (auto simp: put_release_def Let_def)
qed

lemma existing_ancestors:
  assumes "index_ok K ix" "tget ix p \<noteq> None" "q \<noteq> []" "strict_prefix q p"
  shows "tget ix q = Some Directory"
  using assms(2,4)
proof (induction p rule: rev_induct)
  case (snoc x p)
  then have "prefix q p" by (auto simp: strict_prefix_def)
  moreover from this assms(3) have "p \<noteq> []" by auto
  then have "tget ix p = Some Directory"
    using index_okD(3) [OF assms(1), of "p @ [x]"] snoc.prems(1) by (cases p) auto
  ultimately show ?case
    using snoc.IH by (cases "q = p") (auto simp: strict_prefix_def)
qed simp

lemma held_free:
  assumes "index_ok K ix" "release_at K ix s = Some r"
  shows "slot_free K ix s"
proof -
  have held: "tget ix (slot_path K s) = Some (ReleaseFile r)"
    using slot_file [OF assms(1), of s] assms(2) by (simp add: file_at_Some_iff)
  moreover have "tget ix q = Some Directory" if "q \<noteq> [] \<and> strict_prefix q (slot_path K s)" for q
    using existing_ancestors [OF assms(1) _ conjunct1 [OF that] conjunct2 [OF that]] held by simp
  ultimately show ?thesis by (simp add: slot_free_def)
qed

lemma empty_index_free: "slot_free K empty_index s"
  by (auto simp: slot_free_def empty_index_def slot_path_def split: prod.split)

section \<open>Pruning referrers\<close>

definition pruned :: "'z crates_scheme \<Rightarrow> fs \<Rightarrow> fs \<Rightarrow> bool" where
  "pruned K ix ix' \<longleftrightarrow> index_ok K ix' \<and> (\<forall>q. file_at ix' q = file_at ix q
     \<or> (file_at ix' q = None \<and> (\<exists>s n. q = [''referrers'', s, n] \<and> \<not> referrer_live ix n)))"

lemma pruned_live: "pruned K ix ix' \<Longrightarrow> index_ok K ix \<Longrightarrow> referrer_live ix' n = referrer_live ix n"
proof -
  assume p: "pruned K ix ix'" "index_ok K ix"
  have "tget x [''digests'', m] \<noteq> None \<longleftrightarrow> file_at x [''digests'', m] \<noteq> None" if "index_ok K x" for x m
    using index_okD(2) [OF that, of "[''digests'', m]" Directory] by (auto simp: file_at_def split: option.splits)
  moreover have "file_at ix' [''digests'', m] = file_at ix [''digests'', m]" for m
    using p(1) by (auto simp: pruned_def)
  ultimately show "referrer_live ix' n = referrer_live ix n"
    using p by (simp add: referrer_live_def pruned_def)
qed

lemma prune_entry_pruned:
  assumes "index_ok K ix" "pruned K ix (fst st)"
  shows "pruned K ix (fst (prune_entry [''referrers'', s] x st))"
proof (cases "referrer_live (fst st) (fst x) \<or> snd x = Directory \<or> file_at (fst st) [''referrers'', s, fst x] = None")
  case True
  moreover have "pruned K ix (tdel [''referrers'', s, fst x] (fst st))"
    if none: "file_at (fst st) [''referrers'', s, fst x] = None"
  proof -
    have "tget (fst st) [''referrers'', s, fst x] \<noteq> Some Directory"
      using index_okD(2) [of K "fst st" "[''referrers'', s, fst x]" Directory] assms(2)
      by (auto simp: pruned_def)
    with none have "tget (fst st) [''referrers'', s, fst x] = None" by (simp add: file_at_None_iff)
    then have "tdel [''referrers'', s, fst x] (fst st) = fst st"
      by (simp add: tget_def tdel_def delete_id map_of_eq_None_iff)
    with assms(2) show ?thesis by simp
  qed
  ultimately show ?thesis using assms(2) by (auto simp: prune_entry_def)
next
  case False
  let ?q = "[''referrers'', s, fst x]"
  obtain f where f: "tget (fst st) ?q = Some f" "f \<noteq> Directory"
    using False by (auto simp: file_at_Some_iff)
  have ok: "index_ok K (fst st)" using assms(2) by (simp add: pruned_def)
  have "index_ok K (tdel ?q (fst st))"
    using file_has_no_children [OF ok f] by (intro tdel_keeps_layout [OF ok]) auto
  moreover have "\<not> referrer_live ix (fst x)"
    using False pruned_live [OF assms(2,1)] by simp
  ultimately have "pruned K ix (tdel ?q (fst st))"
    using assms(2) by (auto simp: pruned_def file_at_tdel)
  with False show ?thesis by (simp add: prune_entry_def)
qed

lemma no_file_at_subject:
  assumes "index_ok K ix"
  shows "file_at ix [''referrers'', s] = None"
proof (rule ccontr)
  assume "file_at ix [''referrers'', s] \<noteq> None"
  then obtain e where "file_at ix [''referrers'', s] = Some e" by auto
  from file_at_placed [OF assms this] have e: "placed K [''referrers'', s] e" "e \<noteq> Directory" by auto
  have "[''referrers'', s] \<noteq> slot_path K sl" for sl
    by (simp add: slot_path_def split: prod.split)
  with e show False
    by (cases e) (simp_all add: digest_path_def referrer_path_def referrers_dir_def)
qed

lemma prune_subject_pruned:
  assumes "index_ok K ix" "pruned K ix (fst st)"
  shows "pruned K ix (fst (prune_subject x st))"
proof (cases "snd x = Directory")
  case True
  let ?dir = "[''referrers'', fst x]"
  have fold: "pruned K ix (fst (fold (prune_entry ?dir) xs st'))" if "pruned K ix (fst st')" for xs st'
    using that by (induction xs arbitrary: st') (simp_all add: prune_entry_pruned [OF assms(1)])
  obtain ix1 n1 where f: "fold (prune_entry ?dir) (read_dir ?dir (fst st)) st = (ix1, n1)"
    by force
  with fold [OF assms(2)] have p1: "pruned K ix ix1" by (metis fst_conv)
  then have ok1: "index_ok K ix1" by (simp add: pruned_def)
  have "pruned K ix (tdel ?dir ix1)" if "dir_empty ?dir ix1"
  proof -
    have "\<forall>p. p \<noteq> [] \<and> butlast p = ?dir \<longrightarrow> tget ix1 p = None"
      using that dir_empty_iff by blast
    then have "\<forall>q. butlast q = ?dir \<and> 2 \<le> length q \<longrightarrow> tget ix1 q = None"
      by (metis list.size(3) not_numeral_le_zero)
    then have "index_ok K (tdel ?dir ix1)" by (rule tdel_keeps_layout [OF ok1]) simp_all
    moreover have "file_at ix1 ?dir = None"
      by (rule no_file_at_subject [OF ok1])
    ultimately show ?thesis
      using p1 no_file_at_subject [OF assms(1), of "fst x"] by (auto simp: pruned_def file_at_tdel)
  qed
  with p1 f True show ?thesis by (simp add: prune_subject_def Let_def)
qed (use assms in \<open>simp add: prune_subject_def\<close>)

lemma prune_referrers_spec:
  assumes "index_ok K ix"
  shows "pruned K ix (fst (prune_referrers ix))"
proof -
  have "pruned K ix (fst (fold prune_subject xs st))" if "pruned K ix (fst st)" for xs st
    using that by (induction xs arbitrary: st) (simp_all add: prune_subject_pruned [OF assms])
  then show ?thesis using assms by (simp add: prune_referrers_def pruned_def)
qed

lemma pruned_views:
  assumes "pruned K ix ix'"
  shows "blob_at ix' d = blob_at ix d" "release_at K ix' s = release_at K ix s"
proof -
  have "file_at ix' q = file_at ix q" if "hd q \<noteq> ''referrers''" for q
    using assms that by (auto simp: pruned_def)
  then show "blob_at ix' d = blob_at ix d" "release_at K ix' s = release_at K ix s"
    by (simp_all add: blob_at_def release_at_def digest_path_def slot_path_def split: prod.split)
qed

section \<open>Evaluation\<close>

lemma demo_digest_ok: "c \<in> {CHR ''0'', CHR ''a'', CHR ''b''} \<Longrightarrow> digest_ok (demo_digest c)"
  by (auto simp: digest_ok_def digest_from_str_def demo_digest_def strip_prefix_def is_lhex_def is_digit_def
      list_all_iff)

lemma demo_release_shape:
  assumes "c \<in> {CHR ''0'', CHR ''a'', CHR ''b''}" "t \<noteq> 0"
  shows "slot_ok (demo_release t c)" "digests_ok (demo_release t c)"
    "slot_of (demo_release t c) = (PublicKey 7, ''web/app'', ''1.0'')"
    "p_timestamp (payload (demo_release t c)) = t"
    "br_digest (p_manifest (payload (demo_release t c))) = demo_digest c"
  using assms demo_digest_ok demo_names_ok
  by (auto simp: slot_ok_def digests_ok_def slot_of_def all_blobs_def demo_release_def
      release_sign_payload demo_payload_def demo_public demo_blob_def)

lemma put_release_frees:
  assumes "index_ok K ix" "key_laws K" "digests_ok r" "slot_free K ix (slot_of r)"
    "snd (put_release K ix r) = Inr b"
  shows "index_ok K (fst (put_release K ix r)) \<and> slot_free K (fst (put_release K ix r)) (slot_of r)"
proof -
  have inv: "index_ok K (fst (put_release K ix r)) \<and> key_laws K"
    using rel_index.put_invar assms(1-3) by blast
  obtain h where "release_at K (fst (put_release K ix r)) (slot_of r) = Some h"
    using rel_index.put_newer [OF conjI [OF assms(1,2)] assms(3,5)]
    by (cases "release_at K (fst (put_release K ix r)) (slot_of r)") (auto simp: newest_of_def)
  with held_free inv show ?thesis by blast
qed

lemma run_puts_free:
  assumes "index_ok K ix" "key_laws K" "slot_free K ix s"
    "list_all (\<lambda>r. slot_ok r \<and> digests_ok r \<and> slot_of r = s) rs"
  shows "\<exists>ix'. run_all (put_release K) ix rs = Some ix'"
  using assms(1,3,4)
proof (induction rs arbitrary: ix)
  case (Cons r rs)
  then have r: "slot_ok r" "digests_ok r" "slot_of r = s" by simp_all
  with Cons.prems obtain b where b: "snd (put_release K ix r) = Inr b"
    using put_release_free [of K ix r] by auto
  have "index_ok K (fst (put_release K ix r))" "slot_free K (fst (put_release K ix r)) s"
    using put_release_frees [OF Cons.prems(1) assms(2) r(2) _ b] Cons.prems(2) r(3) by auto
  from Cons.IH [OF this] Cons.prems(3) b show ?case
    by (auto split: prod.splits)
qed simp

section \<open>Properties\<close>

text \<open>C6: The index keeps the newest release. After any sequence of stored releases, whatever their
  order, each place holds a release with the greatest timestamp among the one it held at the start
  and those received for it, and a place that was offered nothing keeps nothing.\<close>

theorem index_keeps_newest:
  assumes "index_ok K ix" "key_laws K" "list_all digests_ok rs"
    and "run_all (put_release K) ix rs = Some ix'"
  shows "index_ok K ix' \<and>
    newest_of (set_option (release_at K ix s) \<union> {r \<in> set rs. slot_of r = s}) (release_at K ix' s)"
  using rel_index.run_all_newest [OF conjI [OF assms(1,2)] assms(3,4)] by blast

theorem index_keeps_newest_witness:
  "\<exists>ix'. run_all (put_release demo_codecs) empty_index
       [demo_release 9 (CHR ''a''), demo_release 8 (CHR ''b'')] = Some ix'
     \<and> release_at demo_codecs ix' (PublicKey 7, ''web/app'', ''1.0'') = Some (demo_release 9 (CHR ''a''))"
proof -
  let ?K = demo_codecs
  let ?a = "demo_release 9 (CHR ''a'')" and ?b = "demo_release 8 (CHR ''b'')"
  let ?s = "(PublicKey 7, ''web/app'', ''1.0'')"
  have shape: "list_all (\<lambda>r. slot_ok r \<and> digests_ok r \<and> slot_of r = ?s) [?a, ?b]"
    by (simp add: demo_release_shape)
  obtain ix' where run: "run_all (put_release ?K) empty_index [?a, ?b] = Some ix'"
    using run_puts_free [OF empty_index_ok demo_codec_laws(3) empty_index_free shape] by blast
  have "list_all digests_ok [?a, ?b]" using shape by simp
  from index_keeps_newest [OF empty_index_ok demo_codec_laws(3) this run, of ?s]
  have new: "newest_of {?a, ?b} (release_at ?K ix' ?s)"
    by (simp add: demo_release_shape release_at_def empty_index_def file_at_def slot_path_def insert_commute
        Collect_disj_eq conj_disj_distribR cong: conj_cong)
  have "release_at ?K ix' ?s = Some ?a"
    using new by (auto simp: newest_of_def demo_release_shape split: option.splits)
  with run show ?thesis by blast
qed

text \<open>C17: Two nodes that receive the same releases agree. If no two releases for a place carry the same
  timestamp, then storing the same set of releases in two different orders, with any repetitions,
  leaves the same release at that place.\<close>

theorem index_order_irrelevant:
  assumes "index_ok K ix" "key_laws K" "list_all digests_ok rs" "list_all digests_ok rs'"
    and "run_all (put_release K) ix rs = Some ix1" "run_all (put_release K) ix rs' = Some ix2"
    and "set rs' = set rs"
    and "inj_on (\<lambda>r. p_timestamp (payload r))
      (set_option (release_at K ix s) \<union> {r \<in> set rs. slot_of r = s})"
  shows "release_at K ix1 s = release_at K ix2 s"
  using rel_index.newest_unique [OF conjI [OF assms(1,2)] assms(3,5,4,6,7,8)] .

theorem index_order_irrelevant_witness:
  "\<exists>ix1 ix2. run_all (put_release demo_codecs) empty_index
        [demo_release 9 (CHR ''a''), demo_release 8 (CHR ''b'')] = Some ix1
     \<and> run_all (put_release demo_codecs) empty_index
        [demo_release 8 (CHR ''b''), demo_release 9 (CHR ''a''), demo_release 8 (CHR ''b'')] = Some ix2
     \<and> release_at demo_codecs ix1 (PublicKey 7, ''web/app'', ''1.0'')
        = release_at demo_codecs ix2 (PublicKey 7, ''web/app'', ''1.0'')"
proof -
  let ?K = demo_codecs
  let ?a = "demo_release 9 (CHR ''a'')" and ?b = "demo_release 8 (CHR ''b'')"
  let ?s = "(PublicKey 7, ''web/app'', ''1.0'')"
  have one: "list_all (\<lambda>r. slot_ok r \<and> digests_ok r \<and> slot_of r = ?s) [?a, ?b]"
    and two: "list_all (\<lambda>r. slot_ok r \<and> digests_ok r \<and> slot_of r = ?s) [?b, ?a, ?b]"
    by (simp_all add: demo_release_shape)
  obtain ix1 where run1: "run_all (put_release ?K) empty_index [?a, ?b] = Some ix1"
    using run_puts_free [OF empty_index_ok demo_codec_laws(3) empty_index_free one] by blast
  obtain ix2 where run2: "run_all (put_release ?K) empty_index [?b, ?a, ?b] = Some ix2"
    using run_puts_free [OF empty_index_ok demo_codec_laws(3) empty_index_free two] by blast
  have none: "release_at ?K empty_index ?s = None"
    by (simp add: release_at_def empty_index_def file_at_def slot_path_def)
  have inj: "inj_on (\<lambda>r. p_timestamp (payload r))
      (set_option (release_at ?K empty_index ?s) \<union> {r \<in> set [?a, ?b]. slot_of r = ?s})"
    by (auto simp: none inj_on_def demo_release_shape)
  have "list_all digests_ok [?a, ?b]" "list_all digests_ok [?b, ?a, ?b]" "set [?b, ?a, ?b] = set [?a, ?b]"
    using one by auto
  from index_order_irrelevant [OF empty_index_ok demo_codec_laws(3) this(1,2) run1 run2 this(3) inj]
  show ?thesis using run1 run2 by blast
qed

text \<open>Between two releases of one place with the same timestamp and different manifests there is
  no winner: each supersedes the other, so the index keeps the one that arrives last and two nodes
  can disagree for good.\<close>

theorem equal_timestamps_last_wins:
  assumes "index_ok K ix" "key_laws K" "digests_ok a" "digests_ok b" "slot_of a = slot_of b"
    and "p_timestamp (payload a) = p_timestamp (payload b)"
    and "br_digest (p_manifest (payload a)) \<noteq> br_digest (p_manifest (payload b))"
    and "release_at K ix (slot_of a) = None"
    and "run_all (put_release K) ix [a, b] = Some ix1" "run_all (put_release K) ix [b, a] = Some ix2"
  shows "release_at K ix1 (slot_of a) = Some b \<and> release_at K ix2 (slot_of a) = Some a"
proof -
  have put2: "release_at K ix' (slot_of x) = Some y"
    if d: "digests_ok x" "digests_ok y" and s: "slot_of x = slot_of y" "supersedes y x"
      and none: "release_at K ix (slot_of x) = None" and run: "run_all (put_release K) ix [x, y] = Some ix'"
    for x y ix'
  proof -
    obtain i1 b1 b2 where p1: "put_release K ix x = (i1, Inr b1)" and p2: "put_release K i1 y = (ix', Inr b2)"
      using run by (auto split: prod.splits sum.splits)
    have inv: "index_ok K i1 \<and> key_laws K"
      using rel_index.put_invar [OF conjI [OF assms(1,2)] d(1)] p1 by simp
    have "b1" using rel_index.put_decides [OF conjI [OF assms(1,2)] d(1), of b1] p1 none by simp
    then have "release_at K i1 (slot_of y) = Some x"
      using rel_index.put_held [OF conjI [OF assms(1,2)] d(1), of "slot_of x"] p1 s(1) by simp
    then have "b2" using rel_index.put_decides [OF inv d(2), of b2] p2 s(2) by simp
    then show ?thesis
      using rel_index.put_held [OF inv d(2), of "slot_of y"] p2 s(1) by simp
  qed
  have "supersedes b a" "supersedes a b" using assms(6,7) by (auto simp: supersedes_def)
  with put2 [OF assms(3,4,5) _ assms(8,9)] put2 [OF assms(4,3) _ _ _ assms(10)] assms(5,8)
  show ?thesis by simp
qed

theorem equal_timestamps_last_wins_witness:
  "\<exists>ix1 ix2. release_at demo_codecs ix1 (PublicKey 7, ''web/app'', ''1.0'') = Some (demo_release 9 (CHR ''b''))
     \<and> release_at demo_codecs ix2 (PublicKey 7, ''web/app'', ''1.0'') = Some (demo_release 9 (CHR ''a''))"
proof -
  let ?K = demo_codecs
  let ?a = "demo_release 9 (CHR ''a'')" and ?b = "demo_release 9 (CHR ''b'')"
  let ?s = "(PublicKey 7, ''web/app'', ''1.0'')"
  have one: "list_all (\<lambda>r. slot_ok r \<and> digests_ok r \<and> slot_of r = ?s) [?a, ?b]"
    and two: "list_all (\<lambda>r. slot_ok r \<and> digests_ok r \<and> slot_of r = ?s) [?b, ?a]"
    by (simp_all add: demo_release_shape)
  obtain ix1 where run1: "run_all (put_release ?K) empty_index [?a, ?b] = Some ix1"
    using run_puts_free [OF empty_index_ok demo_codec_laws(3) empty_index_free one] by blast
  obtain ix2 where run2: "run_all (put_release ?K) empty_index [?b, ?a] = Some ix2"
    using run_puts_free [OF empty_index_ok demo_codec_laws(3) empty_index_free two] by blast
  have s: "slot_of ?a = ?s" by (simp add: demo_release_shape)
  have "release_at ?K empty_index ?s = None"
    by (simp add: release_at_def empty_index_def file_at_def slot_path_def)
  moreover have "demo_digest (CHR ''a'') \<noteq> demo_digest (CHR ''b'')"
    by (simp add: demo_digest_def)
  ultimately have "release_at ?K ix1 ?s = Some ?b \<and> release_at ?K ix2 ?s = Some ?a"
    using equal_timestamps_last_wins [OF empty_index_ok demo_codec_laws(3) _ _ _ _ _ _ run1 run2, unfolded s]
    by (simp add: demo_release_shape)
  then show ?thesis by blast
qed

text \<open>C33: A release path cannot leave the index, and two releases never share a file. Every component
  of the path of a release is a proper file name, without a slash and different from the two dots,
  and a path determines the publisher, the name and the tag.\<close>

theorem release_paths_safe:
  assumes "key_laws K" and "release_path K p n t = Inr path"
  shows "hd path = ''releases'' \<and> list_all (\<lambda>c. c \<noteq> [] \<and> c \<noteq> ''.'' \<and> c \<noteq> ''..'' \<and> CHR ''/'' \<notin> set c) path
    \<and> (release_path K p' n' t' = Inr path \<longleftrightarrow> (p', n', t') = (p, n, t))"
proof -
  have ok: "name_ok n" "tag_ok t" "path = slot_path K (p, n, t)"
    using assms(2) by (simp_all add: release_path_Inr_iff)
  have "c \<noteq> [] \<and> c \<noteq> ''.'' \<and> c \<noteq> ''..'' \<and> CHR ''/'' \<notin> set c" if "c \<in> set (split_on CHR ''/'' n)" for c
    using ok(1) that split_on_parts [OF that]
    by (auto simp: name_ok_def is_ok_def validate_name_def list_all_iff name_component_ok_def split: if_splits sum.splits)
  moreover have "pk_display K p \<noteq> [] \<and> CHR ''.'' \<notin> set (pk_display K p) \<and> CHR ''/'' \<notin> set (pk_display K p)"
    using key_lawsD(2,3) [OF assms(1), of p] by (auto simp: list_all_iff is_lhex_def is_digit_def)
  moreover have "CHR ''/'' \<notin> set t" "t @ ''.json'' \<noteq> ''..''" "t @ ''.json'' \<noteq> ''.''"
    using ok(2) by (auto simp: tag_ok_iff list_all_iff tag_char_def char_class_defs append_eq_Cons_conv)
  ultimately show ?thesis
    using ok slot_path_inject [OF assms(1), of "(p', n', t')" "(p, n, t)"]
    by (auto simp: slot_path_def list_all_iff release_path_Inr_iff)
qed

theorem release_paths_safe_witness:
  "\<exists>path. release_path demo_codecs (PublicKey 7) ''web/app'' ''1.0'' = Inr path
     \<and> list_all (\<lambda>c. c \<noteq> [] \<and> c \<noteq> ''.'' \<and> c \<noteq> ''..'' \<and> CHR ''/'' \<notin> set c) path"
proof -
  have "release_path demo_codecs (PublicKey 7) ''web/app'' ''1.0''
      = Inr (slot_path demo_codecs (PublicKey 7, ''web/app'', ''1.0''))"
    by (simp add: release_path_Inr_iff demo_names_ok)
  from release_paths_safe [OF demo_codec_laws(3) this] this show ?thesis by blast
qed

text \<open>The listings tell the truth about the files. The tags of an image are exactly the tags a
  release is held for, in order and without repetition, and the releases of the index are exactly
  those held, one for each place, sorted by reference.\<close>

theorem listings_exact:
  assumes "index_ok K ix" "key_laws K" "list_tags K ix p n = Inr ts"
  shows "sorted ts \<and> distinct ts \<and> set ts = {t. release_at K ix (p, n, t) \<noteq> None}
    \<and> set (list_releases K ix) = {r. release_at K ix (slot_of r) = Some r}
    \<and> distinct (map slot_of (list_releases K ix)) \<and> sorted (map (reference K) (list_releases K ix))"
  using list_tags_spec [OF assms] list_releases_set [OF assms(1,2)]
    list_releases_distinct [OF assms(1,2)] list_releases_sorted by blast

theorem listings_exact_witness:
  "\<exists>ix ts. put_release demo_codecs empty_index (demo_release 9 (CHR ''a'')) = (ix, Inr True)
     \<and> list_tags demo_codecs ix (PublicKey 7) ''web/app'' = Inr ts \<and> ''1.0'' \<in> set ts
     \<and> demo_release 9 (CHR ''a'') \<in> set (list_releases demo_codecs ix)"
proof -
  let ?K = demo_codecs and ?r = "demo_release 9 (CHR ''a'')"
  let ?s = "(PublicKey 7, ''web/app'', ''1.0'')"
  have shape: "slot_ok ?r" "digests_ok ?r" "slot_of ?r = ?s" by (simp_all add: demo_release_shape)
  have none: "release_at ?K empty_index (slot_of ?r) = None"
    by (simp add: shape release_at_def empty_index_def file_at_def slot_path_def)
  have inv: "index_ok ?K empty_index \<and> key_laws ?K" using empty_index_ok demo_codec_laws(3) by blast
  obtain ix b where put: "put_release ?K empty_index ?r = (ix, Inr b)"
    using put_release_free [OF empty_index_ok shape(1,2) empty_index_free] by (metis prod.collapse)
  then have b: "b" using rel_index.put_decides [OF inv shape(2), of b] none by simp
  with put have held: "release_at ?K ix ?s = Some ?r" and ix: "index_ok ?K ix"
    using rel_index.put_held [OF inv shape(2), of ?s] rel_index.put_invar [OF inv shape(2)]
    by (simp_all add: shape)
  obtain ts where ts: "list_tags ?K ix (PublicKey 7) ''web/app'' = Inr ts"
    using demo_names_ok(1) by (simp add: list_tags_def release_dir_def)
  from listings_exact [OF ix demo_codec_laws(3) ts] held put b ts shape(3) show ?thesis by auto
qed

text \<open>An image name can block a tag. When a release of the image \<open>n\<close> with the tag \<open>t\<close> is held, no
  release can be stored for an image whose name continues \<open>n\<close> with a component \<open>t.json\<close>: a file
  stands where its directory should be.\<close>

theorem tag_file_blocks_name:
  assumes "index_ok K ix" "release_at K ix (p, n, t) = Some r"
    and "p_publisher (payload q) = p" "p_name (payload q) = n @ ''/'' @ t @ ''.json''"
    and "tag_ok t"
  shows "\<not> is_ok (snd (put_release K ix q)) \<and> fst (put_release K ix q) = ix"
proof -
  let ?q = "payload q"
  have at: "tget ix (slot_path K (p, n, t)) = Some (ReleaseFile r)"
    using slot_file [OF assms(1), of "(p, n, t)"] assms(2) by (simp add: file_at_Some_iff)
  have "CHR ''/'' \<notin> set (t @ ''.json'')"
    using assms(5) by (auto simp: tag_ok_iff list_all_iff tag_char_def char_class_defs)
  then have sub: "strict_prefix (slot_path K (p, n, t)) (slot_path K (slot_of q))"
    using assms(3,4) split_on_append_sep [of "CHR ''/''" n "t @ ''.json''"] split_on_no_sep
    by (simp add: slot_path_def slot_of_def strict_prefix_def)
  have not_free: "\<not> slot_free K ix (slot_of q)"
  proof
    assume "slot_free K ix (slot_of q)"
    then have "tget ix (slot_path K (p, n, t)) \<in> {None, Some Directory}"
      using sub path_neq(8) [of K "(p, n, t)"] unfolding slot_free_def by blast
    with at show False by simp
  qed
  then have blocked: "\<not> is_ok (write_atomic (slot_path K (slot_of q)) (ReleaseFile q) ix)"
    unfolding slot_free_def write_atomic_ok_iff [OF path_neq(8)] .
  have held: "m = None" if g: "get_release K ix (p_publisher ?q) (p_name ?q) (p_tag ?q) = Inr m" for m
  proof -
    have "m = release_at K ix (slot_of q)"
      using get_release_spec [OF assms(1) g] by (simp add: slot_of_def)
    with held_free [OF assms(1), of "slot_of q"] not_free show ?thesis
      by (metis not_None_eq)
  qed
  show ?thesis
  proof (cases "get_release K ix (p_publisher ?q) (p_name ?q) (p_tag ?q)")
    case (Inl e)
    then show ?thesis by (simp add: put_release_def Let_def)
  next
    case (Inr m)
    from get_release_spec [OF assms(1) Inr]
    have "release_path K (p_publisher ?q) (p_name ?q) (p_tag ?q) = Inr (slot_path K (slot_of q))"
      by (simp add: release_path_Inr_iff slot_of_def)
    with blocked Inr held [OF Inr] show ?thesis
      by (cases "write_atomic (slot_path K (slot_of q)) (ReleaseFile q) ix")
         (simp_all add: put_release_def Let_def)
  qed
qed

theorem tag_file_blocks_name_witness:
  "\<exists>ix. release_at demo_codecs ix (PublicKey 7, ''web/app'', ''1.0'') = Some (demo_release 9 (CHR ''a''))
     \<and> \<not> is_ok (snd (put_release demo_codecs ix
          (release_sign demo_codecs 50 7 ((demo_payload 9 (CHR ''a''))\<lparr>p_name := ''web/app/1.0.json''\<rparr>))))"
proof -
  let ?K = demo_codecs and ?r = "demo_release 9 (CHR ''a'')"
  let ?q = "release_sign demo_codecs 50 7 ((demo_payload 9 (CHR ''a''))\<lparr>p_name := ''web/app/1.0.json''\<rparr>)"
  let ?s = "(PublicKey 7, ''web/app'', ''1.0'')"
  have shape: "slot_ok ?r" "digests_ok ?r" "slot_of ?r = ?s" by (simp_all add: demo_release_shape)
  have none: "release_at ?K empty_index (slot_of ?r) = None"
    by (simp add: shape release_at_def empty_index_def file_at_def slot_path_def)
  have inv: "index_ok ?K empty_index \<and> key_laws ?K" using empty_index_ok demo_codec_laws(3) by blast
  obtain ix b where put: "put_release ?K empty_index ?r = (ix, Inr b)"
    using put_release_free [OF empty_index_ok shape(1,2) empty_index_free] by (metis prod.collapse)
  then have "b" using rel_index.put_decides [OF inv shape(2), of b] none by simp
  with put have held: "release_at ?K ix ?s = Some ?r" and ix: "index_ok ?K ix"
    using rel_index.put_held [OF inv shape(2), of ?s] rel_index.put_invar [OF inv shape(2)]
    by (simp_all add: shape)
  have "p_publisher (payload ?q) = PublicKey 7" "p_name (payload ?q) = ''web/app'' @ ''/'' @ ''1.0'' @ ''.json''"
    by (simp_all add: release_sign_payload demo_public)
  from tag_file_blocks_name [OF ix held this demo_names_ok(2)] held show ?thesis by blast
qed

end
