(* ===== verification/Policy.thy ===== *)
theory Policy
  imports Dns
begin

text \<open>
  \<^verbatim>\<open>crates/ocid-core/src/config.rs\<close>: the seeding policy (seeds, follows, pins, aliases and the table
  of resolved domains), the retention window its rules combine into and the selection of the tags
  inside a window, the known peers; and from \<^verbatim>\<open>oci.rs\<close> the resolution of a repository path and of
  a reference through the policy. The TOML form of the policy file is the toml crate's.
\<close>

section \<open>Modes\<close>

datatype mode = Full | Latest | Last u32

definition mode_window :: "mode \<Rightarrow> nat option" where
  "mode_window m = (case m of
     Full \<Rightarrow> None
   | Latest \<Rightarrow> Some 1
   | Last n \<Rightarrow> Some (unat (max n 1)))"

definition show_mode :: "mode \<Rightarrow> string" where
  "show_mode m = (case m of
     Full \<Rightarrow> ''full''
   | Latest \<Rightarrow> ''latest''
   | Last n \<Rightarrow> ''last:'' @ show_nat (unat n))"

definition mode_from_str :: "string \<Rightarrow> mode result" where
  "mode_from_str s =
     (let other = trim s in
      if other = ''full'' \<or> other = ''all'' then Inr Full
      else if other = ''latest'' then Inr Latest
      else
        and_then (ok_or (case strip_prefix ''last:'' other of
                           Some r \<Rightarrow> Some r | None \<Rightarrow> strip_prefix ''last='' other)
                   (Policy_err ModeSyntax)) (\<lambda>ds.
        and_then (ok_or (parse_u32 ds) (Policy_err ModeNumber)) (\<lambda>n.
        and_then (ensure (\<not> n = 0) (Policy_err ModeZero)) (\<lambda>_.
        Inr (if n = 1 then Latest else Last n)))))"

section \<open>Windows\<close>

record window =
  w_full :: bool
  w_last :: nat
  w_tags :: "string set"

definition window_default :: window where
  "window_default = \<lparr>w_full = False, w_last = 0, w_tags = {}\<rparr>"

definition window_is_empty :: "window \<Rightarrow> bool" where
  "window_is_empty w \<longleftrightarrow> \<not> w_full w \<and> w_last w = 0 \<and> w_tags w = {}"

definition absorb :: "window \<Rightarrow> mode \<Rightarrow> window" where
  "absorb w m = (case mode_window m of
     None \<Rightarrow> w\<lparr>w_full := True\<rparr>
   | Some n \<Rightarrow> w\<lparr>w_last := max (w_last w) n\<rparr>)"

text \<open>\<open>dedup_by\<close> on the tag: an element goes when its tag is that of the element kept before it.\<close>

fun dedup_tags :: "(string \<times> u64) list \<Rightarrow> (string \<times> u64) list" where
  "dedup_tags [] = []"
| "dedup_tags [x] = [x]"
| "dedup_tags (x # y # xs) =
     (if fst y = fst x then dedup_tags (x # xs) else x # dedup_tags (y # xs))"

definition newest_first :: "(string \<times> u64) list \<Rightarrow> (string \<times> u64) list" where
  "newest_first known = map (\<lambda>(ts, t). (t, ts)) (rev (sort (map (\<lambda>(t, ts). (ts, t)) known)))"

definition window_select :: "window \<Rightarrow> (string \<times> u64) list \<Rightarrow> string set" where
  "window_select w known0 =
     (let known = dedup_tags (newest_first known0);
          out = w_tags w
      in if w_full w then out \<union> set (map fst known)
         else if w_last w > 0 then out \<union> set (map fst (take (w_last w) known))
         else out)"

definition window_describe :: "window \<Rightarrow> string" where
  "window_describe w =
     (let parts = (if w_full w then [''full'']
                   else if w_last w = 1 then [''latest'']
                   else if w_last w > 1 then [''last:'' @ show_nat (w_last w)] else [])
                @ (if w_tags w \<noteq> {} then [show_nat (card (w_tags w)) @ '' tag(s)''] else [])
      in if parts = [] then ''-'' else join_with ''+'' parts)"

section \<open>Policies and their rules\<close>

record seed_entry =
  se_reference :: string
  se_mode :: mode

record follow_entry =
  fe_publisher :: string
  fe_mode :: mode

record policy =
  pol_seed :: "seed_entry list"
  pol_follow :: "follow_entry list"
  pol_pin :: "string list"
  pol_alias :: "(string, string) table"
  pol_dns :: "(string, string) table"

definition policy_default :: policy where
  "policy_default = \<lparr>pol_seed = [], pol_follow = [], pol_pin = [], pol_alias = [], pol_dns = []\<rparr>"

record seed_rule =
  sr_publisher :: public_key
  sr_name :: string
  sr_tag :: "string option"
  sr_mode :: mode

datatype alias_target = Alias_Publisher public_key | Alias_Image public_key string

definition parse_publisher_arg :: "'z crates_scheme \<Rightarrow> policy \<Rightarrow> string \<Rightarrow> public_key result" where
  "parse_publisher_arg K pol s =
     (case parse_publisher K s of
        Inr p \<Rightarrow> Inr p
      | Inl e \<Rightarrow>
          if is_domain_name s then
            and_then (ok_or (tget (pol_dns pol) s) (Policy_err UnknownDomain)) (\<lambda>key.
            map_err (\<lambda>_. Policy_err DomainMapping) (parse_publisher K key))
          else Inl e)"

definition parse_seed_rule :: "'z crates_scheme \<Rightarrow> policy \<Rightarrow> string \<Rightarrow> mode \<Rightarrow> seed_rule result" where
  "parse_seed_rule K pol s m =
     and_then (ok_or (split_once CHR ''/'' s) (Policy_err RuleForm)) (\<lambda>(pubs, rest).
     and_then (parse_publisher_arg K pol pubs) (\<lambda>publisher.
     and_then (split_tag rest) (\<lambda>(name, tag).
     Inr \<lparr>sr_publisher = publisher, sr_name = name, sr_tag = tag, sr_mode = m\<rparr>)))"

definition seed_rules :: "'z crates_scheme \<Rightarrow> policy \<Rightarrow> seed_rule list" where
  "seed_rules K pol =
     List.map_filter (\<lambda>e. to_option (parse_seed_rule K pol (se_reference e) (se_mode e))) (pol_seed pol)"

definition follows :: "'z crates_scheme \<Rightarrow> policy \<Rightarrow> (public_key \<times> mode) list" where
  "follows K pol =
     List.map_filter (\<lambda>e. map_option (\<lambda>p. (p, fe_mode e))
       (to_option (parse_publisher_arg K pol (fe_publisher e)))) (pol_follow pol)"

definition follow_mode :: "'z crates_scheme \<Rightarrow> policy \<Rightarrow> public_key \<Rightarrow> mode option" where
  "follow_mode K pol publisher =
     map_option snd (List.find (\<lambda>(p, _). p = publisher) (follows K pol))"

definition pin_rule :: "'z crates_scheme \<Rightarrow> policy \<Rightarrow> string \<Rightarrow> seed_rule option" where
  "pin_rule K pol s =
     (case parse_seed_rule K pol s Full of
        Inr r \<Rightarrow> if sr_tag r \<noteq> None then Some r else None
      | Inl _ \<Rightarrow> None)"

definition pins :: "'z crates_scheme \<Rightarrow> policy \<Rightarrow> seed_rule list" where
  "pins K pol = List.map_filter (pin_rule K pol) (pol_pin pol)"

definition set_dns_mapping :: "'z crates_scheme \<Rightarrow> string \<Rightarrow> public_key \<Rightarrow> policy \<Rightarrow> policy" where
  "set_dns_mapping K zone publisher pol =
     pol\<lparr>pol_dns := tput zone (pk_display K publisher) (pol_dns pol)\<rparr>"

definition publishers :: "'z crates_scheme \<Rightarrow> policy \<Rightarrow> public_key set" where
  "publishers K pol = set (map fst (follows K pol) @ map sr_publisher (seed_rules K pol)
     @ map sr_publisher (pins K pol))"

definition is_pinned :: "'z crates_scheme \<Rightarrow> policy \<Rightarrow> public_key \<Rightarrow> string \<Rightarrow> string \<Rightarrow> bool" where
  "is_pinned K pol publisher name tag \<longleftrightarrow>
     list_ex (\<lambda>r. sr_publisher r = publisher \<and> sr_name r = name \<and> sr_tag r = Some tag) (pins K pol)"

definition absorb_seed :: "public_key \<Rightarrow> string \<Rightarrow> seed_rule \<Rightarrow> window \<Rightarrow> window" where
  "absorb_seed publisher name r w =
     (if sr_publisher r \<noteq> publisher \<or> sr_name r \<noteq> name then w
      else case sr_tag r of
        Some t \<Rightarrow> w\<lparr>w_tags := insert t (w_tags w)\<rparr>
      | None \<Rightarrow> absorb w (sr_mode r))"

definition absorb_pin :: "public_key \<Rightarrow> string \<Rightarrow> seed_rule \<Rightarrow> window \<Rightarrow> window" where
  "absorb_pin publisher name r w =
     (if sr_publisher r = publisher \<and> sr_name r = name then
        (case sr_tag r of Some t \<Rightarrow> w\<lparr>w_tags := insert t (w_tags w)\<rparr> | None \<Rightarrow> w)
      else w)"

definition policy_window :: "'z crates_scheme \<Rightarrow> policy \<Rightarrow> public_key \<Rightarrow> string \<Rightarrow> window" where
  "policy_window K pol publisher name =
     (let w0 = window_default;
          w1 = (case follow_mode K pol publisher of Some m \<Rightarrow> absorb w0 m | None \<Rightarrow> w0);
          w2 = fold (absorb_seed publisher name) (seed_rules K pol) w1
      in fold (absorb_pin publisher name) (pins K pol) w2)"

definition covers :: "'z crates_scheme \<Rightarrow> policy \<Rightarrow> public_key \<Rightarrow> string \<Rightarrow> bool" where
  "covers K pol publisher name \<longleftrightarrow> \<not> window_is_empty (policy_window K pol publisher name)"

section \<open>Aliases\<close>

definition parse_alias_target :: "'z crates_scheme \<Rightarrow> string \<Rightarrow> alias_target result" where
  "parse_alias_target K target =
     (case parse_publisher K target of
        Inr p \<Rightarrow> Inr (Alias_Publisher p)
      | Inl _ \<Rightarrow>
          and_then (ok_or (split_once CHR ''/'' target) (Policy_err AliasTargetForm)) (\<lambda>(pubs, name).
          and_then (parse_publisher K pubs) (\<lambda>publisher.
          and_then (validate_name name) (\<lambda>_. Inr (Alias_Image publisher name)))))"

definition validate_alias :: "string \<Rightarrow> unit result" where
  "validate_alias a =
     ensure (\<not> (a = [] \<or> (length a = 64 \<and> list_all is_hexdigit a)
        \<or> \<not> list_all (\<lambda>c. is_lower c \<or> is_digit c \<or> c \<in> {CHR ''.'', CHR ''_'', CHR ''-''}) a))
       (Policy_err AliasSyntax)"

definition resolve_alias :: "'z crates_scheme \<Rightarrow> policy \<Rightarrow> string \<Rightarrow> alias_target option" where
  "resolve_alias K pol a =
     Option.bind (tget (pol_alias pol) a) (\<lambda>target. to_option (parse_alias_target K target))"

definition show_alias_target :: "'z crates_scheme \<Rightarrow> alias_target \<Rightarrow> string" where
  "show_alias_target K t = (case t of
     Alias_Publisher p \<Rightarrow> pk_display K p
   | Alias_Image p n \<Rightarrow> pk_display K p @ ''/'' @ n)"

definition set_alias :: "'z crates_scheme \<Rightarrow> string \<Rightarrow> string \<Rightarrow> policy \<Rightarrow> policy result" where
  "set_alias K a target pol =
     and_then (validate_alias a) (\<lambda>_.
     and_then (parse_alias_target K target) (\<lambda>t.
     Inr (pol\<lparr>pol_alias := tput a (show_alias_target K t) (pol_alias pol)\<rparr>)))"

definition remove_alias :: "string \<Rightarrow> policy \<Rightarrow> policy \<times> bool" where
  "remove_alias a pol = (pol\<lparr>pol_alias := tdel a (pol_alias pol)\<rparr>, tget (pol_alias pol) a \<noteq> None)"

section \<open>Changing the rules\<close>

fun update_first :: "('a \<Rightarrow> bool) \<Rightarrow> ('a \<Rightarrow> 'a) \<Rightarrow> 'a list \<Rightarrow> 'a list" where
  "update_first P f [] = []"
| "update_first P f (x # xs) = (if P x then f x # xs else x # update_first P f xs)"

definition add_seed :: "'z crates_scheme \<Rightarrow> string \<Rightarrow> mode \<Rightarrow> policy \<Rightarrow> (policy \<times> bool) result" where
  "add_seed K rule m pol =
     and_then (parse_seed_rule K pol rule m) (\<lambda>_.
     case List.find (\<lambda>e. se_reference e = rule) (pol_seed pol) of
       Some ex \<Rightarrow>
         if se_mode ex = m then Inr (pol, False)
         else Inr (pol\<lparr>pol_seed := update_first (\<lambda>e. se_reference e = rule) (\<lambda>e. e\<lparr>se_mode := m\<rparr>)
                    (pol_seed pol)\<rparr>, True)
     | None \<Rightarrow> Inr (pol\<lparr>pol_seed := pol_seed pol @ [\<lparr>se_reference = rule, se_mode = m\<rparr>]\<rparr>, True))"

definition seed_matches :: "'z crates_scheme \<Rightarrow> policy \<Rightarrow> seed_rule \<Rightarrow> seed_entry \<Rightarrow> bool" where
  "seed_matches K pol parsed e =
     (case parse_seed_rule K pol (se_reference e) (se_mode e) of
        Inr r \<Rightarrow> sr_publisher r = sr_publisher parsed \<and> sr_name r = sr_name parsed
          \<and> (sr_tag parsed = None \<or> sr_tag r = sr_tag parsed)
      | Inl _ \<Rightarrow> False)"

definition remove_seed :: "'z crates_scheme \<Rightarrow> string \<Rightarrow> policy \<Rightarrow> (policy \<times> bool) result" where
  "remove_seed K rule pol =
     and_then (parse_seed_rule K pol rule Full) (\<lambda>parsed.
     let rest = filter (\<lambda>e. \<not> seed_matches K pol parsed e) (pol_seed pol)
     in Inr (pol\<lparr>pol_seed := rest\<rparr>, length rest \<noteq> length (pol_seed pol)))"

definition follow_is :: "'z crates_scheme \<Rightarrow> policy \<Rightarrow> public_key \<Rightarrow> follow_entry \<Rightarrow> bool" where
  "follow_is K pol key e \<longleftrightarrow> to_option (parse_publisher_arg K pol (fe_publisher e)) = Some key"

definition add_follow :: "'z crates_scheme \<Rightarrow> string \<Rightarrow> mode \<Rightarrow> policy \<Rightarrow> (policy \<times> bool) result" where
  "add_follow K publisher m pol =
     and_then (parse_publisher_arg K pol publisher) (\<lambda>key.
     case List.find (follow_is K pol key) (pol_follow pol) of
       Some ex \<Rightarrow>
         if fe_mode ex = m then Inr (pol, False)
         else Inr (pol\<lparr>pol_follow := update_first (follow_is K pol key) (\<lambda>e. e\<lparr>fe_mode := m\<rparr>)
                    (pol_follow pol)\<rparr>, True)
     | None \<Rightarrow> Inr (pol\<lparr>pol_follow := pol_follow pol @ [\<lparr>fe_publisher = publisher, fe_mode = m\<rparr>]\<rparr>, True))"

text \<open>\<open>remove_follow\<close> spells the resolution of an entry out again.\<close>

definition follow_key :: "'z crates_scheme \<Rightarrow> policy \<Rightarrow> follow_entry \<Rightarrow> public_key option" where
  "follow_key K pol e =
     (case to_option (parse_publisher K (fe_publisher e)) of
        Some p \<Rightarrow> Some p
      | None \<Rightarrow>
          Option.bind (if is_domain_name (fe_publisher e) then tget (pol_dns pol) (fe_publisher e) else None)
            (\<lambda>k. to_option (parse_publisher K k)))"

definition remove_follow :: "'z crates_scheme \<Rightarrow> string \<Rightarrow> policy \<Rightarrow> (policy \<times> bool) result" where
  "remove_follow K publisher pol =
     and_then (parse_publisher_arg K pol publisher) (\<lambda>key.
     let rest = filter (\<lambda>e. follow_key K pol e \<noteq> Some key) (pol_follow pol)
     in Inr (pol\<lparr>pol_follow := rest\<rparr>, length rest \<noteq> length (pol_follow pol)))"

definition add_pin :: "'z crates_scheme \<Rightarrow> string \<Rightarrow> policy \<Rightarrow> (policy \<times> bool) result" where
  "add_pin K ref pol =
     and_then (parse_seed_rule K pol ref Full) (\<lambda>parsed.
     and_then (ensure (\<not> sr_tag parsed = None) (Policy_err PinNeedsTag)) (\<lambda>_.
     if ref \<in> set (pol_pin pol) then Inr (pol, False)
     else Inr (pol\<lparr>pol_pin := pol_pin pol @ [ref]\<rparr>, True)))"

definition seed_rule_to_string :: "'z crates_scheme \<Rightarrow> seed_rule \<Rightarrow> string" where
  "seed_rule_to_string K r = (case sr_tag r of
     Some t \<Rightarrow> pk_display K (sr_publisher r) @ ''/'' @ sr_name r @ '':'' @ t
   | None \<Rightarrow> pk_display K (sr_publisher r) @ ''/'' @ sr_name r)"

definition remove_pin :: "'z crates_scheme \<Rightarrow> string \<Rightarrow> policy \<Rightarrow> (policy \<times> bool) result" where
  "remove_pin K ref pol =
     and_then (parse_seed_rule K pol ref Full) (\<lambda>parsed.
     let canonical = seed_rule_to_string K parsed;
         rest = filter (\<lambda>p. p \<noteq> ref \<and> p \<noteq> canonical) (pol_pin pol)
     in Inr (pol\<lparr>pol_pin := rest\<rparr>, length rest \<noteq> length (pol_pin pol)))"

section \<open>Resolving a repository path\<close>

definition resolve_repo ::
  "'z crates_scheme \<Rightarrow> string \<Rightarrow> policy \<Rightarrow> public_key \<Rightarrow> (public_key \<times> string) result" where
  "resolve_repo K repo0 pol self =
     (let repo = trim_by (\<lambda>c. c = CHR ''/'') repo0 in
      and_then (ensure (\<not> repo = []) (Name_err EmptyRepo)) (\<lambda>_.
      let (first, rest) = (case split_once CHR ''/'' repo of
            Some (f, r) \<Rightarrow> (f, Some r) | None \<Rightarrow> (repo, None))
      in if is_hex_publisher first then
           and_then (ok_or rest (Name_err NameAfterPublisher)) (\<lambda>name.
           and_then (validate_name name) (\<lambda>_.
           and_then (parse_publisher K first) (\<lambda>p. Inr (p, name))))
         else case (rest, to_option (parse_publisher_arg K pol first)) of
           (Some r, Some p) \<Rightarrow> and_then (validate_name r) (\<lambda>_. Inr (p, r))
         | _ \<Rightarrow>
           (case resolve_alias K pol repo of
              Some (Alias_Image p n) \<Rightarrow> Inr (p, n)
            | _ \<Rightarrow>
              (case resolve_alias K pol first of
                 Some (Alias_Publisher p) \<Rightarrow>
                   and_then (ok_or rest (Name_err NameAfterAlias)) (\<lambda>name.
                   and_then (validate_name name) (\<lambda>_. Inr (p, name)))
               | _ \<Rightarrow> and_then (validate_name repo) (\<lambda>_. Inr (self, repo))))))"

definition image_ref_parse ::
  "'z crates_scheme \<Rightarrow> string \<Rightarrow> policy \<Rightarrow> public_key \<Rightarrow> image_ref result" where
  "image_ref_parse K s0 pol self =
     (let s = trim s0 in
      if strip_prefix ''did:key:'' s \<noteq> None then parse_explicit K s
      else
        and_then (split_tag (strip_registry_location s)) (\<lambda>(repo, tag).
        and_then (resolve_repo K repo pol self) (\<lambda>(publisher, name).
        Inr \<lparr>ref_publisher = publisher, ref_name = name, ref_tag = tag\<rparr>)))"

section \<open>Known peers\<close>

record endpoint_addr =
  addr_id :: public_key
  addr_addrs :: "string set"

definition peers_upsert :: "endpoint_addr \<Rightarrow> endpoint_addr list \<Rightarrow> endpoint_addr list \<times> bool" where
  "peers_upsert addr ps =
     (case List.find (\<lambda>p. addr_id p = addr_id addr) ps of
        Some _ \<Rightarrow> (update_first (\<lambda>p. addr_id p = addr_id addr)
                    (\<lambda>p. p\<lparr>addr_addrs := addr_addrs p \<union> addr_addrs addr\<rparr>) ps, False)
      | None \<Rightarrow> (ps @ [addr], True))"

end
