(* ===== verification/Retention.thy ===== *)
theory Retention
  imports Policy Demo_Crates
begin

text \<open>
  What the policy promises: the selection of a window is the union of what each rule keeps, rules
  can be added and removed, and a repository path resolves to a publisher and a valid name.
\<close>

section \<open>The newest releases of an image\<close>

lemma take_decreasing:
  fixes ys :: "'a::linorder list"
  assumes "sorted_wrt (\<lambda>x y. x > y) ys"
  shows "x \<in> set (take n ys) \<longleftrightarrow> x \<in> set ys \<and> card {y \<in> set ys. x < y} < n"
  using assms
proof (induction ys arbitrary: n)
  case (Cons a ys)
  have lower: "\<forall>y \<in> set ys. y < a" and sorted: "sorted_wrt (\<lambda>x y. x > y) ys"
    using Cons.prems by auto
  show ?case
  proof (cases "x = a")
    case True
    have none: "{y \<in> set (a # ys). x < y} = {}" using lower True by force
    show ?thesis unfolding none by (cases n) (simp_all add: True)
  next
    case False
    show ?thesis
    proof (cases "x \<in> set ys")
      case True
      then have "{y \<in> set (a # ys). x < y} = insert a {y \<in> set ys. x < y}" using lower by auto
      moreover have "a \<notin> {y \<in> set ys. x < y}" using lower by auto
      ultimately have "card {y \<in> set (a # ys). x < y} = Suc (card {y \<in> set ys. x < y})"
        by simp
      with True False Cons.IH [OF sorted, of "n - 1"] show ?thesis by (cases n) auto
    next
      case out: False
      with False show ?thesis by (auto dest: in_set_takeD)
    qed
  qed
qed simp

lemma sorted_rev_sort: "distinct xs \<Longrightarrow> sorted_wrt (\<lambda>x y. x > y) (rev (sort (xs :: 'a::linorder list)))"
  by (simp add: sorted_wrt_rev strict_sorted_iff [symmetric] strict_sorted_iff)

lemma dedup_tags_distinct: "distinct (map fst xs) \<Longrightarrow> dedup_tags xs = xs"
  by (induction xs rule: dedup_tags.induct) auto

lemma distinct_rev_sort:
  fixes xs :: "'a::linorder list"
  shows "distinct (map f xs) \<Longrightarrow> distinct (map f (rev (sort xs)))"
  by (simp add: distinct_map)

lemma distinct_newest_first: "distinct (map fst known) \<Longrightarrow> distinct (map fst (newest_first known))"
  using distinct_rev_sort [of snd "map (\<lambda>(t :: string, ts :: u64). (ts, t)) known"]
  by (simp add: newest_first_def case_prod_unfold comp_def)

text \<open>The number of releases of the image that are newer than the release \<open>(t, ts)\<close>.\<close>

definition rank_of :: "(string \<times> u64) list \<Rightarrow> string \<Rightarrow> u64 \<Rightarrow> nat" where
  "rank_of known t ts = card {(t', ts') \<in> set known. (ts, t) < (ts', t')}"

lemma in_take_newest:
  assumes "distinct known"
  shows "(t, ts) \<in> set (take n (newest_first known)) \<longleftrightarrow> (t, ts) \<in> set known \<and> rank_of known t ts < n"
proof -
  let ?swap = "\<lambda>(t :: string, ts :: u64). (ts, t)"
  let ?xs = "map ?swap known"
  have inj: "inj_on ?swap A" for A by (auto simp: inj_on_def)
  have d: "distinct ?xs" using assms inj by (simp add: distinct_map)
  have "(t, ts) \<in> set (take n (newest_first known)) \<longleftrightarrow> (ts, t) \<in> set (take n (rev (sort ?xs)))"
    by (force simp: newest_first_def take_map)
  also have "\<dots> \<longleftrightarrow> (ts, t) \<in> set ?xs \<and> card {y \<in> set ?xs. (ts, t) < y} < n"
    using take_decreasing [OF sorted_rev_sort [OF d]] by simp
  also have "{y \<in> set ?xs. (ts, t) < y} = ?swap ` {(t', ts') \<in> set known. (ts, t) < (ts', t')}"
    by (intro set_eqI) (force simp: image_iff)
  also have "card \<dots> = rank_of known t ts"
    using card_image [OF inj] by (simp add: rank_of_def)
  finally show ?thesis by auto
qed

lemma newest_first_set: "set (newest_first known) = set known"
  by (force simp: newest_first_def)

lemma window_select_iff:
  assumes "distinct (map fst known)"
  shows "t \<in> window_select w known \<longleftrightarrow> t \<in> w_tags w
    \<or> (\<exists>ts. (t, ts) \<in> set known \<and> (w_full w \<or> rank_of known t ts < w_last w))"
proof -
  have dd: "dedup_tags (newest_first known) = newest_first known"
    by (rule dedup_tags_distinct [OF distinct_newest_first [OF assms]])
  have d: "distinct known" using assms by (simp add: distinct_map)
  have "t \<in> fst ` set (take n (newest_first known))
      \<longleftrightarrow> (\<exists>ts. (t, ts) \<in> set known \<and> rank_of known t ts < n)" for n
    using in_take_newest [OF d] by force
  moreover have "t \<in> fst ` set (newest_first known) \<longleftrightarrow> (\<exists>ts. (t, ts) \<in> set known)"
    by (force simp: newest_first_set)
  ultimately show ?thesis
    by (auto simp: window_select_def Let_def dd)
qed

section \<open>A window is the union of its rules\<close>

definition mode_keeps :: "mode \<Rightarrow> nat \<Rightarrow> bool" where
  "mode_keeps m k \<longleftrightarrow> (case mode_window m of None \<Rightarrow> True | Some n \<Rightarrow> k < n)"

definition window_keeps :: "window \<Rightarrow> nat \<Rightarrow> bool" where
  "window_keeps w k \<longleftrightarrow> w_full w \<or> k < w_last w"

definition rule_for :: "public_key \<Rightarrow> string \<Rightarrow> seed_rule \<Rightarrow> bool" where
  "rule_for p n r \<longleftrightarrow> sr_publisher r = p \<and> sr_name r = n"

lemma absorb_keeps:
  "window_keeps (absorb w m) k \<longleftrightarrow> window_keeps w k \<or> mode_keeps m k" "w_tags (absorb w m) = w_tags w"
  by (auto simp: absorb_def window_keeps_def mode_keeps_def split: option.split)

lemma window_keeps_tags [simp]: "window_keeps (w\<lparr>w_tags := T\<rparr>) k = window_keeps w k"
  by (simp add: window_keeps_def)

lemma absorb_seeds_keep:
  "window_keeps (fold (absorb_seed p n) rs w) k \<longleftrightarrow> window_keeps w k
     \<or> (\<exists>r \<in> set rs. rule_for p n r \<and> sr_tag r = None \<and> mode_keeps (sr_mode r) k)"
  "w_tags (fold (absorb_seed p n) rs w) = w_tags w \<union> {t. \<exists>r \<in> set rs. rule_for p n r \<and> sr_tag r = Some t}"
proof (induction rs arbitrary: w)
  case (Cons r rs)
  {
    case 1
    have "window_keeps (absorb_seed p n r w) k \<longleftrightarrow> window_keeps w k
        \<or> (rule_for p n r \<and> sr_tag r = None \<and> mode_keeps (sr_mode r) k)"
      by (auto simp: absorb_seed_def rule_for_def absorb_keeps split: option.split)
    with Cons.IH(1) show ?case by auto
  next
    case 2
    have "w_tags (absorb_seed p n r w) = w_tags w \<union> {t. rule_for p n r \<and> sr_tag r = Some t}"
      by (auto simp: absorb_seed_def rule_for_def absorb_keeps split: option.split)
    with Cons.IH(2) show ?case by auto
  }
qed simp_all

lemma absorb_pins_keep:
  "window_keeps (fold (absorb_pin p n) rs w) k \<longleftrightarrow> window_keeps w k"
  "w_tags (fold (absorb_pin p n) rs w) = w_tags w \<union> {t. \<exists>r \<in> set rs. rule_for p n r \<and> sr_tag r = Some t}"
proof (induction rs arbitrary: w)
  case (Cons r rs)
  {
    case 1
    have "window_keeps (absorb_pin p n r w) k \<longleftrightarrow> window_keeps w k"
      by (auto simp: absorb_pin_def split: option.split)
    with Cons.IH(1) show ?case by simp
  next
    case 2
    have "w_tags (absorb_pin p n r w) = w_tags w \<union> {t. rule_for p n r \<and> sr_tag r = Some t}"
      by (auto simp: absorb_pin_def rule_for_def split: option.split)
    with Cons.IH(2) show ?case by auto
  }
qed simp_all

text \<open>The modes of the rules that speak of an image, and the tags they name.\<close>

definition image_modes :: "'z crates_scheme \<Rightarrow> policy \<Rightarrow> public_key \<Rightarrow> string \<Rightarrow> mode set" where
  "image_modes K pol p n = set_option (follow_mode K pol p)
     \<union> {sr_mode r | r. r \<in> set (seed_rules K pol) \<and> rule_for p n r \<and> sr_tag r = None}"

definition image_tags :: "'z crates_scheme \<Rightarrow> policy \<Rightarrow> public_key \<Rightarrow> string \<Rightarrow> string set" where
  "image_tags K pol p n = {t. \<exists>r \<in> set (seed_rules K pol) \<union> set (pins K pol). rule_for p n r \<and> sr_tag r = Some t}"

lemma policy_window_keeps:
  "window_keeps (policy_window K pol p n) k \<longleftrightarrow> (\<exists>m \<in> image_modes K pol p n. mode_keeps m k)"
  "w_tags (policy_window K pol p n) = image_tags K pol p n"
proof -
  have none: "\<not> window_keeps window_default k" "w_tags window_default = {}"
    by (simp_all add: window_default_def window_keeps_def)
  show "window_keeps (policy_window K pol p n) k \<longleftrightarrow> (\<exists>m \<in> image_modes K pol p n. mode_keeps m k)"
    by (auto simp: policy_window_def Let_def absorb_pins_keep absorb_seeds_keep absorb_keeps none
        image_modes_def split: option.split)
  show "w_tags (policy_window K pol p n) = image_tags K pol p n"
    by (auto simp: policy_window_def Let_def absorb_pins_keep absorb_seeds_keep absorb_keeps none
        image_tags_def split: option.split)
qed

lemma pin_rule_Some_iff:
  "pin_rule K pol s = Some r \<longleftrightarrow> parse_seed_rule K pol s Full = Inr r \<and> (\<exists>t. sr_tag r = Some t)"
  by (cases "parse_seed_rule K pol s Full") (auto simp: pin_rule_def)

lemma pins_iff: "r \<in> set (pins K pol) \<longleftrightarrow>
    (\<exists>s \<in> set (pol_pin pol). parse_seed_rule K pol s Full = Inr r \<and> (\<exists>t. sr_tag r = Some t))"
  by (simp add: pins_def map_filter_Some_iff pin_rule_Some_iff)

lemma is_pinned_iff:
  "is_pinned K pol p n t \<longleftrightarrow> (\<exists>r \<in> set (pins K pol). rule_for p n r \<and> sr_tag r = Some t)"
  by (auto simp: is_pinned_def list_ex_iff rule_for_def)

lemma pinned_in_window: "is_pinned K pol p n t \<Longrightarrow> t \<in> w_tags (policy_window K pol p n)"
  by (auto simp: policy_window_keeps image_tags_def is_pinned_iff)

lemma window_tags_selected: "t \<in> w_tags w \<Longrightarrow> t \<in> window_select w known"
  by (simp add: window_select_def Let_def)

lemma mode_keeps_newest: "mode_keeps m 0"
proof -
  have "0 < unat (max x (1 :: u32))" for x
    by (metis max.cobounded2 not_gr_zero unat_eq_zero word_le_0_iff zero_neq_one)
  then show ?thesis by (simp add: mode_keeps_def mode_window_def split: mode.split)
qed

lemma covers_iff:
  "covers K pol p n \<longleftrightarrow> image_modes K pol p n \<noteq> {} \<or> image_tags K pol p n \<noteq> {}"
proof -
  have "window_is_empty w \<longleftrightarrow> \<not> window_keeps w 0 \<and> w_tags w = {}" for w
    by (auto simp: window_is_empty_def window_keeps_def)
  then show ?thesis
    using mode_keeps_newest by (auto simp: covers_def policy_window_keeps)
qed

section \<open>Changing the rules\<close>

lemma parse_publisher_arg_cong:
  "pol_dns pol' = pol_dns pol \<Longrightarrow> parse_publisher_arg K pol' s = parse_publisher_arg K pol s"
  by (simp add: parse_publisher_arg_def split: sum.split)

lemma parse_seed_rule_cong:
  assumes "pol_dns pol' = pol_dns pol"
  shows "parse_seed_rule K pol' s m = parse_seed_rule K pol s m"
  by (simp add: parse_seed_rule_def parse_publisher_arg_cong [OF assms])

lemma map_filter_filter:
  "List.map_filter f (filter P xs) = List.map_filter (\<lambda>x. if P x then f x else None) xs"
  by (induction xs) (simp_all add: List.map_filter_simps split: option.split)

lemma filter_map_filter:
  "filter P (List.map_filter f xs) = List.map_filter (\<lambda>x. case f x of Some y \<Rightarrow> if P y then Some y else None | None \<Rightarrow> None) xs"
  by (induction xs) (simp_all add: List.map_filter_simps split: option.split)

definition rule_hit :: "seed_rule \<Rightarrow> seed_rule \<Rightarrow> bool" where
  "rule_hit parsed r \<longleftrightarrow> rule_for (sr_publisher parsed) (sr_name parsed) r
     \<and> (sr_tag parsed = None \<or> sr_tag r = sr_tag parsed)"

lemma seed_rules_iff: "r \<in> set (seed_rules K pol) \<longleftrightarrow>
    (\<exists>e \<in> set (pol_seed pol). parse_seed_rule K pol (se_reference e) (se_mode e) = Inr r)"
  by (simp add: seed_rules_def map_filter_Some_iff)

lemma remove_seed_rules:
  assumes "remove_seed K rule pol = Inr (pol', b)"
  obtains parsed where "parse_seed_rule K pol rule Full = Inr parsed"
    "seed_rules K pol' = filter (\<lambda>r. \<not> rule_hit parsed r) (seed_rules K pol)"
    "pol' = pol\<lparr>pol_seed := pol_seed pol'\<rparr>"
    "b \<longleftrightarrow> (\<exists>r \<in> set (seed_rules K pol). rule_hit parsed r)"
proof -
  obtain parsed where parsed: "parse_seed_rule K pol rule Full = Inr parsed"
    and pol': "pol' = pol\<lparr>pol_seed := filter (\<lambda>e. \<not> seed_matches K pol parsed e) (pol_seed pol)\<rparr>"
    and b: "b \<longleftrightarrow> length (filter (\<lambda>e. \<not> seed_matches K pol parsed e) (pol_seed pol)) \<noteq> length (pol_seed pol)"
    using assms by (auto simp: remove_seed_def Let_def)
  let ?f = "\<lambda>e. to_option (parse_seed_rule K pol (se_reference e) (se_mode e))"
  have m: "seed_matches K pol parsed e \<longleftrightarrow> (\<exists>r. ?f e = Some r \<and> rule_hit parsed r)" for e
    by (cases "parse_seed_rule K pol (se_reference e) (se_mode e)")
       (auto simp: seed_matches_def rule_hit_def rule_for_def)
  have "seed_rules K pol' = List.map_filter ?f (filter (\<lambda>e. \<not> seed_matches K pol parsed e) (pol_seed pol))"
    by (simp add: seed_rules_def pol' parse_seed_rule_cong [of pol' pol, unfolded pol'])
  also have "\<dots> = filter (\<lambda>r. \<not> rule_hit parsed r) (seed_rules K pol)"
    unfolding map_filter_filter filter_map_filter seed_rules_def
    by (rule arg_cong [where f = "\<lambda>g. List.map_filter g (pol_seed pol)"])
       (auto simp: m fun_eq_iff split: option.split)
  finally have rules: "seed_rules K pol' = filter (\<lambda>r. \<not> rule_hit parsed r) (seed_rules K pol)" .
  have "b \<longleftrightarrow> (\<exists>e \<in> set (pol_seed pol). seed_matches K pol parsed e)"
    unfolding b by (metis (no_types, lifting) filter_True length_filter_less nat_neq_iff)
  also have "\<dots> \<longleftrightarrow> (\<exists>r \<in> set (seed_rules K pol). rule_hit parsed r)"
    by (auto simp: m seed_rules_iff Bex_def)
  finally show ?thesis using that parsed rules pol' by simp
qed

lemma follow_mode_first:
  "follow_mode K pol key = map_option fe_mode (List.find (follow_is K pol key) (pol_follow pol))"
proof -
  have "map_option snd (List.find (\<lambda>(p, _). p = key) (List.map_filter (\<lambda>e. map_option (\<lambda>p. (p, fe_mode e))
       (to_option (parse_publisher_arg K pol (fe_publisher e)))) es))
      = map_option fe_mode (List.find (follow_is K pol key) es)" for es
    by (induction es) (auto simp: List.map_filter_simps follow_is_def split: option.split)
  then show ?thesis by (simp add: follow_mode_def follows_def)
qed

lemma find_update_first:
  "(\<And>x. P (f x) = P x) \<Longrightarrow> List.find P (update_first P f xs) = map_option f (List.find P xs)"
  by (induction xs) auto

lemma find_update_other:
  "(\<And>x. P x \<Longrightarrow> \<not> Q x) \<Longrightarrow> (\<And>x. Q (f x) = Q x) \<Longrightarrow> List.find Q (update_first P f xs) = List.find Q xs"
  by (induction xs) auto

lemma find_append: "List.find P (xs @ ys) = (case List.find P xs of None \<Rightarrow> List.find P ys | r \<Rightarrow> r)"
  by (induction xs) auto

lemma find_filter:
  "(\<And>x. P x \<Longrightarrow> Q x) \<Longrightarrow> List.find P (filter Q xs) = List.find P xs"
  by (induction xs) auto

lemma follow_is_cong:
  assumes "pol_dns pol' = pol_dns pol"
  shows "follow_is K pol' = follow_is K pol"
  by (simp add: follow_is_def fun_eq_iff parse_publisher_arg_cong [OF assms])

lemma follow_is_unique: "follow_is K pol a e \<Longrightarrow> follow_is K pol b e \<Longrightarrow> a = b"
  by (simp add: follow_is_def)

lemma add_follow_mode:
  assumes "add_follow K s m pol = Inr (pol', b)"
  obtains key where "parse_publisher_arg K pol s = Inr key"
    "\<And>p. follow_mode K pol' p = (if p = key then Some m else follow_mode K pol p)"
    "b \<longleftrightarrow> follow_mode K pol key \<noteq> Some m"
proof -
  obtain key where key: "parse_publisher_arg K pol s = Inr key"
    using assms by (auto simp: add_follow_def)
  have same: "follow_is K pol p (e\<lparr>fe_mode := m\<rparr>) = follow_is K pol p e" for p e
    by (simp add: follow_is_def)
  have new: "follow_is K pol p \<lparr>fe_publisher = s, fe_mode = m\<rparr> \<longleftrightarrow> p = key" for p
    using key by (auto simp: follow_is_def)
  show ?thesis
  proof (cases "List.find (follow_is K pol key) (pol_follow pol)")
    case None
    then have pol': "pol' = pol\<lparr>pol_follow := pol_follow pol @ [\<lparr>fe_publisher = s, fe_mode = m\<rparr>]\<rparr>" "b"
      using assms key by (auto simp: add_follow_def)
    then have "follow_mode K pol' p = (if p = key then Some m else follow_mode K pol p)" for p
      using None follow_is_cong [of pol' pol K]
      by (simp add: follow_mode_first find_append new split: option.split)
    with None pol'(2) key that show ?thesis by (simp add: follow_mode_first)
  next
    case (Some ex)
    show ?thesis
    proof (cases "fe_mode ex = m")
      case True
      then have "pol' = pol" "\<not> b" using assms key Some by (auto simp: add_follow_def)
      with True Some key that show ?thesis by (simp add: follow_mode_first)
    next
      case False
      then have pol': "pol' = pol\<lparr>pol_follow := update_first (follow_is K pol key) (\<lambda>e. e\<lparr>fe_mode := m\<rparr>)
          (pol_follow pol)\<rparr>" "b"
        using assms key Some by (auto simp: add_follow_def)
      have "follow_mode K pol' p = (if p = key then Some m else follow_mode K pol p)" for p
      proof (cases "p = key")
        case True
        then show ?thesis
          using Some follow_is_cong [of pol' pol K]
          by (simp add: follow_mode_first pol'(1) find_update_first same)
      next
        case ne: False
        then have "List.find (follow_is K pol p) (update_first (follow_is K pol key)
            (\<lambda>e. e\<lparr>fe_mode := m\<rparr>) (pol_follow pol)) = List.find (follow_is K pol p) (pol_follow pol)"
          by (intro find_update_other) (auto simp: same dest: follow_is_unique)
        with ne show ?thesis
          using follow_is_cong [of pol' pol K] by (simp add: follow_mode_first pol'(1))
      qed
      with False Some pol'(2) key that show ?thesis by (simp add: follow_mode_first)
    qed
  qed
qed

lemma follow_key_is: "follow_key K pol e = to_option (parse_publisher_arg K pol (fe_publisher e))"
proof (cases "parse_publisher K (fe_publisher e)")
  case (Inl x)
  then show ?thesis
    by (cases "tget (pol_dns pol) (fe_publisher e)")
       (auto simp: follow_key_def parse_publisher_arg_def map_err_def split: sum.split)
qed (simp add: follow_key_def parse_publisher_arg_def)

lemma remove_follow_mode:
  assumes "remove_follow K s pol = Inr (pol', b)"
  obtains key where "parse_publisher_arg K pol s = Inr key"
    "\<And>p. follow_mode K pol' p = (if p = key then None else follow_mode K pol p)"
proof -
  obtain key where key: "parse_publisher_arg K pol s = Inr key"
    and pol': "pol' = pol\<lparr>pol_follow := filter (\<lambda>e. \<not> follow_is K pol key e) (pol_follow pol)\<rparr>"
    using assms by (auto simp: remove_follow_def Let_def follow_key_is follow_is_def)
  have "follow_mode K pol' p = (if p = key then None else follow_mode K pol p)" for p
  proof (cases "p = key")
    case True
    have "List.find (follow_is K pol key) (filter (\<lambda>e. \<not> follow_is K pol key e) (pol_follow pol)) = None"
      by (simp add: find_None_iff)
    with True show ?thesis
      using follow_is_cong [of pol' pol K] by (simp add: follow_mode_first pol')
  next
    case False
    then have "List.find (follow_is K pol p) (filter (\<lambda>e. \<not> follow_is K pol key e) (pol_follow pol))
        = List.find (follow_is K pol p) (pol_follow pol)"
      by (intro find_filter) (auto dest: follow_is_unique)
    with False show ?thesis
      using follow_is_cong [of pol' pol K] by (simp add: follow_mode_first pol')
  qed
  with key that show ?thesis by blast
qed

section \<open>Resolving names\<close>

lemma display_plain:
  assumes "key_laws K"
  shows "CHR ''/'' \<notin> set (pk_display K p)" "pk_display K p \<noteq> []" "list_all (\<lambda>c. \<not> is_space c) (pk_display K p)"
  using key_lawsD(2,3) [OF assms, of p] by (auto simp: lhex_no_slash lhex_no_space)

lemma name_not_slash:
  assumes "name_ok n"
  shows "n \<noteq> [] \<and> hd n \<noteq> CHR ''/'' \<and> last n \<noteq> CHR ''/''"
  using name_ok_ends [OF assms] assms by (auto simp: name_ok_iff)

lemma resolve_repo_explicit:
  assumes "key_laws K" "name_ok n"
  shows "resolve_repo K (pk_display K p @ ''/'' @ n) pol self = Inr (p, n)"
proof -
  let ?s = "pk_display K p @ ''/'' @ n"
  have hd: "hd ?s \<noteq> CHR ''/''"
    using display_plain(1,2) [OF assms(1), of p] by (cases "pk_display K p") auto
  have "last ?s \<noteq> CHR ''/''"
    using name_not_slash [OF assms(2)] by simp
  with hd have trim: "trim_by (\<lambda>c. c = CHR ''/'') ?s = ?s"
    by (intro trim_by_id) simp
  have "split_once CHR ''/'' ?s = Some (pk_display K p, n)"
    using display_plain(1) [OF assms(1), of p] by simp
  then show ?thesis
    using trim assms is_hex_publisher_display [OF assms(1), of p] parse_publisher_display [OF assms(1), of p]
    by (simp add: resolve_repo_def Let_def)
qed

lemma parse_alias_target_image: "parse_alias_target K s = Inr (Alias_Image p n) \<Longrightarrow> name_ok n"
  by (cases "parse_publisher K s") (auto simp: parse_alias_target_def)

lemma alias_image_name: "resolve_alias K pol a = Some (Alias_Image p n) \<Longrightarrow> name_ok n"
  by (auto simp: resolve_alias_def bind_eq_Some_conv dest: parse_alias_target_image)

text \<open>What the program relies on in the text forms of a key: they have no slash.\<close>

definition key_text_laws :: "'z crates_scheme \<Rightarrow> bool" where
  "key_text_laws K \<longleftrightarrow> (\<forall>s p. pk_from_str K s = Some p \<longrightarrow> CHR ''/'' \<notin> set s)"

lemma resolve_repo_name_ok:
  assumes "resolve_repo K s pol self = Inr (p, n)"
  shows "name_ok n"
  using assms alias_image_name [of K pol]
  by (auto simp: resolve_repo_def Let_def split: option.splits if_splits alias_target.splits prod.splits)

lemma alias_text_round_trip:
  assumes "key_laws K" "key_text_laws K" "case t of Alias_Publisher p \<Rightarrow> True | Alias_Image p n \<Rightarrow> name_ok n"
  shows "parse_alias_target K (show_alias_target K t) = Inr t"
proof (cases t)
  case (Alias_Publisher p)
  then show ?thesis
    by (simp add: parse_alias_target_def show_alias_target_def parse_publisher_display [OF assms(1)])
next
  case (Alias_Image p n)
  let ?s = "pk_display K p @ CHR ''/'' # n"
  have n: "name_ok n" using assms(3) Alias_Image by simp
  have plain: "list_all (\<lambda>c. \<not> is_space c) ?s"
    using display_plain(3) [OF assms(1), of p] name_ok_no_space [OF n] by (simp add: is_space_def)
  have "strip_prefix ''did:key:'' ?s = None"
  proof -
    have "length (pk_display K p) = 64" "list_all is_lhex (pk_display K p)"
      using key_lawsD [OF assms(1)] by auto
    then obtain a b c ds where "pk_display K p = a # b # c # ds" "is_lhex b"
      by (cases "pk_display K p"; cases "tl (pk_display K p)"; cases "tl (tl (pk_display K p))") auto
    then show ?thesis by (auto simp: strip_prefix_def is_lhex_def is_digit_def)
  qed
  then have "parse_publisher K ?s = ok_or (pk_from_str K ?s) (Key_err PublisherText)"
    using trim_no_space [OF plain] by (simp add: parse_publisher_def)
  moreover have "pk_from_str K ?s = None"
    using assms(2) by (cases "pk_from_str K ?s") (auto simp: key_text_laws_def)
  moreover have "split_once CHR ''/'' ?s = Some (pk_display K p, n)"
    using display_plain(1) [OF assms(1), of p] by simp
  ultimately show ?thesis
    using Alias_Image n
    by (simp add: parse_alias_target_def show_alias_target_def parse_publisher_display [OF assms(1)])
qed

lemma set_alias_resolves:
  assumes "key_laws K" "key_text_laws K" "set_alias K a target pol = Inr pol'"
  obtains t where "parse_alias_target K target = Inr t"
    "\<And>b. resolve_alias K pol' b = (if b = a then Some t else resolve_alias K pol b)"
proof -
  obtain t where t: "parse_alias_target K target = Inr t"
    and pol': "pol' = pol\<lparr>pol_alias := tput a (show_alias_target K t) (pol_alias pol)\<rparr>"
    using assms(3) by (auto simp: set_alias_def)
  have "parse_alias_target K (show_alias_target K t) = Inr t"
    using t parse_alias_target_image by (intro alias_text_round_trip [OF assms(1,2)]) (auto split: alias_target.split)
  then have "resolve_alias K pol' b = (if b = a then Some t else resolve_alias K pol b)" for b
    by (simp add: resolve_alias_def pol')
  with t that show ?thesis by blast
qed

lemma resolve_repo_self:
  assumes "name_ok n" "CHR ''/'' \<notin> set n" "\<not> is_hex_publisher n" "resolve_alias K pol n = None"
  shows "resolve_repo K n pol self = Inr (self, n)"
proof -
  have "trim_by (\<lambda>c. c = CHR ''/'') n = n"
    using name_not_slash [OF assms(1)] by (intro trim_by_id) simp
  moreover have "split_once CHR ''/'' n = None" using assms(2) by (simp add: split_once_None_iff)
  ultimately show ?thesis
    using assms name_not_slash [OF assms(1)] by (simp add: resolve_repo_def Let_def)
qed

lemma resolve_repo_alias:
  assumes "name_ok n" "CHR ''/'' \<notin> set a" "a \<noteq> []" "\<not> is_hex_publisher a"
    "\<not> is_ok (parse_publisher_arg K pol a)"
    "resolve_alias K pol a = Some (Alias_Publisher p)" "resolve_alias K pol (a @ ''/'' @ n) = None"
  shows "resolve_repo K (a @ ''/'' @ n) pol self = Inr (p, n)"
proof -
  have "hd a \<noteq> CHR ''/''" using assms(2,3) by (cases a) auto
  then have "trim_by (\<lambda>c. c = CHR ''/'') (a @ ''/'' @ n) = a @ ''/'' @ n"
    using name_not_slash [OF assms(1)] assms(3) by (intro trim_by_id) simp
  moreover have "split_once CHR ''/'' (a @ ''/'' @ n) = Some (a, n)" using assms(2) by simp
  moreover have "to_option (parse_publisher_arg K pol a) = None"
    using assms(5) by (cases "parse_publisher_arg K pol a") auto
  ultimately show ?thesis
    using assms by (simp add: resolve_repo_def Let_def)
qed

section \<open>Evaluation\<close>

definition demo_policy :: "string list \<Rightarrow> policy" where
  "demo_policy ps = policy_default\<lparr>pol_seed := [\<lparr>se_reference = did_key demo_crates (PublicKey 7) @ ''/app'',
     se_mode = Last 2\<rparr>], pol_pin := ps\<rparr>"

lemma did_no_slash:
  assumes "b58_laws K"
  shows "CHR ''/'' \<notin> set (did_key K p)"
proof -
  have "list_all is_alnum (b58_encode K bs)" for bs
    using assms by (simp add: b58_laws_def)
  moreover have "\<not> is_alnum CHR ''/''"
    by (simp add: is_alnum_def is_digit_def is_lower_def is_upper_def)
  ultimately have "CHR ''/'' \<notin> set (b58_encode K bs)" for bs
    by (auto simp: list_all_iff)
  then show ?thesis by (simp add: did_key_def)
qed

lemma parse_seed_rule_did:
  assumes "b58_laws K" "key_laws K" "name_ok n" "tag_opt_ok t"
  shows "parse_seed_rule K pol (did_key K p @ ''/'' @ name_and_tag n t) m
      = Inr \<lparr>sr_publisher = p, sr_name = n, sr_tag = t, sr_mode = m\<rparr>"
    and "parse_seed_rule K pol (pk_display K p @ ''/'' @ name_and_tag n t) m
      = Inr \<lparr>sr_publisher = p, sr_name = n, sr_tag = t, sr_mode = m\<rparr>"
proof -
  have "split_tag (name_and_tag n t) = Inr (n, t)"
    using split_tag_iff assms(3,4) by auto
  then show "parse_seed_rule K pol (did_key K p @ ''/'' @ name_and_tag n t) m
      = Inr \<lparr>sr_publisher = p, sr_name = n, sr_tag = t, sr_mode = m\<rparr>"
    "parse_seed_rule K pol (pk_display K p @ ''/'' @ name_and_tag n t) m
      = Inr \<lparr>sr_publisher = p, sr_name = n, sr_tag = t, sr_mode = m\<rparr>"
    using did_no_slash [OF assms(1), of p] display_plain(1) [OF assms(2), of p]
    by (simp_all add: parse_seed_rule_def parse_publisher_arg_def parse_publisher_did_key [OF assms(1,2)]
        parse_publisher_display [OF assms(2)])
qed

lemma demo_app_ok: "name_ok ''app''" "tag_ok ''v1''"
  by (simp_all add: name_ok_def tag_ok_def validate_name_def validate_tag_def name_component_ok_def
      name_char_def tag_char_def char_class_defs)

section \<open>Properties\<close>



text \<open>The selection counts an entry per release, not per tag: when the caller passes two releases
  of the same tag that are not neighbours in time, as the replication does with a local and a
  remote release, the older one still takes a place and a tag that should be kept is dropped.\<close>

theorem window_counts_stale_duplicates:
  assumes "t \<noteq> s" "u \<noteq> s" "t \<noteq> u" "d < c" "c < b" "b < a"
  shows "window_select (window_default\<lparr>w_last := 3\<rparr>) [(t, a), (s, b), (t, c), (u, d)] = {t, s}
    \<and> window_select (window_default\<lparr>w_last := 3\<rparr>) [(t, a), (s, b), (u, d)] = {t, s, u}"
proof -
  have le: "d \<le> c" "d \<le> b" "d \<le> a" "c \<le> b" "c \<le> a" "b \<le> a" "\<not> c \<le> d" "\<not> b \<le> d" "\<not> a \<le> d" "\<not> b \<le> c" "\<not> a \<le> c" "\<not> a \<le> b"
    "c \<noteq> d" "b \<noteq> d" "a \<noteq> d" "b \<noteq> c" "a \<noteq> c" "a \<noteq> b" "d < b" "d < a" "c < a"
    using assms(4-6) by auto
  then show ?thesis
    using assms
    by (auto simp: window_select_def newest_first_def window_default_def Let_def less_eq_prod_def less_prod_def)
qed

theorem window_counts_stale_duplicates_witness:
  "window_select (window_default\<lparr>w_last := 3\<rparr>) [(''a'', 5), (''b'', 4), (''a'', 3), (''c'', 2)] = {''a'', ''b''}"
  using window_counts_stale_duplicates [of "''a''" "''b''" "''c''" 2 3 4 5] by simp

text \<open>Removing a seed rule removes exactly the rules it names: after it, the seed rules are those
  before without the rules for the same publisher and image, and for the same tag when the removed
  rule has one, whatever text they were written in; nothing else of the policy changes, and the
  result tells whether there was such a rule.\<close>

theorem remove_seed_exact:
  assumes "remove_seed K rule pol = Inr (pol', b)"
  shows "\<exists>parsed. parse_seed_rule K pol rule Full = Inr parsed
    \<and> seed_rules K pol' = filter (\<lambda>r. \<not> rule_hit parsed r) (seed_rules K pol)
    \<and> pol' = pol\<lparr>pol_seed := pol_seed pol'\<rparr>
    \<and> (b \<longleftrightarrow> list_ex (rule_hit parsed) (seed_rules K pol))"
  using remove_seed_rules [OF assms] by (metis Bex_set)

theorem remove_seed_exact_witness:
  "\<exists>pol'. remove_seed demo_crates (pk_display demo_crates (PublicKey 7) @ ''/app'') (demo_policy []) = Inr (pol', True)
     \<and> seed_rules demo_crates pol' = []"
proof -
  let ?rule = "pk_display demo_crates (PublicKey 7) @ ''/app''"
  have rule: "parse_seed_rule demo_crates pol (did_key demo_crates (PublicKey 7) @ ''/app'') m
      = Inr \<lparr>sr_publisher = PublicKey 7, sr_name = ''app'', sr_tag = None, sr_mode = m\<rparr>"
    "parse_seed_rule demo_crates pol ?rule m
      = Inr \<lparr>sr_publisher = PublicKey 7, sr_name = ''app'', sr_tag = None, sr_mode = m\<rparr>" for pol m
    using parse_seed_rule_did [OF demo_b58_laws demo_key_laws demo_app_ok(1), of None]
    by (simp_all add: name_and_tag_def)
  have seeds: "seed_rules demo_crates (demo_policy [])
      = [\<lparr>sr_publisher = PublicKey 7, sr_name = ''app'', sr_tag = None, sr_mode = Last 2\<rparr>]"
    by (simp add: seed_rules_def demo_policy_def rule List.map_filter_simps)
  obtain pol' b where rm: "remove_seed demo_crates ?rule (demo_policy []) = Inr (pol', b)"
    by (simp add: remove_seed_def rule Let_def)
  from remove_seed_exact [OF rm] have "seed_rules demo_crates pol' = []" "b"
    by (auto simp: rule seeds rule_hit_def rule_for_def)
  with rm show ?thesis by simp
qed

text \<open>A pin written with a \<open>did:key\<close> is not removed under its hexadecimal form. The removal
  compares the text of the pins, while every other rule is compared by what it means: it reports
  that nothing was pinned, and the release stays pinned.\<close>

theorem pin_survives_removal:
  assumes "b58_laws K" "key_laws K" "name_ok n" "tag_ok t"
    and "pol_pin pol = [did_key K p @ ''/'' @ n @ '':'' @ t]"
  shows "remove_pin K (pk_display K p @ ''/'' @ n @ '':'' @ t) pol = Inr (pol, False)
    \<and> is_pinned K pol p n t"
proof -
  let ?did = "did_key K p @ ''/'' @ n @ '':'' @ t" and ?hex = "pk_display K p @ ''/'' @ n @ '':'' @ t"
  let ?r = "\<lparr>sr_publisher = p, sr_name = n, sr_tag = Some t, sr_mode = Full\<rparr>"
  have parse: "parse_seed_rule K pol ?did Full = Inr ?r" "parse_seed_rule K pol ?hex Full = Inr ?r"
    using parse_seed_rule_did [OF assms(1-3), of "Some t"] assms(4) by (simp_all add: name_and_tag_def)
  have "is_hex_publisher (pk_display K p)" "\<not> is_hex_publisher (did_key K p)"
    using is_hex_publisher_display [OF assms(2)]
    by (simp_all add: is_hex_publisher_def did_key_def is_lhex_def is_digit_def)
  then have "did_key K p \<noteq> pk_display K p" by metis
  moreover have "split_once CHR ''/'' ?did = Some (did_key K p, n @ '':'' @ t)"
    "split_once CHR ''/'' ?hex = Some (pk_display K p, n @ '':'' @ t)"
    using did_no_slash [OF assms(1), of p] display_plain(1) [OF assms(2), of p] by simp_all
  ultimately have ne: "?did \<noteq> ?hex" by (metis option.inject prod.inject)
  have "seed_rule_to_string K ?r = ?hex" by (simp add: seed_rule_to_string_def)
  with ne parse(2) assms(5) have "remove_pin K ?hex pol = Inr (pol\<lparr>pol_pin := [?did]\<rparr>, False)"
    by (simp add: remove_pin_def Let_def)
  moreover have "pol\<lparr>pol_pin := [?did]\<rparr> = pol" using assms(5) by simp
  moreover have "?r \<in> set (pins K pol)"
    using parse(1) assms(5) by (simp add: pins_iff)
  then have "is_pinned K pol p n t"
    unfolding is_pinned_iff by (rule rev_bexI) (simp add: rule_for_def)
  ultimately show ?thesis by simp
qed

theorem pin_survives_removal_witness:
  "is_pinned demo_crates (demo_policy [did_key demo_crates (PublicKey 7) @ ''/app:v1'']) (PublicKey 7) ''app'' ''v1''"
  using pin_survives_removal [OF demo_b58_laws demo_key_laws demo_app_ok,
      of "demo_policy [did_key demo_crates (PublicKey 7) @ ''/app:v1'']" "PublicKey 7"]
  by (simp add: demo_policy_def)

lemma digits_no_space: "list_all is_digit s \<Longrightarrow> list_all (\<lambda>c. \<not> is_space c) s"
  using is_digit_not_space by (auto simp: list_all_iff)

text \<open>Every mode that can be written can be read back: a mode read from any text prints to a text
  that reads as the same mode, and it keeps at least the newest release of an image.\<close>

theorem mode_text_stable:
  assumes "mode_from_str s = Inr m"
  shows "mode_from_str (show_mode m) = Inr m \<and> mode_keeps m 0"
proof -
  have last: "mode_from_str (show_mode (Last n)) = Inr (Last n)" if "n \<noteq> 0" "n \<noteq> 1" for n
  proof -
    let ?s = "''last:'' @ show_nat (unat n)"
    have plain: "list_all (\<lambda>c. \<not> is_space c) ?s"
      using digits_no_space [OF show_nat_digits] by (simp add: is_space_def)
    show ?thesis
      using that trim_no_space [OF plain]
      by (simp add: mode_from_str_def show_mode_def Let_def strip_prefix_def parse_u32_show)
  qed
  have "m = Full \<or> m = Latest \<or> (\<exists>n. m = Last n \<and> n \<noteq> 0 \<and> n \<noteq> 1)"
    using assms by (auto simp: mode_from_str_def Let_def split: if_splits)
  moreover have "mode_from_str (show_mode Full) = Inr Full" "mode_from_str (show_mode Latest) = Inr Latest"
    by (simp_all add: mode_from_str_def show_mode_def trim_no_space is_space_def)
  ultimately show ?thesis using last mode_keeps_newest by blast
qed

theorem mode_text_stable_witness:
  "mode_from_str ''last=3'' = Inr (Last 3) \<and> mode_from_str (show_mode (Last 3)) = Inr (Last 3)"
proof -
  have "parse_u32 ''3'' = Some 3"
    by (simp add: parse_u32_def parse_uint_def is_digit_def digit_val_def)
  then have "mode_from_str ''last=3'' = Inr (Last 3)"
    by (simp add: mode_from_str_def Let_def trim_no_space is_space_def strip_prefix_def)
  with mode_text_stable [OF this] show ?thesis by simp
qed

text \<open>What a repository path of the registry means. Whatever the policy, a path that starts with a
  publisher's hexadecimal id names that publisher's image, so an alias cannot shadow it; a single
  component that is no alias is an image of the node itself; an alias of a publisher stands for it
  unless it reads as a publisher; and every path that resolves gives a valid image name.\<close>

theorem repository_path_resolution:
  assumes "key_laws K" "name_ok n"
  shows "resolve_repo K (pk_display K p @ ''/'' @ n) pol self = Inr (p, n)
    \<and> (CHR ''/'' \<notin> set n \<and> \<not> is_hex_publisher n \<and> resolve_alias K pol n = None
        \<longrightarrow> resolve_repo K n pol self = Inr (self, n))
    \<and> (a \<noteq> [] \<and> CHR ''/'' \<notin> set a \<and> \<not> is_hex_publisher a \<and> \<not> is_ok (parse_publisher_arg K pol a)
        \<and> resolve_alias K pol a = Some (Alias_Publisher q) \<and> resolve_alias K pol (a @ ''/'' @ n) = None
        \<longrightarrow> resolve_repo K (a @ ''/'' @ n) pol self = Inr (q, n))
    \<and> (resolve_repo K s pol self = Inr (r, m) \<longrightarrow> name_ok m)"
  using resolve_repo_explicit [OF assms] resolve_repo_self [OF assms(2)] resolve_repo_alias [OF assms(2)]
    resolve_repo_name_ok by blast

theorem repository_path_resolution_witness:
  "resolve_repo demo_crates (pk_display demo_crates (PublicKey 9) @ ''/app'') (demo_policy []) (PublicKey 1)
     = Inr (PublicKey 9, ''app'')
   \<and> resolve_repo demo_crates ''app'' (demo_policy []) (PublicKey 1) = Inr (PublicKey 1, ''app'')"
  using repository_path_resolution [OF demo_key_laws demo_app_ok(1), of "PublicKey 9" "demo_policy []" "PublicKey 1"]
  by (simp add: is_hex_publisher_def resolve_alias_def demo_policy_def policy_default_def)

end
