(* ===== verification/Dns_Service.thy ===== *)
theory Dns_Service
  imports Dns
begin

text \<open>
  \<^verbatim>\<open>crates/ocid/src/dns_resolver.rs\<close>: the service that resolves a zone to a publisher, with its
  cache of answers and its store of pinned keys. The answer of the resolver, the monotonic clock
  \<open>now\<close> in seconds, the Unix time \<open>unix\<close> and whether the pin file can be written are parameters
  of each call. A resolution takes the pin lock for its validation and writes the cache after
  releasing it, so it is the composition of two atomic steps.
\<close>

section \<open>State and answers\<close>

datatype zone_outcome =
    Resolved (res_publisher: public_key) (newly_pinned: bool) (res_relay: "string option")
      (res_seed: "public_key option")
  | NoRecord
  | Disabled

datatype cached =
    Positive public_key "string option" "public_key option" nat
  | Negative nat

datatype rdata = Txt "string list" | OtherData

type_synonym answer = "(u32 \<times> rdata) list option"

record dns_config =
  dns_enabled :: bool
  max_age :: u64

record dns_state =
  cache :: "(string, cached) table"
  zone_pins :: dns_pins

definition positive_ttl_cap :: nat where
  "positive_ttl_cap = 60"

definition negative_ttl :: nat where
  "negative_ttl = 30"

section \<open>Operations\<close>

definition cache_negative :: "string \<Rightarrow> nat \<Rightarrow> dns_state \<Rightarrow> dns_state" where
  "cache_negative zone now st = st\<lparr>cache := tput zone (Negative (now + negative_ttl)) (cache st)\<rparr>"

definition cache_hit :: "string \<Rightarrow> nat \<Rightarrow> dns_state \<Rightarrow> zone_outcome option" where
  "cache_hit zone now st =
     (case tget (cache st) zone of
        Some (Positive p relay seed expires) \<Rightarrow>
          if expires > now then Some (Resolved p False relay seed) else None
      | Some (Negative expires) \<Rightarrow> if expires > now then Some NoRecord else None
      | None \<Rightarrow> None)"

fun scan_answers :: "'z crates_scheme \<Rightarrow> u32 \<Rightarrow> (u32 \<times> rdata) list \<Rightarrow> dns_record option \<times> u32" where
  "scan_answers K ttl [] = (None, ttl)"
| "scan_answers K ttl ((t, d) # rs) =
     (let ttl' = min ttl t in
      case d of
        Txt strings \<Rightarrow>
          (case parse_record K (concat strings) of
             Inr r \<Rightarrow> (Some r, ttl')
           | Inl _ \<Rightarrow> scan_answers K ttl' rs)
      | OtherData \<Rightarrow> scan_answers K ttl' rs)"

text \<open>The part under the pin lock.\<close>

definition pin_checked ::
  "'z crates_scheme \<Rightarrow> dns_config \<Rightarrow> u64 \<Rightarrow> bool \<Rightarrow> string \<Rightarrow> dns_record \<Rightarrow> dns_state
     \<Rightarrow> dns_state \<times> (public_key \<times> bool) result" where
  "pin_checked K cfg unix save_ok zone r st =
     (case validate_record K unix zone r (zone_pins st) (max_age cfg) of
        Inr (NewPin p) \<Rightarrow>
          (let st' = st\<lparr>zone_pins := fst (pins_pin unix zone (pk_display K p) (zone_pins st))\<rparr>
           in if save_ok then (st', Inr (p, True)) else (st', Inl Io_err))
      | Inr (Pinned p) \<Rightarrow> (st, Inr (p, False))
      | Inl e \<Rightarrow> (st, Inl e))"

text \<open>The part after it.\<close>

definition cache_positive ::
  "nat \<Rightarrow> u32 \<Rightarrow> string \<Rightarrow> public_key \<Rightarrow> dns_record \<Rightarrow> dns_state \<Rightarrow> dns_state" where
  "cache_positive now ttl zone p r st =
     st\<lparr>cache := tput zone (Positive p (rec_relay r) (rec_seed r) (now + min (unat ttl) positive_ttl_cap))
        (cache st)\<rparr>"

definition resolve_zone ::
  "'z crates_scheme \<Rightarrow> dns_config \<Rightarrow> nat \<Rightarrow> u64 \<Rightarrow> bool \<Rightarrow> answer \<Rightarrow> string \<Rightarrow> dns_state
     \<Rightarrow> dns_state \<times> zone_outcome result" where
  "resolve_zone K cfg now unix save_ok ans zone st =
     (if \<not> dns_enabled cfg then (st, Inr Disabled)
      else case cache_hit zone now st of
        Some out \<Rightarrow> (st, Inr out)
      | None \<Rightarrow>
          (case ans of
             None \<Rightarrow> (cache_negative zone now st, Inr NoRecord)
           | Some rs \<Rightarrow>
               (case scan_answers K (- 1) rs of
                  (None, ttl) \<Rightarrow> (cache_negative zone now st, Inr NoRecord)
                | (Some r, ttl) \<Rightarrow>
                    (case pin_checked K cfg unix save_ok zone r st of
                       (st', Inl e) \<Rightarrow> (st', Inl e)
                     | (st', Inr (p, new)) \<Rightarrow>
                         (cache_positive now ttl zone p r st', Inr (Resolved p new (rec_relay r) (rec_seed r)))))))"

definition unpin :: "bool \<Rightarrow> string \<Rightarrow> dns_state \<Rightarrow> dns_state \<times> bool result" where
  "unpin save_ok zone st =
     (let (pins', removed) = pins_unpin zone (zone_pins st);
          st' = st\<lparr>zone_pins := pins'\<rparr>
      in if save_ok then (st'\<lparr>cache := tdel zone (cache st')\<rparr>, Inr removed) else (st', Inl Io_err))"

section \<open>Runs of the service\<close>

datatype dns_event =
    Ask (ev_now: nat) (ev_unix: u64) (ev_save: bool) (ev_answer: answer) (ev_zone: string)
  | Unpin (ev_save: bool) (ev_zone: string)

definition dns_step ::
  "'z crates_scheme \<Rightarrow> dns_config \<Rightarrow> dns_event \<Rightarrow> dns_state \<Rightarrow> dns_state \<times> zone_outcome option" where
  "dns_step K cfg ev st = (case ev of
     Ask now unix save_ok ans zone \<Rightarrow>
       (case resolve_zone K cfg now unix save_ok ans zone st of (st', r) \<Rightarrow> (st', to_option r))
   | Unpin save_ok zone \<Rightarrow> (fst (unpin save_ok zone st), None))"

text \<open>The answers of a run: the zone asked for, the outcome and the state after it.\<close>

fun dns_run ::
  "'z crates_scheme \<Rightarrow> dns_config \<Rightarrow> dns_event list \<Rightarrow> dns_state
     \<Rightarrow> dns_state \<times> (string \<times> zone_outcome option) list" where
  "dns_run K cfg [] st = (st, [])"
| "dns_run K cfg (ev # evs) st =
     (let (st1, out) = dns_step K cfg ev st;
          (st2, outs) = dns_run K cfg evs st1
      in (st2, (ev_zone ev, out) # outs))"

definition pinned_key :: "dns_state \<Rightarrow> string \<Rightarrow> string option" where
  "pinned_key st zone = map_option pin_key (pins_get (zone_pins st) zone)"

text \<open>What the cache answers is what is pinned.\<close>

definition dns_ok :: "'z crates_scheme \<Rightarrow> string \<Rightarrow> dns_state \<Rightarrow> bool" where
  "dns_ok K zone st \<longleftrightarrow> (\<forall>p relay seed expires. tget (cache st) zone = Some (Positive p relay seed expires)
     \<longrightarrow> pinned_key st zone = Some (pk_display K p))"

lemma pinned_key_pin:
  "pinned_key (st\<lparr>zone_pins := fst (pins_pin unix zone k (zone_pins st))\<rparr>) z
     = (if z = zone then Some k else pinned_key st z)"
  by (simp add: pinned_key_def pins_pin_key)

text \<open>The three ways a check can go.\<close>

lemma pin_checked_cases:
  obtains (refused) e where "pin_checked K cfg unix save_ok zone r st = (st, Inl e)"
  | (known) "pin_checked K cfg unix save_ok zone r st = (st, Inr (rec_key r, False))"
      "pinned_key st zone = Some (pk_display K (rec_key r))" "verify_sig K r zone = Inr ()"
      "age_secs unix r \<le> max_age cfg"
  | (new) st' where "pin_checked K cfg unix save_ok zone r st
        = (st', if save_ok then Inr (rec_key r, True) else Inl Io_err)"
      "pinned_key st zone = None" "verify_sig K r zone = Inr ()" "age_secs unix r \<le> max_age cfg"
      "cache st' = cache st"
      "\<And>z. pinned_key st' z = (if z = zone then Some (pk_display K (rec_key r)) else pinned_key st z)"
proof (cases "validate_record K unix zone r (zone_pins st) (max_age cfg)")
  case (Inl e)
  then show ?thesis using refused by (simp add: pin_checked_def)
next
  case (Inr v)
  then have ok: "verify_sig K r zone = Inr ()" "age_secs unix r \<le> max_age cfg"
    and v: "case pins_get (zone_pins st) zone of None \<Rightarrow> v = NewPin (rec_key r)
        | Some p \<Rightarrow> pin_key p = pk_display K (rec_key r) \<and> v = Pinned (rec_key r)"
    by (simp_all add: validate_record_Inr_iff)
  show ?thesis
  proof (cases "pins_get (zone_pins st) zone")
    case None
    let ?st = "st\<lparr>zone_pins := fst (pins_pin unix zone (pk_display K (rec_key r)) (zone_pins st))\<rparr>"
    have "pin_checked K cfg unix save_ok zone r st = (?st, if save_ok then Inr (rec_key r, True) else Inl Io_err)"
      using Inr v None by (simp add: pin_checked_def Let_def)
    moreover have "pinned_key st zone = None" using None by (simp add: pinned_key_def)
    ultimately show ?thesis
      using new [of ?st] ok pinned_key_pin by simp
  next
    case (Some p)
    with v Inr ok known show ?thesis by (simp add: pin_checked_def pinned_key_def)
  qed
qed

text \<open>What one resolution does: it never changes the pin of another zone or an existing pin, and a
  zone it resolves is pinned to the publisher it returns.\<close>

lemma resolve_zone_spec:
  assumes res: "resolve_zone K cfg now unix save_ok ans zone st = (st', out)"
  shows "(\<forall>z. dns_ok K z st \<longrightarrow> dns_ok K z st') \<and> (\<forall>z. z \<noteq> zone \<longrightarrow> pinned_key st' z = pinned_key st z)
    \<and> (\<forall>k. pinned_key st zone = Some k \<longrightarrow> pinned_key st' zone = Some k)
    \<and> (\<forall>p new relay seed. dns_ok K zone st \<longrightarrow> out = Inr (Resolved p new relay seed)
         \<longrightarrow> pinned_key st' zone = Some (pk_display K p))"
proof (cases "dns_enabled cfg \<and> cache_hit zone now st = None")
  case False
  show ?thesis
  proof (cases "dns_enabled cfg")
    case False
    with res show ?thesis by (auto simp: resolve_zone_def)
  next
    case True
    with False obtain hit where hit: "cache_hit zone now st = Some hit" by auto
    with True res have "st' = st" "out = Inr hit" by (auto simp: resolve_zone_def)
    moreover have "dns_ok K zone st \<Longrightarrow> hit = Resolved p new relay seed \<Longrightarrow> pinned_key st zone = Some (pk_display K p)"
      for p new relay seed
      using hit unfolding dns_ok_def
      by (auto simp: cache_hit_def split: option.splits cached.splits if_splits)
    ultimately show ?thesis by simp
  qed
next
  case live: True
  have neg: "dns_ok K z st \<Longrightarrow> dns_ok K z (cache_negative zone now st)"
      "pinned_key (cache_negative zone now st) = pinned_key st" for z
    by (auto simp: dns_ok_def cache_negative_def pinned_key_def fun_eq_iff)
  show ?thesis
  proof (cases "\<exists>rs r ttl. ans = Some rs \<and> scan_answers K (- 1) rs = (Some r, ttl)")
    case False
    then have "st' = cache_negative zone now st" "out = Inr NoRecord"
      using live res by (auto simp: resolve_zone_def split: option.splits prod.splits)
    with neg show ?thesis by simp
  next
    case True
    then obtain rs r ttl where scan: "ans = Some rs" "scan_answers K (- 1) rs = (Some r, ttl)" by blast
    have go: "resolve_zone K cfg now unix save_ok ans zone st =
        (case pin_checked K cfg unix save_ok zone r st of
           (st1, Inl e) \<Rightarrow> (st1, Inl e)
         | (st1, Inr (p, new)) \<Rightarrow>
             (cache_positive now ttl zone p r st1, Inr (Resolved p new (rec_relay r) (rec_seed r))))"
      using live scan by (simp add: resolve_zone_def)
    have pos: "pinned_key (cache_positive now ttl zone p r s) = pinned_key s"
        "dns_ok K z s \<or> z = zone \<Longrightarrow> pinned_key s zone = Some (pk_display K p) \<Longrightarrow> dns_ok K z (cache_positive now ttl zone p r s)"
        for p s z
      by (auto simp: cache_positive_def pinned_key_def fun_eq_iff dns_ok_def split: if_splits)
    show ?thesis
    proof (cases rule: pin_checked_cases [of K cfg unix save_ok zone r st])
      case (refused e)
      with res show ?thesis by (auto simp: go)
    next
      case known
      then have "st' = cache_positive now ttl zone (rec_key r) r st"
        and "out = Inr (Resolved (rec_key r) False (rec_relay r) (rec_seed r))"
        using res by (simp_all add: go)
      with known pos show ?thesis by auto
    next
      case (new st1)
      have ok1: "dns_ok K z st \<Longrightarrow> dns_ok K z st1" for z
        using new(2,5,6) unfolding dns_ok_def by (cases "z = zone") force+
      show ?thesis
      proof (cases save_ok)
        case False
        then have "st' = st1" "out = Inl Io_err" using res [unfolded go new(1)] by simp_all
        with new ok1 show ?thesis by auto
      next
        case True
        then have "st' = cache_positive now ttl zone (rec_key r) r st1"
          and "out = Inr (Resolved (rec_key r) True (rec_relay r) (rec_seed r))"
          using res [unfolded go new(1)] by simp_all
        with new(2,6) ok1 pos show ?thesis by auto
      qed
    qed
  qed
qed

definition touches :: "string \<Rightarrow> dns_event \<Rightarrow> bool" where
  "touches z ev \<longleftrightarrow> (\<exists>save. ev = Unpin save z)"

lemma dns_step_spec:
  assumes "\<not> touches z ev" "dns_ok K z st" "dns_step K cfg ev st = (st', out)"
  shows "dns_ok K z st' \<and> (\<forall>k. pinned_key st z = Some k \<longrightarrow> pinned_key st' z = Some k)
    \<and> (ev_zone ev = z \<longrightarrow> (\<forall>p new relay seed. out = Some (Resolved p new relay seed)
         \<longrightarrow> pinned_key st' z = Some (pk_display K p)))"
proof (cases ev)
  case (Ask now unix save_ok ans zone)
  obtain res where r: "resolve_zone K cfg now unix save_ok ans zone st = (st', res)" "out = to_option res"
    using assms(3) Ask by (auto simp: dns_step_def split: prod.splits)
  show ?thesis
    using resolve_zone_spec [OF r(1)] r(2) assms(2) Ask by (cases "z = zone") auto
next
  case (Unpin save_ok zone)
  then have "z \<noteq> zone" using assms(1) by (auto simp: touches_def)
  moreover have "st' = fst (unpin save_ok zone st)" "out = None"
    using assms(3) Unpin by (simp_all add: dns_step_def)
  ultimately show ?thesis
    using assms(2) Unpin
    by (auto simp: unpin_def Let_def pins_unpin_def pinned_key_def pins_get_def dns_ok_def)
qed

lemma dns_run_pinned:
  assumes "list_all (\<lambda>ev. \<not> touches z ev) evs" "dns_ok K z st" "dns_run K cfg evs st = (st', outs)"
    and "pinned_key st z = Some k"
  shows "pinned_key st' z = Some k
    \<and> (\<forall>p new relay seed. (z, Some (Resolved p new relay seed)) \<in> set outs \<longrightarrow> pk_display K p = k)"
  using assms
proof (induction evs arbitrary: st outs)
  case (Cons ev evs)
  obtain st1 out where step: "dns_step K cfg ev st = (st1, out)" by force
  obtain outs1 where run: "dns_run K cfg evs st1 = (st', outs1)" "outs = (ev_zone ev, out) # outs1"
    using Cons.prems(3) step by (auto simp: Let_def split: prod.splits)
  have nt: "\<not> touches z ev" "list_all (\<lambda>ev. \<not> touches z ev) evs" using Cons.prems(1) by simp_all
  note one = dns_step_spec [OF nt(1) Cons.prems(2) step]
  have "pinned_key st1 z = Some k" "dns_ok K z st1" using one Cons.prems(4) by blast+
  note rest = Cons.IH [OF nt(2) this(2) run(1) this(1)]
  show ?case
    using rest one run(2) \<open>pinned_key st1 z = Some k\<close> by auto
qed simp

lemma dns_run_agrees:
  assumes "list_all (\<lambda>ev. \<not> touches z ev) evs" "dns_ok K z st" "dns_run K cfg evs st = (st', outs)"
  shows "\<exists>k. \<forall>p new relay seed. (z, Some (Resolved p new relay seed)) \<in> set outs
      \<longrightarrow> pk_display K p = k \<and> pinned_key st' z = Some k"
  using assms
proof (induction evs arbitrary: st outs)
  case (Cons ev evs)
  obtain st1 out where step: "dns_step K cfg ev st = (st1, out)" by force
  obtain outs1 where run: "dns_run K cfg evs st1 = (st', outs1)" "outs = (ev_zone ev, out) # outs1"
    using Cons.prems(3) step by (auto simp: Let_def split: prod.splits)
  have nt: "\<not> touches z ev" "list_all (\<lambda>ev. \<not> touches z ev) evs" using Cons.prems(1) by simp_all
  note one = dns_step_spec [OF nt(1) Cons.prems(2) step]
  then have ok1: "dns_ok K z st1" by blast
  show ?case
  proof (cases "pinned_key st1 z")
    case None
    with one have "ev_zone ev = z \<longrightarrow> (\<nexists>p new relay seed. out = Some (Resolved p new relay seed))" by auto
    then have more: "(z, Some (Resolved p new relay seed)) \<in> set outs
        \<Longrightarrow> (z, Some (Resolved p new relay seed)) \<in> set outs1" for p new relay seed
      using run(2) by auto
    obtain k where "\<forall>p new relay seed. (z, Some (Resolved p new relay seed)) \<in> set outs1
        \<longrightarrow> pk_display K p = k \<and> pinned_key st' z = Some k"
      using Cons.IH [OF nt(2) ok1 run(1)] by (elim exE)
    then show ?thesis by (intro exI [of _ k] allI impI) (drule more, blast)
  next
    case (Some k)
    from dns_run_pinned [OF nt(2) ok1 run(1) Some] one Some run(2) show ?thesis
      by (intro exI [of _ k]) auto
  qed
qed simp

section \<open>Properties\<close>

text \<open>C10: Trust on first use. Over any sequence of resolutions of any zones, unpinnings of other
  zones and failures to write the pin file, a zone that is not unpinned resolves to one publisher
  only: all answers agree with each other and with the pin at the end, cached or not, and a key that
  was pinned at the start is still the pinned one and the only one ever returned.\<close>

theorem zone_resolves_to_one_key:
  assumes "list_all (\<lambda>ev. \<not> touches z ev) evs" "dns_ok K z st" "dns_run K cfg evs st = (st', outs)"
  shows "(\<exists>k. \<forall>p new relay seed. (z, Some (Resolved p new relay seed)) \<in> set outs
        \<longrightarrow> pk_display K p = k \<and> pinned_key st' z = Some k)
    \<and> (\<forall>k. pinned_key st z = Some k \<longrightarrow> pinned_key st' z = Some k
        \<and> (\<forall>p new relay seed. (z, Some (Resolved p new relay seed)) \<in> set outs \<longrightarrow> pk_display K p = k))"
  using dns_run_agrees [OF assms] dns_run_pinned [OF assms] by blast

definition demo_zone_record :: dns_record where
  "demo_zone_record = \<lparr>rec_key = PublicKey 5, rec_ts = 100, rec_relay = None, rec_seed = None,
     rec_sig = sk_sign demo_crates 5 (as_bytes (canonical_payload demo_crates ''a.b'' (PublicKey 5) 100 None None))\<rparr>"

definition demo_answer :: answer where
  "demo_answer = Some [(300, Txt [to_txt demo_crates demo_zone_record])]"

definition demo_dns_config :: dns_config where
  "demo_dns_config = \<lparr>dns_enabled = True, max_age = 1000\<rparr>"

definition demo_dns_state :: dns_state where
  "demo_dns_state = \<lparr>cache = [], zone_pins = []\<rparr>"

lemma demo_zone: "validate_zone ''a.b'' = Inr ()"
  by (simp add: validate_zone_def zone_label_ok_def char_class_defs)

lemma demo_zone_signed: "sign_full demo_crates ''a.b'' 5 100 None None = Inr demo_zone_record"
  by (simp add: sign_full_def demo_zone Let_def demo_zone_record_def identity_id_def)
     (simp add: demo_crates_def)

lemma demo_first_answer:
  "resolve_zone demo_crates demo_dns_config 10 150 True demo_answer ''a.b'' demo_dns_state
     = (\<lparr>cache = [(''a.b'', Positive (PublicKey 5) None None 70)],
         zone_pins = [(''a.b'', \<lparr>pin_key = pk_display demo_crates (PublicKey 5), pinned_at = 150\<rparr>)]\<rparr>,
        Inr (Resolved (PublicKey 5) True None None))"
proof -
  have parse: "parse_record demo_crates (to_txt demo_crates demo_zone_record) = Inr demo_zone_record"
    using record_text.dec_enc [of demo_crates demo_zone_record] demo_key_laws demo_hex_laws
    by (simp add: record_ok_def demo_zone_record_def)
  have "verify_sig demo_crates demo_zone_record ''a.b'' = Inr ()"
    by (rule sign_full_verifies [OF demo_sign_laws demo_zone_signed])
  moreover have "age_secs 150 demo_zone_record \<le> 1000"
    by (simp add: age_secs_def saturating_sub_def demo_zone_record_def)
  ultimately have "validate_record demo_crates 150 ''a.b'' demo_zone_record [] 1000 = Inr (NewPin (PublicKey 5))"
    by (simp add: validate_record_Inr_iff pins_get_def demo_zone_record_def)
  then show ?thesis
    by (simp add: resolve_zone_def demo_dns_config_def cache_hit_def demo_dns_state_def demo_answer_def
        parse pin_checked_def Let_def cache_positive_def pins_pin_def tput_def positive_ttl_cap_def)
       (simp add: demo_zone_record_def)
qed

theorem zone_resolves_to_one_key_witness:
  "\<exists>st outs. dns_run demo_crates demo_dns_config [Ask 10 150 True demo_answer ''a.b''] demo_dns_state = (st, outs)
     \<and> outs = [(''a.b'', Some (Resolved (PublicKey 5) True None None))]
     \<and> pinned_key st ''a.b'' = Some (pk_display demo_crates (PublicKey 5))"
proof -
  let ?evs = "[Ask 10 150 True demo_answer ''a.b'']"
  obtain st outs where run: "dns_run demo_crates demo_dns_config ?evs demo_dns_state = (st, outs)" by force
  have outs: "outs = [(''a.b'', Some (Resolved (PublicKey 5) True None None))]"
    using run by (simp add: dns_step_def demo_first_answer Let_def split: prod.splits)
  have "list_all (\<lambda>ev. \<not> touches ''a.b'' ev) ?evs" by (simp add: touches_def)
  moreover have "dns_ok demo_crates ''a.b'' demo_dns_state" by (simp add: dns_ok_def demo_dns_state_def)
  ultimately have "pinned_key st ''a.b'' = Some (pk_display demo_crates (PublicKey 5))"
    using zone_resolves_to_one_key [OF _ _ run] outs by auto
  with run outs show ?thesis by blast
qed

text \<open>Unpinning a zone can be undone by a resolution in flight. When the unpinning falls between
  the check of a resolution, which releases the pin lock, and its write to the cache, the zone has
  no pin and yet keeps resolving to the old key until the cached answer expires.\<close>

theorem unpin_race_keeps_old_key:
  assumes "pin_checked K cfg unix save_ok zone r st = (st1, Inr (p, new))"
    and "st2 = cache_positive now ttl zone p r (fst (unpin True zone st1))"
    and "dns_enabled cfg" "now \<le> later" "later < now + min (unat ttl) positive_ttl_cap"
  shows "pinned_key st2 zone = None
    \<and> resolve_zone K cfg later unix' save_ok' ans zone st2 = (st2, Inr (Resolved p False (rec_relay r) (rec_seed r)))"
  using assms
  by (simp add: pinned_key_def unpin_def Let_def pins_unpin_def pins_get_def cache_positive_def
      resolve_zone_def cache_hit_def)

theorem unpin_race_keeps_old_key_witness:
  "\<exists>st2. pinned_key st2 ''a.b'' = None
     \<and> resolve_zone demo_crates demo_dns_config 20 160 True None ''a.b'' st2
       = (st2, Inr (Resolved (PublicKey 5) False None None))"
proof -
  obtain st1 where "pin_checked demo_crates demo_dns_config 150 True ''a.b'' demo_zone_record demo_dns_state
      = (st1, Inr (PublicKey 5, True))"
  proof (cases rule: pin_checked_cases [of demo_crates demo_dns_config 150 True "''a.b''" demo_zone_record demo_dns_state])
    case (refused e)
    have "verify_sig demo_crates demo_zone_record ''a.b'' = Inr ()"
      by (rule sign_full_verifies [OF demo_sign_laws demo_zone_signed])
    moreover have "age_secs 150 demo_zone_record \<le> 1000"
      by (simp add: age_secs_def saturating_sub_def demo_zone_record_def)
    ultimately have "validate_record demo_crates 150 ''a.b'' demo_zone_record [] 1000 = Inr (NewPin (PublicKey 5))"
      by (simp add: validate_record_Inr_iff pins_get_def demo_zone_record_def)
    with refused show ?thesis
      by (simp add: pin_checked_def demo_dns_config_def demo_dns_state_def Let_def)
  next
    case known
    then show ?thesis by (simp add: pinned_key_def demo_dns_state_def pins_get_def)
  next
    case (new st1)
    with that show ?thesis by (simp add: demo_zone_record_def)
  qed
  from unpin_race_keeps_old_key [OF this refl, of 10 20 300 160 True None]
  show ?thesis by (auto simp: demo_dns_config_def positive_ttl_cap_def demo_zone_record_def)
qed

end
