(* ===== verification/State_Result.thy ===== *)
theory State_Result
  imports Ocid_Prelude
begin

text \<open>
  Sequencing of fallible operations that change a state: an operation takes a state and returns the
  state after it with a value or an error. A method of the program that can return early leaves the
  changes made so far in place, and so does \<open>then_do\<close>.
\<close>

type_synonym ('s, 'e, 'a) fallible = "'s \<Rightarrow> 's \<times> ('e + 'a)"

type_synonym ('s, 'a) op = "('s, err, 'a) fallible"

definition ret :: "'a \<Rightarrow> ('s, 'e, 'a) fallible" where
  "ret x s = (s, Inr x)"

definition fail :: "'e \<Rightarrow> ('s, 'e, 'a) fallible" where
  "fail e s = (s, Inl e)"

definition lift_res :: "('s \<Rightarrow> 'e + 'a) \<Rightarrow> ('s, 'e, 'a) fallible" where
  "lift_res f s = (s, f s)"

definition modify :: "('s \<Rightarrow> 's) \<Rightarrow> ('s, 'e, unit) fallible" where
  "modify f s = (f s, Inr ())"

definition then_do ::
  "('s, 'e, 'a) fallible \<Rightarrow> ('a \<Rightarrow> ('s, 'e, 'b) fallible) \<Rightarrow> ('s, 'e, 'b) fallible" where
  "then_do m f s = (case m s of (s', Inl e) \<Rightarrow> (s', Inl e) | (s', Inr x) \<Rightarrow> f x s')"

text \<open>\<open>if let Err(e) = m { log }\<close>: the state changes stay, the error is dropped.\<close>

definition ignore_err :: "('s, 'e, 'a) fallible \<Rightarrow> ('s, 'e, unit) fallible" where
  "ignore_err m s = (fst (m s), Inr ())"

fun for_each :: "'a list \<Rightarrow> ('a \<Rightarrow> ('s, 'e, unit) fallible) \<Rightarrow> ('s, 'e, unit) fallible" where
  "for_each [] f s = (s, Inr ())"
| "for_each (x # xs) f s = (case f x s of (s', Inl e) \<Rightarrow> (s', Inl e) | (s', Inr _) \<Rightarrow> for_each xs f s')"

text \<open>A loop with an accumulator.\<close>

fun fold_op :: "('a \<Rightarrow> 'b \<Rightarrow> ('s, 'e, 'b) fallible) \<Rightarrow> 'a list \<Rightarrow> 'b \<Rightarrow> ('s, 'e, 'b) fallible" where
  "fold_op f [] b s = (s, Inr b)"
| "fold_op f (x # xs) b s = (case f x b s of (s', Inl e) \<Rightarrow> (s', Inl e) | (s', Inr b') \<Rightarrow> fold_op f xs b' s')"

lemma op_simps [simp]:
  "ret x s = (s, Inr x)" "fail e s = (s, Inl e)" "lift_res f s = (s, f s)" "modify g s = (g s, Inr ())"
  by (simp_all add: ret_def fail_def lift_res_def modify_def)

lemma then_do_Inl: "m s = (s', Inl e) \<Longrightarrow> then_do m f s = (s', Inl e)"
  by (simp add: then_do_def)

lemma then_do_Inr: "m s = (s', Inr x) \<Longrightarrow> then_do m f s = f x s'"
  by (simp add: then_do_def)

lemma then_do_ret [simp]: "then_do (ret x) f s = f x s" "then_do (fail e) f s = (s, Inl e)"
    "then_do (modify g) f s = f () (g s)"
  by (simp_all add: then_do_def)

lemma then_do_lift: "then_do (lift_res g) f s = (case g s of Inl e \<Rightarrow> (s, Inl e) | Inr x \<Rightarrow> f x s)"
  by (simp add: then_do_def)

lemma then_do_InrE:
  assumes "then_do m f s = (s2, Inr y)"
  obtains x s1 where "m s = (s1, Inr x)" "f x s1 = (s2, Inr y)"
  using assms by (auto simp: then_do_def split: prod.splits sum.splits)

lemma then_do_Inr_iff:
  "then_do m f s = (s2, Inr y) \<longleftrightarrow> (\<exists>x s1. m s = (s1, Inr x) \<and> f x s1 = (s2, Inr y))"
  by (auto simp: then_do_def split: prod.splits sum.splits)

text \<open>An operation keeps a relation between the states before and after it.\<close>

definition keeps :: "('s \<Rightarrow> 's \<Rightarrow> bool) \<Rightarrow> ('s, 'e, 'a) fallible \<Rightarrow> bool" where
  "keeps R m \<longleftrightarrow> (\<forall>s. R s (fst (m s)))"

definition preorder_on_states :: "('s \<Rightarrow> 's \<Rightarrow> bool) \<Rightarrow> bool" where
  "preorder_on_states R \<longleftrightarrow> reflp R \<and> transp R"

lemma keepsD: "keeps R m \<Longrightarrow> R s (fst (m s))"
  by (simp add: keeps_def)

lemma keeps_basic:
  assumes "preorder_on_states R"
  shows "keeps R (ret x)" "keeps R (fail e)" "keeps R (lift_res g)"
  using assms by (simp_all add: keeps_def preorder_on_states_def reflp_def)

lemma keeps_modify: "(\<And>s. R s (g s)) \<Longrightarrow> keeps R (modify g)"
  by (simp add: keeps_def)

lemma keeps_then:
  assumes "preorder_on_states R" "keeps R m" "\<And>x. keeps R (f x)"
  shows "keeps R (then_do m f)"
  unfolding keeps_def
proof
  fix s
  obtain s1 r where m: "m s = (s1, r)" by force
  then have "R s s1" using assms(2) by (metis fst_conv keepsD)
  moreover have "R s1 (fst (f x s1))" for x using assms(3) by (rule keepsD)
  ultimately show "R s (fst (then_do m f s))"
    using assms(1) m by (cases r) (auto simp: then_do_def preorder_on_states_def dest: transpD)
qed

lemma keeps_ignore: "keeps R m \<Longrightarrow> keeps R (ignore_err m)"
  by (simp add: keeps_def ignore_err_def)

lemma keeps_for_each:
  assumes "preorder_on_states R" "\<And>x. keeps R (f x)"
  shows "keeps R (for_each xs f)"
proof (induction xs)
  case Nil
  then show ?case using assms(1) by (simp add: keeps_def preorder_on_states_def reflp_def)
next
  case (Cons x xs)
  have "for_each (x # xs) f = then_do (f x) (\<lambda>_. for_each xs f)"
    by (simp add: fun_eq_iff then_do_def split: sum.split prod.split)
  then show ?case using keeps_then [OF assms(1) assms(2)] Cons.IH by metis
qed

lemma keeps_if: "keeps R m \<Longrightarrow> keeps R n \<Longrightarrow> keeps R (if c then m else n)"
  by simp

text \<open>An operation that keeps an invariant.\<close>

lemma keeps_invariant: "preorder_on_states (\<lambda>s s'. P s \<longrightarrow> P s')"
  by (auto simp: preorder_on_states_def reflp_def transp_def)

text \<open>Loops that never fail, by an invariant that speaks of the elements still to come.\<close>

lemma fold_op_total:
  assumes step: "\<And>x xs s b. I (x # xs) s b \<Longrightarrow> \<exists>s' b'. f x b s = (s', Inr b') \<and> I xs s' b'"
    and start: "I xs s b"
  obtains s' b' where "fold_op f xs b s = (s', Inr b')" "I [] s' b'"
proof -
  have "\<exists>s' b'. fold_op f xs b s = (s', Inr b') \<and> I [] s' b'"
    using start
  proof (induction xs arbitrary: s b)
    case Nil
    then show ?case by simp
  next
    case (Cons x xs)
    obtain s1 b1 where "f x b s = (s1, Inr b1)" "I xs s1 b1" using step [OF Cons.prems] by blast
    with Cons.IH [of s1 b1] show ?case by simp
  qed
  with that show ?thesis by blast
qed

lemma for_each_total:
  assumes step: "\<And>x xs s. I (x # xs) s \<Longrightarrow> \<exists>s'. f x s = (s', Inr ()) \<and> I xs s'"
    and start: "I xs s"
  obtains s' where "for_each xs f s = (s', Inr ())" "I [] s'"
proof -
  have "\<exists>s'. for_each xs f s = (s', Inr ()) \<and> I [] s'"
    using start
  proof (induction xs arbitrary: s)
    case Nil
    then show ?case by simp
  next
    case (Cons x xs)
    obtain s1 where "f x s = (s1, Inr ())" "I xs s1" using step [OF Cons.prems] by blast
    with Cons.IH [of s1] show ?case by simp
  qed
  with that show ?thesis by blast
qed

end
