(* ===== verification/Blob_Store.thy ===== *)
theory Blob_Store
  imports Index_Store State_Result
begin

text \<open>
  \<^verbatim>\<open>crates/ocid/src/store.rs\<close>: the content store of a node, which joins the index on disk with an
  iroh-blobs store. The blob store is modelled by what its interface documents: complete blobs by
  their BLAKE3 hash, named tags that pin a hash, and a collector that deletes what nothing pins.
  BLAKE3 itself is the parameter \<open>blake3_of\<close>. The record of a store can be extended, so that the
  operations of the store are also operations of the node.
\<close>

record node_crates = codecs +
  blake3_of :: "byte list \<Rightarrow> blake3"

record blob_store =
  idx :: fs
  pin_tags :: "(string, blake3) table"
  blob_data :: "(blake3, byte list) table"

section \<open>Operations\<close>

definition tag_name :: "digest \<Rightarrow> string" where
  "tag_name d = ''blob:'' @ digest_hex d"

definition has_hash :: "blake3 \<Rightarrow> 'a blob_store_scheme \<Rightarrow> bool" where
  "has_hash h s \<longleftrightarrow> tget (blob_data s) h \<noteq> None"

text \<open>The blob store's own operations: \<open>tags().set\<close>, \<open>tags().delete\<close> and \<open>add_bytes\<close>, which keeps the
  data it has when the hash is known.\<close>

definition set_tag :: "string \<Rightarrow> blake3 \<Rightarrow> 'a blob_store_scheme \<Rightarrow> 'a blob_store_scheme" where
  "set_tag name h s = s\<lparr>pin_tags := tput name h (pin_tags s)\<rparr>"

definition delete_tag :: "string \<Rightarrow> 'a blob_store_scheme \<Rightarrow> 'a blob_store_scheme" where
  "delete_tag name s = s\<lparr>pin_tags := tdel name (pin_tags s)\<rparr>"

definition add_data :: "blake3 \<Rightarrow> byte list \<Rightarrow> 'a blob_store_scheme \<Rightarrow> 'a blob_store_scheme" where
  "add_data h bs s = (if has_hash h s then s else s\<lparr>blob_data := tput h bs (blob_data s)\<rparr>)"

text \<open>An operation of the index, with its effect on the store.\<close>

definition on_index :: "(fs \<Rightarrow> fs \<times> 'b result) \<Rightarrow> ('a blob_store_scheme, 'b) op" where
  "on_index f s = (case f (idx s) of (ix, r) \<Rightarrow> (s\<lparr>idx := ix\<rparr>, r))"

definition index_put_blob :: "blob_ref \<Rightarrow> ('a blob_store_scheme, unit) op" where
  "index_put_blob r = on_index (\<lambda>ix. case put_blob_ref ix r of Inl e \<Rightarrow> (ix, Inl e) | Inr ix' \<Rightarrow> (ix', Inr ()))"

definition record_blob :: "blob_ref \<Rightarrow> ('a blob_store_scheme, unit) op" where
  "record_blob r =
     then_do (modify (set_tag (tag_name (br_digest r)) (br_hash r))) (\<lambda>_.
     index_put_blob r)"

definition put_blob_bytes ::
  "'z node_crates_scheme \<Rightarrow> byte list \<Rightarrow> digest option \<Rightarrow> string option
     \<Rightarrow> ('a blob_store_scheme, blob_ref) op" where
  "put_blob_bytes K data expect mt =
     (let dig = digest_sha256 K data in
      if (case expect of Some e \<Rightarrow> e \<noteq> dig | None \<Rightarrow> False) then fail (Store_err DigestMismatch)
      else
        (let size = of_nat (length data);
             h = blake3_of K data;
             r = \<lparr>br_digest = dig, br_hash = h, br_size = size, br_media_type = mt\<rparr>
         in then_do (modify (\<lambda>s. set_tag (tag_name dig) h (add_data h data s))) (\<lambda>_.
            then_do (index_put_blob r) (\<lambda>_. ret r))))"

text \<open>The same from a file, given by its contents; the caller's file is removed.\<close>

definition put_blob_file ::
  "'z node_crates_scheme \<Rightarrow> byte list \<Rightarrow> digest option \<Rightarrow> string option
     \<Rightarrow> ('a blob_store_scheme, blob_ref) op" where
  "put_blob_file K body expect mt =
     (let dig = digest_sha256 K body; size = of_nat (length body) in
      if (case expect of Some e \<Rightarrow> e \<noteq> dig | None \<Rightarrow> False) then fail (Store_err DigestMismatch)
      else
        (let h = blake3_of K body;
             r = \<lparr>br_digest = dig, br_hash = h, br_size = size, br_media_type = mt\<rparr>
         in then_do (modify (\<lambda>s. set_tag (tag_name dig) h (add_data h body s))) (\<lambda>_.
            then_do (index_put_blob r) (\<lambda>_. ret r))))"

definition read_hash :: "blake3 \<Rightarrow> 'a blob_store_scheme \<Rightarrow> byte list result" where
  "read_hash h s = ok_or (tget (blob_data s) h) (Store_err NoBlob)"

definition verify_blob ::
  "'z node_crates_scheme \<Rightarrow> blob_ref \<Rightarrow> 'a blob_store_scheme \<Rightarrow> unit result" where
  "verify_blob K r s =
     and_then (read_hash (br_hash r) s) (\<lambda>bs.
     and_then (ensure (\<not> digest_sha256 K bs \<noteq> br_digest r) (Store_err DigestMismatch)) (\<lambda>_.
     ensure (\<not> of_nat (length bs) \<noteq> br_size r) (Store_err SizeMismatch)))"

definition unpin_blob :: "digest \<Rightarrow> 'a blob_store_scheme \<Rightarrow> 'a blob_store_scheme" where
  "unpin_blob d s = delete_tag (tag_name d) s"

definition pin_of_tag :: "string \<times> blake3 \<Rightarrow> (digest \<times> blake3) option" where
  "pin_of_tag x = (case strip_prefix ''blob:'' (fst x) of
     Some hex \<Rightarrow> map_option (\<lambda>d. (d, snd x)) (to_option (digest_from_str (''sha256:'' @ hex)))
   | None \<Rightarrow> None)"

definition list_pins :: "'a blob_store_scheme \<Rightarrow> (digest \<times> blake3) list" where
  "list_pins s = List.map_filter pin_of_tag (pin_tags s)"

definition is_complete :: "release \<Rightarrow> 'a blob_store_scheme \<Rightarrow> bool" where
  "is_complete r s \<longleftrightarrow> list_all (\<lambda>b. has_hash (br_hash b) s) (all_blobs r)"

text \<open>The collector of the blob store: what no tag and no temporary tag names is deleted.\<close>

definition collect_data :: "blake3 set \<Rightarrow> 'a blob_store_scheme \<Rightarrow> 'a blob_store_scheme" where
  "collect_data temp s =
     s\<lparr>blob_data := filter (\<lambda>(h, _). h \<in> snd ` set (pin_tags s) \<or> h \<in> temp) (blob_data s)\<rparr>"

section \<open>The store never lies\<close>

text \<open>
  Every blob of the index is pinned under its name, and its data is there, has the digest it is
  filed under and the size the entry says. The blob data has the hash it is stored at.
\<close>

definition blob_sound :: "'z node_crates_scheme \<Rightarrow> 'a blob_store_scheme \<Rightarrow> blob_ref \<Rightarrow> bool" where
  "blob_sound K s b \<longleftrightarrow> digest_ok (br_digest b) \<and> tget (pin_tags s) (tag_name (br_digest b)) = Some (br_hash b)
     \<and> (\<exists>bs. tget (blob_data s) (br_hash b) = Some bs \<and> digest_sha256 K bs = br_digest b
          \<and> of_nat (length bs) = br_size b)"

definition store_ok :: "'z node_crates_scheme \<Rightarrow> 'a blob_store_scheme \<Rightarrow> bool" where
  "store_ok K s \<longleftrightarrow> index_ok K (idx s) \<and> table_ok (pin_tags s) \<and> table_ok (blob_data s)
     \<and> (\<forall>h bs. tget (blob_data s) h = Some bs \<longrightarrow> blake3_of K bs = h)
     \<and> (\<forall>d b. digest_ok d \<longrightarrow> blob_at (idx s) d = Some b \<longrightarrow> br_digest b = d \<and> blob_sound K s b)"

lemma store_blobD:
  assumes "store_ok K s" "digest_ok d" "blob_at (idx s) d = Some b"
  shows "br_digest b = d" "tget (pin_tags s) (tag_name d) = Some (br_hash b)"
    "\<exists>bs. tget (blob_data s) (br_hash b) = Some bs \<and> digest_sha256 K bs = d \<and> of_nat (length bs) = br_size b"
  using assms by (auto simp: store_ok_def blob_sound_def)

text \<open>What the program relies on in SHA-256: the digest of data is a well-formed digest.\<close>

definition sha_laws :: "'z crates_scheme \<Rightarrow> bool" where
  "sha_laws K \<longleftrightarrow> (\<forall>bs. length (sha256 K bs) = 32)"

lemma digest_sha256_ok: "hex_laws K \<Longrightarrow> sha_laws K \<Longrightarrow> digest_ok (digest_sha256 K bs)"
  using hex_lawsD(2,3) [of K "sha256 K bs"]
  by (simp add: digest_ok_def digest_sha256_def digest_from_bytes_def digest_from_str_def sha_laws_def
      strip_prefix_def)

lemma tag_name_inject: "digest_ok d \<Longrightarrow> digest_ok e \<Longrightarrow> tag_name d = tag_name e \<longleftrightarrow> d = e"
  by (simp add: tag_name_def digest_hex_inject)

lemma digest_from_str_str: "digest_from_str t = Inr d \<Longrightarrow> digest_str d = t"
  by (auto simp: digest_from_str_def)

lemma pin_of_tag_iff:
  "pin_of_tag (name, h) = Some (d, h') \<longleftrightarrow> h' = h \<and> name = tag_name d \<and> digest_ok d"
proof
  assume "pin_of_tag (name, h) = Some (d, h')"
  then obtain hex where hex: "strip_prefix ''blob:'' name = Some hex" and h: "h' = h"
    and d: "digest_from_str (''sha256:'' @ hex) = Inr d"
    by (auto simp: pin_of_tag_def split: option.splits)
  have str: "digest_str d = ''sha256:'' @ hex" by (rule digest_from_str_str [OF d])
  then have "digest_hex d = hex" by (simp add: digest_hex_def)
  moreover have "digest_ok d" unfolding digest_ok_def str by (rule d)
  moreover have "name = ''blob:'' @ hex" using hex by (simp only: strip_prefix_Some_iff)
  ultimately show "h' = h \<and> name = tag_name d \<and> digest_ok d" using h by (simp add: tag_name_def)
next
  assume a: "h' = h \<and> name = tag_name d \<and> digest_ok d"
  then have "digest_str d = ''sha256:'' @ digest_hex d" using digest_ok_hex by blast
  with a have "digest_from_str (''sha256:'' @ digest_hex d) = Inr d" by (metis digest_ok_def)
  moreover have "strip_prefix ''blob:'' (tag_name d) = Some (digest_hex d)"
    unfolding tag_name_def by (rule strip_prefix_append)
  ultimately show "pin_of_tag (name, h) = Some (d, h')"
    using a by (simp add: pin_of_tag_def)
qed

lemma list_pins_iff:
  assumes "table_ok (pin_tags s)"
  shows "(d, h) \<in> set (list_pins s) \<longleftrightarrow> digest_ok d \<and> tget (pin_tags s) (tag_name d) = Some h"
proof -
  have "(d, h) \<in> set (list_pins s) \<longleftrightarrow> (\<exists>x \<in> set (pin_tags s). pin_of_tag x = Some (d, h))"
    by (simp add: list_pins_def map_filter_Some_iff)
  also have "\<dots> \<longleftrightarrow> digest_ok d \<and> (tag_name d, h) \<in> set (pin_tags s)"
    unfolding Bex_def split_paired_Ex pin_of_tag_iff by blast
  finally show ?thesis using tget_in_set [OF assms] by auto
qed

section \<open>Soundness of the operations\<close>

lemma blob_at_put:
  assumes "\<And>q. file_at ix' q = (if q = digest_path (br_digest r) then Some (BlobFile r) else file_at ix q)"
    and "digest_ok (br_digest r)" "digest_ok d"
  shows "blob_at ix' d = (if d = br_digest r then Some r else blob_at ix d)"
  using assms(1) [of "digest_path d"] digest_path_inject [OF assms(3,2)]
  by (simp add: blob_at_def)

lemma release_at_put_blob:
  assumes "\<And>q. file_at ix' q = (if q = digest_path d then e else file_at ix q)"
  shows "release_at K ix' s = release_at K ix s"
  using assms [of "slot_path K s"] by (simp add: release_at_def)

lemma index_put_blob_spec:
  assumes "index_ok K (idx s)" "digest_ok (br_digest r)"
  obtains ix where "index_put_blob r s = (s\<lparr>idx := ix\<rparr>, Inr ())" "index_ok K ix"
    "\<And>d. digest_ok d \<Longrightarrow> blob_at ix d = (if d = br_digest r then Some r else blob_at (idx s) d)"
    "\<And>sl. release_at K ix sl = release_at K (idx s) sl"
proof -
  obtain ix where put: "put_blob_ref (idx s) r = Inr ix" and ok: "index_ok K ix"
    and files: "\<And>q. file_at ix q = (if q = digest_path (br_digest r) then Some (BlobFile r) else file_at (idx s) q)"
    using put_blob_ref_spec [OF assms] by blast
  have "index_put_blob r s = (s\<lparr>idx := ix\<rparr>, Inr ())"
    by (simp add: index_put_blob_def on_index_def put)
  moreover have "digest_ok d \<Longrightarrow> blob_at ix d = (if d = br_digest r then Some r else blob_at (idx s) d)" for d
    by (rule blob_at_put [OF files assms(2)])
  moreover have "release_at K ix sl = release_at K (idx s) sl" for sl
    by (rule release_at_put_blob [OF files])
  ultimately show ?thesis using that ok by blast
qed

lemma verify_blob_iff:
  "verify_blob K r s = Inr () \<longleftrightarrow> (\<exists>bs. tget (blob_data s) (br_hash r) = Some bs
     \<and> digest_sha256 K bs = br_digest r \<and> of_nat (length bs) = br_size r)"
  by (auto simp: verify_blob_def read_hash_def)

text \<open>Filing a blob under its digest keeps the store sound, when its data was checked.\<close>

lemma record_blob_spec:
  assumes ok: "store_ok K s" and dig: "digest_ok (br_digest r)" and checked: "verify_blob K r s = Inr ()"
  obtains ix where
    "record_blob r s = (s\<lparr>pin_tags := tput (tag_name (br_digest r)) (br_hash r) (pin_tags s), idx := ix\<rparr>, Inr ())"
    "store_ok K (s\<lparr>pin_tags := tput (tag_name (br_digest r)) (br_hash r) (pin_tags s), idx := ix\<rparr>)"
    "\<And>d. digest_ok d \<Longrightarrow> blob_at ix d = (if d = br_digest r then Some r else blob_at (idx s) d)"
    "\<And>sl. release_at K ix sl = release_at K (idx s) sl"
proof -
  let ?s1 = "set_tag (tag_name (br_digest r)) (br_hash r) s"
  have same: "idx ?s1 = idx s" by (simp add: set_tag_def)
  have "index_ok K (idx ?s1)" using ok by (simp add: store_ok_def same)
  from index_put_blob_spec [OF this dig] obtain ix where
    put: "index_put_blob r ?s1 = (?s1\<lparr>idx := ix\<rparr>, Inr ())" and ix: "index_ok K ix"
    and blobs: "\<And>d. digest_ok d \<Longrightarrow> blob_at ix d = (if d = br_digest r then Some r else blob_at (idx s) d)"
    and rels: "\<And>sl. release_at K ix sl = release_at K (idx s) sl"
    unfolding same by metis
  let ?s = "?s1\<lparr>idx := ix\<rparr>"
  have run: "record_blob r s = (?s, Inr ())"
    using put by (simp add: record_blob_def)
  have "blob_sound K ?s b \<and> br_digest b = d" if d: "digest_ok d" "blob_at ix d = Some b" for d b
  proof (cases "d = br_digest r")
    case True
    with d blobs have "b = r" by simp
    with checked dig True show ?thesis
      by (auto simp: blob_sound_def set_tag_def verify_blob_iff)
  next
    case False
    with d blobs have "blob_at (idx s) d = Some b" by simp
    with ok d(1) have "blob_sound K s b" "br_digest b = d" by (auto simp: store_ok_def)
    with False dig d(1) show ?thesis
      by (simp add: blob_sound_def set_tag_def tag_name_inject)
  qed
  then have "store_ok K ?s"
    using ok ix by (auto simp: store_ok_def set_tag_def)
  with run show ?thesis
    using that [OF _ _ blobs rels] by (simp only: set_tag_def)
qed

text \<open>Importing data keeps the store sound, unless different data with the same BLAKE3 hash is there.\<close>

lemma put_blob_bytes_spec:
  assumes ok: "store_ok K s" and laws: "hex_laws K" "sha_laws K"
    and fresh: "\<And>bs. tget (blob_data s) (blake3_of K bytes) = Some bs \<Longrightarrow> bs = bytes"
    and put: "put_blob_bytes K bytes expect mt s = (s', res)"
  shows "store_ok K s' \<and> (\<forall>sl. release_at K (idx s') sl = release_at K (idx s) sl)
    \<and> (case res of
         Inl e \<Rightarrow> e = Store_err DigestMismatch \<and> s' = s \<and> (\<exists>d. expect = Some d \<and> d \<noteq> digest_sha256 K bytes)
       | Inr r \<Rightarrow> r = \<lparr>br_digest = digest_sha256 K bytes, br_hash = blake3_of K bytes,
             br_size = of_nat (length bytes), br_media_type = mt\<rparr>
           \<and> blob_at (idx s') (br_digest r) = Some r \<and> tget (blob_data s') (br_hash r) = Some bytes)"
proof (cases "case expect of Some e \<Rightarrow> e \<noteq> digest_sha256 K bytes | None \<Rightarrow> False")
  case True
  with put ok show ?thesis by (auto simp: put_blob_bytes_def Let_def split: option.splits)
next
  case False
  let ?r = "\<lparr>br_digest = digest_sha256 K bytes, br_hash = blake3_of K bytes,
      br_size = of_nat (length bytes), br_media_type = mt\<rparr> :: blob_ref"
  let ?s1 = "add_data (blake3_of K bytes) bytes s"
  have run: "put_blob_bytes K bytes expect mt s = then_do (record_blob ?r) (\<lambda>_. ret ?r) ?s1"
    using False unfolding put_blob_bytes_def Let_def record_blob_def
    by (simp only: if_False blob_ref.select_convs then_do_def modify_def prod.case sum.case)
  have data: "tget (blob_data ?s1) h = (if h = blake3_of K bytes then Some bytes else tget (blob_data s) h)" for h
    using fresh by (auto simp: add_data_def has_hash_def)
  have same: "idx ?s1 = idx s" "pin_tags ?s1 = pin_tags s" by (simp_all add: add_data_def)
  have sound: "blob_sound K ?s1 b" if "blob_sound K s b" for b
    using that fresh unfolding blob_sound_def same data by auto
  have "table_ok (blob_data ?s1)" using ok by (simp add: store_ok_def add_data_def)
  moreover have "tget (blob_data ?s1) h = Some bs \<Longrightarrow> blake3_of K bs = h" for h bs
    using ok data by (auto simp: store_ok_def split: if_splits)
  ultimately have ok1: "store_ok K ?s1"
    using ok sound by (simp add: store_ok_def same)
  have dig: "digest_ok (br_digest ?r)" using digest_sha256_ok [OF laws] by simp
  have ver: "verify_blob K ?r ?s1 = Inr ()" using data by (simp add: verify_blob_iff)
  let ?s2 = "\<lambda>ix. ?s1\<lparr>pin_tags := tput (tag_name (br_digest ?r)) (br_hash ?r) (pin_tags ?s1), idx := ix\<rparr>"
  obtain ix where
    rec: "record_blob ?r ?s1 = (?s2 ix, Inr ())" and ok2: "store_ok K (?s2 ix)"
    and blobs: "\<And>d. digest_ok d \<Longrightarrow> blob_at ix d = (if d = br_digest ?r then Some ?r else blob_at (idx ?s1) d)"
    and rels: "\<And>sl. release_at K ix sl = release_at K (idx ?s1) sl"
    by (rule record_blob_spec [OF ok1 dig ver]) (rule that)
  have "s' = ?s2 ix" "res = Inr ?r"
    using put unfolding run then_do_def rec by simp_all
  moreover have "blob_at (idx (?s2 ix)) (br_digest ?r) = Some ?r" using blobs [OF dig] by simp
  moreover have "tget (blob_data (?s2 ix)) (br_hash ?r) = Some bytes" using data by simp
  moreover have "release_at K (idx (?s2 ix)) sl = release_at K (idx s) sl" for sl
    using rels by (simp add: same)
  ultimately show ?thesis using ok2 by simp
qed

end
