(* ===== verification/Node_State.thy ===== *)
theory Node_State
  imports Blob_Store Policy Dns_Service
begin

text \<open>
  The state of a running node (\<^verbatim>\<open>crates/ocid/src/node.rs\<close>): its store, identity, policy, peers,
  gossip topics and events, the operations that keep the peers and the topics, and the resolution
  of references through DNS. Network, clock and file system answers during one operation are the
  parameter \<open>node_env\<close>; metrics and log lines are left out.
\<close>

section \<open>The parameters\<close>

text \<open>More of the third-party code: the JSON form of a release (serde), connection tickets and relay
  URLs (iroh).\<close>

record net_crates = node_crates +
  release_json :: "release \<Rightarrow> byte list"
  release_of_json :: "byte list \<Rightarrow> release option"
  ticket_addr :: "string \<Rightarrow> endpoint_addr option"
  relay_url :: "string \<Rightarrow> string option"

datatype request =
    Inventory
  | GetRelease public_key string string
  | ListTags public_key string
  | Hello endpoint_addr

datatype response =
    Inventory_resp "release_summary list"
  | Release_resp "byte list option"
  | Tags_resp "string list"
  | Ok_resp
  | Error_resp err

text \<open>
  What the world answers during one operation. \<open>env_reply\<close> is the message a peer sends back, if a
  connection can be made and a message comes; \<open>env_download\<close> is what the blob downloader obtains
  for a hash from a list of providers; \<open>env_age\<close> is the age of a release file and \<open>env_upload_age\<close>
  that of an upload file, in seconds, when the file system knows it.
\<close>

record node_env =
  env_dns :: dns_config
  env_now :: nat
  env_unix :: u64
  env_pin_save :: bool
  env_answer :: "string \<Rightarrow> answer"
  env_policy_save :: bool
  env_topic :: "public_key \<Rightarrow> bool"
  env_broadcast :: bool
  env_connect :: "public_key \<Rightarrow> bool"
  env_reply :: "public_key \<Rightarrow> request \<Rightarrow> response option"
  env_download :: "blake3 \<Rightarrow> public_key list \<Rightarrow> byte list option"
  env_age :: "release \<Rightarrow> nat option"
  env_upload_age :: "string \<Rightarrow> nat option"
  env_grace :: nat
  env_own_addr :: endpoint_addr

section \<open>The state\<close>

datatype daemon_event =
    Gossip_event public_key string string bool
  | Pruned_event public_key string string string
  | ReleaseSaved public_key string string nat
  | PullProgress public_key string string nat nat u64 u64
  | FetchFailed public_key string string err
  | PeerChange public_key bool
  | HttpRequest string string nat

record node = blob_store +
  node_key :: bytes32
  node_policy :: policy
  policy_disk :: "policy option"
  known_peers :: "endpoint_addr list"
  neighbors :: "public_key set"
  last_seen :: "(public_key, nat) table"
  topics :: "public_key set"
  dns_st :: dns_state
  inflight :: "string set"
  upload_files :: "(string, byte list) table"
  events :: "daemon_event list"
  announced :: "release_summary list"

type_synonym 'a node_op = "(node, 'a) op"

definition emit :: "daemon_event \<Rightarrow> node \<Rightarrow> node" where
  "emit e s = s\<lparr>events := events s @ [e]\<rparr>"

definition node_id :: "'z crates_scheme \<Rightarrow> node \<Rightarrow> public_key" where
  "node_id K s = identity_id K (node_key s)"

section \<open>Peers\<close>

definition addr_new :: "public_key \<Rightarrow> endpoint_addr" where
  "addr_new p = \<lparr>addr_id = p, addr_addrs = {}\<rparr>"

definition parse_peer_spec :: "'z net_crates_scheme \<Rightarrow> string \<Rightarrow> endpoint_addr result" where
  "parse_peer_spec K p =
     (case ticket_addr K p of
        Some a \<Rightarrow> Inr a
      | None \<Rightarrow>
          (case parse_publisher K p of
             Inr i \<Rightarrow> Inr (addr_new i)
           | Inl _ \<Rightarrow> Inl (Node_err PeerSpec)))"

definition addr_with_relay_hint ::
  "'z net_crates_scheme \<Rightarrow> public_key \<Rightarrow> string option \<Rightarrow> endpoint_addr" where
  "addr_with_relay_hint K publisher relay =
     (let addr = addr_new publisher in
      case relay of
        None \<Rightarrow> addr
      | Some url \<Rightarrow>
          (case relay_url K url of
             Some u \<Rightarrow> addr\<lparr>addr_addrs := insert u (addr_addrs addr)\<rparr>
           | None \<Rightarrow> addr))"

definition note_peer_seen :: "node_env \<Rightarrow> public_key \<Rightarrow> node \<Rightarrow> node" where
  "note_peer_seen E p s = s\<lparr>last_seen := tput p (env_now E) (last_seen s)\<rparr>"

definition remember_peer :: "'z crates_scheme \<Rightarrow> endpoint_addr \<Rightarrow> node \<Rightarrow> node" where
  "remember_peer K addr s =
     (if addr_id addr = node_id K s then s
      else s\<lparr>known_peers := fst (peers_upsert addr (known_peers s))\<rparr>)"

text \<open>Adding a peer remembers it and introduces it to the topics, which changes no state here.\<close>

definition add_peer :: "'z crates_scheme \<Rightarrow> endpoint_addr \<Rightarrow> public_key node_op" where
  "add_peer K addr = then_do (modify (remember_peer K addr)) (\<lambda>_. ret (addr_id addr))"

definition neighbor_up :: "node_env \<Rightarrow> public_key \<Rightarrow> node \<Rightarrow> node" where
  "neighbor_up E p s =
     (let new = (p \<notin> neighbors s);
          s1 = note_peer_seen E p (s\<lparr>neighbors := insert p (neighbors s)\<rparr>)
      in if new then emit (PeerChange p True) s1 else s1)"

definition neighbor_down :: "public_key \<Rightarrow> node \<Rightarrow> node" where
  "neighbor_down p s =
     (if p \<in> neighbors s then emit (PeerChange p False) (s\<lparr>neighbors := neighbors s - {p}\<rparr>) else s)"

text \<open>\<open>push_new\<close> is \<open>if !out.contains(&id) { out.push(id) }\<close>.\<close>

definition push_new :: "public_key \<Rightarrow> public_key list \<Rightarrow> public_key list" where
  "push_new p out = (if p \<in> set out then out else out @ [p])"

definition candidate_peers :: "'z crates_scheme \<Rightarrow> public_key \<Rightarrow> node \<Rightarrow> public_key list" where
  "candidate_peers K publisher s =
     (let out0 = sorted_list_of_set (neighbors s);
          out1 = fold (\<lambda>p. push_new (addr_id p)) (known_peers s) out0;
          out2 = push_new publisher out1
      in filter (\<lambda>p. p \<noteq> node_id K s) out2)"

record peer_info =
  pi_id :: public_key
  pi_neighbor :: bool
  pi_known :: bool
  pi_last_seen :: "nat option"

definition peer_infos :: "node_env \<Rightarrow> node \<Rightarrow> peer_info list" where
  "peer_infos E s =
     (let known = set (map addr_id (known_peers s));
          ids = neighbors s \<union> known \<union> set (map fst (last_seen s))
      in map (\<lambda>p. \<lparr>pi_id = p, pi_neighbor = p \<in> neighbors s, pi_known = p \<in> known,
           pi_last_seen = map_option (\<lambda>t. env_now E - t) (tget (last_seen s) p)\<rparr>)
         (sorted_list_of_set ids))"

section \<open>Topics\<close>

definition gossip_bootstrap :: "'z crates_scheme \<Rightarrow> node \<Rightarrow> public_key list" where
  "gossip_bootstrap K s =
     sorted_list_of_set ((neighbors s \<union> set (map addr_id (known_peers s))) - {node_id K s})"

text \<open>Leave the topics that are not wanted any more, join the wanted ones; a topic that cannot be
  joined is skipped.\<close>

definition sync_topics :: "'z crates_scheme \<Rightarrow> node_env \<Rightarrow> node \<Rightarrow> node" where
  "sync_topics K E s =
     (let wanted = insert (node_id K s) (publishers K (node_policy s));
          stale = {p \<in> topics s. p \<notin> wanted};
          kept = topics s - stale;
          joined = {p \<in> wanted. p \<notin> kept \<and> env_topic E p}
      in s\<lparr>topics := kept \<union> joined\<rparr>)"

section \<open>Resolution through DNS\<close>

definition node_resolve_zone ::
  "'z crates_scheme \<Rightarrow> node_env \<Rightarrow> string \<Rightarrow> zone_outcome node_op" where
  "node_resolve_zone K E zone s =
     (case resolve_zone K (env_dns E) (env_now E) (env_unix E) (env_pin_save E) (env_answer E zone)
             zone (dns_st s) of
        (d, r) \<Rightarrow> (s\<lparr>dns_st := d\<rparr>, r))"

definition resolve_zone_publisher ::
  "'z crates_scheme \<Rightarrow> node_env \<Rightarrow> string \<Rightarrow> public_key node_op" where
  "resolve_zone_publisher K E zone =
     then_do (node_resolve_zone K E zone) (\<lambda>out. case out of
       Resolved p _ _ _ \<Rightarrow> ret p
     | NoRecord \<Rightarrow> fail (Dns_err NoZoneRecord)
     | Disabled \<Rightarrow> fail (Dns_err DnsDisabled))"

definition rewrite_dns_publisher ::
  "'z crates_scheme \<Rightarrow> node_env \<Rightarrow> string \<Rightarrow> string node_op" where
  "rewrite_dns_publisher K E rf =
     (case split_once CHR ''/'' rf of
        Some (first, rest) \<Rightarrow>
          if rest \<noteq> [] \<and> is_domain_name first then
            then_do (node_resolve_zone K E first) (\<lambda>out. case out of
              Resolved p _ _ _ \<Rightarrow> ret (pk_display K p @ ''/'' @ rest)
            | NoRecord \<Rightarrow> ret rf
            | Disabled \<Rightarrow> ret rf)
          else ret rf
      | None \<Rightarrow> ret rf)"

definition resolve_image_ref ::
  "'z crates_scheme \<Rightarrow> node_env \<Rightarrow> string \<Rightarrow> image_ref node_op" where
  "resolve_image_ref K E rf =
     then_do (rewrite_dns_publisher K E (strip_registry_location rf)) (\<lambda>rewritten.
     lift_res (\<lambda>s. image_ref_parse K rewritten (node_policy s) (node_id K s)))"

definition domain_slot :: "string \<Rightarrow> string option" where
  "domain_slot rule =
     Option.bind (split_once CHR ''/'' rule) (\<lambda>(first, _). if is_domain_name first then Some first else None)"

definition resolve_rule ::
  "'z crates_scheme \<Rightarrow> node_env \<Rightarrow> string \<Rightarrow> (string \<times> image_ref) node_op" where
  "resolve_rule K E rf =
     (case domain_slot rf of
        Some zone \<Rightarrow>
          then_do (resolve_zone_publisher K E zone) (\<lambda>publisher.
          then_do (lift_res (\<lambda>_. split_tag (drop (length zone + 1) rf))) (\<lambda>(name, tag).
          ret (rf, \<lparr>ref_publisher = publisher, ref_name = name, ref_tag = tag\<rparr>)))
      | None \<Rightarrow>
          then_do (lift_res (\<lambda>s. image_ref_parse K rf (node_policy s) (node_id K s))) (\<lambda>r.
          ret (rf, r)))"

definition resolve_publisher_rule ::
  "'z crates_scheme \<Rightarrow> node_env \<Rightarrow> string \<Rightarrow> (string \<times> public_key) node_op" where
  "resolve_publisher_rule K E arg s =
     (case parse_publisher K arg of
        Inr p \<Rightarrow> ret (arg, p) s
      | Inl _ \<Rightarrow>
          (case resolve_alias K (node_policy s) arg of
             Some (Alias_Publisher p) \<Rightarrow> ret (arg, p) s
           | _ \<Rightarrow>
               if is_domain_name arg then
                 then_do (resolve_zone_publisher K E arg) (\<lambda>p. ret (arg, p)) s
               else fail (Key_err PublisherText) s))"

definition add_peer_spec :: "'z net_crates_scheme \<Rightarrow> node_env \<Rightarrow> string \<Rightarrow> public_key node_op" where
  "add_peer_spec K E spec =
     then_do
       (if is_domain_name spec then
          then_do (node_resolve_zone K E spec) (\<lambda>out. case out of
            Resolved p _ relay seed \<Rightarrow> ret (addr_with_relay_hint K p relay, seed)
          | NoRecord \<Rightarrow> fail (Dns_err NoZoneRecord)
          | Disabled \<Rightarrow> fail (Dns_err NoZoneRecord))
        else then_do (lift_res (\<lambda>_. parse_peer_spec K spec)) (\<lambda>a. ret (a, None)))
       (\<lambda>(addr, seed).
     then_do (modify (\<lambda>s. case seed of Some i \<Rightarrow> remember_peer K (addr_new i) s | None \<Rightarrow> s)) (\<lambda>_.
     add_peer K addr))"

end
