(* ===== verification/Collection.thy ===== *)
theory Collection
  imports Node_State Retention
begin

text \<open>
  Deletion and garbage collection (\<^verbatim>\<open>crates/ocid/src/node.rs\<close>): the enforcement of windows, the
  removal of releases, the sweep of blobs that no release references, and the periodic collector.
  Each operation here runs under the write half of \<open>gc_lock\<close>, so no fetch is in progress.
\<close>

section \<open>Operations\<close>

definition local_releases_of ::
  "'z crates_scheme \<Rightarrow> public_key \<Rightarrow> string \<Rightarrow> node \<Rightarrow> release list result" where
  "local_releases_of K p n s =
     and_then (list_tags K (idx s) p n) (\<lambda>ts.
     and_then (map_res (\<lambda>t. get_release K (idx s) p n t) ts) (\<lambda>ms.
     Inr (List.map_filter id ms)))"

definition tag_and_time :: "release \<Rightarrow> string \<times> u64" where
  "tag_and_time r = (p_tag (payload r), p_timestamp (payload r))"

definition drop_release :: "'z crates_scheme \<Rightarrow> public_key \<Rightarrow> string \<Rightarrow> string \<Rightarrow> bool node_op" where
  "drop_release K p n t = on_index (\<lambda>ix. remove_release K ix p n t)"

text \<open>The hashes that remaining releases reference; \<open>ignored\<close> lists the references of releases to
  treat as removed already.\<close>

definition live_hashes :: "'z crates_scheme \<Rightarrow> string set \<Rightarrow> node \<Rightarrow> blake3 set" where
  "live_hashes K ignored s =
     (\<Union>r \<in> set (filter (\<lambda>r. reference K r \<notin> ignored) (list_releases K (idx s))).
        set (map br_hash (all_blobs r)))"

definition sweep_pin ::
  "bool \<Rightarrow> blake3 set \<Rightarrow> digest \<times> blake3 \<Rightarrow> nat \<times> u64 \<Rightarrow> (nat \<times> u64) node_op" where
  "sweep_pin dry live pin acc =
     (case (pin, acc) of ((d, h), (removed, bytes)) \<Rightarrow>
       if h \<in> live then ret acc
       else
         then_do (lift_res (\<lambda>s. blob_ref_get (idx s) d)) (\<lambda>b.
         let acc' = (removed + 1, bytes + (case b of Some r \<Rightarrow> br_size r | None \<Rightarrow> 0)) in
         if dry then ret acc'
         else
           then_do (modify (unpin_blob d)) (\<lambda>_.
           then_do (on_index (\<lambda>ix. remove_blob_ref ix d)) (\<lambda>_.
           ret acc'))))"

definition sweep_entry :: "bool \<Rightarrow> blake3 set \<Rightarrow> blake3 set \<Rightarrow> blob_ref \<Rightarrow> unit node_op" where
  "sweep_entry dry live pinned b =
     (if br_hash b \<notin> live \<and> br_hash b \<notin> pinned \<and> \<not> dry then
        then_do (on_index (\<lambda>ix. remove_blob_ref ix (br_digest b))) (\<lambda>_. ret ())
      else ret ())"

definition sweep_blobs_locked ::
  "'z crates_scheme \<Rightarrow> bool \<Rightarrow> string set \<Rightarrow> (nat \<times> u64) node_op" where
  "sweep_blobs_locked K dry ignored s =
     (let live = live_hashes K ignored s in
      then_do (fold_op (sweep_pin dry live) (list_pins s) (0, 0)) (\<lambda>acc s1.
      let pinned = set (map snd (list_pins s1)) in
      then_do (for_each (list_blob_refs (idx s1)) (sweep_entry dry live pinned)) (\<lambda>_.
      ret acc) s1) s)"

definition sweep_blobs :: "'z crates_scheme \<Rightarrow> bool \<Rightarrow> (nat \<times> u64) node_op" where
  "sweep_blobs K dry = sweep_blobs_locked K dry {}"

text \<open>The body of the loop of \<open>enforce_window\<close>; the accumulator counts the releases removed.\<close>

definition prune_outside ::
  "'z crates_scheme \<Rightarrow> window \<Rightarrow> string set \<Rightarrow> public_key \<Rightarrow> string \<Rightarrow> release \<Rightarrow> nat \<Rightarrow> nat node_op" where
  "prune_outside K w selected p n r k =
     (if p_tag (payload r) \<in> selected then ret k
      else
        then_do (drop_release K p n (p_tag (payload r))) (\<lambda>gone.
        if gone then
          then_do (modify (emit (Pruned_event p n (p_tag (payload r)) (''outside window '' @ window_describe w))))
            (\<lambda>_. ret (k + 1))
        else ret k))"

definition enforce_window :: "'z crates_scheme \<Rightarrow> public_key \<Rightarrow> string \<Rightarrow> unit node_op" where
  "enforce_window K p n s =
     (if p = node_id K s then ret () s
      else
        let w = policy_window K (node_policy s) p n in
        if window_is_empty w then ret () s
        else
          then_do (lift_res (local_releases_of K p n)) (\<lambda>held.
          let selected = window_select w (map tag_and_time held) in
          then_do (fold_op (prune_outside K w selected p n) held 0) (\<lambda>k.
          if k > 0 then then_do (sweep_blobs_locked K False {}) (\<lambda>_. ret ()) else ret ())) s)"

definition repo_of :: "release \<Rightarrow> public_key \<times> string" where
  "repo_of r = (p_publisher (payload r), p_name (payload r))"

definition enforce_all_windows :: "'z crates_scheme \<Rightarrow> unit node_op" where
  "enforce_all_windows K s =
     for_each (sorted_list_of_set (set (map repo_of (list_releases K (idx s)))))
       (\<lambda>(p, n). enforce_window K p n) s"

text \<open>The references kept of one image, among the releases given.\<close>

definition retained_of ::
  "'z crates_scheme \<Rightarrow> public_key \<Rightarrow> policy \<Rightarrow> release list \<Rightarrow> public_key \<times> string \<Rightarrow> string set" where
  "retained_of K me pol releases repo =
     (let rels = filter (\<lambda>r. repo_of r = repo) releases; (p, n) = repo in
      if p = me then set (map (reference K) rels)
      else
        let w = policy_window K pol p n in
        if window_is_empty w then {}
        else
          let selected = window_select w (map tag_and_time rels)
          in set (map (reference K) (filter (\<lambda>r. p_tag (payload r) \<in> selected) rels)))"

definition retained_set ::
  "'z crates_scheme \<Rightarrow> policy \<Rightarrow> release list \<Rightarrow> node \<Rightarrow> string set" where
  "retained_set K pol releases s = (\<Union>repo \<in> set (map repo_of releases). retained_of K (node_id K s) pol releases repo)"

record rm_resp =
  rm_removed :: "string list"
  still_wanted :: bool

definition slot_reference :: "'z crates_scheme \<Rightarrow> public_key \<Rightarrow> string \<Rightarrow> string \<Rightarrow> string" where
  "slot_reference K p n t = pk_display K p @ ''/'' @ n @ '':'' @ t"

definition remove_tag ::
  "'z crates_scheme \<Rightarrow> public_key \<Rightarrow> string \<Rightarrow> string \<Rightarrow> string list \<Rightarrow> string list node_op" where
  "remove_tag K p n t removed =
     then_do (drop_release K p n t) (\<lambda>gone.
     ret (if gone then removed @ [slot_reference K p n t] else removed))"

definition node_remove_release ::
  "'z crates_scheme \<Rightarrow> public_key \<Rightarrow> string \<Rightarrow> string option \<Rightarrow> rm_resp node_op" where
  "node_remove_release K p n tag =
     then_do (lift_res (\<lambda>s. case tag of Some t \<Rightarrow> Inr [t] | None \<Rightarrow> list_tags K (idx s) p n)) (\<lambda>tags.
     then_do (fold_op (remove_tag K p n) tags []) (\<lambda>removed s.
     let wanted = (p \<noteq> node_id K s \<and> covers K (node_policy s) p n) in
     then_do (if removed \<noteq> [] then then_do (sweep_blobs K False) (\<lambda>_. ret ()) else ret ()) (\<lambda>_.
     ret \<lparr>rm_removed = removed, still_wanted = wanted\<rparr>) s))"

record gc_req =
  gc_dry :: bool
  gc_force :: bool

record gc_report =
  rep_dry :: bool
  rep_releases :: "string list"
  rep_blobs :: nat
  rep_bytes :: u64
  rep_uploads :: nat

text \<open>The body of the loop over the releases of a collection.\<close>

definition in_grace :: "node_env \<Rightarrow> release \<Rightarrow> bool" where
  "in_grace E r = (case env_age E r of Some a \<Rightarrow> a < env_grace E | None \<Rightarrow> False)"

definition gc_release ::
  "'z crates_scheme \<Rightarrow> node_env \<Rightarrow> gc_req \<Rightarrow> string set \<Rightarrow> release \<Rightarrow> string list \<Rightarrow> string list node_op" where
  "gc_release K E q keep r removed =
     (if reference K r \<in> keep then ret removed
      else if \<not> gc_force q \<and> in_grace E r then ret removed
      else
        (let removed' = removed @ [reference K r] in
         if \<not> gc_dry q then
           then_do (drop_release K (p_publisher (payload r)) (p_name (payload r)) (p_tag (payload r)))
             (\<lambda>_. ret removed')
         else ret removed'))"

definition old_upload :: "node_env \<Rightarrow> string \<Rightarrow> bool" where
  "old_upload E name = (case env_upload_age E name of Some a \<Rightarrow> a > 86400 | None \<Rightarrow> False)"

definition prune_uploads :: "node_env \<Rightarrow> bool \<Rightarrow> nat node_op" where
  "prune_uploads E dry s =
     (let old = filter (\<lambda>(name, _). old_upload E name) (upload_files s) in
      (if dry then s else s\<lparr>upload_files := filter (\<lambda>(name, _). \<not> old_upload E name) (upload_files s)\<rparr>,
       Inr (length old)))"

definition gc :: "'z crates_scheme \<Rightarrow> node_env \<Rightarrow> gc_req \<Rightarrow> gc_report node_op" where
  "gc K E q s =
     (let releases = list_releases K (idx s);
          keep = retained_set K (node_policy s) releases s in
      then_do (fold_op (gc_release K E q keep) releases []) (\<lambda>removed.
      then_do (sweep_blobs_locked K (gc_dry q) (set removed)) (\<lambda>(blobs, bytes).
      then_do (prune_uploads E (gc_dry q)) (\<lambda>uploads.
      then_do (modify (\<lambda>s. if gc_dry q then s else s\<lparr>idx := fst (prune_referrers (idx s))\<rparr>)) (\<lambda>_.
      ret \<lparr>rep_dry = gc_dry q, rep_releases = removed, rep_blobs = blobs, rep_bytes = bytes,
            rep_uploads = uploads\<rparr>)))) s)"

end
