(* ===== verification/Collection_Safety.thy ===== *)
theory Collection_Safety
  imports Collection
begin

text \<open>
  What collection keeps and what it removes: the enforcement of windows, the sweep and the collector
  remove exactly the releases and blobs they should, and keep the store sound.
\<close>

section \<open>Removing releases\<close>

lemma remove_release_held:
  assumes ok: "index_ok K ix" and keys: "key_laws K" and held: "release_at K ix (p, n, t) = Some r"
  obtains ix' where "remove_release K ix p n t = (ix', Inr True)" "index_ok K ix'"
    "\<And>d. blob_at ix' d = blob_at ix d"
    "\<And>s. release_at K ix' s = (if s = (p, n, t) then None else release_at K ix s)"
proof -
  from release_at_slot [OF ok keys held] have "slot_of r = (p, n, t)" "slot_ok r" by auto
  then have path: "release_path K p n t = Inr (slot_path K (p, n, t))"
    by (auto simp: release_path_Inr_iff slot_ok_def slot_of_def)
  have "tget ix (slot_path K (p, n, t)) = Some (ReleaseFile r)"
    using slot_file [OF ok, of "(p, n, t)"] held by (simp add: file_at_Some_iff)
  with path obtain ix' where rm: "remove_release K ix p n t = (ix', Inr True)"
    by (auto simp: remove_release_def)
  show ?thesis using that [OF rm] remove_release_spec [OF ok keys rm] by simp
qed

text \<open>What collection changes: the index, the pins and the events.\<close>

definition same_core :: "node \<Rightarrow> node \<Rightarrow> bool" where
  "same_core s s' \<longleftrightarrow> s'\<lparr>idx := [], pin_tags := [], events := []\<rparr> = s\<lparr>idx := [], pin_tags := [], events := []\<rparr>"

lemma same_core_refl [simp]: "same_core s s"
  by (simp add: same_core_def)

lemma same_core_trans: "same_core s t \<Longrightarrow> same_core t u \<Longrightarrow> same_core s u"
  by (simp add: same_core_def)

lemma same_core_updates [simp]:
  "same_core s (t\<lparr>idx := ix\<rparr>) = same_core s t" "same_core s (t\<lparr>pin_tags := pt\<rparr>) = same_core s t"
  "same_core s (t\<lparr>events := ev\<rparr>) = same_core s t" "same_core s (emit e t) = same_core s t"
  by (simp_all add: same_core_def emit_def)

lemma same_coreD:
  assumes "same_core s s'"
  shows "blob_data s' = blob_data s" "node_key s' = node_key s" "node_policy s' = node_policy s"
    "upload_files s' = upload_files s" "topics s' = topics s"
  using assms [unfolded same_core_def, THEN arg_cong [where f = blob_data]]
    assms [unfolded same_core_def, THEN arg_cong [where f = node_key]]
    assms [unfolded same_core_def, THEN arg_cong [where f = node_policy]]
    assms [unfolded same_core_def, THEN arg_cong [where f = upload_files]]
    assms [unfolded same_core_def, THEN arg_cong [where f = topics]]
  by simp_all

text \<open>The state after some releases were dropped.\<close>

definition dropped :: "'z crates_scheme \<Rightarrow> slot set \<Rightarrow> node \<Rightarrow> node \<Rightarrow> bool" where
  "dropped K D s s' \<longleftrightarrow> same_core s s' \<and> pin_tags s' = pin_tags s \<and> index_ok K (idx s')
     \<and> (\<forall>d. blob_at (idx s') d = blob_at (idx s) d)
     \<and> (\<forall>sl. release_at K (idx s') sl = (if sl \<in> D then None else release_at K (idx s) sl))"

lemma dropped_refl: "index_ok K (idx s) \<Longrightarrow> dropped K {} s s"
  by (simp add: dropped_def)

lemma dropped_emit: "dropped K D s s' \<Longrightarrow> dropped K D s (emit e s')"
  by (simp add: dropped_def) (simp add: emit_def)

lemma dropped_one:
  assumes "dropped K D s s'" and keys: "key_laws K" and held: "release_at K (idx s') (p, n, t) = Some r"
  obtains s'' where "drop_release K p n t s' = (s'', Inr True)" "dropped K (insert (p, n, t) D) s s''"
proof -
  have ok: "index_ok K (idx s')" using assms(1) by (simp add: dropped_def)
  obtain ix' where rm: "remove_release K (idx s') p n t = (ix', Inr True)" and ok': "index_ok K ix'"
    and v: "\<And>d. blob_at ix' d = blob_at (idx s') d"
      "\<And>sl. release_at K ix' sl = (if sl = (p, n, t) then None else release_at K (idx s') sl)"
    by (rule remove_release_held [OF ok keys held]) (rule that)
  have "drop_release K p n t s' = (s'\<lparr>idx := ix'\<rparr>, Inr True)"
    by (simp add: drop_release_def on_index_def rm)
  moreover have "dropped K (insert (p, n, t) D) s (s'\<lparr>idx := ix'\<rparr>)"
    using assms(1) ok' v by (simp add: dropped_def)
  ultimately show ?thesis by (rule that)
qed

lemma dropped_store_ok: "dropped K D s s' \<Longrightarrow> store_ok K s \<Longrightarrow> store_ok K s'"
  using same_coreD(1) unfolding dropped_def store_ok_def blob_sound_def by auto

section \<open>The sweep\<close>

lemma map_fst_map_filter: "map fst (List.map_filter f xs) = List.map_filter (\<lambda>x. map_option fst (f x)) xs"
  by (induction xs) (auto simp: map_filter_simps split: option.split)

lemma list_pins_distinct:
  assumes "table_ok (pin_tags s)"
  shows "distinct (map fst (list_pins s))"
proof -
  have "map fst (list_pins s) = List.map_filter (\<lambda>x. map_option fst (pin_of_tag x)) (pin_tags s)"
    unfolding list_pins_def by (rule map_fst_map_filter)
  moreover have "x = y"
    if "x \<in> set (pin_tags s)" "y \<in> set (pin_tags s)" "map_option fst (pin_of_tag x) = Some d"
      "map_option fst (pin_of_tag y) = Some d" for x y d
  proof -
    have "fst x = tag_name d" "fst y = tag_name d"
      using that(3,4) pin_of_tag_iff [of "fst x" "snd x"] pin_of_tag_iff [of "fst y" "snd y"] by auto
    then show ?thesis using that(1,2) tget_in_set [OF assms] by (metis option.inject prod.collapse)
  qed
  moreover have "distinct (pin_tags s)"
    using assms by (simp add: table_ok_def distinct_map)
  ultimately show ?thesis using distinct_map_filter by metis
qed

text \<open>What a sweep counts: the pins of hashes that nothing references, and the sizes of their entries.\<close>

definition unused_pins :: "blake3 set \<Rightarrow> (digest \<times> blake3) list \<Rightarrow> digest list" where
  "unused_pins live xs = map fst (filter (\<lambda>(d, h). h \<notin> live) xs)"

definition entry_size :: "fs \<Rightarrow> digest \<Rightarrow> u64" where
  "entry_size ix d = (case blob_at ix d of Some b \<Rightarrow> br_size b | None \<Rightarrow> 0)"

definition swept_count :: "fs \<Rightarrow> blake3 set \<Rightarrow> (digest \<times> blake3) list \<Rightarrow> nat \<times> u64" where
  "swept_count ix live xs =
     (length (unused_pins live xs), sum_list (map (entry_size ix) (unused_pins live xs)))"

definition keep_if :: "('a \<Rightarrow> bool) \<Rightarrow> 'a option \<Rightarrow> 'a option" where
  "keep_if P m = (case m of Some x \<Rightarrow> if P x then Some x else None | None \<Rightarrow> None)"

lemma keep_if_simps [simp]:
  "keep_if P None = None" "keep_if P (Some x) = (if P x then Some x else None)"
  by (simp_all add: keep_if_def)

lemma keep_if_Some_iff: "keep_if P m = Some x \<longleftrightarrow> m = Some x \<and> P x"
  by (cases m) auto

lemma keep_if_cong: "(\<And>x. m = Some x \<Longrightarrow> P x = Q x) \<Longrightarrow> keep_if P m = keep_if Q m"
  by (cases m) auto

lemma keep_if_all: "(\<And>x. m = Some x \<Longrightarrow> P x) \<Longrightarrow> keep_if P m = m"
  by (cases m) auto

lemma keep_if_none: "(\<And>x. m = Some x \<Longrightarrow> \<not> P x) \<Longrightarrow> keep_if P m = None"
  by (cases m) auto

text \<open>The state while the pins in \<open>rest\<close> are still to be looked at.\<close>

definition sweeping ::
  "'z crates_scheme \<Rightarrow> blake3 set \<Rightarrow> node \<Rightarrow> digest set \<Rightarrow> node \<Rightarrow> bool" where
  "sweeping K live s rest s' \<longleftrightarrow> same_core s s' \<and> events s' = events s
     \<and> index_ok K (idx s') \<and> table_ok (pin_tags s')
     \<and> (\<forall>sl. release_at K (idx s') sl = release_at K (idx s) sl)
     \<and> (\<forall>d. digest_ok d \<longrightarrow>
          tget (pin_tags s') (tag_name d) = keep_if (\<lambda>h. h \<in> live \<or> d \<in> rest) (tget (pin_tags s) (tag_name d))
        \<and> blob_at (idx s') d = keep_if (\<lambda>b. br_hash b \<in> live \<or> d \<in> rest) (blob_at (idx s) d))"

lemma blob_ref_get_ok:
  assumes "index_ok K ix"
  shows "blob_ref_get ix d = Inr (blob_at ix d)"
  using digest_entry [OF assms] by (auto simp: blob_ref_get_def split: option.splits)

lemma sweepingD:
  assumes "sweeping K live s rest s'"
  shows "index_ok K (idx s')" "release_at K (idx s') sl = release_at K (idx s) sl"
    "digest_ok d \<Longrightarrow> tget (pin_tags s') (tag_name d)
       = keep_if (\<lambda>h. h \<in> live \<or> d \<in> rest) (tget (pin_tags s) (tag_name d))"
    "digest_ok d \<Longrightarrow> blob_at (idx s') d = keep_if (\<lambda>b. br_hash b \<in> live \<or> d \<in> rest) (blob_at (idx s) d)"
    "same_core s s'" "events s' = events s" "table_ok (pin_tags s')"
  using assms unfolding sweeping_def by (simp_all del: split_paired_All)

lemma sweep_pin_step:
  assumes sw: "sweeping K live s (insert d rest) s'" and d: "digest_ok d" "d \<notin> rest"
    and pin: "tget (pin_tags s) (tag_name d) = Some h" "\<And>b. blob_at (idx s) d = Some b \<Longrightarrow> br_hash b = h"
  obtains s'' where
    "sweep_pin False live (d, h) (k, n) s' = (s'', Inr (if h \<in> live then (k, n)
       else (k + 1, n + entry_size (idx s) d)))" "sweeping K live s rest s''"
proof (cases "h \<in> live")
  case True
  have "keep_if (\<lambda>h. h \<in> live \<or> e \<in> insert d rest) (tget (pin_tags s) (tag_name e))
      = keep_if (\<lambda>h. h \<in> live \<or> e \<in> rest) (tget (pin_tags s) (tag_name e))" for e
    by (rule keep_if_cong) (use True pin in auto)
  moreover have "keep_if (\<lambda>b. br_hash b \<in> live \<or> e \<in> insert d rest) (blob_at (idx s) e)
      = keep_if (\<lambda>b. br_hash b \<in> live \<or> e \<in> rest) (blob_at (idx s) e)" for e
    by (rule keep_if_cong) (use True pin in auto)
  ultimately have "sweeping K live s rest s'"
    using sw by (simp add: sweeping_def)
  with True that show ?thesis by (simp add: sweep_pin_def)
next
  case False
  note old = sweepingD [OF sw]
  have at: "blob_at (idx s') d = blob_at (idx s) d"
    using old(4) [OF d(1)] by (simp add: keep_if_all)
  obtain ix where rm: "remove_blob_ref (idx s') d = (ix, Inr (blob_at (idx s') d \<noteq> None))" "index_ok K ix"
    and files: "\<And>q. file_at ix q = (if q = digest_path d then None else file_at (idx s') q)"
    by (rule remove_blob_ref_spec [OF old(1) d(1)]) (rule that)
  let ?s = "(unpin_blob d s')\<lparr>idx := ix\<rparr>"
  have idx: "idx (unpin_blob d s') = idx s'" by (simp add: unpin_blob_def delete_tag_def)
  have run: "sweep_pin False live (d, h) (k, n) s' = (?s, Inr (k + 1, n + entry_size (idx s) d))"
    using False rm(1) blob_ref_get_ok [OF old(1), of d] at
    by (simp add: sweep_pin_def then_do_def on_index_def idx entry_size_def)
  have blobs: "blob_at ix e = keep_if (\<lambda>b. br_hash b \<in> live \<or> e \<in> rest) (blob_at (idx s) e)"
    if "digest_ok e" for e
  proof (cases "e = d")
    case True
    then have "blob_at ix e = None" using files by (simp add: blob_at_def)
    then show ?thesis using True False pin(2) d(2) by (simp add: keep_if_none)
  next
    case ne: False
    then have "blob_at ix e = blob_at (idx s') e"
      using files digest_path_inject [OF that d(1)] by (simp add: blob_at_def)
    with old(4) [OF that] ne show ?thesis by simp
  qed
  have pins: "tget (pin_tags ?s) (tag_name e) = keep_if (\<lambda>h. h \<in> live \<or> e \<in> rest) (tget (pin_tags s) (tag_name e))"
    if "digest_ok e" for e
    using tag_name_inject [OF that d(1)] old(3) [OF that] False d(2) pin(1)
    by (cases "e = d") (simp_all add: unpin_blob_def delete_tag_def)
  have rels: "release_at K ix sl = release_at K (idx s) sl" for sl
    using files old(2) by (simp add: release_at_def)
  have "same_core s ?s \<and> events ?s = events s \<and> table_ok (pin_tags ?s)"
    using old(5-7) by (simp add: unpin_blob_def delete_tag_def)
  with rm(2) rels blobs pins have "sweeping K live s rest ?s"
    by (simp add: sweeping_def)
  with run False that show ?thesis by simp
qed

text \<open>The whole sweep of a sound store: it never fails, and it keeps exactly the pins and the entries
  of the hashes that a release references.\<close>

lemma pins_of_entries:
  assumes "store_ok K s" "digest_ok d" "blob_at (idx s) d = Some b"
  shows "(d, br_hash b) \<in> set (list_pins s)"
  using assms(1,2) store_blobD(2) [OF assms] list_pins_iff [of s] by (simp add: store_ok_def)

lemma swept_count_Cons:
  "swept_count ix live ((d, h) # xs) = (if h \<in> live then swept_count ix live xs
     else (fst (swept_count ix live xs) + 1, entry_size ix d + snd (swept_count ix live xs)))"
  by (simp add: swept_count_def unused_pins_def)

lemma sweep_pins_loop:
  assumes ok: "store_ok K s"
  obtains s' where
    "fold_op (sweep_pin False live) (list_pins s) (0, 0) s = (s', Inr (swept_count (idx s) live (list_pins s)))"
    "sweeping K live s {} s'"
proof -
  let ?I = "\<lambda>xs s' acc. set xs \<subseteq> set (list_pins s) \<and> distinct (map fst xs) \<and> sweeping K live s (fst ` set xs) s'
    \<and> (fst acc + fst (swept_count (idx s) live xs), snd acc + snd (swept_count (idx s) live xs))
        = swept_count (idx s) live (list_pins s)"
  have tab: "table_ok (pin_tags s)" using ok by (simp add: store_ok_def)
  have step: "\<exists>s2 acc'. sweep_pin False live x acc s1 = (s2, Inr acc') \<and> ?I xs s2 acc'"
    if I: "?I (x # xs) s1 acc" for x xs s1 acc
  proof -
    obtain d h k n where x: "x = (d, h)" "acc = (k, n)" by (cases x; cases acc)
    have pin: "digest_ok d" "tget (pin_tags s) (tag_name d) = Some h"
      using I list_pins_iff [OF tab] by (auto simp: x)
    have hash: "br_hash b = h" if "blob_at (idx s) d = Some b" for b
      using store_blobD(2) [OF ok pin(1) that] pin(2) by simp
    have fresh: "d \<notin> fst ` set xs" and sw: "sweeping K live s (insert d (fst ` set xs)) s1"
      using I by (simp_all add: x)
    obtain s2 where "sweep_pin False live (d, h) (k, n) s1
        = (s2, Inr (if h \<in> live then (k, n) else (k + 1, n + entry_size (idx s) d)))"
      "sweeping K live s (fst ` set xs) s2"
      by (rule sweep_pin_step [OF sw pin(1) fresh pin(2)], erule hash) (rule that)
    then show ?thesis using I by (auto simp: x swept_count_Cons add.assoc)
  qed
  have "sweeping K live s (fst ` set (list_pins s)) s"
  proof -
    have "keep_if (\<lambda>h. h \<in> live \<or> d \<in> fst ` set (list_pins s)) (tget (pin_tags s) (tag_name d))
        = tget (pin_tags s) (tag_name d)" if "digest_ok d" for d
    proof (cases "tget (pin_tags s) (tag_name d)")
      case (Some h)
      then have "(d, h) \<in> set (list_pins s)" using list_pins_iff [OF tab] that by simp
      then have "d \<in> fst ` set (list_pins s)" by force
      with Some show ?thesis by simp
    qed simp
    moreover have "keep_if (\<lambda>b. br_hash b \<in> live \<or> d \<in> fst ` set (list_pins s)) (blob_at (idx s) d)
        = blob_at (idx s) d" if "digest_ok d" for d
    proof (cases "blob_at (idx s) d")
      case (Some b)
      then have "d \<in> fst ` set (list_pins s)" using pins_of_entries [OF ok that] by force
      with Some show ?thesis by simp
    qed simp
    ultimately show ?thesis using ok by (simp add: sweeping_def store_ok_def)
  qed
  then have start: "?I (list_pins s) s (0, 0)"
    using list_pins_distinct [OF tab] by simp
  obtain s' acc where run: "fold_op (sweep_pin False live) (list_pins s) (0, 0) s = (s', Inr acc)"
    and fin: "?I [] s' acc"
    using fold_op_total [of ?I "sweep_pin False live", OF step start] by blast
  from fin have "acc = swept_count (idx s) live (list_pins s)"
    by (cases acc) (simp add: swept_count_def unused_pins_def)
  with run fin that show ?thesis by simp
qed

text \<open>A dry sweep counts the same and changes nothing.\<close>

lemma sweep_pins_dry:
  assumes "index_ok K (idx s)"
  shows "fold_op (sweep_pin True live) xs (k, n) s
    = (s, Inr (k + fst (swept_count (idx s) live xs), n + snd (swept_count (idx s) live xs)))"
proof (induction xs arbitrary: k n)
  case Nil
  show ?case by (simp add: swept_count_def unused_pins_def)
next
  case (Cons x xs)
  obtain d h where x: "x = (d, h)" by (cases x)
  have "sweep_pin True live (d, h) (k, n) s
      = (s, Inr (if h \<in> live then (k, n) else (k + 1, n + entry_size (idx s) d)))"
    using blob_ref_get_ok [OF assms, of d] by (simp add: sweep_pin_def then_do_def entry_size_def)
  with Cons.IH show ?case by (simp add: x swept_count_Cons add.assoc)
qed

lemma for_each_skip: "(\<And>x. x \<in> set xs \<Longrightarrow> f x s = (s, Inr ())) \<Longrightarrow> for_each xs f s = (s, Inr ())"
  by (induction xs) simp_all

lemma list_blob_refs_at:
  assumes "index_ok K ix" "b \<in> set (list_blob_refs ix)"
  shows "digest_ok (br_digest b) \<and> blob_at ix (br_digest b) = Some b"
proof -
  obtain x where x: "x \<in> set (read_dir [''digests''] ix)" "blob_of_entry x = Some b"
    using assms(2) by (auto simp: list_blob_refs_def map_filter_Some_iff)
  then have e: "snd x = BlobFile b"
    by (auto simp: blob_of_entry_def split: prod.splits if_splits entry.splits)
  with x(1) obtain q where q: "(q, BlobFile b) \<in> set ix"
    by (auto simp: read_dir_def)
  then have tg: "tget ix q = Some (BlobFile b)"
    using tget_in_set [OF index_okD(1) [OF assms(1)]] by simp
  with index_okD(2) [OF assms(1)] have "placed K q (BlobFile b)" by blast
  with tg show ?thesis by (auto simp: blob_at_iff [OF assms(1)])
qed

lemma sweep_spec:
  assumes ok: "store_ok K s"
  obtains s' where
    "sweep_blobs_locked K False ig s = (s', Inr (swept_count (idx s) (live_hashes K ig s) (list_pins s)))"
    "sweeping K (live_hashes K ig s) s {} s'" "store_ok K s'"
proof -
  let ?live = "live_hashes K ig s"
  obtain s' where run: "fold_op (sweep_pin False ?live) (list_pins s) (0, 0) s
      = (s', Inr (swept_count (idx s) ?live (list_pins s)))" and sw: "sweeping K ?live s {} s'"
    by (rule sweep_pins_loop [OF ok]) (rule that)
  have live: "br_hash b \<in> ?live" if "digest_ok d" "blob_at (idx s') d = Some b" for d b
    using that(2) unfolding sweepingD(4) [OF sw that(1)] by (simp add: keep_if_Some_iff)
  have skip: "sweep_entry False ?live pinned b s' = (s', Inr ())" if "b \<in> set (list_blob_refs (idx s'))" for b pinned
    using list_blob_refs_at [OF sweepingD(1) [OF sw] that] live [of "br_digest b" b] by (simp add: sweep_entry_def)
  have none: "for_each (list_blob_refs (idx s')) (sweep_entry False ?live pinned) s' = (s', Inr ())" for pinned
    by (rule for_each_skip) (rule skip)
  have "sweep_blobs_locked K False ig s = (s', Inr (swept_count (idx s) ?live (list_pins s)))"
    using run none by (simp add: sweep_blobs_locked_def Let_def then_do_def)
  moreover have "store_ok K s'"
    unfolding store_ok_def
  proof (intro conjI allI impI)
    fix d b
    assume d: "digest_ok d" and b: "blob_at (idx s') d = Some b"
    have old: "blob_at (idx s) d = Some b"
      using b unfolding sweepingD(4) [OF sw d] by (simp add: keep_if_Some_iff)
    note bD = store_blobD [OF ok d old]
    show "br_digest b = d" by (rule bD(1))
    have "tget (pin_tags s') (tag_name d) = Some (br_hash b)"
      using sweepingD(3) [OF sw d] bD(2) live [OF d b] by simp
    then show "blob_sound K s' b"
      using bD d same_coreD(1) [OF sweepingD(5) [OF sw]] by (simp add: blob_sound_def)
  qed (use ok sweepingD(1,7) [OF sw] same_coreD(1) [OF sweepingD(5) [OF sw]] in \<open>auto simp: store_ok_def\<close>)
  ultimately show ?thesis using sw that by blast
qed

lemma sweep_dry:
  assumes "store_ok K s"
  shows "sweep_blobs_locked K True ig s = (s, Inr (swept_count (idx s) (live_hashes K ig s) (list_pins s)))"
proof -
  have "index_ok K (idx s)" using assms by (simp add: store_ok_def)
  moreover have "for_each bs (sweep_entry True live pinned) s = (s, Inr ())" for bs live pinned
    by (rule for_each_skip) (simp add: sweep_entry_def)
  ultimately show ?thesis
    by (simp add: sweep_blobs_locked_def Let_def then_do_def sweep_pins_dry)
qed

text \<open>A blob is served when its entry, its pin and its data agree.\<close>

definition served :: "'a blob_store_scheme \<Rightarrow> blob_ref \<Rightarrow> bool" where
  "served s b \<longleftrightarrow> (\<exists>c. blob_at (idx s) (br_digest b) = Some c \<and> br_hash c = br_hash b)"

lemma sweep_keeps_served:
  assumes "sweeping K (live_hashes K ig s) s {} s'" "digests_ok r" "b \<in> set (all_blobs r)"
    and "r \<in> set (list_releases K (idx s))" "reference K r \<notin> ig" "served s b"
  shows "served s' b"
proof -
  have "br_hash b \<in> live_hashes K ig s"
    using assms(3-5) by (auto simp: live_hashes_def)
  moreover have "digest_ok (br_digest b)"
    using assms(2,3) by (auto simp: digests_ok_def list_all_iff)
  ultimately show ?thesis
    using assms(6) sweepingD(4) [OF assms(1)] by (auto simp: served_def keep_if_Some_iff)
qed

section \<open>The releases of one image\<close>

definition image_releases :: "'z crates_scheme \<Rightarrow> fs \<Rightarrow> public_key \<times> string \<Rightarrow> release list" where
  "image_releases K ix repo = filter (\<lambda>r. repo_of r = repo) (list_releases K ix)"

lemma slot_of_repo: "slot_of r = (p, n, t) \<longleftrightarrow> repo_of r = (p, n) \<and> p_tag (payload r) = t"
  by (auto simp: slot_of_def repo_of_def)

lemma image_releases_set:
  assumes "index_ok K ix" "key_laws K"
  shows "r \<in> set (image_releases K ix (p, n)) \<longleftrightarrow> release_at K ix (p, n, p_tag (payload r)) = Some r"
proof -
  have "r \<in> set (image_releases K ix (p, n)) \<longleftrightarrow> release_at K ix (slot_of r) = Some r
      \<and> slot_of r = (p, n, p_tag (payload r))"
    by (simp add: image_releases_def list_releases_set [OF assms] slot_of_repo)
  then show ?thesis using release_at_slot [OF assms, of "(p, n, p_tag (payload r))" r] by metis
qed

lemma image_releases_tags:
  assumes "index_ok K ix" "key_laws K"
  shows "distinct (map fst (map tag_and_time (image_releases K ix repo)))"
proof -
  have "distinct (map slot_of (image_releases K ix repo))"
    using list_releases_distinct [OF assms] by (simp add: image_releases_def List.distinct_map_filter)
  then have "distinct (image_releases K ix repo)" by (simp add: distinct_map)
  moreover have "inj_on (\<lambda>r. p_tag (payload r)) (set (image_releases K ix repo))"
  proof (rule inj_onI)
    fix x y
    assume xy: "x \<in> set (image_releases K ix repo)" "y \<in> set (image_releases K ix repo)"
      "p_tag (payload x) = p_tag (payload y)"
    obtain p n where "repo = (p, n)" by (cases repo)
    with xy image_releases_set [OF assms] show "x = y" by (metis option.inject)
  qed
  ultimately show ?thesis by (simp add: distinct_map tag_and_time_def comp_def inj_on_def)
qed

lemma window_select_set_eq:
  assumes "distinct (map fst known)" "distinct (map fst known')" "set known = set known'"
  shows "window_select w known = window_select w known'"
  using window_select_iff [OF assms(1)] window_select_iff [OF assms(2)] assms
  by (auto simp: rank_of_def)

text \<open>The loop over the tags gives the releases of the image.\<close>

lemma local_releases_spec:
  assumes ok: "index_ok K (idx s)" and keys: "key_laws K" and n: "name_ok n"
  obtains held where "local_releases_of K p n s = Inr held"
    "set held = set (image_releases K (idx s) (p, n))"
    "distinct (map fst (map tag_and_time held))"
proof -
  obtain ts where ts: "list_tags K (idx s) p n = Inr ts"
    using n by (auto simp: list_tags_def release_dir_def)
  from list_tags_spec [OF ok keys ts]
  have tags: "distinct ts" "set ts = {t. release_at K (idx s) (p, n, t) \<noteq> None}" by auto
  define rel where "rel t = the (release_at K (idx s) (p, n, t))" for t
  have at: "release_at K (idx s) (p, n, t) = Some (rel t)" if "t \<in> set ts" for t
    using tags(2) that by (auto simp: rel_def)
  have tag: "p_tag (payload (rel t)) = t" if "t \<in> set ts" for t
    using release_at_slot [OF ok keys at [OF that]] by (simp add: slot_of_def)
  have get: "get_release K (idx s) p n t = Inr (Some (rel t))" if "t \<in> set ts" for t
    using get_release_found [OF at [OF that] n] release_at_slot [OF ok keys at [OF that]] tag [OF that]
    by (simp add: slot_ok_def)
  have "map_res (\<lambda>t. get_release K (idx s) p n t) ts = Inr (map (\<lambda>t. Some (rel t)) ts)"
    unfolding map_res_Inr_iff by (simp add: list_all2_conv_all_nth get)
  then have run: "local_releases_of K p n s = Inr (map rel ts)"
    by (simp add: local_releases_of_def ts map_filter_of_map) (simp add: List.map_filter_def)
  have "map fst (map tag_and_time (map rel ts)) = ts"
    using tag by (simp add: tag_and_time_def comp_def map_idI)
  moreover have "r \<in> rel ` set ts \<longleftrightarrow> r \<in> set (image_releases K (idx s) (p, n))" for r
    unfolding image_releases_set [OF ok keys] using at tag tags(2) by force
  ultimately show ?thesis using that [OF run] tags(1) by auto
qed

section \<open>Loops that drop releases\<close>

lemma drop_loop:
  assumes ok: "index_ok K (idx s)" and keys: "key_laws K"
    and skip: "\<And>r t b. \<not> P r \<Longrightarrow> f r b t = (t, Inr b)"
    and go: "\<And>r t b t'. r \<in> set rs \<Longrightarrow> P r \<Longrightarrow>
      drop_release K (p_publisher (payload r)) (p_name (payload r)) (p_tag (payload r)) t = (t', Inr True) \<Longrightarrow>
      f r b t = (h r t', Inr (g r b))"
    and emits: "\<And>r t D. dropped K D s t \<Longrightarrow> dropped K D s (h r t)"
    and rs: "set rs \<subseteq> set (list_releases K (idx s))" "distinct (map slot_of rs)"
  obtains s' where "fold_op f rs b s = (s', Inr (fold g (filter P rs) b))"
    "dropped K (slot_of ` set (filter P rs)) s s'"
proof -
  let ?D = "\<lambda>xs. slot_of ` {r \<in> set rs. P r \<and> r \<notin> set xs}"
  let ?I = "\<lambda>xs t acc. dropped K (?D xs) s t \<and> fold g (filter P xs) acc = fold g (filter P rs) b
    \<and> distinct (map slot_of xs) \<and> set xs \<subseteq> set rs"
  have step: "\<exists>t' acc'. f r acc t = (t', Inr acc') \<and> ?I xs t' acc'" if I: "?I (r # xs) t acc" for r xs t acc
  proof (cases "P r")
    case False
    then have "?D (r # xs) = ?D xs" by auto
    with I have "?I xs t acc" using False by simp
    with skip [OF False] show ?thesis by blast
  next
    case True
    let ?p = "payload r"
    have r: "r \<in> set rs" using I by simp
    then have at: "release_at K (idx s) (slot_of r) = Some r"
      using rs(1) list_releases_set [OF ok keys] by auto
    have inj: "x = r" if "x \<in> set rs" "slot_of x = slot_of r" for x
      using rs(2) that r by (simp add: distinct_map inj_on_def)
    have "slot_of r \<notin> ?D (r # xs)" using inj by force
    then have "release_at K (idx t) (p_publisher ?p, p_name ?p, p_tag ?p) = Some r"
      using I at by (simp add: dropped_def slot_of_def)
    from dropped_one [OF conjunct1 [OF I] keys this] obtain t' where
      t': "drop_release K (p_publisher ?p) (p_name ?p) (p_tag ?p) t = (t', Inr True)"
      "dropped K (insert (slot_of r) (?D (r # xs))) s t'"
      by (auto simp: slot_of_def)
    have "r \<notin> set xs" using I by auto
    then have "insert (slot_of r) (?D (r # xs)) = ?D xs" using r True by auto
    with t'(2) have "dropped K (?D xs) s (h r t')" using emits by (simp only:)
    then have "?I xs (h r t') (g r acc)" using I True by simp
    with go [OF r True t'(1)] show ?thesis by blast
  qed
  have "?D rs = {}" by auto
  then have "dropped K (?D rs) s s" using dropped_refl [of K s, OF ok] by (simp only:)
  then have start: "?I rs s b" using rs(2) by simp
  obtain s' acc where run: "fold_op f rs b s = (s', Inr acc)" and fin: "?I [] s' acc"
    by (rule fold_op_total [of ?I f, OF step start], assumption) (rule that)
  have "?D [] = slot_of ` set (filter P rs)" by auto
  with fin have "dropped K (slot_of ` set (filter P rs)) s s'" "acc = fold g (filter P rs) b" by simp_all
  with run show ?thesis using that by simp
qed

text \<open>What dropping releases leaves: the releases outside the set, and every blob.\<close>

lemma dropped_releases:
  assumes ok: "index_ok K (idx s)" and keys: "key_laws K"
    and d: "dropped K (slot_of ` {r \<in> set (list_releases K (idx s)). P r}) s s'"
  shows "release_at K (idx s') sl = keep_if (\<lambda>r. \<not> P r) (release_at K (idx s) sl)"
proof (cases "release_at K (idx s) sl")
  case None
  with d show ?thesis by (simp add: dropped_def del: split_paired_All)
next
  case (Some r)
  then have r: "slot_of r = sl" using release_at_slot [OF ok keys] by blast
  have "sl \<in> slot_of ` {r \<in> set (list_releases K (idx s)). P r} \<longleftrightarrow> P r"
  proof
    assume "sl \<in> slot_of ` {r \<in> set (list_releases K (idx s)). P r}"
    then obtain x where "release_at K (idx s) (slot_of x) = Some x" "P x" "slot_of x = sl"
      unfolding list_releases_set [OF ok keys] by blast
    with Some show "P r" by simp
  next
    assume "P r"
    with Some r have "r \<in> {r \<in> set (list_releases K (idx s)). P r}"
      unfolding list_releases_set [OF ok keys] by simp
    with r show "sl \<in> slot_of ` {r \<in> set (list_releases K (idx s)). P r}" by blast
  qed
  with d Some show ?thesis by (simp add: dropped_def del: split_paired_All)
qed

text \<open>A sweep after that.\<close>

lemma dropped_then_swept:
  assumes ok: "store_ok K s" and keys: "key_laws K"
    and d: "dropped K (slot_of ` {r \<in> set (list_releases K (idx s)). P r}) s s1"
    and sw: "sweeping K (live_hashes K {} s1) s1 {} s2"
  shows "release_at K (idx s2) sl = keep_if (\<lambda>r. \<not> P r) (release_at K (idx s) sl)"
    and "r \<in> set (list_releases K (idx s)) \<Longrightarrow> \<not> P r \<Longrightarrow> digests_ok r \<Longrightarrow> b \<in> set (all_blobs r)
      \<Longrightarrow> served s b \<Longrightarrow> served s2 b"
proof -
  have ix: "index_ok K (idx s)" "index_ok K (idx s1)" using ok d by (simp_all add: store_ok_def dropped_def)
  note rel = dropped_releases [OF ix(1) keys d]
  show "release_at K (idx s2) sl = keep_if (\<lambda>r. \<not> P r) (release_at K (idx s) sl)"
    using rel sweepingD(2) [OF sw] by simp
  assume r: "r \<in> set (list_releases K (idx s))" "\<not> P r" "digests_ok r" "b \<in> set (all_blobs r)" "served s b"
  then have "r \<in> set (list_releases K (idx s1))"
    unfolding list_releases_set [OF ix(1) keys] list_releases_set [OF ix(2) keys] using rel by simp
  moreover have "served s1 b" using r(5) d by (simp add: served_def dropped_def)
  ultimately show "served s2 b"
    using sweep_keeps_served [OF sw r(3,4)] by simp
qed

end
