(* ===== verification/Garbage.thy ===== *)
theory Garbage
  imports Collection_Safety
begin

text \<open>
  The contracts of the collector and of the enforcement of windows, and a small node to evaluate
  them on.
\<close>

section \<open>What is retained\<close>

definition in_window :: "'z crates_scheme \<Rightarrow> node \<Rightarrow> release \<Rightarrow> bool" where
  "in_window K s r \<longleftrightarrow> p_tag (payload r) \<in>
     window_select (policy_window K (node_policy s) (p_publisher (payload r)) (p_name (payload r)))
       (map tag_and_time (image_releases K (idx s) (repo_of r)))"

definition retained :: "'z crates_scheme \<Rightarrow> node \<Rightarrow> release \<Rightarrow> bool" where
  "retained K s r \<longleftrightarrow> p_publisher (payload r) = node_id K s \<or> in_window K s r"

definition doomed :: "'z crates_scheme \<Rightarrow> node_env \<Rightarrow> gc_req \<Rightarrow> node \<Rightarrow> release \<Rightarrow> bool" where
  "doomed K E q s r \<longleftrightarrow> \<not> retained K s r \<and> (gc_force q \<or> \<not> in_grace E r)"

lemma empty_window_selects: "window_is_empty w \<Longrightarrow> window_select w known = {}"
  by (auto simp: window_is_empty_def window_select_def Let_def)

lemma pinned_retained:
  "is_pinned K (node_policy s) (p_publisher (payload r)) (p_name (payload r)) (p_tag (payload r)) \<Longrightarrow> retained K s r"
  by (simp add: retained_def in_window_def window_tags_selected pinned_in_window)

lemma reference_unique:
  assumes "index_ok K ix" "key_laws K" "r \<in> set (list_releases K ix)" "x \<in> set (list_releases K ix)"
    "reference K x = reference K r"
  shows "x = r"
proof -
  have at: "release_at K ix (slot_of r) = Some r" "release_at K ix (slot_of x) = Some x"
    using assms(3,4) list_releases_set [OF assms(1,2)] by auto
  then have "slot_ok r" "slot_ok x" using release_at_slot [OF assms(1,2)] by blast+
  then have "slot_of x = slot_of r" using reference_inject [OF assms(2)] assms(5) by blast
  with at show ?thesis by simp
qed

lemma retained_of_eq:
  "retained_of K me pol rels (p, n) = reference K ` {x \<in> set rels. repo_of x = (p, n) \<and> (p = me
     \<or> p_tag (payload x) \<in> window_select (policy_window K pol p n)
         (map tag_and_time (filter (\<lambda>y. repo_of y = (p, n)) rels)))}"
  by (auto simp: retained_of_def Let_def empty_window_selects)

lemma retained_set_eq:
  "retained_set K (node_policy s) (list_releases K (idx s)) s
     = reference K ` {x \<in> set (list_releases K (idx s)). retained K s x}"
proof -
  have "retained_of K (node_id K s) (node_policy s) (list_releases K (idx s)) (repo_of x)
      = reference K ` {y \<in> set (list_releases K (idx s)). repo_of y = repo_of x \<and> retained K s y}" for x
    unfolding repo_of_def [of x] retained_of_eq
    by (rule arg_cong [where f = "image (reference K)"])
       (auto simp: retained_def in_window_def image_releases_def repo_of_def)
  then show ?thesis unfolding retained_set_def by auto
qed

lemma in_image_reference:
  assumes "index_ok K ix" "key_laws K" "r \<in> set (list_releases K ix)"
  shows "reference K r \<in> reference K ` {x \<in> set (list_releases K ix). P x} \<longleftrightarrow> P r"
proof
  assume "reference K r \<in> reference K ` {x \<in> set (list_releases K ix). P x}"
  then obtain x where x: "x \<in> set (list_releases K ix)" "P x" "reference K x = reference K r" by auto
  from reference_unique [OF assms x(1,3)] x(2) show "P r" by simp
qed (use assms(3) in simp)

lemma retained_set_iff:
  assumes "index_ok K (idx s)" "key_laws K" "r \<in> set (list_releases K (idx s))"
  shows "reference K r \<in> retained_set K (node_policy s) (list_releases K (idx s)) s \<longleftrightarrow> retained K s r"
  unfolding retained_set_eq by (rule in_image_reference [OF assms])

section \<open>Collection\<close>

text \<open>The hashes that stay referenced when the releases that satisfy \<open>P\<close> go.\<close>

definition kept_hashes :: "'z crates_scheme \<Rightarrow> node \<Rightarrow> (release \<Rightarrow> bool) \<Rightarrow> blake3 set" where
  "kept_hashes K s P = (\<Union>r \<in> {r \<in> set (list_releases K (idx s)). \<not> P r}. br_hash ` set (all_blobs r))"

lemma live_hashes_eq:
  "live_hashes K ig s = (\<Union>r \<in> {r \<in> set (list_releases K (idx s)). reference K r \<notin> ig}. br_hash ` set (all_blobs r))"
  by (simp add: live_hashes_def)

lemma live_hashes_kept:
  assumes "index_ok K (idx s)" "key_laws K"
  shows "live_hashes K (reference K ` {r \<in> set (list_releases K (idx s)). P r}) s = kept_hashes K s P"
proof -
  have "{r \<in> set (list_releases K (idx s)). reference K r \<notin> reference K ` {r \<in> set (list_releases K (idx s)). P r}}
      = {r \<in> set (list_releases K (idx s)). \<not> P r}"
    by (rule Collect_cong, rule conj_cong [OF refl]) (simp only: in_image_reference [OF assms])
  then show ?thesis unfolding live_hashes_eq kept_hashes_def by (simp only:)
qed

lemma live_hashes_dropped:
  assumes ok: "index_ok K (idx s)" and keys: "key_laws K"
    and d: "dropped K (slot_of ` {r \<in> set (list_releases K (idx s)). P r}) s s1"
    and ig: "ig \<subseteq> reference K ` {r \<in> set (list_releases K (idx s)). P r}"
  shows "live_hashes K ig s1 = kept_hashes K s P"
proof -
  have ok1: "index_ok K (idx s1)" using d by (simp add: dropped_def)
  have rels: "r \<in> set (list_releases K (idx s1)) \<longleftrightarrow> r \<in> set (list_releases K (idx s)) \<and> \<not> P r" for r
    unfolding list_releases_set [OF ok keys] list_releases_set [OF ok1 keys]
    using dropped_releases [OF ok keys d] by (simp add: keep_if_Some_iff)
  have "reference K r \<notin> ig" if "r \<in> set (list_releases K (idx s))" "\<not> P r" for r
    using subsetD [OF ig] in_image_reference [OF ok keys that(1)] that(2) by blast
  then have "{r \<in> set (list_releases K (idx s1)). reference K r \<notin> ig} = {r \<in> set (list_releases K (idx s)). \<not> P r}"
    unfolding rels by blast
  then show ?thesis unfolding live_hashes_eq kept_hashes_def by (simp only:)
qed

lemma swept_count_dropped:
  assumes "dropped K D s s1"
  shows "swept_count (idx s1) live (list_pins s1) = swept_count (idx s) live (list_pins s)"
proof -
  have "entry_size (idx s1) = entry_size (idx s)"
    using assms by (simp add: fun_eq_iff entry_size_def dropped_def)
  moreover have "list_pins s1 = list_pins s"
    using assms by (simp add: list_pins_def dropped_def)
  ultimately show ?thesis by (simp add: swept_count_def)
qed

lemma gc_loop_dry:
  assumes "gc_dry q"
  shows "fold_op (gc_release K E q keep) rs acc s = (s, Inr (acc @ map (reference K)
    (filter (\<lambda>r. reference K r \<notin> keep \<and> (gc_force q \<or> \<not> in_grace E r)) rs)))"
  using assms by (induction rs arbitrary: acc) (auto simp: gc_release_def Let_def)

lemma fold_append: "fold (\<lambda>r acc. acc @ [f r]) xs acc = acc @ map f xs"
  by (induction xs arbitrary: acc) simp_all

definition collected_report ::
  "'z crates_scheme \<Rightarrow> node_env \<Rightarrow> gc_req \<Rightarrow> node \<Rightarrow> gc_report" where
  "collected_report K E q s =
     (let (blobs, bytes) = swept_count (idx s) (kept_hashes K s (doomed K E q s)) (list_pins s)
      in \<lparr>rep_dry = gc_dry q,
          rep_releases = map (reference K) (filter (doomed K E q s) (list_releases K (idx s))),
          rep_blobs = blobs, rep_bytes = bytes,
          rep_uploads = length (filter (\<lambda>(name, _). old_upload E name) (upload_files s))\<rparr>)"

lemma doomed_filter:
  assumes "index_ok K (idx s)" "key_laws K"
  shows "filter (\<lambda>r. reference K r \<notin> retained_set K (node_policy s) (list_releases K (idx s)) s
      \<and> (gc_force q \<or> \<not> in_grace E r)) (list_releases K (idx s))
    = filter (doomed K E q s) (list_releases K (idx s))"
  by (rule filter_cong) (simp_all add: doomed_def retained_set_iff [OF assms])

lemma gc_dry_spec:
  assumes ok: "store_ok K s" and keys: "key_laws K" and dry: "gc_dry q"
  shows "gc K E q s = (s, Inr (collected_report K E q s))"
proof -
  have ix: "index_ok K (idx s)" using ok by (simp add: store_ok_def)
  let ?gone = "filter (doomed K E q s) (list_releases K (idx s))"
  have "fold_op (gc_release K E q (retained_set K (node_policy s) (list_releases K (idx s)) s))
      (list_releases K (idx s)) [] s = (s, Inr (map (reference K) ?gone))"
    by (simp add: gc_loop_dry [OF dry] doomed_filter [OF ix keys])
  moreover have "live_hashes K (set (map (reference K) ?gone)) s = kept_hashes K s (doomed K E q s)"
    using live_hashes_kept [OF ix keys, of "doomed K E q s"] by simp
  ultimately show ?thesis
    using dry by (simp add: gc_def Let_def then_do_def sweep_dry [OF ok] prune_uploads_def collected_report_def
        split: prod.split)
qed

lemma store_ok_same:
  assumes "store_ok K s" "index_ok K (idx s')" "pin_tags s' = pin_tags s" "blob_data s' = blob_data s"
    and "\<And>d. blob_at (idx s') d = blob_at (idx s) d"
  shows "store_ok K s'"
  using assms(1,2) unfolding store_ok_def blob_sound_def assms(3-5) by blast

text \<open>Pruning the referrers changes no blob and no release.\<close>

lemma prune_store_ok:
  assumes "store_ok K s"
  shows "store_ok K (s\<lparr>idx := fst (prune_referrers (idx s))\<rparr>)"
    "blob_at (fst (prune_referrers (idx s))) d = blob_at (idx s) d"
    "release_at K (fst (prune_referrers (idx s))) sl = release_at K (idx s) sl"
proof -
  have p: "pruned K (idx s) (fst (prune_referrers (idx s)))"
    by (rule prune_referrers_spec) (use assms in \<open>simp add: store_ok_def\<close>)
  show "blob_at (fst (prune_referrers (idx s))) d = blob_at (idx s) d"
    "release_at K (fst (prune_referrers (idx s))) sl = release_at K (idx s) sl"
    by (rule pruned_views [OF p])+
  show "store_ok K (s\<lparr>idx := fst (prune_referrers (idx s))\<rparr>)"
    by (rule store_ok_same [OF assms]) (use p in \<open>simp_all add: pruned_views [OF p] pruned_def\<close>)
qed

lemma dropped_list: "set (filter P (list_releases K ix)) = {r \<in> set (list_releases K ix). P r}"
  by simp

text \<open>A collection, step by step: the releases that are not retained go, then the blobs that nothing
  references, then old uploads and referrers of lost artifacts.\<close>

lemma gc_spec:
  assumes ok: "store_ok K s" and keys: "key_laws K" and wet: "\<not> gc_dry q"
  obtains s' where "gc K E q s = (s', Inr (collected_report K E q s))" "store_ok K s'"
    "\<And>sl. release_at K (idx s') sl = keep_if (\<lambda>r. \<not> doomed K E q s r) (release_at K (idx s) sl)"
    "\<And>d. digest_ok d \<Longrightarrow> blob_at (idx s') d
       = keep_if (\<lambda>b. br_hash b \<in> kept_hashes K s (doomed K E q s)) (blob_at (idx s) d)"
    "blob_data s' = blob_data s"
proof -
  have ix: "index_ok K (idx s)" using ok by (simp add: store_ok_def)
  let ?P = "doomed K E q s" and ?rels = "list_releases K (idx s)"
  let ?keep = "retained_set K (node_policy s) ?rels s"
  let ?Q = "\<lambda>r. reference K r \<notin> ?keep \<and> (gc_force q \<or> \<not> in_grace E r)"
  obtain s1 where run1: "fold_op (gc_release K E q ?keep) ?rels [] s
      = (s1, Inr (fold (\<lambda>r acc. acc @ [reference K r]) (filter ?Q ?rels) []))"
    and d0: "dropped K (slot_of ` set (filter ?Q ?rels)) s s1"
  proof (rule drop_loop [OF ix keys, where P = ?Q and f = "gc_release K E q ?keep"
        and h = "\<lambda>r t. t" and g = "\<lambda>r acc. acc @ [reference K r]" and rs = ?rels and b = "[]"])
    show "distinct (map slot_of ?rels)" by (rule list_releases_distinct [OF ix keys])
  qed (use wet in \<open>auto simp: gc_release_def Let_def then_do_def\<close>)
  have gone: "filter ?Q ?rels = filter ?P ?rels" by (rule doomed_filter [OF ix keys])
  have d: "dropped K (slot_of ` {r \<in> set ?rels. ?P r}) s s1"
    using d0 unfolding gone dropped_list .
  have ok1: "store_ok K s1" by (rule dropped_store_ok [OF d ok])
  let ?ig = "set (map (reference K) (filter ?P ?rels))"
  obtain s2 where run2: "sweep_blobs_locked K False ?ig s1
      = (s2, Inr (swept_count (idx s1) (live_hashes K ?ig s1) (list_pins s1)))"
    and sw: "sweeping K (live_hashes K ?ig s1) s1 {} s2" and ok2: "store_ok K s2"
    by (rule sweep_spec [OF ok1]) (rule that)
  have live: "live_hashes K ?ig s1 = kept_hashes K s ?P"
    by (rule live_hashes_dropped [OF ix keys d]) simp
  have data: "blob_data s2 = blob_data s" "upload_files s2 = upload_files s"
    using same_coreD(1,4) [OF sweepingD(5) [OF sw]] d by (simp_all add: dropped_def same_coreD)
  let ?s3 = "s2\<lparr>upload_files := filter (\<lambda>(name, _). \<not> old_upload E name) (upload_files s2)\<rparr>"
  let ?s' = "?s3\<lparr>idx := fst (prune_referrers (idx ?s3))\<rparr>"
  have ok3: "store_ok K ?s3" 
    by (rule store_ok_same [OF ok2]) (use ok2 in \<open>simp_all add: store_ok_def\<close>)
  have run: "gc K E q s = (?s', Inr (collected_report K E q s))"
    using run1 run2 wet unfolding live swept_count_dropped [OF d] gone fold_append
    by (simp add: gc_def Let_def then_do_def prune_uploads_def collected_report_def data(2)
        split: prod.split)
  have "release_at K (idx ?s') sl = keep_if (\<lambda>r. \<not> ?P r) (release_at K (idx s) sl)" for sl
    using prune_store_ok(3) [OF ok3] sweepingD(2) [OF sw] dropped_releases [OF ix keys d] by simp
  moreover have "blob_at (idx ?s') e = keep_if (\<lambda>b. br_hash b \<in> kept_hashes K s ?P) (blob_at (idx s) e)"
    if "digest_ok e" for e
    using prune_store_ok(2) [OF ok3] sweepingD(4) [OF sw that, unfolded live] d by (simp add: dropped_def)
  moreover have "blob_data ?s' = blob_data s" using data by simp
  ultimately show ?thesis using that [OF run prune_store_ok(1) [OF ok3]] by blast
qed

section \<open>Windows\<close>

text \<open>The releases that leave when the window of an image is enforced.\<close>

definition outside :: "'z crates_scheme \<Rightarrow> node \<Rightarrow> public_key \<times> string \<Rightarrow> release \<Rightarrow> bool" where
  "outside K s repo r \<longleftrightarrow> repo_of r = repo \<and> \<not> in_window K s r"

lemma enforce_window_spec:
  assumes ok: "store_ok K s" and keys: "key_laws K" and n: "name_ok n"
    and mine: "p \<noteq> node_id K s" and w: "covers K (node_policy s) p n"
  obtains s' where "enforce_window K p n s = (s', Inr ())" "store_ok K s'"
    "\<And>sl. release_at K (idx s') sl = keep_if (\<lambda>r. \<not> outside K s (p, n) r) (release_at K (idx s) sl)"
    "\<And>r b. r \<in> set (list_releases K (idx s)) \<Longrightarrow> \<not> outside K s (p, n) r \<Longrightarrow> digests_ok r
      \<Longrightarrow> b \<in> set (all_blobs r) \<Longrightarrow> served s b \<Longrightarrow> served s' b"
    "same_core s s'"
proof -
  have ix: "index_ok K (idx s)" using ok by (simp add: store_ok_def)
  let ?w = "policy_window K (node_policy s) p n"
  obtain held where held: "local_releases_of K p n s = Inr held"
    "set held = set (image_releases K (idx s) (p, n))" "distinct (map fst (map tag_and_time held))"
    by (rule local_releases_spec [OF ix keys n]) (rule that)
  define sel where "sel = window_select ?w (map tag_and_time held)"
  have sel_eq: "sel = window_select ?w (map tag_and_time (image_releases K (idx s) (p, n)))"
    unfolding sel_def by (rule window_select_set_eq [OF held(3) image_releases_tags [OF ix keys]])
      (simp add: held(2))
  let ?Q = "\<lambda>r. p_tag (payload r) \<notin> sel"
  let ?h = "\<lambda>r t. emit (Pruned_event p n (p_tag (payload r)) (''outside window '' @ window_describe ?w)) t"
  have held_r: "repo_of r = (p, n) \<and> r \<in> set (list_releases K (idx s))" if "r \<in> set held" for r
    using that held(2) by (simp add: image_releases_def)
  have "inj_on slot_of (set held)"
    using list_releases_distinct [OF ix keys] held_r
    by (metis (no_types, lifting) distinct_map inj_onD inj_onI)
  moreover have "distinct held" using held(3) by (simp add: distinct_map)
  ultimately have dist: "distinct (map slot_of held)" by (simp add: distinct_map)
  obtain s1 where run1: "fold_op (prune_outside K ?w sel p n) held 0 s
      = (s1, Inr (fold (\<lambda>r k. k + 1) (filter ?Q held) 0))"
    and d0: "dropped K (slot_of ` set (filter ?Q held)) s s1"
  proof (rule drop_loop [OF ix keys, where P = ?Q and f = "prune_outside K ?w sel p n"
        and h = ?h and g = "\<lambda>r k. k + 1" and rs = held and b = 0])
    show "set held \<subseteq> set (list_releases K (idx s))" using held_r by blast
    fix r t b t'
    assume "r \<in> set held" "?Q r"
      "drop_release K (p_publisher (payload r)) (p_name (payload r)) (p_tag (payload r)) t = (t', Inr True)"
    with held_r [of r] show "prune_outside K ?w sel p n r b t = (?h r t', Inr (b + 1))"
      by (simp add: prune_outside_def then_do_def repo_of_def)
  qed (auto simp: prune_outside_def dist dropped_emit)
  have out: "slot_of ` set (filter ?Q held) = slot_of ` {r \<in> set (list_releases K (idx s)). outside K s (p, n) r}"
    unfolding set_filter held(2) by (rule arg_cong [where f = "image slot_of"])
      (auto simp: outside_def in_window_def sel_eq image_releases_def repo_of_def)
  have d: "dropped K (slot_of ` {r \<in> set (list_releases K (idx s)). outside K s (p, n) r}) s s1"
    using d0 unfolding out .
  have ok1: "store_ok K s1" by (rule dropped_store_ok [OF d ok])
  have count: "fold (\<lambda>r k. k + 1) xs (m :: nat) = m + length xs" for xs :: "release list" and m
    by (induction xs arbitrary: m) simp_all
  have nonempty: "\<not> window_is_empty ?w" using w by (simp add: covers_def)
  have run: "enforce_window K p n s = (if filter ?Q held = [] then (s1, Inr ())
      else then_do (sweep_blobs_locked K False {}) (\<lambda>_. ret ()) s1)"
    using mine nonempty held(1) run1 unfolding count
    by (simp add: enforce_window_def Let_def then_do_def sel_def)
  show ?thesis
  proof (cases "filter ?Q held = []")
    case True
    have "release_at K (idx s1) sl = keep_if (\<lambda>r. \<not> outside K s (p, n) r) (release_at K (idx s) sl)" for sl
      by (rule dropped_releases [OF ix keys d])
    moreover have "served s b \<Longrightarrow> served s1 b" for b using d by (simp add: served_def dropped_def)
    moreover have "same_core s s1" using d by (simp add: dropped_def)
    ultimately show ?thesis using that [of s1] run True ok1 by simp
  next
    case False
    obtain s2 where run2: "sweep_blobs_locked K False {} s1
        = (s2, Inr (swept_count (idx s1) (live_hashes K {} s1) (list_pins s1)))"
      and sw: "sweeping K (live_hashes K {} s1) s1 {} s2" and ok2: "store_ok K s2"
      by (rule sweep_spec [OF ok1]) (rule that)
    show ?thesis
      using that [of s2] run False run2 ok2 dropped_then_swept [OF ok keys d sw]
        same_core_trans [OF _ sweepingD(5) [OF sw], of s] d
      by (simp add: then_do_def dropped_def)
  qed
qed

section \<open>A node to evaluate on\<close>

definition demo_node_crates :: node_crates where
  "demo_node_crates = codecs.extend demo_codecs \<lparr>blake3_of = (\<lambda>bs. Blake3 (demo_checksum bs))\<rparr>"

lemma demo_node_crate_laws:
  "hex_laws demo_node_crates" "key_laws demo_node_crates" "sign_laws demo_node_crates"
  "sha_laws demo_node_crates" "b58_laws demo_node_crates"
  using demo_codec_laws
  by (simp_all add: demo_node_crates_def codecs.defs demo_codecs_def crates.defs hex_laws_def key_laws_def
      sign_laws_def sha_laws_def b58_laws_def demo_crates_def)

definition demo_node :: "policy \<Rightarrow> node" where
  "demo_node pol = \<lparr>idx = empty_index, pin_tags = [], blob_data = [], node_key = 5, node_policy = pol,
     policy_disk = Some pol, known_peers = [], neighbors = {}, last_seen = [], topics = {},
     dns_st = \<lparr>cache = [], zone_pins = []\<rparr>, inflight = {}, upload_files = [], events = [], announced = []\<rparr>"

definition demo_env :: node_env where
  "demo_env = \<lparr>env_dns = \<lparr>dns_enabled = False, max_age = 0\<rparr>, env_now = 0, env_unix = 0, env_pin_save = True,
     env_answer = (\<lambda>_. None), env_policy_save = True, env_topic = (\<lambda>_. True), env_broadcast = True,
     env_connect = (\<lambda>_. False), env_reply = (\<lambda>_ _. None), env_download = (\<lambda>_ _. None),
     env_age = (\<lambda>_. None), env_upload_age = (\<lambda>_. None), env_grace = 60, env_own_addr = addr_new (PublicKey 5)\<rparr>"

definition demo_app :: "bytes32 \<Rightarrow> release" where
  "demo_app sk = release_sign demo_node_crates 50 sk
     \<lparr>p_version = 0, p_publisher = PublicKey 0, p_name = ''app'', p_tag = ''v1'',
      p_manifest = \<lparr>br_digest = digest_sha256 demo_node_crates [1], br_hash = blake3_of demo_node_crates [1],
        br_size = 1, br_media_type = None\<rparr>,
      p_blobs = [], p_timestamp = 9, p_referrers = []\<rparr>"

abbreviation demo_slot :: "bytes32 \<Rightarrow> slot" where
  "demo_slot sk \<equiv> (PublicKey sk, ''app'', ''v1'')"

lemma demo_app_fields:
  "p_publisher (payload (demo_app sk)) = PublicKey sk" "p_name (payload (demo_app sk)) = ''app''"
  "p_tag (payload (demo_app sk)) = ''v1''" "p_timestamp (payload (demo_app sk)) = 9"
  "all_blobs (demo_app sk) = [p_manifest (payload (demo_app sk))]"
  "p_manifest (payload (demo_app sk)) = \<lparr>br_digest = digest_sha256 demo_node_crates [1],
     br_hash = blake3_of demo_node_crates [1], br_size = 1, br_media_type = None\<rparr>"
  "slot_of (demo_app sk) = demo_slot sk" "p_referrers (payload (demo_app sk)) = []"
  by (simp_all add: demo_app_def release_sign_payload all_blobs_def slot_of_def demo_node_crates_def codecs.defs
      demo_codecs_def crates.defs demo_crates_def)

lemma demo_app_shape: "slot_ok (demo_app sk)" "digests_ok (demo_app sk)"
  using digest_sha256_ok [OF demo_node_crate_laws(1,4)]
  by (simp_all add: slot_ok_def digests_ok_def demo_app_fields demo_app_ok)

lemma demo_node_id: "node_id demo_node_crates s = PublicKey (node_key s)"
  by (simp add: node_id_def identity_id_def demo_node_crates_def codecs.defs demo_codecs_def crates.defs
      demo_crates_def)

text \<open>A node that holds one release with its only blob.\<close>

lemma demo_stored:
  obtains s :: node where "store_ok demo_node_crates s" "node_key s = 5" "node_policy s = pol"
    "release_at demo_node_crates (idx s) (demo_slot sk) = Some (demo_app sk)"
    "served s (p_manifest (payload (demo_app sk)))"
proof -
  let ?K = demo_node_crates and ?r = "demo_app sk" and ?b = "p_manifest (payload (demo_app sk))"
  have free: "slot_free ?K empty_index (slot_of ?r)" by (rule empty_index_free)
  obtain ix res where put: "put_release ?K empty_index ?r = (ix, res)" by force
  then obtain c where res: "res = Inr c"
    using put_release_free [OF empty_index_ok demo_app_shape free] by auto
  note spec = put_release_spec [OF empty_index_ok demo_node_crate_laws(2) demo_app_shape(2) put]
  have none: "blob_at empty_index d = None" "release_at ?K empty_index sl = None" for d sl
    by (simp_all add: blob_at_def release_at_def file_at_def empty_index_def digest_path_def slot_path_def
        split: prod.split)
  have rel: "release_at ?K ix (demo_slot sk) = Some ?r"
    using spec none res by (simp add: demo_app_fields del: split_paired_All)
  let ?s = "(demo_node pol)\<lparr>idx := ix\<rparr>"
  have ok: "store_ok ?K ?s"
    using spec none by (simp add: store_ok_def demo_node_def)
  obtain s' r where run: "put_blob_bytes ?K [1] None None ?s = (s', r)" by force
  have "pin_tags ?s = []" "blob_data ?s = []" by (simp_all add: demo_node_def)
  note put2 = put_blob_bytes_spec [OF ok demo_node_crate_laws(1,4) _ run]
  have "store_ok ?K s'" "release_at ?K (idx s') (demo_slot sk) = Some ?r"
    "\<exists>b. r = Inr b \<and> b = ?b \<and> blob_at (idx s') (br_digest b) = Some b"
    using put2 rel by (auto simp: demo_node_def demo_app_fields split: sum.splits)
  moreover have "node_key s' = 5" "node_policy s' = pol"
    using run by (auto simp: put_blob_bytes_def Let_def then_do_def index_put_blob_def on_index_def add_data_def
        set_tag_def demo_node_def split: sum.splits prod.splits)
  moreover from calculation(3) have "served s' ?b" unfolding served_def by blast
  ultimately show ?thesis using that by blast
qed

section \<open>Properties\<close>


lemma empty_policy_window: "policy_window K policy_default p n = window_default"
  by (simp add: policy_window_def policy_default_def follow_mode_def follows_def seed_rules_def pins_def Let_def
      map_filter_simps)

lemma demo_doomed:
  assumes "node_key s = 5" "node_policy s = policy_default"
  shows "doomed demo_node_crates demo_env q s (demo_app 7)"
  using assms by (simp add: doomed_def retained_def in_window_def demo_app_fields demo_node_id empty_policy_window
      window_select_def window_default_def Let_def in_grace_def demo_env_def)


lemma served_blob_kept:
  assumes ok: "store_ok K s" and b: "served s b" "digest_ok (br_digest b)"
  shows "\<exists>bs. tget (blob_data (collect_data temp s)) (br_hash b) = Some bs \<and> digest_sha256 K bs = br_digest b"
proof -
  obtain c where c: "blob_at (idx s) (br_digest b) = Some c" "br_hash c = br_hash b"
    using b(1) by (auto simp: served_def)
  note cD = store_blobD [OF ok b(2) c(1), unfolded c(2)]
  then have "br_hash b \<in> snd ` set (pin_tags s)" using tget_SomeD by (metis image_eqI snd_conv)
  then show ?thesis using cD(3) by (auto simp: collect_data_def tget_filter_key)
qed

lemma gc_keeps_served:
  assumes ok: "store_ok K s" and keys: "key_laws K" and rel: "release_at K (idx s) sl = Some r"
    and keep: "\<not> doomed K E q s r" and b: "b \<in> set (all_blobs r)" "digest_ok (br_digest b)" "served s b"
  shows "store_ok K (fst (gc K E q s)) \<and> release_at K (idx (fst (gc K E q s))) sl = Some r \<and> served (fst (gc K E q s)) b"
proof (cases "gc_dry q")
  case True
  with gc_dry_spec [OF ok keys True] assms show ?thesis by simp
next
  case False
  have ix: "index_ok K (idx s)" using ok by (simp add: store_ok_def)
  have "slot_of r = sl" using release_at_slot [OF ix keys rel] by blast
  then have "r \<in> set (list_releases K (idx s))" using rel by (simp add: list_releases_set [OF ix keys])
  then have hash: "br_hash b \<in> kept_hashes K s (doomed K E q s)" using keep b(1) by (auto simp: kept_hashes_def)
  obtain s' where s': "gc K E q s = (s', Inr (collected_report K E q s))" "store_ok K s'"
    "\<And>sl. release_at K (idx s') sl = keep_if (\<lambda>r. \<not> doomed K E q s r) (release_at K (idx s) sl)"
    "\<And>d. digest_ok d \<Longrightarrow> blob_at (idx s') d
       = keep_if (\<lambda>b. br_hash b \<in> kept_hashes K s (doomed K E q s)) (blob_at (idx s) d)"
    by (rule gc_spec [OF ok keys False]) (rule that)
  have "served s' b" using b(3) hash s'(4) [OF b(2)] by (auto simp: served_def)
  then show ?thesis using s' keep rel by simp
qed

text \<open>C18: A collection, forced or not, never takes what the node wants: a release that is the node's
  own, pinned, or inside a window stays in its place with an entry and a pin for each of its blobs, and
  the blob data stays there when the blob store deletes what no pin protects.\<close>

theorem gc_keeps_wanted:
  assumes "store_ok K s" "key_laws K"
    and "release_at K (idx s) (p, n, t) = Some r" "digests_ok r" "list_all (served s) (all_blobs r)"
    and "p = node_id K s \<or> is_pinned K (node_policy s) p n t \<or> in_window K s r"
  shows "let s' = fst (gc K E q s) in release_at K (idx s') (p, n, t) = Some r
    \<and> list_all (\<lambda>b. served s' b \<and> (\<exists>bs. tget (blob_data (collect_data temp s')) (br_hash b) = Some bs
         \<and> digest_sha256 K bs = br_digest b)) (all_blobs r)"
proof -
  have ix: "index_ok K (idx s)" using assms(1) by (simp add: store_ok_def)
  have "slot_of r = (p, n, t)" using release_at_slot [OF ix assms(2,3)] by blast
  then have keep: "\<not> doomed K E q s r"
    using assms(6) pinned_retained [of K s r] by (auto simp: doomed_def retained_def slot_of_def)
  have blob: "digest_ok (br_digest b)" "served s b" if "b \<in> set (all_blobs r)" for b
    using that assms(4,5) by (simp_all add: list_all_iff digests_ok_def)
  note kept = gc_keeps_served [OF assms(1-3) keep]
  have "p_manifest (payload r) \<in> set (all_blobs r)" by (simp add: all_blobs_def)
  with kept blob have "release_at K (idx (fst (gc K E q s))) (p, n, t) = Some r" by blast
  moreover have "served (fst (gc K E q s)) b \<and> (\<exists>bs. tget (blob_data (collect_data temp (fst (gc K E q s)))) (br_hash b) = Some bs
      \<and> digest_sha256 K bs = br_digest b)" if "b \<in> set (all_blobs r)" for b
    using kept [OF that blob [OF that]] served_blob_kept blob(1) [OF that] by blast
  ultimately show ?thesis by (simp add: Let_def list_all_iff)
qed

theorem gc_keeps_wanted_witness:
  "\<exists>s. node_key s = 5 \<and> release_at demo_node_crates
      (idx (fst (gc demo_node_crates demo_env \<lparr>gc_dry = False, gc_force = True\<rparr> s))) (demo_slot 5) = Some (demo_app 5)"
proof -
  obtain s :: node where s: "store_ok demo_node_crates s" "node_key s = 5"
    "release_at demo_node_crates (idx s) (demo_slot 5) = Some (demo_app 5)"
    "served s (p_manifest (payload (demo_app 5)))"
    by (rule demo_stored [of policy_default 5]) (rule that)
  have blobs: "list_all (served s) (all_blobs (demo_app 5))" using s(4) by (simp add: demo_app_fields)
  have own: "PublicKey 5 = node_id demo_node_crates s" using s(2) by (simp add: demo_node_id)
  show ?thesis
    using gc_keeps_wanted [OF s(1) demo_node_crate_laws(2) s(3) demo_app_shape(2) blobs disjI1 [OF own]] s(2)
    by (auto simp: Let_def)
qed

text \<open>C32: A dry run predicts: it changes nothing, and its report is that of the real collection in the
  same state, the dry-run mark apart.\<close>

theorem gc_dry_run_predicts:
  assumes "store_ok K s" "key_laws K"
  shows "\<exists>s' rep. gc K E (q\<lparr>gc_dry := False\<rparr>) s = (s', Inr rep)
    \<and> gc K E (q\<lparr>gc_dry := True\<rparr>) s = (s, Inr (rep\<lparr>rep_dry := True\<rparr>))"
proof -
  let ?wet = "q\<lparr>gc_dry := False\<rparr>" and ?dry = "q\<lparr>gc_dry := True\<rparr>"
  have "doomed K E ?dry s = doomed K E ?wet s" by (simp add: doomed_def fun_eq_iff)
  then have rep: "collected_report K E ?dry s = (collected_report K E ?wet s)\<lparr>rep_dry := True\<rparr>"
    by (simp add: collected_report_def split: prod.split)
  have "\<not> gc_dry ?wet" by simp
  then obtain s' where "gc K E ?wet s = (s', Inr (collected_report K E ?wet s))"
    by (rule gc_spec [OF assms]) (rule that)
  moreover have "gc K E ?dry s = (s, Inr (collected_report K E ?dry s))"
    by (rule gc_dry_spec [OF assms]) simp
  ultimately show ?thesis unfolding rep by blast
qed

theorem gc_dry_run_predicts_witness:
  "\<exists>s rep. gc demo_node_crates demo_env \<lparr>gc_dry = True, gc_force = False\<rparr> s = (s, Inr rep)
     \<and> node_key s = 5"
proof -
  obtain s :: node where s: "store_ok demo_node_crates s" "node_key s = 5"
    by (rule demo_stored) (rule that)
  from gc_dry_run_predicts [OF s(1) demo_node_crate_laws(2), of demo_env "\<lparr>gc_dry = False, gc_force = False\<rparr>"] s(2)
  show ?thesis by auto
qed

text \<open>C14: The window of an image is enforced exactly. For an image of another publisher that the policy
  covers, enforcement never fails; afterwards the node holds exactly the releases of the image whose
  tags the window selects, and everything else it held; the store is sound and the blobs of what
  stays are still served.\<close>

theorem window_enforced:
  assumes "store_ok K s" "key_laws K" "name_ok n" "p \<noteq> node_id K s" "covers K (node_policy s) p n"
  shows "\<exists>s'. enforce_window K p n s = (s', Inr ()) \<and> store_ok K s'
    \<and> (\<forall>sl. release_at K (idx s') sl = keep_if (\<lambda>r. repo_of r = (p, n) \<longrightarrow> in_window K s r) (release_at K (idx s) sl))
    \<and> (\<forall>r \<in> set (list_releases K (idx s)). (repo_of r = (p, n) \<longrightarrow> in_window K s r) \<and> digests_ok r
         \<longrightarrow> (\<forall>b \<in> set (all_blobs r). served s b \<longrightarrow> served s' b))"
proof -
  have out: "(\<lambda>r. \<not> outside K s (p, n) r) = (\<lambda>r. repo_of r = (p, n) \<longrightarrow> in_window K s r)"
    by (auto simp: outside_def fun_eq_iff)
  obtain s' where s': "enforce_window K p n s = (s', Inr ())" "store_ok K s'"
    "\<And>sl. release_at K (idx s') sl = keep_if (\<lambda>r. \<not> outside K s (p, n) r) (release_at K (idx s) sl)"
    "\<And>r b. r \<in> set (list_releases K (idx s)) \<Longrightarrow> \<not> outside K s (p, n) r \<Longrightarrow> digests_ok r
      \<Longrightarrow> b \<in> set (all_blobs r) \<Longrightarrow> served s b \<Longrightarrow> served s' b" "same_core s s'"
    by (rule enforce_window_spec [OF assms]) (rule that)
  have "(\<forall>r \<in> set (list_releases K (idx s)). (repo_of r = (p, n) \<longrightarrow> in_window K s r) \<and> digests_ok r
         \<longrightarrow> (\<forall>b \<in> set (all_blobs r). served s b \<longrightarrow> served s' b))"
    using s'(4) by (auto simp: outside_def)
  with s'(1,2) s'(3) [unfolded out] show ?thesis by blast
qed

text \<open>A policy that pins another tag of the image of \<open>demo_app\<close>.\<close>

definition demo_pins :: "'z crates_scheme \<Rightarrow> string \<Rightarrow> policy" where
  "demo_pins K t = policy_default\<lparr>pol_pin := [pk_display K (PublicKey 7) @ ''/app:'' @ t]\<rparr>"

lemma demo_pins_window:
  assumes "b58_laws K" "key_laws K" "tag_ok t"
  shows "policy_window K (demo_pins K t) (PublicKey 7) ''app'' = \<lparr>w_full = False, w_last = 0, w_tags = {t}\<rparr>"
proof -
  let ?r = "\<lparr>sr_publisher = PublicKey 7, sr_name = ''app'', sr_tag = Some t, sr_mode = Full\<rparr>"
  have "parse_seed_rule K (demo_pins K t) (pk_display K (PublicKey 7) @ ''/app:'' @ t) Full = Inr ?r"
    using parse_seed_rule_did(2) [OF assms(1,2) demo_app_ok(1), of "Some t"] assms(3)
    by (simp add: name_and_tag_def)
  moreover have "pol_pin (demo_pins K t) = [pk_display K (PublicKey 7) @ ''/app:'' @ t]" by (simp add: demo_pins_def)
  ultimately have "pins K (demo_pins K t) = [?r]" by (simp add: pins_def pin_rule_def List.map_filter_simps)
  then show ?thesis
    by (simp add: policy_window_def Let_def absorb_pin_def window_default_def follow_mode_def follows_def
        seed_rules_def) (simp add: demo_pins_def policy_default_def List.map_filter_simps)
qed

theorem window_enforced_witness:
  "\<exists>s s'. release_at demo_node_crates (idx s) (demo_slot 7) = Some (demo_app 7)
     \<and> enforce_window demo_node_crates (PublicKey 7) ''app'' s = (s', Inr ())
     \<and> release_at demo_node_crates (idx s') (demo_slot 7) = None"
proof -
  let ?K = demo_node_crates
  obtain s :: node where s: "store_ok ?K s" "node_key s = 5" "node_policy s = demo_pins ?K ''v2''"
    "release_at ?K (idx s) (demo_slot 7) = Some (demo_app 7)"
    by (rule demo_stored) (rule that)
  have "tag_ok ''v2''" by (simp add: tag_ok_def validate_tag_def tag_char_def char_class_defs)
  note window = demo_pins_window [OF demo_node_crate_laws(5,2) this]
  have other: "PublicKey 7 \<noteq> node_id ?K s" using s(2) by (simp add: demo_node_id)
  have cov: "covers ?K (node_policy s) (PublicKey 7) ''app''"
    by (simp add: covers_def s(3) window window_is_empty_def)
  have "\<not> in_window ?K s (demo_app 7)"
    by (simp add: in_window_def demo_app_fields s(3) window window_select_def Let_def)
  moreover obtain s' where "enforce_window ?K (PublicKey 7) ''app'' s = (s', Inr ())" and
    rel: "\<forall>sl. release_at ?K (idx s') sl = keep_if (\<lambda>r. repo_of r = (PublicKey 7, ''app'') \<longrightarrow> in_window ?K s r)
       (release_at ?K (idx s) sl)"
    using window_enforced [OF s(1) demo_node_crate_laws(2) demo_app_ok(1) other cov] by blast
  moreover have "repo_of (demo_app 7) = (PublicKey 7, ''app'')" by (simp add: repo_of_def demo_app_fields)
  ultimately show ?thesis
    using rel [rule_format, of "demo_slot 7"] s(4) by auto
qed

end
