(* ===== verification/Replication.thy ===== *)
theory Replication
  imports Garbage
begin

text \<open>
  Replication and publishing (\<^verbatim>\<open>crates/ocid/src/node.rs\<close>), the server side of the sync protocol
  (\<^verbatim>\<open>p2p/sync.rs\<close>) and the gossip receive loop (\<^verbatim>\<open>p2p/gossip.rs\<close>). The answers of other nodes come
  from the parameter \<open>node_env\<close>: what a peer replies to a request, and what the blob downloader
  obtains. An operation runs alone here, as the locks of the node let it.
\<close>

section \<open>Requests\<close>

definition request_on :: "node_env \<Rightarrow> public_key \<Rightarrow> request \<Rightarrow> response result" where
  "request_on E peer rq = (case env_reply E peer rq of
     None \<Rightarrow> Inl Io_err
   | Some (Error_resp e) \<Rightarrow> Inl (Node_err PeerError)
   | Some r \<Rightarrow> Inr r)"

definition sync_request :: "node_env \<Rightarrow> public_key \<Rightarrow> request \<Rightarrow> response result" where
  "sync_request E peer rq = (if env_connect E peer then request_on E peer rq else Inl Io_err)"

definition into_release :: "'z net_crates_scheme \<Rightarrow> response \<Rightarrow> release option result" where
  "into_release K r = (case r of
     Release_resp None \<Rightarrow> Inr None
   | Release_resp (Some bs) \<Rightarrow> (case release_of_json K bs of Some x \<Rightarrow> Inr (Some x) | None \<Rightarrow> Inl Io_err)
   | _ \<Rightarrow> Inl (Node_err UnexpectedResponse))"

section \<open>Fetching a release\<close>

text \<open>One blob of a release: fetch it unless its data is there; check it before it is recorded.\<close>

definition fetch_data :: "node_env \<Rightarrow> blob_ref \<Rightarrow> public_key list \<Rightarrow> unit node_op" where
  "fetch_data E b providers s =
     (case env_download E (br_hash b) providers of
        None \<Rightarrow> (s, Inl (Store_err DownloadFailed))
      | Some bs \<Rightarrow> (add_data (br_hash b) bs s, Inr ()))"

definition verify_and_record :: "'z node_crates_scheme \<Rightarrow> blob_ref \<Rightarrow> unit node_op" where
  "verify_and_record K b = then_do (lift_res (verify_blob K b)) (\<lambda>_. record_blob b)"

definition fetch_blob ::
  "'z node_crates_scheme \<Rightarrow> node_env \<Rightarrow> public_key list \<Rightarrow> blob_ref \<Rightarrow> unit node_op" where
  "fetch_blob K E providers b s =
     (if \<not> has_hash (br_hash b) s then
        (if providers = [] then fail (Store_err NoProviders) s
         else then_do (fetch_data E b providers) (\<lambda>_. verify_and_record K b) s)
      else
        then_do (lift_res (\<lambda>s. blob_ref_get (idx s) (br_digest b))) (\<lambda>known.
          if known = None then verify_and_record K b else ret ()) s)"

definition progress :: "release \<Rightarrow> nat \<Rightarrow> u64 \<Rightarrow> node \<Rightarrow> node" where
  "progress r i done_bytes =
     emit (PullProgress (p_publisher (payload r)) (p_name (payload r)) (p_tag (payload r)) i
       (length (all_blobs r)) done_bytes (sum_list (map br_size (all_blobs r))))"

text \<open>The accumulator holds the number of blobs done and their bytes.\<close>

definition fetch_step ::
  "'z node_crates_scheme \<Rightarrow> node_env \<Rightarrow> release \<Rightarrow> public_key list \<Rightarrow> blob_ref \<Rightarrow> nat \<times> u64 \<Rightarrow> (nat \<times> u64) node_op" where
  "fetch_step K E r providers b acc =
     then_do (fetch_blob K E providers b) (\<lambda>_.
     let acc' = (fst acc + 1, snd acc + br_size b) in
     then_do (modify (progress r (fst acc') (snd acc'))) (\<lambda>_. ret acc'))"

definition fetch_release_inner ::
  "'z node_crates_scheme \<Rightarrow> node_env \<Rightarrow> release \<Rightarrow> public_key list \<Rightarrow> unit node_op" where
  "fetch_release_inner K E r providers0 s =
     (let providers = filter (\<lambda>p. p \<noteq> node_id K s) providers0 in
      then_do (modify (progress r 0 0)) (\<lambda>_.
      then_do (fold_op (fetch_step K E r providers) (all_blobs r) (0, 0)) (\<lambda>_.
      then_do (on_index (\<lambda>ix. put_release K ix r)) (\<lambda>_.
      modify (emit (ReleaseSaved (p_publisher (payload r)) (p_name (payload r)) (p_tag (payload r))
        (length (all_blobs r))))))) s)"

text \<open>The reference is in \<open>inflight\<close> while it is fetched; the loop that waits for another fetch of it
  ends in a state without it.\<close>

definition fetch_release ::
  "'z node_crates_scheme \<Rightarrow> node_env \<Rightarrow> release \<Rightarrow> public_key list \<Rightarrow> unit node_op" where
  "fetch_release K E r providers s =
     (case release_verify K r of
        Inl e \<Rightarrow> (s, Inl e)
      | Inr _ \<Rightarrow>
          (let s1 = s\<lparr>inflight := insert (reference K r) (inflight s)\<rparr>;
               (s2, res) = fetch_release_inner K E r providers s1;
               s3 = s2\<lparr>inflight := inflight s2 - {reference K r}\<rparr>
           in case res of
                Inr _ \<Rightarrow> (s3, Inr ())
              | Inl e \<Rightarrow> (emit (FetchFailed (p_publisher (payload r)) (p_name (payload r)) (p_tag (payload r)) e) s3,
                  Inl e)))"

text \<open>Ask the peers in turn; the first that has a release is the one it is fetched from.\<close>

fun ask_peers ::
  "'z net_crates_scheme \<Rightarrow> node_env \<Rightarrow> public_key \<Rightarrow> request \<Rightarrow> public_key list \<Rightarrow> release option node_op" where
  "ask_peers K E publisher rq [] s = ret None s"
| "ask_peers K E publisher rq (peer # peers) s =
     (case and_then (sync_request E peer rq) (into_release K) of
        Inr (Some rel) \<Rightarrow>
          then_do (fetch_release K E rel (if publisher \<noteq> peer then [peer, publisher] else [peer])) (\<lambda>_.
          ret (Some rel)) s
      | _ \<Rightarrow> ask_peers K E publisher rq peers s)"

definition get_or_fetch ::
  "'z net_crates_scheme \<Rightarrow> node_env \<Rightarrow> public_key \<Rightarrow> string \<Rightarrow> string \<Rightarrow> release option node_op" where
  "get_or_fetch K E publisher name tag =
     then_do (lift_res (\<lambda>s. get_release K (idx s) publisher name tag)) (\<lambda>local_rel s.
     case local_rel of
       Some r \<Rightarrow> if is_complete r s then ret (Some r) s
                 else if publisher = node_id K s then ret None s
                 else ask_peers K E publisher (GetRelease publisher name tag) (candidate_peers K publisher s) s
     | None \<Rightarrow> if publisher = node_id K s then ret None s
                else ask_peers K E publisher (GetRelease publisher name tag) (candidate_peers K publisher s) s)"

section \<open>Synchronisation\<close>

definition select_wanted ::
  "'z crates_scheme \<Rightarrow> policy \<Rightarrow> public_key \<Rightarrow> string \<Rightarrow> release_summary list \<Rightarrow> node
     \<Rightarrow> release_summary list result" where
  "select_wanted K pol publisher name remote s =
     (let w = policy_window K pol publisher name in
      if window_is_empty w then Inr []
      else
        and_then (local_releases_of K publisher name s) (\<lambda>held.
        let here = map tag_and_time held;
            known = here @ map (\<lambda>x. (sum_tag x, sum_timestamp x)) remote;
            selected = window_select w known
        in Inr (filter (\<lambda>x. case tget here (sum_tag x) of None \<Rightarrow> True | Some ts \<Rightarrow> sum_timestamp x > ts)
                 (filter (\<lambda>x. sum_tag x \<in> selected) remote))))"

definition sync_one ::
  "'z net_crates_scheme \<Rightarrow> node_env \<Rightarrow> public_key \<Rightarrow> release_summary \<Rightarrow> unit node_op" where
  "sync_one K E peer x =
     then_do (lift_res (\<lambda>_. and_then (request_on E peer (GetRelease (sum_publisher x) (sum_name x) (sum_tag x)))
       (into_release K))) (\<lambda>rel. case rel of
       None \<Rightarrow> ret ()
     | Some r \<Rightarrow> ignore_err (fetch_release K E r [peer]))"

definition sync_repo ::
  "'z net_crates_scheme \<Rightarrow> node_env \<Rightarrow> public_key \<Rightarrow> policy \<Rightarrow> release_summary list \<Rightarrow> public_key \<times> string
     \<Rightarrow> unit node_op" where
  "sync_repo K E peer pol offers repo = (case repo of (publisher, name) \<Rightarrow>
     let remote = filter (\<lambda>x. (sum_publisher x, sum_name x) = repo) offers in
     then_do (lift_res (select_wanted K pol publisher name remote)) (\<lambda>wanted.
     if wanted = [] then ret ()
     else then_do (for_each wanted (sync_one K E peer)) (\<lambda>_. enforce_window K publisher name)))"

definition into_inventory :: "response \<Rightarrow> release_summary list result" where
  "into_inventory r = (case r of Inventory_resp v \<Rightarrow> Inr v | _ \<Rightarrow> Inl (Node_err UnexpectedResponse))"

definition sync_with :: "'z net_crates_scheme \<Rightarrow> node_env \<Rightarrow> public_key \<Rightarrow> unit node_op" where
  "sync_with K E peer =
     then_do (lift_res (\<lambda>_. ensure (env_connect E peer) Io_err)) (\<lambda>_.
     then_do (modify (note_peer_seen E peer)) (\<lambda>_.
     then_do (lift_res (\<lambda>_. and_then (request_on E peer Inventory) into_inventory)) (\<lambda>offers s.
     let theirs = filter (\<lambda>x. sum_publisher x \<noteq> node_id K s) offers;
         repos = sorted_list_of_set (set (map (\<lambda>x. (sum_publisher x, sum_name x)) theirs))
     in for_each repos (sync_repo K E peer (node_policy s) theirs) s)))"

text \<open>Ask those who may have an announced release.\<close>

fun ask_providers ::
  "'z net_crates_scheme \<Rightarrow> node_env \<Rightarrow> release_summary \<Rightarrow> public_key list \<Rightarrow> public_key list \<Rightarrow> unit node_op" where
  "ask_providers K E x providers [] s = fail (Node_err NoPeerHas) s"
| "ask_providers K E x providers (p # ps) s =
     (case and_then (sync_request E p (GetRelease (sum_publisher x) (sum_name x) (sum_tag x))) (into_release K) of
        Inr (Some rel) \<Rightarrow>
          then_do (fetch_release K E rel providers) (\<lambda>_. enforce_window K (sum_publisher x) (sum_name x)) s
      | _ \<Rightarrow> ask_providers K E x providers ps s)"

definition on_announcement ::
  "'z net_crates_scheme \<Rightarrow> node_env \<Rightarrow> release_summary \<Rightarrow> public_key \<Rightarrow> unit node_op" where
  "on_announcement K E x from_peer =
     then_do (modify (note_peer_seen E from_peer)) (\<lambda>_.
     then_do (modify (emit (Gossip_event (sum_publisher x) (sum_name x) (sum_tag x) False))) (\<lambda>_.
     then_do (lift_res (\<lambda>s. select_wanted K (node_policy s) (sum_publisher x) (sum_name x) [x] s)) (\<lambda>wanted.
     if wanted = [] then ret ()
     else
       (let providers = (if sum_publisher x \<noteq> from_peer then [from_peer, sum_publisher x] else [from_peer])
        in ask_providers K E x providers providers))))"

section \<open>Publishing\<close>

definition announce :: "'z crates_scheme \<Rightarrow> node_env \<Rightarrow> release \<Rightarrow> unit node_op" where
  "announce K E r s =
     (let p = p_publisher (payload r) in
      if p \<notin> topics s then fail (Node_err NoTopic) s
      else if \<not> env_broadcast E then fail Io_err s
      else (emit (Gossip_event p (p_name (payload r)) (p_tag (payload r)) True)
              (s\<lparr>announced := announced s @ [summary_of r]\<rparr>), Inr ()))"

definition publish :: "'z codecs_scheme \<Rightarrow> node_env \<Rightarrow> release \<Rightarrow> unit node_op" where
  "publish K E r =
     then_do (lift_res (\<lambda>_. release_verify K r)) (\<lambda>_.
     then_do (lift_res (\<lambda>s. ensure (\<not> p_publisher (payload r) \<noteq> node_id K s) (Node_err NotOwnRelease))) (\<lambda>_.
     then_do (on_index (\<lambda>ix. put_release K ix r)) (\<lambda>_.
     then_do (modify (emit (ReleaseSaved (p_publisher (payload r)) (p_name (payload r)) (p_tag (payload r))
       (length (p_blobs (payload r)))))) (\<lambda>_.
     announce K E r))))"

text \<open>The new release of \<open>attach_referrer\<close>: the blobs that are not there yet are appended in order.\<close>

definition with_blobs :: "blob_ref list \<Rightarrow> blob_ref list \<Rightarrow> blob_ref list" where
  "with_blobs new old = fold (\<lambda>b acc. if br_digest b \<in> set (map br_digest acc) then acc else acc @ [b]) new old"

definition attached :: "u64 \<Rightarrow> referrer \<Rightarrow> blob_ref list \<Rightarrow> release \<Rightarrow> release_payload" where
  "attached now rf blobs r = (payload r)\<lparr>
     p_referrers := p_referrers (payload r) @ [rf],
     p_blobs := with_blobs blobs (p_blobs (payload r)),
     p_timestamp := max now (p_timestamp (payload r) + 1)\<rparr>"

definition attach_one ::
  "'z codecs_scheme \<Rightarrow> node_env \<Rightarrow> digest \<Rightarrow> referrer \<Rightarrow> blob_ref list \<Rightarrow> release \<Rightarrow> nat \<Rightarrow> nat node_op" where
  "attach_one K E subject rf blobs r k s =
     (if p_publisher (payload r) \<noteq> node_id K s \<or> br_digest (p_manifest (payload r)) \<noteq> subject then ret k s
      else if list_ex (\<lambda>f. rf_digest f = rf_digest rf) (p_referrers (payload r)) then ret k s
      else
        (let updated = release_sign K (env_unix E) (node_key s) (attached (env_unix E) rf blobs r)
         in then_do (publish K E updated) (\<lambda>_. ret (k + 1)) s))"

definition attach_referrer ::
  "'z codecs_scheme \<Rightarrow> node_env \<Rightarrow> digest \<Rightarrow> referrer \<Rightarrow> blob_ref list \<Rightarrow> nat node_op" where
  "attach_referrer K E subject rf blobs s =
     fold_op (attach_one K E subject rf blobs) (list_releases K (idx s)) 0 s"

definition announce_one :: "'z crates_scheme \<Rightarrow> node_env \<Rightarrow> release \<Rightarrow> nat \<Rightarrow> nat node_op" where
  "announce_one K E r k s =
     (if p_publisher (payload r) = node_id K s then then_do (announce K E r) (\<lambda>_. ret (k + 1)) s
      else ret k s)"

definition announce_all_local :: "'z crates_scheme \<Rightarrow> node_env \<Rightarrow> nat node_op" where
  "announce_all_local K E s = fold_op (announce_one K E) (list_releases K (idx s)) 0 s"

section \<open>The server side and gossip\<close>

text \<open>\<open>handle_inner\<close>; an error becomes the response \<open>Error_resp\<close>.\<close>

definition handle_inner ::
  "'z net_crates_scheme \<Rightarrow> public_key \<Rightarrow> request \<Rightarrow> response node_op" where
  "handle_inner K from_peer rq s = (case rq of
     Inventory \<Rightarrow>
       ret (Inventory_resp (map summary_of (filter (\<lambda>r. is_complete r s) (list_releases K (idx s))))) s
   | GetRelease publisher name tag \<Rightarrow>
       then_do (lift_res (\<lambda>s. get_release K (idx s) publisher name tag)) (\<lambda>rel s.
         ret (Release_resp (case rel of
            Some r \<Rightarrow> if is_complete r s then Some (release_json K r) else None | None \<Rightarrow> None)) s) s
   | ListTags publisher name \<Rightarrow>
       then_do (lift_res (\<lambda>s. list_tags K (idx s) publisher name)) (\<lambda>ts. ret (Tags_resp ts)) s
   | Hello addr \<Rightarrow>
       ret Ok_resp (if addr_id addr = from_peer then remember_peer K addr s else s))"

definition handle_request :: "'z net_crates_scheme \<Rightarrow> public_key \<Rightarrow> request \<Rightarrow> node \<Rightarrow> node \<times> response" where
  "handle_request K from_peer rq s = (case handle_inner K from_peer rq s of
     (s', Inr r) \<Rightarrow> (s', r) | (s', Inl e) \<Rightarrow> (s', Error_resp e))"

text \<open>A connection: every stream of it is read, decoded, answered and written back, and one that cannot be read
  or decoded ends without an answer. The streams are handled as they come, here in their order.\<close>

fun serve_streams ::
  "'z net_crates_scheme \<Rightarrow> public_key \<Rightarrow> request option list \<Rightarrow> node \<Rightarrow> node \<times> response option list" where
  "serve_streams K from_peer [] s = (s, [])"
| "serve_streams K from_peer (m # ms) s =
     (let (s1, r) = (case m of
            None \<Rightarrow> (s, None)
          | Some rq \<Rightarrow> (case handle_request K from_peer rq s of (s1, r) \<Rightarrow> (s1, Some r)));
          (s2, rs) = serve_streams K from_peer ms s1
      in (s2, r # rs))"

definition accept_connection ::
  "'z net_crates_scheme \<Rightarrow> node_env \<Rightarrow> public_key \<Rightarrow> request option list \<Rightarrow> node \<Rightarrow> node \<times> response option list" where
  "accept_connection K E from_peer ms s = serve_streams K from_peer ms (note_peer_seen E from_peer s)"

datatype scope = Swarm | Publisher_topic public_key

datatype gossip_msg =
    Neighbor_up public_key
  | Neighbor_down public_key
  | Lagged
  | Received public_key "release_summary option"

text \<open>The body of the receive loop, with the task it spawns run to its end and its error dropped; an
  undecodable message is \<open>Received p None\<close>.\<close>

definition gossip_step :: "'z net_crates_scheme \<Rightarrow> node_env \<Rightarrow> scope \<Rightarrow> gossip_msg \<Rightarrow> node \<Rightarrow> node" where
  "gossip_step K E sc msg s = (case msg of
     Neighbor_up p \<Rightarrow>
       (let s1 = (case sc of Swarm \<Rightarrow> neighbor_up E p s | Publisher_topic _ \<Rightarrow> note_peer_seen E p s)
        in fst (sync_with K E p s1))
   | Neighbor_down p \<Rightarrow> (if sc = Swarm then neighbor_down p s else s)
   | Lagged \<Rightarrow> s
   | Received from_peer None \<Rightarrow> s
   | Received from_peer (Some x) \<Rightarrow>
       (case sc of
          Publisher_topic p \<Rightarrow> if sum_publisher x \<noteq> p then s else fst (on_announcement K E x from_peer s)
        | Swarm \<Rightarrow> fst (on_announcement K E x from_peer s)))"

definition on_lan_peer :: "'z net_crates_scheme \<Rightarrow> node_env \<Rightarrow> public_key \<Rightarrow> node \<Rightarrow> node" where
  "on_lan_peer K E p s =
     (if tget (last_seen s) p = None \<and> p \<notin> neighbors s
      then fst (sync_with K E p (note_peer_seen E p s)) else s)"

end
