(* ===== verification/Replication_Safety.thy ===== *)
theory Replication_Safety
  imports Replication
begin

text \<open>
  What replication guarantees: the store stays sound whatever peers send, a release is held only with
  its blobs, and what a peer of good faith announces is replicated.
\<close>

section \<open>What fetching changes\<close>

text \<open>The blob downloader checks the BLAKE3 hash of what it streams.\<close>

definition honest_download :: "'z node_crates_scheme \<Rightarrow> node_env \<Rightarrow> bool" where
  "honest_download K E \<longleftrightarrow> (\<forall>h ps bs. env_download E h ps = Some bs \<longrightarrow> blake3_of K bs = h)"

definition same_rest :: "node \<Rightarrow> node \<Rightarrow> bool" where
  "same_rest s s' \<longleftrightarrow>
     s'\<lparr>idx := [], pin_tags := [], blob_data := [], events := [], inflight := {}\<rparr>
     = s\<lparr>idx := [], pin_tags := [], blob_data := [], events := [], inflight := {}\<rparr>"

lemma same_rest_simps [simp]:
  "same_rest s s" "same_rest s (t\<lparr>idx := ix\<rparr>) = same_rest s t" "same_rest s (t\<lparr>pin_tags := pt\<rparr>) = same_rest s t"
  "same_rest s (t\<lparr>blob_data := bd\<rparr>) = same_rest s t" "same_rest s (t\<lparr>events := ev\<rparr>) = same_rest s t"
  "same_rest s (t\<lparr>inflight := fl\<rparr>) = same_rest s t" "same_rest (s\<lparr>inflight := fl\<rparr>) t = same_rest s t"
  by (simp_all add: same_rest_def)

lemma same_rest_trans: "same_rest s t \<Longrightarrow> same_rest t u \<Longrightarrow> same_rest s u"
  by (simp add: same_rest_def)

lemma same_restD:
  assumes "same_rest s s'"
  shows "node_key s' = node_key s" "node_policy s' = node_policy s" "topics s' = topics s"
  using assms [unfolded same_rest_def, THEN arg_cong [where f = node_key]]
    assms [unfolded same_rest_def, THEN arg_cong [where f = node_policy]]
    assms [unfolded same_rest_def, THEN arg_cong [where f = topics]]
  by simp_all

text \<open>Blobs arrive: the data grows, an entry is kept or becomes that of a blob of \<open>bs\<close>, the releases stay.\<close>

definition grown :: "'z crates_scheme \<Rightarrow> blob_ref set \<Rightarrow> node \<Rightarrow> node \<Rightarrow> bool" where
  "grown K bs s s' \<longleftrightarrow> same_rest s s'
     \<and> (\<forall>sl. release_at K (idx s') sl = release_at K (idx s) sl)
     \<and> (\<forall>h x. tget (blob_data s) h = Some x \<longrightarrow> tget (blob_data s') h = Some x)
     \<and> (\<forall>d. digest_ok d \<longrightarrow> blob_at (idx s') d = blob_at (idx s) d
          \<or> (\<exists>b \<in> bs. br_digest b = d \<and> blob_at (idx s') d = Some b))"

lemma grown_refl: "grown K bs s s"
  by (simp add: grown_def)

lemma grown_trans:
  assumes "grown K bs s t" "grown K bs t u"
  shows "grown K bs s u"
  unfolding grown_def
proof (intro conjI allI impI)
  show "same_rest s u" by (rule same_rest_trans [of s t]) (use assms in \<open>simp_all add: grown_def\<close>)
  fix d
  assume "digest_ok d"
  with assms have
    "blob_at (idx t) d = blob_at (idx s) d \<or> (\<exists>b \<in> bs. br_digest b = d \<and> blob_at (idx t) d = Some b)"
    "blob_at (idx u) d = blob_at (idx t) d \<or> (\<exists>b \<in> bs. br_digest b = d \<and> blob_at (idx u) d = Some b)"
    by (simp_all add: grown_def)
  then show "blob_at (idx u) d = blob_at (idx s) d \<or> (\<exists>b \<in> bs. br_digest b = d \<and> blob_at (idx u) d = Some b)"
    by (elim disjE) simp_all
qed (use assms in \<open>auto simp: grown_def\<close>)

lemma grown_mono: "grown K bs s t \<Longrightarrow> bs \<subseteq> bs' \<Longrightarrow> grown K bs' s t"
  unfolding grown_def by blast

lemma grown_emit: "grown K bs s t \<Longrightarrow> grown K bs s (emit e t)"
  by (simp add: grown_def emit_def)

lemma grown_has: "grown K bs s t \<Longrightarrow> has_hash h s \<Longrightarrow> has_hash h t"
  by (auto simp: grown_def has_hash_def)

lemma grown_entry: "grown K bs s t \<Longrightarrow> digest_ok d \<Longrightarrow> blob_at (idx s) d \<noteq> None \<Longrightarrow> blob_at (idx t) d \<noteq> None"
  unfolding grown_def by (metis option.distinct(1))

lemma emit_store_ok:
  assumes "store_ok K s"
  shows "store_ok K (emit e s)"
proof (rule store_ok_same [OF assms])
  show "index_ok K (idx (emit e s))" using assms by (simp add: emit_def store_ok_def)
qed (simp_all add: emit_def)

section \<open>One blob\<close>

lemma add_data_ok:
  assumes ok: "store_ok K s" and h: "blake3_of K bs = h"
  shows "store_ok K (add_data h bs s)"
    and "tget (blob_data (add_data h bs s)) x = (if x = h \<and> \<not> has_hash h s then Some bs else tget (blob_data s) x)"
proof -
  show data: "tget (blob_data (add_data h bs s)) x
      = (if x = h \<and> \<not> has_hash h s then Some bs else tget (blob_data s) x)" for x
    by (simp add: add_data_def)
  have same: "idx (add_data h bs s) = idx s" "pin_tags (add_data h bs s) = pin_tags s"
    by (simp_all add: add_data_def)
  have more: "tget (blob_data s) x = Some y \<Longrightarrow> tget (blob_data (add_data h bs s)) x = Some y" for x y
    using data by (auto simp: has_hash_def)
  have "table_ok (blob_data (add_data h bs s))" using ok by (simp add: add_data_def store_ok_def)
  moreover have "blake3_of K y = x" if "tget (blob_data (add_data h bs s)) x = Some y" for x y
    using that ok h unfolding data by (auto simp: store_ok_def split: if_splits)
  moreover have "blob_sound K s b \<Longrightarrow> blob_sound K (add_data h bs s) b" for b
    using more unfolding blob_sound_def same by blast
  ultimately show "store_ok K (add_data h bs s)"
    using ok unfolding store_ok_def same by blast
qed

lemma verify_and_record_spec:
  assumes ok: "store_ok K s" and d: "digest_ok (br_digest b)" and run: "verify_and_record K b s = (s', res)"
  shows "store_ok K s' \<and> grown K {b} s s' \<and> (res = Inr () \<longrightarrow> blob_at (idx s') (br_digest b) = Some b
      \<and> has_hash (br_hash b) s') \<and> (res \<noteq> Inr () \<longrightarrow> s' = s)"
proof (cases "verify_blob K b s")
  case (Inl e)
  with run ok show ?thesis by (auto simp: verify_and_record_def then_do_def grown_refl)
next
  case (Inr u)
  then have v: "verify_blob K b s = Inr ()" by simp
  let ?t = "\<lambda>ix. s\<lparr>pin_tags := tput (tag_name (br_digest b)) (br_hash b) (pin_tags s), idx := ix\<rparr>"
  obtain ix where rec: "record_blob b s = (?t ix, Inr ())" and ok': "store_ok K (?t ix)"
    and blobs: "\<And>d. digest_ok d \<Longrightarrow> blob_at ix d = (if d = br_digest b then Some b else blob_at (idx s) d)"
    and rels: "\<And>sl. release_at K ix sl = release_at K (idx s) sl"
    by (rule record_blob_spec [OF ok d v]) (rule that)
  have "s' = ?t ix" "res = Inr ()" using run v rec by (simp_all add: verify_and_record_def then_do_def)
  moreover have "has_hash (br_hash b) s" using v by (auto simp: verify_blob_iff has_hash_def)
  ultimately show ?thesis
    using ok' blobs rels d by (simp add: grown_def has_hash_def)
qed

lemma fetch_blob_spec:
  assumes ok: "store_ok K s" and honest: "honest_download K E" and d: "digest_ok (br_digest b)"
    and run: "fetch_blob K E providers b s = (s', res)"
  shows "store_ok K s' \<and> grown K {b} s s'
    \<and> (res = Inr () \<longrightarrow> has_hash (br_hash b) s' \<and> blob_at (idx s') (br_digest b) \<noteq> None)"
proof (cases "has_hash (br_hash b) s")
  case True
  have get: "blob_ref_get (idx s) (br_digest b) = Inr (blob_at (idx s) (br_digest b))"
    by (rule blob_ref_get_ok [where K = K]) (use ok in \<open>simp add: store_ok_def\<close>)
  show ?thesis
  proof (cases "blob_at (idx s) (br_digest b)")
    case None
    with run True get have "verify_and_record K b s = (s', res)" by (simp add: fetch_blob_def then_do_def)
    from verify_and_record_spec [OF ok d this] show ?thesis by auto
  next
    case (Some c)
    with run True get ok show ?thesis by (auto simp: fetch_blob_def then_do_def grown_refl)
  qed
next
  case False
  show ?thesis
  proof (cases "providers = [] \<or> env_download E (br_hash b) providers = None")
    case True
    with False run have "s' = s" "res \<noteq> Inr ()"
      by (auto simp: fetch_blob_def then_do_def fetch_data_def split: if_splits)
    with ok show ?thesis by (simp add: grown_refl)
  next
    case dl: False
    then obtain bs where bs: "env_download E (br_hash b) providers = Some bs" by auto
    with honest have h: "blake3_of K bs = br_hash b" by (simp add: honest_download_def)
    let ?s1 = "add_data (br_hash b) bs s"
    note add = add_data_ok [OF ok h]
    have "verify_and_record K b ?s1 = (s', res)"
      using run False dl bs by (simp add: fetch_blob_def then_do_def fetch_data_def)
    from verify_and_record_spec [OF add(1) d this]
    have v: "store_ok K s'" "grown K {b} ?s1 s'" "res = Inr () \<longrightarrow> blob_at (idx s') (br_digest b) = Some b
      \<and> has_hash (br_hash b) s'" by auto
    have "grown K {b} s ?s1"
      using add(2) by (auto simp: grown_def add_data_def has_hash_def)
    with v grown_trans show ?thesis by auto
  qed
qed

section \<open>A whole release\<close>

lemma fetch_all_spec:
  assumes honest: "honest_download K E"
  shows "store_ok K s \<Longrightarrow> list_all (\<lambda>b. digest_ok (br_digest b)) bs \<Longrightarrow>
    fold_op (fetch_step K E r providers) bs acc s = (s', res) \<Longrightarrow>
    store_ok K s' \<and> grown K (set bs) s s'
    \<and> (\<forall>x. res = Inr x \<longrightarrow> list_all (\<lambda>b. has_hash (br_hash b) s' \<and> blob_at (idx s') (br_digest b) \<noteq> None) bs)"
proof (induction bs arbitrary: s acc)
  case Nil
  then show ?case by (auto simp: grown_refl)
next
  case (Cons b bs)
  obtain s1 r1 where one: "fetch_blob K E providers b s = (s1, r1)" by force
  have d: "digest_ok (br_digest b)" using Cons.prems(2) by simp
  from fetch_blob_spec [OF Cons.prems(1) honest d one]
  have b: "store_ok K s1" "grown K {b} s s1"
    "r1 = Inr () \<longrightarrow> has_hash (br_hash b) s1 \<and> blob_at (idx s1) (br_digest b) \<noteq> None" by auto
  have g1: "grown K (set (b # bs)) s s1" by (rule grown_mono [OF b(2)]) simp
  show ?case
  proof (cases r1)
    case (Inl e)
    with Cons.prems(3) one have "s' = s1" "res = Inl e" by (simp_all add: fetch_step_def then_do_def)
    with b(1) g1 show ?thesis by simp
  next
    case (Inr u)
    let ?acc = "(fst acc + 1, snd acc + br_size b)"
    let ?s2 = "progress r (fst ?acc) (snd ?acc) s1"
    have "fetch_step K E r providers b acc s = (?s2, Inr ?acc)"
      using one Inr by (simp add: fetch_step_def then_do_def Let_def)
    with Cons.prems(3) have run: "fold_op (fetch_step K E r providers) bs ?acc ?s2 = (s', res)" by simp
    have ok2: "store_ok K ?s2" unfolding progress_def by (rule emit_store_ok [OF b(1)])
    have g2: "grown K (set (b # bs)) s ?s2" unfolding progress_def by (rule grown_emit [OF g1])
    have "list_all (\<lambda>b. digest_ok (br_digest b)) bs" using Cons.prems(2) by simp
    from Cons.IH [OF ok2 this run] have rest: "store_ok K s'" "grown K (set bs) ?s2 s'"
      "\<forall>x. res = Inr x \<longrightarrow> list_all (\<lambda>b. has_hash (br_hash b) s' \<and> blob_at (idx s') (br_digest b) \<noteq> None) bs"
      by auto
    have g3: "grown K (set (b # bs)) ?s2 s'" by (rule grown_mono [OF rest(2)]) auto
    have "has_hash (br_hash b) ?s2" "blob_at (idx ?s2) (br_digest b) \<noteq> None"
      using b(3) Inr by (simp_all add: progress_def emit_def has_hash_def)
    then have "has_hash (br_hash b) s'" "blob_at (idx s') (br_digest b) \<noteq> None"
      using grown_has [OF g3] grown_entry [OF g3 d] by simp_all
    with rest grown_trans [OF g2 g3] show ?thesis by auto
  qed
qed

text \<open>The release file is written last, once every blob is there.\<close>

lemma inflight_store_ok:
  assumes "store_ok K s"
  shows "store_ok K (s\<lparr>inflight := fl\<rparr>)"
proof (rule store_ok_same [OF assms])
  show "index_ok K (idx (s\<lparr>inflight := fl\<rparr>))" using assms by (simp add: store_ok_def)
qed simp_all

text \<open>What a fetch does to the node, as a relation between the states before and after it.\<close>

definition fetched :: "'z crates_scheme \<Rightarrow> release \<Rightarrow> bool \<Rightarrow> node \<Rightarrow> node \<Rightarrow> bool" where
  "fetched K r done_all s s' \<longleftrightarrow> same_rest s s'
     \<and> (\<forall>sl. release_at K (idx s') sl = (if done_all \<and> sl = slot_of r
            \<and> (\<forall>ex. release_at K (idx s) sl = Some ex \<longrightarrow> supersedes r ex) then Some r else release_at K (idx s) sl))
     \<and> (\<forall>h x. tget (blob_data s) h = Some x \<longrightarrow> tget (blob_data s') h = Some x)
     \<and> (\<forall>d. digest_ok d \<longrightarrow> blob_at (idx s') d = blob_at (idx s) d
          \<or> (\<exists>b \<in> set (all_blobs r). br_digest b = d \<and> blob_at (idx s') d = Some b))
     \<and> (done_all \<longrightarrow> list_all (\<lambda>b. has_hash (br_hash b) s' \<and> blob_at (idx s') (br_digest b) \<noteq> None) (all_blobs r))"

lemma grown_fetched: "grown K (set (all_blobs r)) s s' \<Longrightarrow> fetched K r False s s'"
  by (simp add: grown_def fetched_def)

lemma fetch_inner_spec:
  assumes ok: "store_ok K s" and keys: "key_laws K" and honest: "honest_download K E" and dig: "digests_ok r"
    and run: "fetch_release_inner K E r ps s = (s', res)"
  shows "store_ok K s' \<and> fetched K r (res = Inr ()) s s'"
proof -
  let ?ps = "filter (\<lambda>p. p \<noteq> node_id K s) ps" and ?s1 = "progress r 0 0 s"
  have ok1: "store_ok K ?s1" unfolding progress_def by (rule emit_store_ok [OF ok])
  have g1: "grown K (set (all_blobs r)) s ?s1" unfolding progress_def by (rule grown_emit [OF grown_refl])
  obtain s2 r2 where all: "fold_op (fetch_step K E r ?ps) (all_blobs r) (0, 0) ?s1 = (s2, r2)" by force
  have digs: "list_all (\<lambda>b. digest_ok (br_digest b)) (all_blobs r)" using dig by (simp add: digests_ok_def)
  note two = fetch_all_spec [OF honest ok1 digs all]
  then have ok2: "store_ok K s2" and g2: "grown K (set (all_blobs r)) s s2"
    using grown_trans [OF g1] by blast+
  show ?thesis
  proof (cases r2)
    case (Inl e)
    with run all have "s' = s2" "res \<noteq> Inr ()" by (auto simp: fetch_release_inner_def Let_def then_do_def)
    with ok2 grown_fetched [OF g2] show ?thesis by simp
  next
    case (Inr acc)
    obtain ix b where put: "put_release K (idx s2) r = (ix, b)" by force
    have "index_ok K (idx s2)" using ok2 by (simp add: store_ok_def)
    note p = put_release_spec [OF this keys dig put]
    have ok3: "store_ok K (s2\<lparr>idx := ix\<rparr>)"
      by (rule store_ok_same [OF ok2]) (use p in simp_all)
    obtain s3 where s3: "s' = s3" "store_ok K s3" "idx s3 = ix" "blob_data s3 = blob_data s2" "same_rest s2 s3"
        "res = Inr () \<longleftrightarrow> (\<exists>c. b = Inr c)"
    proof (cases b)
      case (Inl e)
      with run all Inr put have "s' = s2\<lparr>idx := ix\<rparr>" "res \<noteq> Inr ()"
        by (auto simp: fetch_release_inner_def Let_def then_do_def on_index_def)
      with that [of "s2\<lparr>idx := ix\<rparr>"] ok3 Inl show ?thesis by simp
    next
      case Inr': (Inr c)
      let ?e = "ReleaseSaved (p_publisher (payload r)) (p_name (payload r)) (p_tag (payload r)) (length (all_blobs r))"
      have "s' = emit ?e (s2\<lparr>idx := ix\<rparr>)" "res = Inr ()"
        using run all Inr Inr' put by (auto simp: fetch_release_inner_def Let_def then_do_def on_index_def)
      with that [of "emit ?e (s2\<lparr>idx := ix\<rparr>)"] emit_store_ok [OF ok3] Inr' show ?thesis by (simp add: emit_def)
    qed
    have "fetched K r (res = Inr ()) s s3"
      unfolding fetched_def
    proof (intro conjI)
      show "same_rest s s3" using g2 s3(5) same_rest_trans unfolding grown_def by blast
      show "\<forall>sl. release_at K (idx s3) sl = (if res = Inr () \<and> sl = slot_of r
          \<and> (\<forall>ex. release_at K (idx s) sl = Some ex \<longrightarrow> supersedes r ex) then Some r else release_at K (idx s) sl)"
        using p g2 s3(3,6) unfolding grown_def by auto
      show "\<forall>h x. tget (blob_data s) h = Some x \<longrightarrow> tget (blob_data s3) h = Some x"
        using g2 s3(4) by (simp add: grown_def)
      show "\<forall>d. digest_ok d \<longrightarrow> blob_at (idx s3) d = blob_at (idx s) d
          \<or> (\<exists>b \<in> set (all_blobs r). br_digest b = d \<and> blob_at (idx s3) d = Some b)"
        using p g2 s3(3) by (simp add: grown_def)
      show "res = Inr () \<longrightarrow> list_all (\<lambda>b. has_hash (br_hash b) s3 \<and> blob_at (idx s3) (br_digest b) \<noteq> None) (all_blobs r)"
        using two Inr p s3(3,4) by (simp add: has_hash_def)
    qed
    with s3 show ?thesis by simp
  qed
qed

lemma fetched_frame:
  assumes "fetched K r b s s'" "same_rest t s" "idx t = idx s" "blob_data t = blob_data s"
    and "same_rest s' t'" "idx t' = idx s'" "blob_data t' = blob_data s'"
  shows "fetched K r b t t'"
proof -
  have "same_rest t t'"
    by (rule same_rest_trans [OF assms(2) same_rest_trans [OF _ assms(5)]]) (use assms(1) in \<open>simp add: fetched_def\<close>)
  then show ?thesis
    using assms(1) unfolding fetched_def has_hash_def assms(3,4,6,7) by simp
qed

lemma fetch_release_spec:
  assumes ok: "store_ok K s" and keys: "key_laws K" and honest: "honest_download K E" and dig: "digests_ok r"
    and run: "fetch_release K E r ps s = (s', res)"
  shows "store_ok K s' \<and> fetched K r (res = Inr ()) s s' \<and> (res = Inr () \<longrightarrow> release_verify K r = Inr ())
     \<and> (release_verify K r \<noteq> Inr () \<longrightarrow> s' = s)"
proof (cases "release_verify K r")
  case (Inl e)
  with run have "s' = s" "res = Inl e" by (simp_all add: fetch_release_def)
  with ok show ?thesis by (simp add: grown_fetched [OF grown_refl])
next
  case (Inr u)
  let ?s1 = "s\<lparr>inflight := insert (reference K r) (inflight s)\<rparr>"
  obtain s2 r2 where inner: "fetch_release_inner K E r ps ?s1 = (s2, r2)" by force
  note spec = fetch_inner_spec [OF inflight_store_ok [OF ok] keys honest dig inner]
  let ?s3 = "s2\<lparr>inflight := inflight s2 - {reference K r}\<rparr>"
  have ok3: "store_ok K ?s3" by (rule inflight_store_ok) (use spec in simp)
  show ?thesis
  proof (cases r2)
    case (Inl e)
    let ?s4 = "emit (FetchFailed (p_publisher (payload r)) (p_name (payload r)) (p_tag (payload r)) e) ?s3"
    have s': "s' = ?s4" "res = Inl e" using run Inr inner Inl by (simp_all add: fetch_release_def Let_def)
    moreover have "fetched K r False s ?s4"
      by (rule fetched_frame [of K r False ?s1 s2]) (use spec Inl in \<open>simp_all add: emit_def\<close>)
    ultimately show ?thesis using emit_store_ok [OF ok3] Inr by simp
  next
    case ok2: (Inr u2)
    have s': "s' = ?s3" "res = Inr ()" using run Inr inner ok2 by (simp_all add: fetch_release_def Let_def)
    moreover have "fetched K r True s ?s3"
      by (rule fetched_frame [of K r True ?s1 s2]) (use spec ok2 in simp_all)
    ultimately show ?thesis using ok3 Inr by simp
  qed
qed

end
