(* ===== verification/Replication_Progress.thy ===== *)
theory Replication_Progress
  imports Replication_Safety
begin

text \<open>
  That replication gets anywhere: a release whose blobs a provider of good faith has is fetched, and an
  announced release that the policy wants ends up in the node, complete and inside its window.
\<close>

lemma fetchedD:
  assumes "fetched K r b s s'"
  shows "same_rest s s'"
    "release_at K (idx s') sl = (if b \<and> sl = slot_of r
       \<and> (\<forall>ex. release_at K (idx s) sl = Some ex \<longrightarrow> supersedes r ex) then Some r else release_at K (idx s) sl)"
    "tget (blob_data s) h = Some x \<Longrightarrow> tget (blob_data s') h = Some x"
    "b \<Longrightarrow> list_all (\<lambda>b. has_hash (br_hash b) s' \<and> blob_at (idx s') (br_digest b) \<noteq> None) (all_blobs r)"
  using assms unfolding fetched_def by (blast, blast, blast, blast)

section \<open>Room for a release\<close>

lemma put_blob_keeps_room:
  assumes "put_blob_ref ix b = Inr ix'"
  shows "slot_free K ix' sl = slot_free K ix sl"
proof -
  let ?p = "digest_path (br_digest b)"
  have "?p \<noteq> []" by (simp add: digest_path_def)
  note get = write_atomic_get(1) [OF assms [unfolded put_blob_ref_def] this]
  have "tget ix' q = tget ix q" if "\<exists>r. q = ''releases'' # r" for q
    using get [of q] that dirs_of_digest [of q "br_digest b"] by (auto simp: digest_path_def)
  moreover have "\<exists>r. slot_path K sl = ''releases'' # r" by (cases sl) (simp add: slot_path_def)
  ultimately show ?thesis
    using dirs_of_slot unfolding slot_free_def by (metis (no_types, lifting))
qed

lemma record_blob_keeps_room:
  assumes "record_blob b s = (s', Inr ())"
  shows "slot_free K (idx s') sl = slot_free K (idx s) sl \<and> blob_data s' = blob_data s"
proof -
  let ?s1 = "set_tag (tag_name (br_digest b)) (br_hash b) s"
  obtain ix where "put_blob_ref (idx ?s1) b = Inr ix" "s' = ?s1\<lparr>idx := ix\<rparr>"
    using assms by (auto simp: record_blob_def index_put_blob_def on_index_def split: sum.splits)
  with put_blob_keeps_room [of "idx ?s1" b ix K sl] show ?thesis by (simp add: set_tag_def)
qed

section \<open>A provider of good faith\<close>

text \<open>A peer has a blob: whenever it is among the providers, the downloader obtains data of the right
  digest and size.\<close>

definition provides :: "'z node_crates_scheme \<Rightarrow> node_env \<Rightarrow> public_key \<Rightarrow> blob_ref \<Rightarrow> bool" where
  "provides K E peer b \<longleftrightarrow> (\<exists>bs. digest_sha256 K bs = br_digest b \<and> of_nat (length bs) = br_size b
     \<and> (\<forall>ps. peer \<in> set ps \<longrightarrow> env_download E (br_hash b) ps = Some bs))"

text \<open>What the node has under the hashes of \<open>bs\<close> is what the downloader would give.\<close>

definition agrees :: "node_env \<Rightarrow> public_key \<Rightarrow> blob_ref list \<Rightarrow> node \<Rightarrow> bool" where
  "agrees E peer bs s \<longleftrightarrow> list_all (\<lambda>b. \<forall>x ps. tget (blob_data s) (br_hash b) = Some x
     \<longrightarrow> peer \<in> set ps \<longrightarrow> env_download E (br_hash b) ps = Some x) bs"

lemma fetch_blob_succeeds:
  assumes ok: "store_ok K s" and honest: "honest_download K E" and d: "digest_ok (br_digest b)"
    and peer: "peer \<in> set ps" "provides K E peer b" and ag: "agrees E peer bs s" "b \<in> set bs"
  obtains s' where "fetch_blob K E ps b s = (s', Inr ())" "agrees E peer bs s'"
    "slot_free K (idx s') sl = slot_free K (idx s) sl"
proof -
  obtain x where x: "digest_sha256 K x = br_digest b" "of_nat (length x) = br_size b"
    "\<And>ps. peer \<in> set ps \<Longrightarrow> env_download E (br_hash b) ps = Some x"
    using peer unfolding provides_def by blast
  note down = x(3) [OF peer(1)]
  have rec: "\<exists>t'. verify_and_record K b t = (t', Inr ()) \<and> slot_free K (idx t') sl = slot_free K (idx t) sl
      \<and> blob_data t' = blob_data t"
    if t: "store_ok K t" "tget (blob_data t) (br_hash b) = Some x" for t
  proof -
    have v: "verify_blob K b t = Inr ()" using t(2) x by (auto simp: verify_blob_iff)
    obtain ix where rec: "record_blob b t
        = (t\<lparr>pin_tags := tput (tag_name (br_digest b)) (br_hash b) (pin_tags t), idx := ix\<rparr>, Inr ())"
      by (rule record_blob_spec [OF t(1) d v])
    then have "verify_and_record K b t
        = (t\<lparr>pin_tags := tput (tag_name (br_digest b)) (br_hash b) (pin_tags t), idx := ix\<rparr>, Inr ())"
      using v by (simp add: verify_and_record_def then_do_def)
    with record_blob_keeps_room [OF rec] show ?thesis by blast
  qed
  show ?thesis
  proof (cases "has_hash (br_hash b) s")
    case True
    then obtain y where y: "tget (blob_data s) (br_hash b) = Some y" by (auto simp: has_hash_def)
    with ag peer(1) down have "tget (blob_data s) (br_hash b) = Some x" by (auto simp: agrees_def list_all_iff)
    note rec = rec [OF ok this]
    have get: "blob_ref_get (idx s) (br_digest b) = Inr (blob_at (idx s) (br_digest b))"
      by (rule blob_ref_get_ok [where K = K]) (use ok in \<open>simp add: store_ok_def\<close>)
    show ?thesis
    proof (cases "blob_at (idx s) (br_digest b)")
      case None
      with True get have "fetch_blob K E ps b s = verify_and_record K b s" by (simp add: fetch_blob_def then_do_def)
      with rec that ag(1) show ?thesis by (auto simp: agrees_def)
    next
      case (Some c)
      with True get have "fetch_blob K E ps b s = (s, Inr ())" by (simp add: fetch_blob_def then_do_def)
      with that ag(1) show ?thesis by (auto simp: agrees_def)
    qed
  next
    case False
    let ?s1 = "add_data (br_hash b) x s"
    have h: "blake3_of K x = br_hash b" using honest down by (simp add: honest_download_def)
    note add = add_data_ok [OF ok h]
    have "tget (blob_data ?s1) (br_hash b) = Some x" using add(2) False by simp
    from rec [OF add(1) this] obtain s' where s': "verify_and_record K b ?s1 = (s', Inr ())"
      "slot_free K (idx s') sl = slot_free K (idx s) sl" "blob_data s' = blob_data ?s1"
      using False by (auto simp: add_data_def)
    have "ps \<noteq> []" using peer by auto
    then have "fetch_blob K E ps b s = (s', Inr ())"
      using False down s'(1) by (simp add: fetch_blob_def then_do_def fetch_data_def)
    moreover have "agrees E peer bs s'"
      using ag(1) x(3) unfolding agrees_def s'(3) add(2) by (auto simp: list_all_iff)
    ultimately show ?thesis using that s'(2) by blast
  qed
qed

lemma fetch_all_succeeds:
  assumes honest: "honest_download K E" and peer: "peer \<in> set ps"
  shows "store_ok K s \<Longrightarrow> list_all (\<lambda>b. digest_ok (br_digest b) \<and> provides K E peer b) bs \<Longrightarrow> agrees E peer cs s
    \<Longrightarrow> set bs \<subseteq> set cs \<Longrightarrow> \<exists>s' acc'. fold_op (fetch_step K E r ps) bs acc s = (s', Inr acc')
      \<and> slot_free K (idx s') sl = slot_free K (idx s) sl \<and> agrees E peer cs s'"
proof (induction bs arbitrary: s acc)
  case (Cons b bs)
  have d: "digest_ok (br_digest b)" and pr: "provides K E peer b" using Cons.prems(2) by simp_all
  have here: "b \<in> set cs" "set bs \<subseteq> set cs" using Cons.prems(4) by simp_all
  obtain s1 where s1: "fetch_blob K E ps b s = (s1, Inr ())" "agrees E peer cs s1"
    "slot_free K (idx s1) sl = slot_free K (idx s) sl"
    by (rule fetch_blob_succeeds [OF Cons.prems(1) honest d peer pr Cons.prems(3) here(1)])
  let ?acc = "(fst acc + 1, snd acc + br_size b)"
  let ?s2 = "progress r (fst ?acc) (snd ?acc) s1"
  have step: "fetch_step K E r ps b acc s = (?s2, Inr ?acc)"
    using s1(1) by (simp add: fetch_step_def then_do_def Let_def)
  have "store_ok K s1" using fetch_blob_spec [OF Cons.prems(1) honest d s1(1)] by simp
  then have ok2: "store_ok K ?s2" unfolding progress_def by (rule emit_store_ok)
  have same: "idx ?s2 = idx s1" "agrees E peer cs ?s2"
    using s1(2) by (simp_all add: progress_def emit_def agrees_def)
  have "list_all (\<lambda>b. digest_ok (br_digest b) \<and> provides K E peer b) bs" using Cons.prems(2) by simp
  from Cons.IH [OF ok2 this same(2) here(2), of ?acc] show ?case
    using step s1(3) unfolding same(1) by simp
qed simp

lemma fetch_release_succeeds:
  assumes ok: "store_ok K s" and honest: "honest_download K E"
    and r: "release_verify K r = Inr ()" "digests_ok r" "slot_free K (idx s) (slot_of r)"
    and peer: "peer \<in> set ps" "peer \<noteq> node_id K s" "list_all (provides K E peer) (all_blobs r)"
    and ag: "agrees E peer (all_blobs r) s"
  obtains s' where "fetch_release K E r ps s = (s', Inr ())" "agrees E peer (all_blobs r) s'"
proof -
  let ?s1 = "s\<lparr>inflight := insert (reference K r) (inflight s)\<rparr>"
  let ?ps = "filter (\<lambda>p. p \<noteq> node_id K s) ps" and ?s2 = "progress r 0 0 ?s1"
  have ok2: "store_ok K ?s2"
    unfolding progress_def by (rule emit_store_ok [OF inflight_store_ok [OF ok]])
  have in_ps: "peer \<in> set ?ps" using peer by simp
  have blobs: "list_all (\<lambda>b. digest_ok (br_digest b) \<and> provides K E peer b) (all_blobs r)"
    using r(2) peer(3) by (simp add: digests_ok_def list_all_iff)
  have same: "agrees E peer (all_blobs r) ?s2" "idx ?s2 = idx s"
    using ag by (simp_all add: agrees_def progress_def emit_def)
  from fetch_all_succeeds [OF honest in_ps ok2 blobs same(1) subset_refl, of r "(0, 0)" "slot_of r"] obtain s3 acc
    where all: "fold_op (fetch_step K E r ?ps) (all_blobs r) (0, 0) ?s2 = (s3, Inr acc)"
    and free: "slot_free K (idx s3) (slot_of r)" and ag3: "agrees E peer (all_blobs r) s3"
    using r(3) same(2) by auto
  have digs: "list_all (\<lambda>b. digest_ok (br_digest b)) (all_blobs r)" using r(2) by (simp add: digests_ok_def)
  have "store_ok K s3" using fetch_all_spec [OF honest ok2 digs all] by simp
  then have "index_ok K (idx s3)" by (simp add: store_ok_def)
  from put_release_free [OF this release_verify_slot [OF r(1)] r(2) free]
  obtain ix c where put: "put_release K (idx s3) r = (ix, Inr c)" by (cases "put_release K (idx s3) r") auto
  have id: "node_id K ?s1 = node_id K s" by (simp add: node_id_def)
  let ?s4 = "emit (ReleaseSaved (p_publisher (payload r)) (p_name (payload r)) (p_tag (payload r))
      (length (all_blobs r))) (s3\<lparr>idx := ix\<rparr>)"
  have "fetch_release_inner K E r ps ?s1 = (?s4, Inr ())"
    using all put unfolding fetch_release_inner_def Let_def id then_do_def by (simp add: on_index_def)
  moreover have "agrees E peer (all_blobs r) (?s4\<lparr>inflight := fl\<rparr>)" for fl
    using ag3 by (simp add: agrees_def emit_def)
  ultimately show ?thesis using that r(1) by (simp add: fetch_release_def Let_def)
qed

section \<open>Windows with an offer\<close>

text \<open>A release that is offered is wanted by the policy, if it takes a place of the window of its image.\<close>

definition wanted :: "'z crates_scheme \<Rightarrow> node \<Rightarrow> release \<Rightarrow> bool" where
  "wanted K s r \<longleftrightarrow>
     (let w = policy_window K (node_policy s) (p_publisher (payload r)) (p_name (payload r));
          held = map tag_and_time (image_releases K (idx s) (repo_of r))
      in (p_tag (payload r) \<in> w_tags w \<or> w_full w
            \<or> rank_of held (p_tag (payload r)) (p_timestamp (payload r)) < w_last w)
       \<and> (\<forall>ts. (p_tag (payload r), ts) \<in> set held \<longrightarrow> ts < p_timestamp (payload r)))"

lemma take_dedup_tags: "fst ` set (take n xs) \<subseteq> fst ` set (take n (dedup_tags xs))"
proof (induction xs arbitrary: n rule: dedup_tags.induct)
  case (3 x y xs)
  show ?case
  proof (cases n)
    case (Suc m)
    show ?thesis
    proof (cases "fst y = fst x")
      case True
      have "set (take (m - 1) xs) \<subseteq> set (take m xs)" by (rule set_take_subset_set_take) simp
      then have "fst ` set (take n (x # y # xs)) \<subseteq> fst ` set (take n (x # xs))"
        using True Suc by (cases m) auto
      with 3(1) [OF True, of n] True show ?thesis by simp
    next
      case False
      with 3(2) [OF False, of m] Suc show ?thesis by auto
    qed
  qed simp
qed simp_all

lemma offered_selected:
  assumes held: "distinct (map fst held)" "\<And>old. (t, old) \<in> set held \<Longrightarrow> old < ts"
    and w: "t \<in> w_tags w \<or> w_full w \<or> rank_of held t ts < w_last w"
  shows "t \<in> window_select w (held @ [(t, ts)])"
proof -
  let ?known = "held @ [(t, ts)]"
  have "(t, ts) \<notin> set held" using held(2) by blast
  then have d: "distinct ?known" using held(1) by (simp add: distinct_map)
  have "rank_of ?known t ts = rank_of held t ts"
    unfolding rank_of_def by (rule arg_cong [where f = card]) auto
  then have "t \<in> fst ` set (take n (newest_first ?known))" if "rank_of held t ts < n" for n
    using in_take_newest [OF d, of t ts n] that by force
  then have "t \<in> fst ` set (take n (dedup_tags (newest_first ?known)))" if "rank_of held t ts < n" for n
    using take_dedup_tags that by blast
  moreover have "t \<in> fst ` set (dedup_tags (newest_first ?known))"
  proof -
    have "(t, ts) \<in> set (newest_first ?known)" by (simp add: newest_first_set)
    then show ?thesis
      using take_dedup_tags [of "length (newest_first ?known) + length (dedup_tags (newest_first ?known))"
          "newest_first ?known"] by force
  qed
  ultimately show ?thesis
    using w by (auto simp: window_select_def Let_def)
qed

lemma select_wanted_offer:
  assumes ok: "store_ok K s" and keys: "key_laws K" and n: "name_ok (p_name (payload r))" and w: "wanted K s r"
  shows "select_wanted K (node_policy s) (p_publisher (payload r)) (p_name (payload r)) [summary_of r] s
     = Inr [summary_of r]"
proof -
  let ?p = "p_publisher (payload r)" and ?n = "p_name (payload r)" and ?t = "p_tag (payload r)"
  let ?w = "policy_window K (node_policy s) ?p ?n" and ?ts = "p_timestamp (payload r)"
  have ix: "index_ok K (idx s)" using ok by (simp add: store_ok_def)
  obtain held where held: "local_releases_of K ?p ?n s = Inr held"
    "set held = set (image_releases K (idx s) (?p, ?n))" "distinct (map fst (map tag_and_time held))"
    by (rule local_releases_spec [OF ix keys n]) (rule that)
  let ?here = "map tag_and_time held"
  have w': "?t \<in> w_tags ?w \<or> w_full ?w \<or> rank_of ?here ?t ?ts < w_last ?w"
    and old: "\<And>ts. (?t, ts) \<in> set ?here \<Longrightarrow> ts < ?ts"
    using w by (auto simp: wanted_def Let_def repo_of_def rank_of_def held(2))
  have "\<not> window_is_empty ?w" using w' by (auto simp: window_is_empty_def)
  moreover have "?t \<in> window_select ?w (?here @ [(?t, ?ts)])"
    by (rule offered_selected [OF held(3) old w'])
  moreover have "(case tget ?here ?t of None \<Rightarrow> True | Some ts \<Rightarrow> ?ts > ts)"
    using old tget_SomeD by (fastforce split: option.splits)
  ultimately show ?thesis
    using held(1) by (simp add: select_wanted_def Let_def summary_of_def cong: option.case_cong)
qed

text \<open>Once it is held in the place of what was there, it is inside the window.\<close>

lemma wanted_in_window:
  assumes ix: "index_ok K (idx s)" "index_ok K (idx s')" and keys: "key_laws K" and pol: "node_policy s' = node_policy s"
    and rel: "\<And>sl. release_at K (idx s') sl = (if sl = slot_of r then Some r else release_at K (idx s) sl)"
    and w: "wanted K s r"
  shows "in_window K s' r"
proof -
  let ?p = "p_publisher (payload r)" and ?n = "p_name (payload r)" and ?t = "p_tag (payload r)"
  let ?w = "policy_window K (node_policy s) ?p ?n" and ?ts = "p_timestamp (payload r)"
  let ?held = "\<lambda>s. map tag_and_time (image_releases K (idx s) (repo_of r))"
  have repo: "repo_of r = (?p, ?n)" by (simp add: repo_of_def)
  have new: "x \<in> set (image_releases K (idx s') (repo_of r)) \<longleftrightarrow> x = r
      \<or> x \<in> set (image_releases K (idx s) (repo_of r)) \<and> p_tag (payload x) \<noteq> ?t" for x
    unfolding repo image_releases_set [OF ix(1) keys] image_releases_set [OF ix(2) keys] rel
    by (auto simp: slot_of_def)
  have pairs: "(t', ts') \<in> set (?held s') \<longleftrightarrow> (t', ts') = (?t, ?ts) \<or> t' \<noteq> ?t \<and> (t', ts') \<in> set (?held s)" for t' ts'
    unfolding set_map tag_and_time_def image_iff Bex_def new by auto
  have old: "ts' < ?ts" if "(?t, ts') \<in> set (?held s)" for ts'
    using w that by (simp add: wanted_def Let_def)
  have sets: "{(t', ts') \<in> M'. (?ts, ?t) < (ts', t')} = {(t', ts') \<in> M. (?ts, ?t) < (ts', t')}"
    if "\<And>t' ts'. (t', ts') \<in> M' \<longleftrightarrow> (t', ts') = (?t, ?ts) \<or> t' \<noteq> ?t \<and> (t', ts') \<in> M"
      "\<And>ts'. (?t, ts') \<in> M \<Longrightarrow> ts' < ?ts" for M M'
    by (rule set_eqI) (use that in \<open>auto dest: less_trans\<close>)
  note above = sets [OF pairs old]
  have "(?t, ?ts) \<in> set (?held s')" by (simp add: pairs del: set_map)
  moreover have "?t \<in> w_tags ?w \<or> w_full ?w \<or> rank_of (?held s') ?t ?ts < w_last ?w"
    using w above by (auto simp: wanted_def Let_def rank_of_def)
  ultimately show ?thesis
    unfolding in_window_def pol window_select_iff [OF image_releases_tags [OF ix(2) keys]] by blast
qed

section \<open>A peer that answers\<close>

definition answers :: "'z net_crates_scheme \<Rightarrow> node_env \<Rightarrow> public_key \<Rightarrow> request \<Rightarrow> release \<Rightarrow> bool" where
  "answers K E peer rq r \<longleftrightarrow> env_connect E peer
     \<and> (\<exists>bs. env_reply E peer rq = Some (Release_resp (Some bs)) \<and> release_of_json K bs = Some r)"

lemma answers_release: "answers K E peer rq r \<Longrightarrow> and_then (sync_request E peer rq) (into_release K) = Inr (Some r)"
  by (auto simp: answers_def sync_request_def request_on_def into_release_def)

definition offers :: "'z net_crates_scheme \<Rightarrow> node_env \<Rightarrow> public_key \<Rightarrow> request \<Rightarrow> release \<Rightarrow> node \<Rightarrow> bool" where
  "offers K E peer rq r s \<longleftrightarrow> answers K E peer rq r \<and> list_all (provides K E peer) (all_blobs r)
     \<and> agrees E peer (all_blobs r) s \<and> release_verify K r = Inr () \<and> digests_ok r"

text \<open>What is wanted is newer than what is held in its place, and it stays when the window is enforced.\<close>

lemma wanted_supersedes:
  assumes ix: "index_ok K (idx s)" and keys: "key_laws K" and w: "wanted K s r"
    and ex: "release_at K (idx s) (slot_of r) = Some ex"
  shows "supersedes r ex"
proof -
  have "slot_of ex = slot_of r" using release_at_slot [OF ix keys ex] by simp
  then have same: "repo_of ex = repo_of r" "p_tag (payload ex) = p_tag (payload r)" by (simp_all add: slot_of_def repo_of_def)
  have "ex \<in> set (image_releases K (idx s) (repo_of r))"
    using ex same unfolding repo_of_def [of r] image_releases_set [OF ix keys] by (simp add: slot_of_def)
  then have "(p_tag (payload r), p_timestamp (payload ex)) \<in> set (map tag_and_time (image_releases K (idx s) (repo_of r)))"
    using same unfolding set_map by (intro image_eqI [of _ _ ex]) (simp_all add: tag_and_time_def)
  with w have "p_timestamp (payload ex) < p_timestamp (payload r)" unfolding wanted_def Let_def by blast
  then show ?thesis by (simp add: supersedes_def)
qed

lemma wanted_is_kept:
  assumes ok: "store_ok K s" and keys: "key_laws K" and honest: "honest_download K E"
    and other: "p_publisher (payload r) \<noteq> node_id K s" and peer: "peer \<noteq> node_id K s" "peer \<in> set ps"
    and off: "offers K E peer rq r s" and free: "slot_free K (idx s) (slot_of r)" and w: "wanted K s r"
  shows "\<exists>s2 s3. fetch_release K E r ps s = (s2, Inr ())
    \<and> enforce_window K (p_publisher (payload r)) (p_name (payload r)) s2 = (s3, Inr ())
    \<and> release_at K (idx s3) (slot_of r) = Some r \<and> is_complete r s3 \<and> store_ok K s3"
proof -
  let ?p = "p_publisher (payload r)" and ?n = "p_name (payload r)"
  have r: "release_verify K r = Inr ()" "digests_ok r" "list_all (provides K E peer) (all_blobs r)"
    "agrees E peer (all_blobs r) s"
    using off by (simp_all add: offers_def)
  have name: "name_ok ?n" using release_verify_slot [OF r(1)] by (simp add: slot_ok_def)
  obtain s2 where s2: "fetch_release K E r ps s = (s2, Inr ())"
    by (rule fetch_release_succeeds [OF ok honest r(1,2) free peer(2,1) r(3,4)])
  note spec = fetch_release_spec [OF ok keys honest r(2) s2]
  then have ok2: "store_ok K s2" and f: "fetched K r True s s2" by simp_all
  have ix: "index_ok K (idx s)" "index_ok K (idx s2)" using ok ok2 by (simp_all add: store_ok_def)
  have rel: "release_at K (idx s2) sl = (if sl = slot_of r then Some r else release_at K (idx s) sl)" for sl
    using fetchedD(2) [OF f, of sl] wanted_supersedes [OF ix(1) keys w] by simp
  have same: "node_key s2 = node_key s" "node_policy s2 = node_policy s"
    using same_restD [OF fetchedD(1) [OF f]] by simp_all
  have inw: "in_window K s2 r" by (rule wanted_in_window [OF ix keys same(2) rel w])
  have "\<not> window_is_empty (policy_window K (node_policy s) ?p ?n)"
    using w by (auto simp: wanted_def Let_def window_is_empty_def)
  then have cov: "covers K (node_policy s2) ?p ?n" using same(2) by (simp add: covers_def)
  have other2: "?p \<noteq> node_id K s2" using other same(1) by (simp add: node_id_def)
  obtain s3 where s3: "enforce_window K ?p ?n s2 = (s3, Inr ())" "store_ok K s3"
    "\<And>sl. release_at K (idx s3) sl = keep_if (\<lambda>x. \<not> outside K s2 (?p, ?n) x) (release_at K (idx s2) sl)"
    "same_core s2 s3"
    by (rule enforce_window_spec [OF ok2 keys name other2 cov]) (rule that)
  have "release_at K (idx s3) (slot_of r) = Some r"
    using s3(3) [of "slot_of r"] rel [of "slot_of r"] inw by (simp add: outside_def)
  moreover have "is_complete r s3"
    using fetchedD(4) [OF f] same_coreD(1) [OF s3(4)] by (auto simp: is_complete_def has_hash_def list_all_iff)
  ultimately show ?thesis using s2 s3(1,2) by blast
qed

text \<open>What the state of the peers table and the event log has no part in.\<close>

lemma seen_emitted:
  assumes t: "t = emit e (note_peer_seen E q s)"
  shows "idx t = idx s" "pin_tags t = pin_tags s" "blob_data t = blob_data s" "node_policy t = node_policy s"
    "node_id K t = node_id K s" "store_ok K s \<Longrightarrow> store_ok K t"
proof -
  show same: "idx t = idx s" "pin_tags t = pin_tags s" "blob_data t = blob_data s" "node_policy t = node_policy s"
    "node_id K t = node_id K s"
    by (simp_all add: t emit_def note_peer_seen_def node_id_def)
  show "store_ok K s \<Longrightarrow> store_ok K t"
    using store_ok_same [of K s t] same by (simp add: store_ok_def)
qed

lemma summary_fields:
  "sum_publisher (summary_of r) = p_publisher (payload r)" "sum_name (summary_of r) = p_name (payload r)"
  "sum_tag (summary_of r) = p_tag (payload r)" "sum_timestamp (summary_of r) = p_timestamp (payload r)"
  by (simp_all add: summary_of_def)

section \<open>A network to evaluate on\<close>

text \<open>A release travels as the code of its signature and of its payload.\<close>

definition code_release :: "release \<Rightarrow> byte list" where
  "code_release r = code_string (signature r) @ code_payload (payload r)"

definition decode_release :: "byte list \<Rightarrow> release option" where
  "decode_release bs = (if bs \<in> code_release ` {r. digests_ok r} then Some (inv_into {r. digests_ok r} code_release bs)
     else None)"

lemma decode_code_release: "digests_ok r \<Longrightarrow> decode_release (code_release r) = Some r"
proof -
  have "inj_on code_release {r. digests_ok r}"
    by (rule inj_onI) (auto simp: code_release_def prefix_codeD [OF prefix_code_string] dest: code_payload_inject
        intro: release.equality)
  then show "digests_ok r \<Longrightarrow> decode_release (code_release r) = Some r"
    by (simp add: decode_release_def)
qed

lemma decode_release_digests: "decode_release bs = Some r \<Longrightarrow> digests_ok r"
  using inv_into_into [of bs code_release "{r. digests_ok r}"] by (auto simp: decode_release_def split: if_splits)

definition demo_net :: net_crates where
  "demo_net = node_crates.extend demo_node_crates \<lparr>release_json = code_release, release_of_json = decode_release,
     ticket_addr = (\<lambda>t. None), relay_url = (\<lambda>t. None)\<rparr>"

definition demo_net_env :: node_env where
  "demo_net_env = demo_env\<lparr>env_connect := (\<lambda>p. p = PublicKey 7),
     env_reply := (\<lambda>p rq. Some (Release_resp (Some (code_release (demo_app 7))))),
     env_download := (\<lambda>h ps. if h = blake3_of demo_net [1] \<and> PublicKey 7 \<in> set ps then Some [1] else None)\<rparr>"

lemma demo_net_laws: "hex_laws demo_net" "key_laws demo_net" "sign_laws demo_net" "sha_laws demo_net"
    "b58_laws demo_net"
  using demo_node_crate_laws
  by (simp_all add: demo_net_def node_crates.defs demo_node_crates_def codecs.defs hex_laws_def key_laws_def
      sign_laws_def sha_laws_def b58_laws_def demo_codecs_def crates.defs)

lemma demo_net_same:
  "release_sign demo_net = release_sign demo_node_crates" "digest_sha256 demo_net = digest_sha256 demo_node_crates"
  "blake3_of demo_net = blake3_of demo_node_crates" "node_id demo_net = node_id demo_node_crates"
  by (simp_all add: fun_eq_iff release_sign_def identity_id_def identity_sign_def canonical_bytes_def node_id_def
      digest_sha256_def digest_from_bytes_def Let_def demo_net_def node_crates.defs demo_node_crates_def codecs.defs
      demo_codecs_def crates.defs)

lemma demo_app_verifies: "release_verify demo_net (demo_app sk) = Inr ()"
  unfolding demo_app_def demo_net_same(1) [symmetric] release_sign_verifies [OF demo_net_laws(1,3)]
  using demo_app_ok by simp

lemma demo_net_honest: "honest_download demo_net demo_net_env"
  by (simp add: honest_download_def demo_net_env_def)

lemma demo_app_offered:
  assumes "blob_data s = []"
  shows "offers demo_net demo_net_env (PublicKey 7) rq (demo_app 7) s"
proof -
  have "env_connect demo_net_env (PublicKey 7)" "env_reply demo_net_env p rq = Some (Release_resp (Some (code_release (demo_app 7))))"
    "release_of_json demo_net (code_release (demo_app 7)) = Some (demo_app 7)" for p
    using decode_code_release [OF demo_app_shape(2)] by (simp_all add: demo_net_env_def demo_net_def node_crates.defs)
  moreover have "provides demo_net demo_net_env (PublicKey 7) (p_manifest (payload (demo_app 7)))"
    unfolding provides_def demo_app_fields demo_net_same by (rule exI [of _ "[1]"]) (simp add: demo_net_env_def demo_net_same)
  ultimately show ?thesis
    using assms demo_app_verifies demo_app_shape(2)
    by (simp add: offers_def answers_def agrees_def demo_app_fields)
qed

lemma demo_node_nothing: "release_at K (idx (demo_node pol)) sl = None" "blob_data (demo_node pol) = []"
    "idx (demo_node pol) = empty_index"
  by (simp_all add: demo_node_def release_at_def file_at_def empty_index_def slot_path_def split: prod.split)

lemma demo_node_ok: "store_ok demo_net (demo_node pol)"
proof -
  have "blob_at empty_index d = None" for d
    by (simp add: blob_at_def file_at_def empty_index_def digest_path_def)
  then show ?thesis
    using empty_index_ok [of demo_net] by (simp add: store_ok_def demo_node_nothing) (simp add: demo_node_def)
qed

section \<open>Properties\<close>

text \<open>C8: What a fetch leaves behind. Whatever peers send, the store stays sound. A fetch that fails changes
  no release. A fetch that succeeds was given a validly signed release, holds it or one it does not
  supersede in its place and every other release as before, and has the data of every blob; and for the
  digest of every blob the store has data with that SHA-256.\<close>

theorem fetch_release_sound:
  assumes "store_ok K s" "key_laws K" "honest_download K E" "digests_ok r"
    and "fetch_release K E r ps s = (s', res)"
  shows "store_ok K s' \<and> (case res of
      Inl e \<Rightarrow> \<forall>sl. release_at K (idx s') sl = release_at K (idx s) sl
    | Inr _ \<Rightarrow> release_verify K r = Inr () \<and> is_complete r s'
        \<and> (\<exists>x. release_at K (idx s') (slot_of r) = Some x \<and> (x = r \<or> \<not> supersedes r x))
        \<and> (\<forall>sl. sl \<noteq> slot_of r \<longrightarrow> release_at K (idx s') sl = release_at K (idx s) sl)
        \<and> list_all (\<lambda>b. \<exists>c bs. blob_at (idx s') (br_digest b) = Some c
             \<and> tget (blob_data s') (br_hash c) = Some bs \<and> digest_sha256 K bs = br_digest b) (all_blobs r))"
proof (cases res)
  case (Inl e)
  have "release_at K (idx s') sl = release_at K (idx s) sl" for sl
    using fetch_release_spec [OF assms] Inl by (simp add: fetched_def del: split_paired_All)
  then show ?thesis using fetch_release_spec [OF assms] Inl by simp
next
  case (Inr u)
  then have res: "res = Inr ()" by simp
  have ok': "store_ok K s'" and f: "fetched K r True s s'" and v: "release_verify K r = Inr ()"
    using fetch_release_spec [OF assms] res by simp_all
  have at: "release_at K (idx s') sl = (if sl = slot_of r \<and> (\<forall>ex. release_at K (idx s) sl = Some ex \<longrightarrow> supersedes r ex)
      then Some r else release_at K (idx s) sl)" for sl
    using fetchedD(2) [OF f] by simp
  have "\<exists>x. release_at K (idx s') (slot_of r) = Some x \<and> (x = r \<or> \<not> supersedes r x)"
    unfolding at [of "slot_of r"] by auto
  moreover have "\<forall>sl. sl \<noteq> slot_of r \<longrightarrow> release_at K (idx s') sl = release_at K (idx s) sl"
    by (simp add: at del: split_paired_All)
  moreover have "is_complete r s'" using f by (auto simp: fetched_def is_complete_def list_all_iff)
  moreover have "\<exists>c bs. blob_at (idx s') (br_digest b) = Some c
      \<and> tget (blob_data s') (br_hash c) = Some bs \<and> digest_sha256 K bs = br_digest b" if b: "b \<in> set (all_blobs r)" for b
  proof -
    obtain c where c: "blob_at (idx s') (br_digest b) = Some c"
      using f b by (auto simp: fetched_def list_all_iff)
    have "digest_ok (br_digest b)" using assms(4) b by (simp add: digests_ok_def list_all_iff)
    from store_blobD(3) [OF ok' this c] c show ?thesis by auto
  qed
  ultimately show ?thesis using ok' v res by (simp add: list_all_iff)
qed

theorem fetch_release_sound_witness:
  "\<exists>s'. fetch_release demo_net demo_net_env (demo_app 7) [PublicKey 7] (demo_node policy_default) = (s', Inr ())
     \<and> is_complete (demo_app 7) s'"
proof -
  let ?s = "demo_node policy_default" and ?r = "demo_app 7"
  have off: "offers demo_net demo_net_env (PublicKey 7) Inventory ?r ?s"
    by (rule demo_app_offered) (rule demo_node_nothing(2))
  have other: "PublicKey 7 \<noteq> node_id demo_net ?s"
    by (simp add: demo_net_same demo_node_id demo_node_def)
  have free: "slot_free demo_net (idx ?s) (slot_of ?r)" unfolding demo_node_nothing(3) by (rule empty_index_free)
  obtain s' where s': "fetch_release demo_net demo_net_env ?r [PublicKey 7] ?s = (s', Inr ())"
    by (rule fetch_release_succeeds [OF demo_node_ok demo_net_honest _ _ free, of "PublicKey 7" "[PublicKey 7]"])
       (use off other in \<open>simp_all add: offers_def\<close>)
  with fetch_release_sound [OF demo_node_ok demo_net_laws(2) demo_net_honest demo_app_shape(2) s'] show ?thesis by simp
qed

text \<open>C15: Replication gets there. Suppose a peer announces a release that the policy wants, answers the
  request for it and has its blobs. Then the node handles the announcement without an error, and
  afterwards it holds that very release, complete, with a sound store.\<close>

theorem announced_release_replicates:
  assumes "store_ok K s" "key_laws K" "honest_download K E"
    and "p_publisher (payload r) \<noteq> node_id K s" "peer \<noteq> node_id K s"
    and "offers K E peer (GetRelease (p_publisher (payload r)) (p_name (payload r)) (p_tag (payload r))) r s"
    and "slot_free K (idx s) (slot_of r)" "wanted K s r"
  shows "\<exists>s'. on_announcement K E (summary_of r) peer s = (s', Inr ())
    \<and> release_at K (idx s') (slot_of r) = Some r \<and> is_complete r s' \<and> store_ok K s'"
proof -
  let ?p = "p_publisher (payload r)" and ?n = "p_name (payload r)" and ?t = "p_tag (payload r)"
  let ?s1 = "emit (Gossip_event ?p ?n ?t False) (note_peer_seen E peer s)"
  let ?ps = "if ?p \<noteq> peer then [peer, ?p] else [peer]"
  note seen = seen_emitted [of ?s1 "Gossip_event ?p ?n ?t False" E peer s, OF refl]
  have ok1: "store_ok K ?s1" by (rule seen(6) [OF assms(1)])
  have off: "offers K E peer (GetRelease ?p ?n ?t) r ?s1" using assms(6) seen(3) by (simp add: offers_def agrees_def)
  then have "release_verify K r = Inr ()" unfolding offers_def by blast
  then have slot: "slot_ok r" by (rule release_verify_slot)
  have w: "wanted K ?s1 r" using assms(8) unfolding wanted_def seen(1,4) .
  have sel: "select_wanted K (node_policy ?s1) ?p ?n [summary_of r] ?s1 = Inr [summary_of r]"
    by (rule select_wanted_offer [OF ok1 assms(2) _ w]) (use slot in \<open>simp add: slot_ok_def\<close>)
  have in_ps: "peer \<in> set ?ps" by simp
  obtain s2 s3 where run: "fetch_release K E r ?ps ?s1 = (s2, Inr ())" "enforce_window K ?p ?n s2 = (s3, Inr ())"
    and s3: "release_at K (idx s3) (slot_of r) = Some r" "is_complete r s3" "store_ok K s3"
    using wanted_is_kept [OF ok1 assms(2,3) _ _ in_ps off _ w] assms(4,5,7) unfolding seen(1,5) by blast
  have "ask_providers K E (summary_of r) ?ps ?ps ?s1 = (s3, Inr ())"
    using answers_release [of K E peer "GetRelease ?p ?n ?t" r] assms(6) run
    by (auto simp: offers_def summary_fields then_do_def)
  then have "on_announcement K E (summary_of r) peer s = (s3, Inr ())"
    by (simp only: on_announcement_def then_do_ret then_do_lift summary_fields sel sum.case list.distinct(2)
        if_False Let_def)
  with s3 show ?thesis by blast
qed

lemma demo_no_images: "image_releases demo_net (idx (demo_node pol)) repo = []"
proof -
  obtain p n where repo: "repo = (p, n)" by (cases repo)
  have "x \<notin> set (image_releases demo_net empty_index (p, n))" for x
    unfolding image_releases_set [OF empty_index_ok demo_net_laws(2)] 
    using demo_node_nothing(1) [of demo_net pol "(p, n, p_tag (payload x))"] by (simp add: demo_node_nothing(3))
  then show ?thesis unfolding repo demo_node_nothing(3) by (meson last_in_set)
qed

lemma demo_free: "slot_free K (idx (demo_node pol)) sl"
  unfolding demo_node_nothing(3) by (rule empty_index_free)

theorem announced_release_replicates_witness:
  "\<exists>s'. on_announcement demo_net demo_net_env (summary_of (demo_app 7)) (PublicKey 7) (demo_node (demo_pins demo_net ''v1''))
     = (s', Inr ()) \<and> release_at demo_net (idx s') (demo_slot 7) = Some (demo_app 7)"
proof -
  let ?s = "demo_node (demo_pins demo_net ''v1'')"
  have off: "offers demo_net demo_net_env (PublicKey 7) rq (demo_app 7) ?s" for rq
    by (rule demo_app_offered) (rule demo_node_nothing(2))
  have other: "PublicKey 7 \<noteq> node_id demo_net ?s"
    by (simp add: demo_net_same demo_node_id demo_node_def)
  have "wanted demo_net ?s (demo_app 7)"
    using demo_pins_window [OF demo_net_laws(5,2) demo_app_ok(2)]
    by (simp add: wanted_def Let_def demo_app_fields demo_no_images) (simp add: demo_node_def)
  from announced_release_replicates [OF demo_node_ok demo_net_laws(2) demo_net_honest _ other off demo_free this]
  show ?thesis using other by (auto simp: demo_app_fields)
qed

text \<open>C38: Nothing ties an answer to the question. When the image is not there and the first peer that is asked
  answers with some validly signed release whose blobs it has, of whatever publisher, name and tag,
  \<open>get_or_fetch\<close> stores it and returns it as the release that was asked for.\<close>

theorem wrong_release_served:
  assumes "store_ok K s" "honest_download K E"
    and "get_release K (idx s) p n t = Inr None" "p \<noteq> node_id K s" "candidate_peers K p s = peer # peers"
    and "peer \<noteq> node_id K s" "offers K E peer (GetRelease p n t) r s" "slot_free K (idx s) (slot_of r)"
  shows "\<exists>s'. get_or_fetch K E p n t s = (s', Inr (Some r))"
proof -
  let ?ps = "if p \<noteq> peer then [peer, p] else [peer]"
  obtain s' where s': "fetch_release K E r ?ps s = (s', Inr ())"
    by (rule fetch_release_succeeds [OF assms(1,2) _ _ assms(8), of peer ?ps])
       (use assms(6,7) in \<open>simp_all add: offers_def\<close>)
  have "ask_peers K E p (GetRelease p n t) (peer # peers) s = (s', Inr (Some r))"
    using answers_release [of K E peer "GetRelease p n t" r] assms(7) s'
    by (auto simp: offers_def then_do_def)
  then show ?thesis using assms(3-5) by (simp add: get_or_fetch_def then_do_lift)
qed

theorem wrong_release_served_witness:
  "\<exists>s'. get_or_fetch demo_net demo_net_env (PublicKey 9) ''app'' ''v1''
     ((demo_node policy_default)\<lparr>neighbors := {PublicKey 7}\<rparr>) = (s', Inr (Some (demo_app 7)))
     \<and> p_publisher (payload (demo_app 7)) \<noteq> PublicKey 9"
proof -
  let ?s = "(demo_node policy_default)\<lparr>neighbors := {PublicKey 7}\<rparr>"
  have same: "idx ?s = idx (demo_node policy_default)" by simp
  have off: "offers demo_net demo_net_env (PublicKey 7) rq (demo_app 7) ?s" for rq
    by (rule demo_app_offered) (simp add: demo_node_nothing)
  have id: "node_id demo_net ?s = PublicKey 5"
    by (simp add: demo_net_same demo_node_id demo_node_def)
  have ok: "store_ok demo_net ?s"
    by (rule store_ok_same [OF demo_node_ok [of policy_default]]) (simp_all add: demo_node_nothing empty_index_ok)
  have free: "slot_free demo_net (idx ?s) sl" for sl unfolding same by (rule demo_free)
  have "index_ok demo_net (idx ?s)" by (simp add: demo_node_nothing empty_index_ok)
  from get_release_free [OF this free] have none: "get_release demo_net (idx ?s) (PublicKey 9) ''app'' ''v1'' = Inr None"
    using demo_app_ok demo_node_nothing(1) by (simp add: same)
  have cand: "candidate_peers demo_net (PublicKey 9) ?s = [PublicKey 7, PublicKey 9]"
    unfolding candidate_peers_def id by (simp add: demo_node_def push_new_def)
  show ?thesis
    using wrong_release_served [OF ok demo_net_honest none _ cand _ off free] by (simp add: id demo_app_fields)
qed

end
