(* ===== verification/Node_Policy.thy ===== *)
theory Node_Policy
  imports Garbage
begin

text \<open>
  The policy operations of a node (\<^verbatim>\<open>crates/ocid/src/node.rs\<close>): a change is made on a copy of the
  policy, saved, swapped in, and then the topics and the windows are brought in line with it.
\<close>

section \<open>Operations\<close>

record policy_change =
  pc_changed :: bool
  pc_reference :: string

text \<open>What a reload and a change have in common: subscriptions and windows follow the policy; an error of
  the enforcement is logged only.\<close>

definition apply_policy :: "'z crates_scheme \<Rightarrow> node_env \<Rightarrow> policy \<Rightarrow> node \<Rightarrow> node" where
  "apply_policy K E p s =
     (let s1 = s\<lparr>node_policy := p\<rparr>;
          s2 = sync_topics K E s1
      in fst (ignore_err (enforce_all_windows K) s2))"

definition reload_policy :: "'z crates_scheme \<Rightarrow> node_env \<Rightarrow> unit node_op" where
  "reload_policy K E s =
     (case policy_disk s of
        None \<Rightarrow> (s, Inl Io_err)
      | Some p \<Rightarrow> (apply_policy K E p s, Inr ()))"

definition mutate_policy ::
  "'z crates_scheme \<Rightarrow> node_env \<Rightarrow> (policy \<Rightarrow> (policy \<times> 'a) result) \<Rightarrow> 'a node_op" where
  "mutate_policy K E f s =
     (case f (node_policy s) of
        Inl e \<Rightarrow> (s, Inl e)
      | Inr (p, out) \<Rightarrow>
          if \<not> env_policy_save E then (s, Inl Io_err)
          else (apply_policy K E p (s\<lparr>policy_disk := Some p\<rparr>), Inr out))"

definition change_resp :: "string \<Rightarrow> policy \<times> bool \<Rightarrow> policy \<times> policy_change" where
  "change_resp rule pb = (fst pb, \<lparr>pc_changed = snd pb, pc_reference = rule\<rparr>)"

text \<open>The domain in the publisher slot of a rule is mapped to the key it resolved to.\<close>

definition map_domain :: "'z crates_scheme \<Rightarrow> string \<Rightarrow> public_key \<Rightarrow> policy \<Rightarrow> policy" where
  "map_domain K rule publisher p =
     (case domain_slot rule of Some zone \<Rightarrow> set_dns_mapping K zone publisher p | None \<Rightarrow> p)"

definition node_seed :: "'z crates_scheme \<Rightarrow> node_env \<Rightarrow> string \<Rightarrow> mode \<Rightarrow> policy_change node_op" where
  "node_seed K E rf m =
     then_do (resolve_rule K E rf) (\<lambda>(rule, resolved) s.
     if ref_publisher resolved = node_id K s then fail (Node_err OwnRelease) s
     else mutate_policy K E (\<lambda>p.
       and_then (add_seed K rule m (map_domain K rule (ref_publisher resolved) p)) (\<lambda>pb.
       Inr (change_resp rule pb))) s)"

definition node_unseed :: "'z crates_scheme \<Rightarrow> node_env \<Rightarrow> string \<Rightarrow> policy_change node_op" where
  "node_unseed K E rf =
     then_do (resolve_rule K E rf) (\<lambda>(rule, _).
     mutate_policy K E (\<lambda>p. and_then (remove_seed K rule p) (\<lambda>pb. Inr (change_resp rule pb))))"

definition node_follow :: "'z crates_scheme \<Rightarrow> node_env \<Rightarrow> string \<Rightarrow> mode \<Rightarrow> policy_change node_op" where
  "node_follow K E publisher m =
     then_do (resolve_publisher_rule K E publisher) (\<lambda>(rule, key).
     mutate_policy K E (\<lambda>p.
       let p' = (if is_domain_name rule then set_dns_mapping K rule key p else p)
       in and_then (add_follow K rule m p') (\<lambda>pb. Inr (change_resp rule pb))))"

definition node_unfollow :: "'z crates_scheme \<Rightarrow> node_env \<Rightarrow> string \<Rightarrow> policy_change node_op" where
  "node_unfollow K E publisher =
     then_do (resolve_publisher_rule K E publisher) (\<lambda>(rule, _).
     mutate_policy K E (\<lambda>p. and_then (remove_follow K rule p) (\<lambda>pb. Inr (change_resp rule pb))))"

definition node_pin :: "'z crates_scheme \<Rightarrow> node_env \<Rightarrow> string \<Rightarrow> policy_change node_op" where
  "node_pin K E rf =
     then_do (resolve_rule K E rf) (\<lambda>(rule, resolved).
     if ref_tag resolved = None then fail (Policy_err PinNeedsTag)
     else mutate_policy K E (\<lambda>p.
       and_then (add_pin K rule (map_domain K rule (ref_publisher resolved) p)) (\<lambda>pb.
       Inr (change_resp rule pb))))"

definition node_unpin :: "'z crates_scheme \<Rightarrow> node_env \<Rightarrow> string \<Rightarrow> policy_change node_op" where
  "node_unpin K E rf =
     then_do (resolve_rule K E rf) (\<lambda>(rule, _).
     mutate_policy K E (\<lambda>p. and_then (remove_pin K rule p) (\<lambda>pb. Inr (change_resp rule pb))))"

section \<open>What the operations leave alone\<close>

text \<open>Collection keeps the core of the node on every path.\<close>

lemma same_core_preorder: "preorder_on_states same_core"
  by (simp add: preorder_on_states_def reflp_def transp_def) (blast intro: same_core_trans)

lemma keeps_on_index: "keeps same_core (on_index f)"
  by (simp add: keeps_def on_index_def split: prod.split)

lemma keeps_case_prod: "(\<And>a b. keeps R (f a b)) \<Longrightarrow> keeps R (case x of (a, b) \<Rightarrow> f a b)"
  by (cases x) simp

lemma keeps_drop: "keeps same_core (drop_release K p n t)"
  by (simp add: drop_release_def keeps_on_index)

lemmas core_intros = keeps_then [OF same_core_preorder] keeps_basic [OF same_core_preorder] keeps_on_index keeps_drop
  keeps_modify

lemma keeps_fold_op:
  assumes "preorder_on_states R" "\<And>x b. keeps R (f x b)"
  shows "keeps R (fold_op f xs b)"
proof (induction xs arbitrary: b)
  case Nil
  then show ?case using assms(1) by (simp add: keeps_def preorder_on_states_def reflp_def)
next
  case (Cons x xs)
  have "fold_op f (x # xs) b = then_do (f x b) (fold_op f xs)"
    by (simp add: fun_eq_iff then_do_def split: sum.split prod.split)
  then show ?case using keeps_then [OF assms(1) assms(2)] Cons.IH by metis
qed

lemma keeps_sweep_pin: "keeps same_core (sweep_pin dry live x acc)"
proof -
  obtain d h k n where "x = (d, h)" "acc = (k, n)" by (cases x; cases acc)
  then show ?thesis
    by (auto simp: sweep_pin_def Let_def unpin_blob_def delete_tag_def intro!: core_intros)
qed

lemma keeps_diag: "(\<And>x. keeps R (F x)) \<Longrightarrow> keeps R (\<lambda>s. F s s)"
  by (simp add: keeps_def)

lemma keeps_sweep: "keeps same_core (sweep_blobs_locked K dry ig)"
proof -
  let ?G = "\<lambda>live acc s1. then_do (for_each (list_blob_refs (idx s1)) (sweep_entry dry live (set (map snd (list_pins s1)))))
      (\<lambda>_. ret acc)"
  let ?F = "\<lambda>s :: node. then_do (fold_op (sweep_pin dry (live_hashes K ig s)) (list_pins s) (0, 0))
      (\<lambda>acc s1. ?G (live_hashes K ig s) acc s1 s1)"
  have "keeps same_core (sweep_entry dry live pinned b)" for live pinned b
    by (auto simp: sweep_entry_def intro!: core_intros)
  then have "keeps same_core (?G live acc s1)" for live acc s1
    by (intro keeps_then [OF same_core_preorder] keeps_for_each [OF same_core_preorder]
        keeps_basic [OF same_core_preorder])
  then have "keeps same_core (\<lambda>s1. ?G live acc s1 s1)" for live acc
    by (rule keeps_diag)
  then have "keeps same_core (?F s)" for s
    by (intro keeps_then [OF same_core_preorder] keeps_fold_op [OF same_core_preorder] keeps_sweep_pin)
  then have "keeps same_core (\<lambda>s. ?F s s)" by (rule keeps_diag)
  moreover have "sweep_blobs_locked K dry ig = (\<lambda>s. ?F s s)"
    by (simp add: fun_eq_iff sweep_blobs_locked_def Let_def)
  ultimately show ?thesis by simp
qed

lemma keeps_prune_outside: "keeps same_core (prune_outside K w sel p n r k)"
  by (auto simp: prune_outside_def intro!: core_intros)

lemma keeps_enforce: "keeps same_core (enforce_window K p n)"
  unfolding keeps_def
proof
  fix s :: node
  let ?w = "policy_window K (node_policy s) p n"
  have "keeps same_core (then_do (lift_res (local_releases_of K p n)) (\<lambda>held.
      let selected = window_select ?w (map tag_and_time held) in
      then_do (fold_op (prune_outside K ?w selected p n) held 0) (\<lambda>k.
      if k > 0 then then_do (sweep_blobs_locked K False {}) (\<lambda>_. ret ()) else ret ())))"
    unfolding Let_def
    by (intro keeps_then [OF same_core_preorder] keeps_basic [OF same_core_preorder]
        keeps_fold_op [OF same_core_preorder] keeps_prune_outside keeps_if keeps_sweep)
  then show "same_core s (fst (enforce_window K p n s))"
    unfolding enforce_window_def Let_def by (simp add: keeps_def)
qed

lemma enforce_all_core: "same_core s (fst (enforce_all_windows K s))"
proof -
  have "keeps same_core (for_each xs (\<lambda>(p, n). enforce_window K p n))" for xs
    by (intro keeps_for_each [OF same_core_preorder] keeps_case_prod keeps_enforce)
  then show ?thesis unfolding enforce_all_windows_def by (rule keepsD)
qed

lemma apply_policy_fields:
  "node_policy (apply_policy K E p s) = p" "policy_disk (apply_policy K E p s) = policy_disk s"
  "node_key (apply_policy K E p s) = node_key s"
  "topics (apply_policy K E p s) = topics (sync_topics K E (s\<lparr>node_policy := p\<rparr>))"
  "blob_data (apply_policy K E p s) = blob_data s"
proof -
  let ?s = "sync_topics K E (s\<lparr>node_policy := p\<rparr>)"
  have core: "same_core ?s (apply_policy K E p s)"
    by (simp add: apply_policy_def Let_def ignore_err_def enforce_all_core)
  show "node_policy (apply_policy K E p s) = p" "node_key (apply_policy K E p s) = node_key s"
    "topics (apply_policy K E p s) = topics ?s" "blob_data (apply_policy K E p s) = blob_data s"
    using same_coreD [OF core] by (simp_all add: sync_topics_def Let_def)
  show "policy_disk (apply_policy K E p s) = policy_disk s"
    using core [unfolded same_core_def, THEN arg_cong [where f = policy_disk]]
    by (simp add: sync_topics_def Let_def)
qed

text \<open>Resolution touches the resolver's state only.\<close>

definition same_but_dns :: "node \<Rightarrow> node \<Rightarrow> bool" where
  "same_but_dns s s' \<longleftrightarrow> s'\<lparr>dns_st := \<lparr>cache = [], zone_pins = []\<rparr>\<rparr> = s\<lparr>dns_st := \<lparr>cache = [], zone_pins = []\<rparr>\<rparr>"

lemma same_but_dns_preorder: "preorder_on_states same_but_dns"
  by (simp add: preorder_on_states_def same_but_dns_def reflp_def transp_def)

lemma same_but_dnsD:
  assumes "same_but_dns s s'"
  shows "idx s' = idx s" "pin_tags s' = pin_tags s" "blob_data s' = blob_data s" "node_key s' = node_key s"
    "node_policy s' = node_policy s" "policy_disk s' = policy_disk s" "topics s' = topics s"
  using assms [unfolded same_but_dns_def, THEN arg_cong [where f = idx]]
    assms [unfolded same_but_dns_def, THEN arg_cong [where f = pin_tags]]
    assms [unfolded same_but_dns_def, THEN arg_cong [where f = blob_data]]
    assms [unfolded same_but_dns_def, THEN arg_cong [where f = node_key]]
    assms [unfolded same_but_dns_def, THEN arg_cong [where f = node_policy]]
    assms [unfolded same_but_dns_def, THEN arg_cong [where f = policy_disk]]
    assms [unfolded same_but_dns_def, THEN arg_cong [where f = topics]]
  by simp_all

lemma keeps_resolve_zone: "keeps same_but_dns (node_resolve_zone K E zone)"
  by (simp add: keeps_def node_resolve_zone_def same_but_dns_def split: prod.split)

lemmas dns_intros = keeps_then [OF same_but_dns_preorder] keeps_basic [OF same_but_dns_preorder] keeps_resolve_zone

lemma keeps_resolve_publisher: "keeps same_but_dns (resolve_zone_publisher K E zone)"
proof -
  have "keeps same_but_dns (case out of Resolved p b r i \<Rightarrow> ret p | NoRecord \<Rightarrow> fail e | Disabled \<Rightarrow> fail e')" for out e e'
    by (cases out) (simp_all add: keeps_basic [OF same_but_dns_preorder])
  then show ?thesis unfolding resolve_zone_publisher_def by (intro dns_intros)
qed

lemma keeps_resolve_rule: "keeps same_but_dns (resolve_rule K E rf)"
  unfolding resolve_rule_def
  by (auto split: option.split prod.split intro!: dns_intros keeps_resolve_publisher)

lemma keeps_resolve_publisher_rule: "keeps same_but_dns (resolve_publisher_rule K E a)"
  unfolding keeps_def
proof
  fix s
  have "same_but_dns s s" by (simp add: same_but_dns_def)
  moreover have "same_but_dns s (fst (then_do (resolve_zone_publisher K E a) (\<lambda>p. ret (a, p)) s))"
    by (rule keepsD) (intro dns_intros keeps_resolve_publisher)
  ultimately show "same_but_dns s (fst (resolve_publisher_rule K E a s))"
    by (simp add: resolve_publisher_rule_def split: sum.split option.split alias_target.split)
qed

lemma resolve_rule_reference:
  assumes "resolve_rule K E rf s = (s', Inr (rule, r))"
  shows "rule = rf"
  using assms by (auto simp: resolve_rule_def then_do_Inr_iff split: option.splits prod.splits)

lemma resolve_publisher_rule_reference:
  assumes "resolve_publisher_rule K E a s = (s', Inr (rule, r))"
  shows "rule = a"
  using assms by (auto simp: resolve_publisher_rule_def then_do_Inr_iff split: sum.splits option.splits alias_target.splits if_splits)

text \<open>What every change of the policy guarantees: refused, it changed nothing but the resolver's state;
  made, the policy in force is the policy on disk, and the topics are the node's own and those of the
  publishers of the rules, as far as they could be joined.\<close>

definition in_force :: "'z crates_scheme \<Rightarrow> node_env \<Rightarrow> node \<Rightarrow> node \<Rightarrow> bool" where
  "in_force K E s s' \<longleftrightarrow> policy_disk s' = Some (node_policy s') \<and> blob_data s' = blob_data s
     \<and> (\<forall>p. p \<in> topics s' \<longleftrightarrow> (p = node_id K s \<or> p \<in> publishers K (node_policy s'))
          \<and> (p \<in> topics s \<or> env_topic E p))"

lemma mutate_in_force:
  assumes "mutate_policy K E f s = (s', Inr x)"
  shows "in_force K E s s'" "f (node_policy s) = Inr (node_policy s', x)"
  using assms
  by (auto simp: mutate_policy_def in_force_def apply_policy_fields sync_topics_def Let_def node_id_def
      split: sum.splits prod.splits if_splits)

lemma mutate_refused: "mutate_policy K E f s = (s', Inl e) \<Longrightarrow> s' = s"
  by (auto simp: mutate_policy_def split: sum.splits prod.splits if_splits)

definition change_ok :: "'z crates_scheme \<Rightarrow> node_env \<Rightarrow> string \<Rightarrow> policy_change node_op \<Rightarrow> bool" where
  "change_ok K E a f \<longleftrightarrow> (\<forall>s s' r. f s = (s', r) \<longrightarrow> (case r of
     Inl e \<Rightarrow> same_but_dns s s' | Inr c \<Rightarrow> in_force K E s s' \<and> pc_reference c = a))"

lemma change_ok_resolved:
  assumes res: "keeps same_but_dns m" "\<And>s s' r x. m s = (s', Inr (r, x)) \<Longrightarrow> r = a"
    and step: "\<And>x s s' r. g (a, x) s = (s', r) \<Longrightarrow> (case r of
       Inl e \<Rightarrow> s' = s | Inr c \<Rightarrow> in_force K E s s' \<and> pc_reference c = a)"
  shows "change_ok K E a (then_do m g)"
  unfolding change_ok_def
proof (intro allI impI)
  fix s s' r
  assume run: "then_do m g s = (s', r)"
  obtain s1 r1 where m: "m s = (s1, r1)" by force
  then have same: "same_but_dns s s1" using res(1) by (metis fst_conv keepsD)
  show "case r of Inl e \<Rightarrow> same_but_dns s s' | Inr c \<Rightarrow> in_force K E s s' \<and> pc_reference c = a"
  proof (cases r1)
    case (Inl e)
    with run m same show ?thesis by (auto simp: then_do_def)
  next
    case (Inr y)
    obtain a' x where y: "y = (a', x)" by (cases y)
    with m Inr res(2) have "a' = a" by blast
    with run m Inr y have "g (a, x) s1 = (s', r)" by (simp add: then_do_def)
    from step [OF this] same show ?thesis
      by (auto simp: in_force_def node_id_def same_but_dnsD split: sum.splits)
  qed
qed

lemma mutate_change:
  assumes "mutate_policy K E (\<lambda>p. and_then (f p) (\<lambda>pb. Inr (change_resp a pb))) s = (s', r)"
  shows "case r of Inl e \<Rightarrow> s' = s | Inr c \<Rightarrow> in_force K E s s' \<and> pc_reference c = a"
proof (cases r)
  case (Inl e)
  with assms mutate_refused show ?thesis by fastforce
next
  case (Inr c)
  from mutate_in_force [OF assms [unfolded Inr]] Inr show ?thesis by (auto simp: change_resp_def)
qed

lemma policy_ops_ok:
  "change_ok K E a (node_seed K E a m)" "change_ok K E a (node_unseed K E a)"
  "change_ok K E a (node_follow K E a m)" "change_ok K E a (node_unfollow K E a)"
  "change_ok K E a (node_pin K E a)" "change_ok K E a (node_unpin K E a)"
proof -
  note rule = change_ok_resolved [OF keeps_resolve_rule resolve_rule_reference]
  note pub = change_ok_resolved [OF keeps_resolve_publisher_rule resolve_publisher_rule_reference]
  show "change_ok K E a (node_seed K E a m)" unfolding node_seed_def
    by (rule rule, assumption) (auto simp: mutate_change split: if_splits)
  show "change_ok K E a (node_unseed K E a)" unfolding node_unseed_def
    by (rule rule, assumption) (simp add: mutate_change)
  show "change_ok K E a (node_follow K E a m)" unfolding node_follow_def Let_def
    by (rule pub, assumption) (auto simp: mutate_change split: if_splits)
  show "change_ok K E a (node_unfollow K E a)" unfolding node_unfollow_def
    by (rule pub, assumption) (simp add: mutate_change)
  show "change_ok K E a (node_pin K E a)" unfolding node_pin_def
    by (rule rule, assumption) (auto simp: mutate_change split: if_splits)
  show "change_ok K E a (node_unpin K E a)" unfolding node_unpin_def
    by (rule rule, assumption) (simp add: mutate_change)
qed

lemma find_in_update_first:
  "List.find P xs \<noteq> None \<Longrightarrow> (\<And>x. P x \<Longrightarrow> f x = y) \<Longrightarrow> y \<in> set (update_first P f xs)"
  by (induction xs) (auto split: if_splits)

text \<open>What a successful \<open>add_seed\<close> leaves.\<close>

lemma add_seed_entry:
  assumes "add_seed K a m q = Inr (q', b)"
  shows "\<exists>r. parse_seed_rule K q a m = Inr r \<and> pol_dns q' = pol_dns q
    \<and> \<lparr>se_reference = a, se_mode = m\<rparr> \<in> set (pol_seed q')"
proof -
  obtain r where r: "parse_seed_rule K q a m = Inr r" using assms by (auto simp: add_seed_def)
  show ?thesis
  proof (cases "List.find (\<lambda>e. se_reference e = a) (pol_seed q)")
    case None
    with assms r show ?thesis by (auto simp: add_seed_def)
  next
    case (Some ex)
    then have ex: "ex \<in> set (pol_seed q)" "se_reference ex = a" by (auto simp: find_Some_iff)
    have "\<lparr>se_reference = a, se_mode = m\<rparr>
        \<in> set (update_first (\<lambda>e. se_reference e = a) (\<lambda>e. e\<lparr>se_mode := m\<rparr>) (pol_seed q))"
      by (rule find_in_update_first) (use Some in simp_all)
    moreover have "ex = \<lparr>se_reference = a, se_mode = se_mode ex\<rparr>" using ex(2) by simp
    ultimately show ?thesis
      using assms r Some ex(1) by (auto simp: add_seed_def split: if_splits)
  qed
qed

lemma add_pin_entry:
  assumes "add_pin K a q = Inr (q', b)"
  shows "\<exists>r. parse_seed_rule K q a Full = Inr r \<and> pol_dns q' = pol_dns q \<and> a \<in> set (pol_pin q') \<and> sr_tag r \<noteq> None"
  using assms by (auto simp: add_pin_def split: if_splits)

text \<open>A rule with a \<open>did:key\<close> needs no resolution.\<close>

lemma did_key_chars:
  assumes "b58_laws K"
  shows "CHR ''/'' \<notin> set (did_key K p)" "CHR ''.'' \<notin> set (did_key K p)"
proof -
  have "list_all is_alnum (b58_encode K bs)" for bs
    using assms by (simp add: b58_laws_def)
  moreover have "\<not> is_alnum CHR ''.''" by (simp add: char_class_defs)
  ultimately have "CHR ''.'' \<notin> set (b58_encode K bs)" for bs by (metis list_all_iff)
  then show "CHR ''.'' \<notin> set (did_key K p)" by (simp add: did_key_def)
  show "CHR ''/'' \<notin> set (did_key K p)" by (rule did_no_slash [OF assms])
qed

lemma not_domain_name: "CHR ''.'' \<notin> set z \<Longrightarrow> \<not> is_domain_name z"
  by (simp add: is_domain_name_def validate_zone_def)

lemma resolve_rule_did:
  assumes "key_laws K" "b58_laws K" "name_ok n" "tag_opt_ok t"
  shows "resolve_rule K E (did_key K p @ ''/'' @ name_and_tag n t) s
    = (s, Inr (did_key K p @ ''/'' @ name_and_tag n t, \<lparr>ref_publisher = p, ref_name = n, ref_tag = t\<rparr>))"
proof -
  let ?s = "did_key K p @ ''/'' @ name_and_tag n t"
  have "domain_slot ?s = None"
    using did_key_chars [OF assms(2), of p] by (simp add: domain_slot_def not_domain_name)
  moreover have "trim ?s = ?s"
    using did_key_no_space [OF assms(2), of p] name_and_tag_plain(1) [OF assms(3,4)]
    by (intro trim_no_space) (simp add: is_space_def)
  moreover have "\<exists>r. did_key K p = ''did:key:'' @ r" by (simp add: did_key_def)
  then have "strip_prefix ''did:key:'' ?s \<noteq> None" by (auto simp: strip_prefix_def)
  moreover have "parse_explicit K ?s = Inr \<lparr>ref_publisher = p, ref_name = n, ref_tag = t\<rparr>"
    by (rule parse_explicit_text [OF parse_publisher_did_key [OF assms(2,1)] did_key_no_space [OF assms(2)]
        did_key_chars(1) [OF assms(2)] assms(3,4)])
  ultimately show ?thesis
    by (simp add: resolve_rule_def image_ref_parse_def then_do_def)
qed

section \<open>Properties\<close>

text \<open>C13: A change of the policy is all or nothing. Each of the six operations, when it is refused, leaves
  the node as it was but for the resolver's cache and pins; when it succeeds, the policy in force is
  the policy on disk, the answer names the rule as given, no blob data is touched, and the node is on
  its own topic and on those of the publishers of its rules, where it was already or could join, and
  on no other.\<close>

theorem policy_changes_atomic:
  assumes "f \<in> set [node_seed K E a m, node_unseed K E a, node_follow K E a m, node_unfollow K E a,
      node_pin K E a, node_unpin K E a]"
    and "f s = (s', r)"
  shows "case r of Inl e \<Rightarrow> same_but_dns s s' | Inr c \<Rightarrow> in_force K E s s' \<and> pc_reference c = a"
proof -
  have "change_ok K E a f" using assms(1) policy_ops_ok by auto
  with assms(2) show ?thesis by (simp add: change_ok_def)
qed

theorem policy_changes_atomic_witness:
  "\<exists>s c. node_unfollow demo_crates demo_env (did_key demo_crates (PublicKey 7)) (demo_node policy_default) = (s, Inr c)
     \<and> \<not> pc_changed c \<and> topics s = {PublicKey 5} \<and> policy_disk s = Some policy_default"
proof -
  let ?a = "did_key demo_crates (PublicKey 7)" and ?s = "demo_node policy_default"
  obtain s' r where run: "node_unfollow demo_crates demo_env ?a ?s = (s', r)" by force
  have parse: "parse_publisher demo_crates ?a = Inr (PublicKey 7)"
    by (rule parse_publisher_did_key [OF demo_b58_laws demo_key_laws])
  have "resolve_publisher_rule demo_crates demo_env ?a ?s = (?s, Inr (?a, PublicKey 7))"
    using parse by (simp add: resolve_publisher_rule_def)
  moreover have "remove_follow demo_crates ?a policy_default = Inr (policy_default, False)"
    using parse by (simp add: remove_follow_def Let_def policy_default_def parse_publisher_arg_def)
  ultimately have r: "\<exists>c. r = Inr c \<and> \<not> pc_changed c" and pol: "node_policy s' = policy_default"
    using run by (auto simp: node_unfollow_def then_do_def mutate_policy_def change_resp_def demo_env_def
        demo_node_def apply_policy_fields)
  then obtain c where c: "r = Inr c" "\<not> pc_changed c" by blast
  have "in_force demo_crates demo_env ?s s'"
    using policy_changes_atomic [of "node_unfollow demo_crates demo_env ?a" demo_crates demo_env ?a Full ?s s' r]
      run c by simp
  moreover have "publishers demo_crates policy_default = {}"
    by (simp add: publishers_def policy_default_def follows_def seed_rules_def pins_def List.map_filter_simps)
  moreover have "node_id demo_crates ?s = PublicKey 5"
    by (simp add: node_id_def identity_id_def demo_node_def demo_crates_def)
  ultimately have "topics s' = {PublicKey 5}" "policy_disk s' = Some policy_default"
    using pol by (auto simp: in_force_def demo_env_def)
  with run c show ?thesis by blast
qed

text \<open>C31: A rule that is accepted is in force. After a successful \<open>seed\<close> the rule parses under the new policy
  and the policy covers the image it names; after a successful \<open>pin\<close> the tag it names is pinned, and so
  inside the window of its image and out of the collector's reach.\<close>

theorem rules_take_effect:
  "(node_seed K E a m s = (s', Inr c) \<longrightarrow> (\<exists>p n t. parse_seed_rule K (node_policy s') a m
       = Inr \<lparr>sr_publisher = p, sr_name = n, sr_tag = t, sr_mode = m\<rparr> \<and> covers K (node_policy s') p n))
   \<and> (node_pin K E a s = (s', Inr c) \<longrightarrow> (\<exists>p n t. parse_seed_rule K (node_policy s') a Full
       = Inr \<lparr>sr_publisher = p, sr_name = n, sr_tag = Some t, sr_mode = Full\<rparr>
       \<and> is_pinned K (node_policy s') p n t))"
proof (intro conjI impI)
  assume "node_seed K E a m s = (s', Inr c)"
  then obtain s1 res where "mutate_policy K E (\<lambda>p. and_then (add_seed K a m (map_domain K a res p))
      (\<lambda>pb. Inr (change_resp a pb))) s1 = (s', Inr c)"
    by (auto simp: node_seed_def then_do_Inr_iff dest!: resolve_rule_reference split: if_splits prod.splits)
  from mutate_in_force(2) [OF this] obtain q b where add: "add_seed K a m q = Inr (node_policy s', b)"
    by (auto simp: change_resp_def)
  then obtain r where r: "parse_seed_rule K q a m = Inr r" "pol_dns (node_policy s') = pol_dns q"
    "\<lparr>se_reference = a, se_mode = m\<rparr> \<in> set (pol_seed (node_policy s'))"
    using add_seed_entry by blast
  obtain p n t where f: "r = \<lparr>sr_publisher = p, sr_name = n, sr_tag = t, sr_mode = m\<rparr>"
    using r(1) by (auto simp: parse_seed_rule_def)
  have parse: "parse_seed_rule K (node_policy s') a m = Inr r"
    unfolding parse_seed_rule_cong [OF r(2)] by (rule r(1))
  then have "r \<in> set (seed_rules K (node_policy s'))"
    using r(3) seed_rules_iff by force
  then have "covers K (node_policy s') p n"
    by (cases t) (force simp: covers_iff image_modes_def image_tags_def rule_for_def f)+
  with parse f show "\<exists>p n t. parse_seed_rule K (node_policy s') a m
       = Inr \<lparr>sr_publisher = p, sr_name = n, sr_tag = t, sr_mode = m\<rparr> \<and> covers K (node_policy s') p n" by blast
next
  assume "node_pin K E a s = (s', Inr c)"
  then obtain s1 res where "mutate_policy K E (\<lambda>p. and_then (add_pin K a (map_domain K a res p))
      (\<lambda>pb. Inr (change_resp a pb))) s1 = (s', Inr c)"
    by (auto simp: node_pin_def then_do_Inr_iff dest!: resolve_rule_reference split: if_splits prod.splits)
  from mutate_in_force(2) [OF this] obtain q b where add: "add_pin K a q = Inr (node_policy s', b)"
    by (auto simp: change_resp_def)
  then obtain r where r: "parse_seed_rule K q a Full = Inr r" "pol_dns (node_policy s') = pol_dns q"
    "a \<in> set (pol_pin (node_policy s'))" "sr_tag r \<noteq> None"
    using add_pin_entry by blast
  obtain p n t where f: "r = \<lparr>sr_publisher = p, sr_name = n, sr_tag = Some t, sr_mode = Full\<rparr>"
    using r(1,4) by (auto simp: parse_seed_rule_def)
  have parse: "parse_seed_rule K (node_policy s') a Full = Inr r"
    unfolding parse_seed_rule_cong [OF r(2)] by (rule r(1))
  then have "r \<in> set (pins K (node_policy s'))" using r(3) f by (auto simp: pins_iff)
  then have "is_pinned K (node_policy s') p n t" 
    unfolding is_pinned_iff rule_for_def f by (rule rev_bexI) simp
  with parse f show "\<exists>p n t. parse_seed_rule K (node_policy s') a Full
       = Inr \<lparr>sr_publisher = p, sr_name = n, sr_tag = Some t, sr_mode = Full\<rparr>
       \<and> is_pinned K (node_policy s') p n t" by blast
qed

theorem rules_take_effect_witness:
  "\<exists>s c t. node_pin demo_crates demo_env (did_key demo_crates (PublicKey 7) @ ''/app:v1'') (demo_node policy_default) = (s, Inr c)
     \<and> is_pinned demo_crates (node_policy s) (PublicKey 7) ''app'' t"
proof -
  let ?a = "did_key demo_crates (PublicKey 7) @ ''/app:v1''" and ?s = "demo_node policy_default"
  have a: "?a = did_key demo_crates (PublicKey 7) @ ''/'' @ name_and_tag ''app'' (Some ''v1'')"
    by (simp add: name_and_tag_def)
  have t: "tag_opt_ok (Some ''v1'')" using demo_app_ok(2) by simp
  note res = resolve_rule_did [OF demo_key_laws demo_b58_laws demo_app_ok(1) t, of demo_env "PublicKey 7" ?s, folded a]
  note parse = parse_seed_rule_did(1) [OF demo_b58_laws demo_key_laws demo_app_ok(1) t, of _ "PublicKey 7", folded a]
  have dom: "domain_slot ?a = None"
    using did_key_chars [OF demo_b58_laws, of "PublicKey 7"] by (simp add: domain_slot_def not_domain_name)
  obtain s' r where run: "node_pin demo_crates demo_env ?a ?s = (s', r)" by force
  have "add_pin demo_crates ?a policy_default = Inr (policy_default\<lparr>pol_pin := [?a]\<rparr>, True)"
    using parse by (simp add: add_pin_def policy_default_def)
  moreover have "node_policy ?s = policy_default" "env_policy_save demo_env"
    by (simp_all add: demo_node_def demo_env_def)
  ultimately have "\<exists>c. r = Inr c"
    using run res by (auto simp: node_pin_def then_do_def mutate_policy_def change_resp_def map_domain_def dom)
  then obtain c where c: "r = Inr c" by blast
  with run rules_take_effect [of demo_crates demo_env ?a Full ?s s' c] obtain p n t where
    "parse_seed_rule demo_crates (node_policy s') ?a Full
       = Inr \<lparr>sr_publisher = p, sr_name = n, sr_tag = Some t, sr_mode = Full\<rparr>"
    "is_pinned demo_crates (node_policy s') p n t" by auto
  with parse have "is_pinned demo_crates (node_policy s') (PublicKey 7) ''app'' t" by simp
  with run c show ?thesis by blast
qed

end
