(* ===== verification/Node_Runs.thy ===== *)
theory Node_Runs
  imports Replication_Progress Node_Policy
begin

text \<open>
  Everything that changes a node, as one step relation, and what holds in every state it reaches: the
  store is sound and no release is held without the signature of its publisher.
\<close>

section \<open>The invariant\<close>

definition healthy :: "'z node_crates_scheme \<Rightarrow> node \<Rightarrow> bool" where
  "healthy K s \<longleftrightarrow> store_ok K s
     \<and> (\<forall>sl r. release_at K (idx s) sl = Some r \<longrightarrow> release_verify K r = Inr () \<and> digests_ok r)"

abbreviation stays_healthy :: "'z node_crates_scheme \<Rightarrow> node \<Rightarrow> node \<Rightarrow> bool" where
  "stays_healthy K s s' \<equiv> healthy K s \<longrightarrow> healthy K s'"

lemma healthyD:
  assumes "healthy K s"
  shows "store_ok K s" "index_ok K (idx s)"
    "release_at K (idx s) sl = Some r \<Longrightarrow> release_verify K r = Inr () \<and> digests_ok r"
  using assms unfolding healthy_def store_ok_def by (blast, blast, blast)

lemma healthy_less:
  assumes "healthy K s" "store_ok K s'"
    and "\<And>sl r. release_at K (idx s') sl = Some r \<Longrightarrow> release_at K (idx s) sl = Some r"
  shows "healthy K s'"
  using assms unfolding healthy_def by blast

lemma healthy_same:
  assumes "idx s' = idx s" "pin_tags s' = pin_tags s" "blob_data s' = blob_data s"
  shows "healthy K s' = healthy K s"
proof -
  have one: "store_ok K t'" if "store_ok K t" "idx t' = idx t" "pin_tags t' = pin_tags t" "blob_data t' = blob_data t"
    for t t' :: node
  proof -
    have "index_ok K (idx t)" using that(1) by (simp add: store_ok_def)
    then show ?thesis using store_ok_same [OF that(1) _ that(3,4)] that(2) by simp
  qed
  have "store_ok K s' = store_ok K s"
    by (rule iffI) (rule one, assumption, simp_all add: assms)+
  then show ?thesis using assms(1) by (simp add: healthy_def)
qed

lemmas healthy_pre = keeps_invariant [of "healthy K" for K]
lemmas healthy_intros = keeps_then [OF healthy_pre] keeps_basic [OF healthy_pre] keeps_for_each [OF healthy_pre]
  keeps_ignore

lemma keeps_at: "(\<And>x. keeps R (m x)) \<Longrightarrow> keeps R (\<lambda>s. m (g s) s)"
  by (simp add: keeps_def)

lemma healthy_emit: "healthy K (emit e s) = healthy K s"
  by (rule healthy_same) (simp_all add: emit_def)

lemma healthy_seen: "healthy K (note_peer_seen E p s) = healthy K s"
  by (rule healthy_same) (simp_all add: note_peer_seen_def)

lemma healthy_fold:
  assumes "\<And>x b. x \<in> set xs \<Longrightarrow> keeps (stays_healthy K) (f x b)"
  shows "keeps (stays_healthy K) (fold_op f xs b)"
  using assms
proof (induction xs arbitrary: b)
  case Nil
  then show ?case by (simp add: keeps_def)
next
  case (Cons x xs)
  have "fold_op f (x # xs) b = then_do (f x b) (\<lambda>b'. fold_op f xs b')"
    by (simp add: fun_eq_iff then_do_def split: sum.split prod.split)
  moreover have "keeps (stays_healthy K) (f x b)" using Cons.prems by simp
  moreover have "keeps (stays_healthy K) (fold_op f xs b')" for b' using Cons by simp
  ultimately show ?case using keeps_then [OF healthy_pre] by metis
qed

section \<open>Each operation\<close>

lemma fetch_release_healthy:
  assumes "key_laws K" "honest_download K E" "digests_ok r"
  shows "keeps (stays_healthy K) (fetch_release K E r ps)"
  unfolding keeps_def
proof (intro allI impI)
  fix s
  assume h: "healthy K s"
  obtain s' res where run: "fetch_release K E r ps s = (s', res)" by force
  note spec = fetch_release_spec [OF healthyD(1) [OF h] assms run]
  have "release_verify K x = Inr () \<and> digests_ok x" if "release_at K (idx s') sl = Some x" for sl x
    using that fetchedD(2) [of K r "res = Inr ()" s s' sl] spec healthyD(3) [OF h, of sl x] assms(3)
    by (auto split: if_splits)
  with spec run show "healthy K (fst (fetch_release K E r ps s))" by (simp add: healthy_def)
qed

lemma put_release_healthy:
  assumes "key_laws K" "digests_ok r" "release_verify K r = Inr ()"
  shows "keeps (stays_healthy K) (on_index (\<lambda>ix. put_release K ix r))"
  unfolding keeps_def
proof (intro allI impI)
  fix s :: node
  assume h: "healthy K s"
  obtain ix res where put: "put_release K (idx s) r = (ix, res)" by force
  note p = put_release_spec [OF healthyD(2) [OF h] assms(1,2) put]
  have "store_ok K (s\<lparr>idx := ix\<rparr>)"
    by (rule store_ok_same [OF healthyD(1) [OF h]]) (use p in simp_all)
  moreover have "release_verify K x = Inr () \<and> digests_ok x" if "release_at K ix sl = Some x" for sl x
    using that p healthyD(3) [OF h, of sl x] assms(2,3) by (auto split: if_splits)
  ultimately show "healthy K (fst (on_index (\<lambda>ix. put_release K ix r) s))"
    using put by (simp add: healthy_def on_index_def)
qed

text \<open>Where no window applies, or the name is not one, nothing is enforced.\<close>

lemma enforce_window_idle:
  assumes "\<not> (p \<noteq> node_id K s \<and> covers K (node_policy s) p n \<and> name_ok n)"
  shows "fst (enforce_window K p n s) = s"
proof -
  from assms have "p = node_id K s \<or> window_is_empty (policy_window K (node_policy s) p n) \<or> \<not> name_ok n"
    unfolding covers_def by blast
  moreover have "\<exists>e. local_releases_of K p n s = Inl e" if "\<not> name_ok n"
    using that by (cases "validate_name n") (simp_all add: local_releases_of_def list_tags_def release_dir_def)
  ultimately show ?thesis by (auto simp: enforce_window_def Let_def then_do_lift)
qed

lemma enforce_window_healthy:
  assumes "key_laws K"
  shows "keeps (stays_healthy K) (enforce_window K p n)"
  unfolding keeps_def
proof (intro allI impI)
  fix s
  assume h: "healthy K s"
  note ok = healthyD(1) [OF h]
  show "healthy K (fst (enforce_window K p n s))"
  proof (cases "p \<noteq> node_id K s \<and> covers K (node_policy s) p n \<and> name_ok n")
    case True
    then have c: "name_ok n" "p \<noteq> node_id K s" "covers K (node_policy s) p n" by simp_all
    obtain s' where s': "enforce_window K p n s = (s', Inr ())" "store_ok K s'"
      "\<And>sl. release_at K (idx s') sl = keep_if (\<lambda>r. \<not> outside K s (p, n) r) (release_at K (idx s) sl)"
      by (rule enforce_window_spec [OF ok assms c]) (rule that)
    have "healthy K s'" by (rule healthy_less [OF h s'(2)]) (simp add: s'(3) keep_if_Some_iff del: split_paired_All)
    with s'(1) show ?thesis by simp
  next
    case False
    with enforce_window_idle h show ?thesis by metis
  qed
qed

lemma drop_release_healthy:
  assumes "key_laws K"
  shows "keeps (stays_healthy K) (drop_release K p n t)"
  unfolding keeps_def
proof (intro allI impI)
  fix s
  assume h: "healthy K s"
  obtain ix r where rm: "remove_release K (idx s) p n t = (ix, r)" by force
  note spec = remove_release_spec [OF healthyD(2) [OF h] assms rm]
  have "store_ok K (s\<lparr>idx := ix\<rparr>)"
    by (rule store_ok_same [OF healthyD(1) [OF h]]) (use spec in simp_all)
  moreover have "release_at K ix sl = Some x \<Longrightarrow> release_at K (idx s) sl = Some x" for sl x
    using spec by (auto split: if_splits)
  ultimately have "healthy K (s\<lparr>idx := ix\<rparr>)" using healthy_less [OF h, of "s\<lparr>idx := ix\<rparr>"] by simp
  then show "healthy K (fst (drop_release K p n t s))" using rm by (simp add: drop_release_def on_index_def)
qed

lemma sweep_healthy:
  shows "keeps (stays_healthy K) (sweep_blobs_locked K dry ig)"
  unfolding keeps_def
proof (intro allI impI)
  fix s
  assume h: "healthy K s"
  note ok = healthyD(1) [OF h]
  show "healthy K (fst (sweep_blobs_locked K dry ig s))"
  proof (cases dry)
    case True
    with sweep_dry [OF ok] h show ?thesis by simp
  next
    case False
    obtain s' where s': "sweep_blobs_locked K False ig s
        = (s', Inr (swept_count (idx s) (live_hashes K ig s) (list_pins s)))"
      and sw: "sweeping K (live_hashes K ig s) s {} s'" and ok': "store_ok K s'"
      by (rule sweep_spec [OF ok]) (rule that)
    have "healthy K s'" by (rule healthy_less [OF h ok']) (simp only: sweepingD(2) [OF sw])
    with s' False show ?thesis by simp
  qed
qed

lemma remove_release_healthy:
  assumes "key_laws K"
  shows "keeps (stays_healthy K) (node_remove_release K p n tag)"
proof -
  have "keeps (stays_healthy K) (remove_tag K p n t removed)" for t removed
    unfolding remove_tag_def by (intro healthy_intros drop_release_healthy assms)
  moreover have "keeps (stays_healthy K) (\<lambda>s. then_do (if removed \<noteq> [] then then_do (sweep_blobs K False) (\<lambda>_. ret ())
      else ret ()) (\<lambda>_. ret (R removed s)) s)"
    for removed and R :: "string list \<Rightarrow> node \<Rightarrow> rm_resp"
  proof -
    have "keeps (stays_healthy K) (then_do (if removed \<noteq> [] then then_do (sweep_blobs K False) (\<lambda>_. ret ())
      else ret ()) (\<lambda>_. ret x))" for x :: rm_resp
      unfolding sweep_blobs_def by (intro healthy_intros keeps_if sweep_healthy)
    then show ?thesis
      by (rule keeps_at [where g = "R removed" and m = "\<lambda>x. then_do (if removed \<noteq> []
        then then_do (sweep_blobs K False) (\<lambda>_. ret ()) else ret ()) (\<lambda>_. ret x)"])
  qed
  ultimately show ?thesis
    unfolding node_remove_release_def Let_def by (intro healthy_intros healthy_fold)
qed

lemma gc_healthy:
  assumes "key_laws K"
  shows "keeps (stays_healthy K) (gc K E q)"
  unfolding keeps_def
proof (intro allI impI)
  fix s
  assume h: "healthy K s"
  note ok = healthyD(1) [OF h]
  show "healthy K (fst (gc K E q s))"
  proof (cases "gc_dry q")
    case True
    with gc_dry_spec [OF ok assms True] h show ?thesis by simp
  next
    case False
    obtain s' where s': "gc K E q s = (s', Inr (collected_report K E q s))" "store_ok K s'"
      "\<And>sl. release_at K (idx s') sl = keep_if (\<lambda>r. \<not> doomed K E q s r) (release_at K (idx s) sl)"
      by (rule gc_spec [OF ok assms False]) (rule that)
    have "healthy K s'" by (rule healthy_less [OF h s'(2)]) (simp add: s'(3) keep_if_Some_iff del: split_paired_All)
    with s'(1) show ?thesis by simp
  qed
qed

lemma enforce_all_healthy:
  assumes "key_laws K"
  shows "keeps (stays_healthy K) (enforce_all_windows K)"
proof -
  have "keeps (stays_healthy K) (\<lambda>s. for_each (rs s) (\<lambda>(p, n). enforce_window K p n) s)" for rs
  proof -
    have "keeps (stays_healthy K) (for_each xs (\<lambda>(p, n). enforce_window K p n))" for xs
      by (intro healthy_intros) (simp add: enforce_window_healthy [OF assms] split: prod.split)
    then show ?thesis
      by (rule keeps_at [where g = rs and m = "\<lambda>xs. for_each xs (\<lambda>(p, n). enforce_window K p n)"])
  qed
  then show ?thesis unfolding enforce_all_windows_def [abs_def] .
qed

lemma apply_policy_healthy:
  assumes "key_laws K" "healthy K s"
  shows "healthy K (apply_policy K E p s)"
proof -
  let ?s = "sync_topics K E (s\<lparr>node_policy := p\<rparr>)"
  have "healthy K ?s = healthy K s"
    by (rule healthy_same) (simp_all add: sync_topics_def Let_def)
  moreover have "healthy K ?s \<longrightarrow> healthy K (fst (ignore_err (enforce_all_windows K) ?s))"
    using keepsD [OF keeps_ignore [OF enforce_all_healthy [OF assms(1)]]] .
  ultimately show ?thesis using assms(2) unfolding apply_policy_def Let_def by blast
qed

lemma mutate_policy_healthy:
  assumes "key_laws K"
  shows "keeps (stays_healthy K) (mutate_policy K E f)"
  unfolding keeps_def
proof (intro allI impI)
  fix s
  assume h: "healthy K s"
  have "healthy K (s\<lparr>policy_disk := d\<rparr>)" for d using h healthy_same [of "s\<lparr>policy_disk := d\<rparr>" s K] by simp
  with h apply_policy_healthy [OF assms] show "healthy K (fst (mutate_policy K E f s))"
    by (simp add: mutate_policy_def split: sum.split prod.split)
qed

lemma same_but_dns_healthy: "same_but_dns s s' \<Longrightarrow> healthy K s' = healthy K s"
  by (rule healthy_same) (simp_all add: same_but_dnsD)

lemma keeps_dns_healthy: "keeps same_but_dns m \<Longrightarrow> keeps (stays_healthy K) m"
  using same_but_dns_healthy unfolding keeps_def by blast

lemmas policy_healthy_intros = keeps_then [OF healthy_pre] keeps_basic [OF healthy_pre] mutate_policy_healthy
  keeps_dns_healthy [OF keeps_resolve_rule] keeps_dns_healthy [OF keeps_resolve_publisher_rule]

lemma policy_ops_healthy:
  assumes keys: "key_laws K"
    and f: "f \<in> set [node_seed K E a m, node_unseed K E a, node_follow K E a m, node_unfollow K E a,
      node_pin K E a, node_unpin K E a]"
  shows "keeps (stays_healthy K) f"
proof -
  have "keeps (stays_healthy K) (\<lambda>s. if ref_publisher resolved = node_id K s then fail e s else mutate_policy K E g s)"
    for resolved e and g :: "policy \<Rightarrow> (policy \<times> policy_change) result"
    using mutate_policy_healthy [OF keys, of E g] by (simp add: keeps_def)
  moreover have "keeps (stays_healthy K) (if c then fail e else mutate_policy K E g)"
    for c e and g :: "policy \<Rightarrow> (policy \<times> policy_change) result"
    by (intro keeps_if policy_healthy_intros keys)
  ultimately have "keeps (stays_healthy K) (node_seed K E a m)" "keeps (stays_healthy K) (node_unseed K E a)"
    "keeps (stays_healthy K) (node_follow K E a m)" "keeps (stays_healthy K) (node_unfollow K E a)"
    "keeps (stays_healthy K) (node_pin K E a)" "keeps (stays_healthy K) (node_unpin K E a)"
    unfolding node_seed_def node_unseed_def node_follow_def node_unfollow_def node_pin_def node_unpin_def
    by (auto split: prod.split intro!: policy_healthy_intros keys)
  then show ?thesis using f by auto
qed

lemma reload_healthy:
  assumes "key_laws K"
  shows "keeps (stays_healthy K) (reload_policy K E)"
  unfolding keeps_def
proof (intro allI impI)
  fix s
  assume "healthy K s"
  with apply_policy_healthy [OF assms this] show "healthy K (fst (reload_policy K E s))"
    by (cases "policy_disk s") (simp_all add: reload_policy_def)
qed

section \<open>Replication and publishing\<close>

text \<open>A release that decodes has well-formed digests: the decoder of a digest rejects any other.\<close>

definition decodes_digests :: "'z net_crates_scheme \<Rightarrow> bool" where
  "decodes_digests K \<longleftrightarrow> (\<forall>bs r. release_of_json K bs = Some r \<longrightarrow> digests_ok r)"

definition net_laws :: "'z net_crates_scheme \<Rightarrow> node_env \<Rightarrow> bool" where
  "net_laws K E \<longleftrightarrow> key_laws K \<and> honest_download K E \<and> decodes_digests K"

lemma decoded_digests:
  assumes "net_laws K E" "and_then x (into_release K) = Inr (Some r)"
  shows "digests_ok r"
proof -
  obtain v where "into_release K v = Inr (Some r)" using assms(2) by auto
  then obtain bs where "release_of_json K bs = Some r"
    by (cases v) (auto simp: into_release_def split: option.splits)
  with assms(1) show ?thesis by (auto simp: net_laws_def decodes_digests_def)
qed

lemma fetched_healthy: "net_laws K E \<Longrightarrow> digests_ok r \<Longrightarrow> keeps (stays_healthy K) (fetch_release K E r ps)"
  by (rule fetch_release_healthy) (simp_all add: net_laws_def)

lemma window_healthy: "net_laws K E \<Longrightarrow> keeps (stays_healthy K) (enforce_window K p n)"
  by (rule enforce_window_healthy) (simp add: net_laws_def)

lemma ask_peers_healthy:
  assumes "net_laws K E"
  shows "keeps (stays_healthy K) (ask_peers K E p rq peers)"
proof (induction peers)
  case Nil
  then show ?case by (simp add: keeps_def)
next
  case (Cons q qs)
  show ?case
  proof (cases "\<exists>r. and_then (sync_request E q rq) (into_release K) = Inr (Some r)")
    case True
    then obtain r where r: "and_then (sync_request E q rq) (into_release K) = Inr (Some r)" by blast
    have "keeps (stays_healthy K) (then_do (fetch_release K E r ps) (\<lambda>_. ret (Some r)))" for ps
      by (intro healthy_intros fetched_healthy assms decoded_digests [OF assms r])
    then show ?thesis unfolding keeps_def ask_peers.simps r by simp
  next
    case False
    with Cons.IH show ?thesis
      unfolding keeps_def ask_peers.simps
      by (cases "and_then (sync_request E q rq) (into_release K)") (auto split: option.split)
  qed
qed

lemma ask_providers_healthy:
  assumes "net_laws K E"
  shows "keeps (stays_healthy K) (ask_providers K E x providers ps)"
proof (induction ps)
  case Nil
  then show ?case by (simp add: keeps_def)
next
  case (Cons q qs)
  let ?rq = "GetRelease (sum_publisher x) (sum_name x) (sum_tag x)"
  show ?case
  proof (cases "\<exists>r. and_then (sync_request E q ?rq) (into_release K) = Inr (Some r)")
    case True
    then obtain r where r: "and_then (sync_request E q ?rq) (into_release K) = Inr (Some r)" by blast
    have "keeps (stays_healthy K) (then_do (fetch_release K E r providers)
        (\<lambda>_. enforce_window K (sum_publisher x) (sum_name x)))"
      by (intro healthy_intros fetched_healthy window_healthy [OF assms] assms decoded_digests [OF assms r])
    then show ?thesis unfolding keeps_def ask_providers.simps r by simp
  next
    case False
    with Cons.IH show ?thesis
      unfolding keeps_def ask_providers.simps
      by (cases "and_then (sync_request E q ?rq) (into_release K)") (auto split: option.split)
  qed
qed

lemma get_or_fetch_healthy:
  assumes "net_laws K E"
  shows "keeps (stays_healthy K) (get_or_fetch K E p n t)"
proof -
  have "healthy K s \<Longrightarrow> healthy K (fst (ask_peers K E p rq (candidate_peers K p s) s))" for s rq
    using keepsD [OF ask_peers_healthy [OF assms]] by blast
  then show ?thesis
    by (simp add: keeps_def get_or_fetch_def then_do_lift split: sum.split option.split)
qed

lemma sync_repo_healthy:
  assumes "net_laws K E"
  shows "keeps (stays_healthy K) (sync_repo K E peer pol theirs repo)"
proof -
  have one: "keeps (stays_healthy K) (sync_one K E peer x)" for x
    unfolding keeps_def
  proof (intro allI impI)
    fix s
    assume h: "healthy K s"
    let ?a = "and_then (request_on E peer (GetRelease (sum_publisher x) (sum_name x) (sum_tag x))) (into_release K)"
    show "healthy K (fst (sync_one K E peer x s))"
    proof (cases "\<exists>r. ?a = Inr (Some r)")
      case True
      then obtain r where r: "?a = Inr (Some r)" by blast
      have "keeps (stays_healthy K) (ignore_err (fetch_release K E r [peer]))"
        by (intro keeps_ignore fetched_healthy assms decoded_digests [OF assms r])
      with h show ?thesis unfolding sync_one_def then_do_lift r by (simp add: keeps_def)
    next
      case False
      with h show ?thesis unfolding sync_one_def then_do_lift by (cases ?a) (auto split: option.split)
    qed
  qed
  have "keeps (stays_healthy K) (if wanted = [] then ret ()
      else then_do (for_each wanted (sync_one K E peer)) (\<lambda>_. enforce_window K p n))" for wanted p n
    by (intro keeps_if healthy_intros one window_healthy [OF assms])
  then show ?thesis
    unfolding sync_repo_def by (auto split: prod.split simp: Let_def intro!: healthy_intros)
qed

lemma sync_with_healthy:
  assumes "net_laws K E"
  shows "keeps (stays_healthy K) (sync_with K E peer)"
proof -
  let ?run = "\<lambda>(repos, pol, theirs). for_each repos (sync_repo K E peer pol theirs)"
  have "keeps (stays_healthy K) (?run x)" for x
    by (cases x) (auto intro!: healthy_intros sync_repo_healthy assms)
  from keeps_at [where m = ?run, OF this] have
    "keeps (stays_healthy K) (\<lambda>s. let theirs = f s in for_each (h theirs) (sync_repo K E peer (node_policy s) theirs) s)"
    for f :: "node \<Rightarrow> release_summary list" and h
    unfolding Let_def by (drule_tac x = "\<lambda>s. (h (f s), node_policy s, f s)" in meta_spec) simp
  moreover have "keeps (stays_healthy K) (modify (note_peer_seen E peer))"
    by (rule keeps_modify) (simp add: healthy_seen)
  ultimately show ?thesis unfolding sync_with_def Let_def by (intro healthy_intros)
qed

lemma on_announcement_healthy:
  assumes "net_laws K E"
  shows "keeps (stays_healthy K) (on_announcement K E x p)"
proof -
  have "keeps (stays_healthy K) (modify (note_peer_seen E p))" "keeps (stays_healthy K) (modify (emit e))" for e
    by (rule keeps_modify, simp add: healthy_seen healthy_emit)+
  then show ?thesis
    unfolding on_announcement_def Let_def by (intro healthy_intros keeps_if ask_providers_healthy assms)
qed

lemma gossip_healthy:
  assumes "net_laws K E" "healthy K s"
  shows "healthy K (gossip_step K E sc msg s)"
proof -
  have sync: "healthy K t \<Longrightarrow> healthy K (fst (sync_with K E p t))" for t p
    using keepsD [OF sync_with_healthy [OF assms(1)]] by blast
  have ann: "healthy K (fst (on_announcement K E x p s))" for x p
    using keepsD [OF on_announcement_healthy [OF assms(1)]] assms(2) by blast
  have "healthy K (neighbor_up E p t) = healthy K t" "healthy K (neighbor_down p t) = healthy K t" for p t
    by (rule healthy_same; simp add: neighbor_up_def neighbor_down_def note_peer_seen_def emit_def Let_def)+
  then show ?thesis
    using assms(2) sync ann
    by (simp add: gossip_step_def Let_def healthy_seen split: gossip_msg.split scope.split option.split)
qed

lemma announce_healthy: "keeps (stays_healthy K) (announce K E r)"
proof -
  have "healthy K (emit e (s\<lparr>announced := a\<rparr>)) = healthy K s" for e s a
    by (rule healthy_same) (simp_all add: emit_def)
  then show ?thesis by (simp add: keeps_def announce_def Let_def)
qed

lemma publish_healthy:
  assumes "key_laws K" "digests_ok r"
  shows "keeps (stays_healthy K) (publish K E r)"
proof (cases "release_verify K r")
  case (Inl e)
  then show ?thesis by (simp add: keeps_def publish_def then_do_lift)
next
  case (Inr u)
  then have v: "release_verify K r = Inr ()" by simp
  have "keeps (stays_healthy K) (modify (emit e))" for e
    by (rule keeps_modify) (simp add: healthy_emit)
  then show ?thesis
    unfolding publish_def
    by (intro healthy_intros put_release_healthy [OF assms v] announce_healthy)
qed

lemma with_blobs_set: "set (with_blobs new old) \<subseteq> set new \<union> set old"
  unfolding with_blobs_def
proof (induction new arbitrary: old)
  case (Cons b new)
  from Cons.IH [of "if br_digest b \<in> set (map br_digest old) then old else old @ [b]"] show ?case
    by (auto split: if_splits)
qed simp

lemma attach_healthy:
  assumes "key_laws K" and dig: "digest_ok (rf_digest rf)" "list_all (\<lambda>b. digest_ok (br_digest b)) blobs"
  shows "keeps (stays_healthy K) (attach_referrer K E subject rf blobs)"
  unfolding keeps_def
proof (intro allI impI)
  fix s
  assume h: "healthy K s"
  have one: "keeps (stays_healthy K) (attach_one K E subject rf blobs r k)" if r: "digests_ok r" for r k
  proof -
    have new: "digests_ok (release_sign K (env_unix E) sk (attached (env_unix E) rf blobs r))" for sk
      using r dig with_blobs_set [of blobs "p_blobs (payload r)"]
      by (auto simp: digests_ok_def all_blobs_def release_sign_payload attached_def list_all_iff)
    have "keeps (stays_healthy K) (then_do (publish K E (release_sign K (env_unix E) sk
        (attached (env_unix E) rf blobs r))) (\<lambda>_. ret (k + 1)))" for sk
      by (intro healthy_intros publish_healthy assms(1) new)
    then show ?thesis by (simp add: keeps_def attach_one_def)
  qed
  have "digests_ok r" if "r \<in> set (list_releases K (idx s))" for r
    using that healthyD(3) [OF h] list_releases_set [OF healthyD(2) [OF h] assms(1)] by auto
  then have "keeps (stays_healthy K) (fold_op (attach_one K E subject rf blobs) (list_releases K (idx s)) 0)"
    by (intro healthy_fold one)
  from keepsD [OF this, of s] h show "healthy K (fst (attach_referrer K E subject rf blobs s))"
    by (simp add: attach_referrer_def)
qed

lemma handle_request_healthy: "healthy K (fst (handle_request K p rq s)) = healthy K s"
proof -
  have "healthy K (remember_peer K a s) = healthy K s" for a
    by (rule healthy_same) (simp_all add: remember_peer_def)
  then have "healthy K (fst (handle_inner K p rq s)) = healthy K s"
    by (simp add: handle_inner_def then_do_lift split: request.split sum.split)
  then show ?thesis by (auto simp: handle_request_def split: prod.split sum.split)
qed

section \<open>Pushes, the blob store and peers\<close>

lemma push_healthy:
  assumes "hex_laws K" "sha_laws K" "healthy K s"
    and fresh: "\<And>bs. tget (blob_data s) (blake3_of K data) = Some bs \<Longrightarrow> bs = data"
  shows "healthy K (fst (put_blob_bytes K data expect mt s))"
proof -
  obtain s' res where run: "put_blob_bytes K data expect mt s = (s', res)" by force
  note spec = put_blob_bytes_spec [OF healthyD(1) [OF assms(3)] assms(1,2) fresh run]
  have "store_ok K s'" using spec by blast
  moreover have "release_at K (idx s') sl = release_at K (idx s) sl" for sl using spec by blast
  ultimately have "healthy K s'" using healthy_less [OF assms(3), of s'] by simp
  with run show ?thesis by simp
qed

text \<open>The blob store deletes what no tag protects: no entry of the index points to such data.\<close>

lemma collect_data_healthy:
  assumes "healthy K s"
  shows "healthy K (collect_data temp s)"
proof -
  note ok = healthyD(1) [OF assms]
  have same: "idx (collect_data temp s) = idx s" "pin_tags (collect_data temp s) = pin_tags s"
    by (simp_all add: collect_data_def)
  have data: "tget (blob_data (collect_data temp s)) h
      = (if h \<in> snd ` set (pin_tags s) \<or> h \<in> temp then tget (blob_data s) h else None)" for h
    by (simp add: collect_data_def tget_filter_key)
  have "blob_sound K (collect_data temp s) b" if b: "blob_sound K s b" for b
  proof -
    have "br_hash b \<in> snd ` set (pin_tags s)"
      using b tget_SomeD by (metis blob_sound_def image_eqI snd_conv)
    with b show ?thesis unfolding blob_sound_def same data by simp
  qed
  moreover have "table_ok (blob_data (collect_data temp s))"
    using ok by (simp add: store_ok_def collect_data_def table_ok_def List.distinct_map_filter)
  ultimately have "store_ok K (collect_data temp s)"
    using ok unfolding store_ok_def same data by (auto split: if_splits)
  then show ?thesis by (rule healthy_less [OF assms]) (simp add: same)
qed

lemma dns_healthy: "keeps (stays_healthy K) (node_resolve_zone K E zone)"
  by (rule keeps_dns_healthy [OF keeps_resolve_zone])

lemma resolve_ref_healthy: "keeps (stays_healthy K) (resolve_image_ref K E rf)"
proof -
  have "keeps (stays_healthy K) (rewrite_dns_publisher K E x)" for x
    unfolding rewrite_dns_publisher_def
    by (auto split: option.split prod.split zone_outcome.split intro!: healthy_intros dns_healthy keeps_if)
  then show ?thesis unfolding resolve_image_ref_def by (intro healthy_intros)
qed

section \<open>Runs\<close>

text \<open>One operation of the node, whatever its peers, its resolver and its disk answer. Two different blobs
  with one BLAKE3 hash are never pushed.\<close>

inductive node_step :: "'z net_crates_scheme \<Rightarrow> node \<Rightarrow> node \<Rightarrow> bool" for K where
  gossip: "net_laws K E \<Longrightarrow> node_step K s (gossip_step K E sc msg s)"
| lan: "net_laws K E \<Longrightarrow> node_step K s (on_lan_peer K E p s)"
| sync: "net_laws K E \<Longrightarrow> node_step K s (fst (sync_with K E p s))"
| pull: "net_laws K E \<Longrightarrow> node_step K s (fst (get_or_fetch K E p n t s))"
| serve: "node_step K s (fst (handle_request K p rq s))"
| push: "(\<And>bs. tget (blob_data s) (blake3_of K data) = Some bs \<Longrightarrow> bs = data)
    \<Longrightarrow> node_step K s (fst (put_blob_bytes K data expect mt s))"
| publish: "digests_ok r \<Longrightarrow> node_step K s (fst (publish K E r s))"
| attach: "digest_ok (rf_digest rf) \<Longrightarrow> list_all (\<lambda>b. digest_ok (br_digest b)) blobs
    \<Longrightarrow> node_step K s (fst (attach_referrer K E subject rf blobs s))"
| announce: "node_step K s (fst (announce_all_local K E s))"
| policy: "f \<in> set [node_seed K E a m, node_unseed K E a, node_follow K E a m, node_unfollow K E a, node_pin K E a,
    node_unpin K E a] \<Longrightarrow> node_step K s (fst (f s))"
| reload: "node_step K s (fst (reload_policy K E s))"
| remove: "node_step K s (fst (node_remove_release K p n tag s))"
| collect: "node_step K s (fst (gc K E q s))"
| reclaim: "node_step K s (collect_data temp s)"
| resolve: "node_step K s (fst (resolve_image_ref K E rf s))"
| peer: "node_step K s (fst (add_peer_spec K E spec s))"

inductive_cases node_stepE: "node_step K s s'"

lemma announce_all_healthy: "keeps (stays_healthy K) (announce_all_local K E)"
proof -
  have "keeps (stays_healthy K) (then_do (announce K E r) (\<lambda>_. ret k))" for r and k :: nat
    by (intro healthy_intros announce_healthy)
  then have one: "keeps (stays_healthy K) (announce_one K E r k)" for r k
    by (simp add: keeps_def announce_one_def)
  have "keeps (stays_healthy K) (fold_op (announce_one K E) rs 0)" for rs
    by (intro healthy_fold one)
  then show ?thesis by (simp add: keeps_def announce_all_local_def)
qed

lemma add_peer_healthy: "keeps (stays_healthy K) (add_peer_spec K E spec)"
proof -
  have "healthy K (remember_peer K a s) = healthy K s" for a s
    by (rule healthy_same) (simp_all add: remember_peer_def)
  then have "keeps (stays_healthy K) (modify (remember_peer K a))"
    "keeps (stays_healthy K) (modify (\<lambda>s. case i of None \<Rightarrow> s | Some i \<Rightarrow> remember_peer K (addr_new i) s))" for a i
    by (intro keeps_modify; simp split: option.split)+
  then show ?thesis
    unfolding add_peer_spec_def add_peer_def
    by (auto split: prod.split option.split zone_outcome.split intro!: healthy_intros dns_healthy)
qed

lemma step_healthy:
  assumes "hex_laws K" "key_laws K" "sha_laws K"
  shows "node_step K s s' \<Longrightarrow> healthy K s \<Longrightarrow> healthy K s'"
proof (induction rule: node_step.induct)
  case (lan E s p)
  have "healthy K (note_peer_seen E p s)" using lan.prems by (simp add: healthy_seen)
  with keepsD [OF sync_with_healthy [OF lan.hyps]] lan.prems show ?case by (simp add: on_lan_peer_def)
next
  case (push s data expect mt)
  show ?case by (rule push_healthy [OF assms(1,3) push.prems push.hyps])
next
  case (policy f E a m s)
  from keepsD [OF policy_ops_healthy [OF assms(2) policy.hyps]] policy.prems show ?case by blast
qed (auto simp: handle_request_healthy gossip_healthy collect_data_healthy
    intro: keepsD [OF sync_with_healthy, THEN mp] keepsD [OF get_or_fetch_healthy, THEN mp]
      keepsD [OF publish_healthy [OF assms(2)], THEN mp] keepsD [OF attach_healthy [OF assms(2)], THEN mp]
      keepsD [OF announce_all_healthy, THEN mp] keepsD [OF reload_healthy [OF assms(2)], THEN mp]
      keepsD [OF remove_release_healthy [OF assms(2)], THEN mp] keepsD [OF gc_healthy [OF assms(2)], THEN mp]
      keepsD [OF resolve_ref_healthy, THEN mp] keepsD [OF add_peer_healthy, THEN mp])

lemma run_healthy:
  assumes "hex_laws K" "key_laws K" "sha_laws K"
  shows "(node_step K)\<^sup>*\<^sup>* s s' \<Longrightarrow> healthy K s \<Longrightarrow> healthy K s'"
  by (induction rule: rtranclp_induct) (auto intro: step_healthy [OF assms])

section \<open>Publishing\<close>

lemma publish_stores:
  assumes ok: "store_ok K s" and keys: "key_laws K" and r: "digests_ok r" "release_verify K r = Inr ()"
    and own: "p_publisher (payload r) = node_id K s" and free: "slot_free K (idx s) (slot_of r)"
  obtains ix where "publish K E r s = announce K E r (emit (ReleaseSaved (p_publisher (payload r)) (p_name (payload r))
      (p_tag (payload r)) (length (p_blobs (payload r)))) (s\<lparr>idx := ix\<rparr>))"
    "\<And>sl. release_at K ix sl = (if sl = slot_of r
       \<and> (\<forall>ex. release_at K (idx s) sl = Some ex \<longrightarrow> supersedes r ex) then Some r else release_at K (idx s) sl)"
proof -
  have ix: "index_ok K (idx s)" using ok by (simp add: store_ok_def)
  obtain ix' c where put: "put_release K (idx s) r = (ix', Inr c)"
    using put_release_free [OF ix release_verify_slot [OF r(2)] r(1) free]
    by (cases "put_release K (idx s) r") auto
  have "publish K E r s = announce K E r (emit (ReleaseSaved (p_publisher (payload r)) (p_name (payload r))
      (p_tag (payload r)) (length (p_blobs (payload r)))) (s\<lparr>idx := ix'\<rparr>))"
    using r(2) own put by (simp add: publish_def then_do_def on_index_def)
  moreover have "release_at K ix' sl = (if sl = slot_of r
       \<and> (\<forall>ex. release_at K (idx s) sl = Some ex \<longrightarrow> supersedes r ex) then Some r else release_at K (idx s) sl)" for sl
    using put_release_spec [OF ix keys r(1) put] by (auto simp del: split_paired_All)
  ultimately show ?thesis by (rule that)
qed

text \<open>What a healthy node holds is authentic.\<close>

lemma healthy_authentic:
  assumes "key_laws K" and h: "healthy K s"
  shows "(\<forall>p n t r. release_at K (idx s) (p, n, t) = Some r \<longrightarrow> slot_of r = (p, n, t) \<and> name_ok n \<and> tag_ok t
      \<and> (\<exists>sig. Option.bind (hex_decode K (signature r)) (try_array 64) = Some sig
           \<and> pk_verify K p (canonical_bytes K (payload r)) sig))
    \<and> (\<forall>d b. digest_ok d \<and> blob_at (idx s) d = Some b \<longrightarrow>
        (\<exists>bs. tget (blob_data s) (br_hash b) = Some bs \<and> digest_sha256 K bs = d))"
proof -
  have "slot_of r = (p, n, t) \<and> name_ok n \<and> tag_ok t
      \<and> (\<exists>sig. Option.bind (hex_decode K (signature r)) (try_array 64) = Some sig
           \<and> pk_verify K p (canonical_bytes K (payload r)) sig)"
    if r: "release_at K (idx s) (p, n, t) = Some r" for p n t r
  proof -
    have "slot_of r = (p, n, t)" "slot_ok r"
      using release_at_slot [OF healthyD(2) [OF h] assms(1) r] by simp_all
    with healthyD(3) [OF h r] show ?thesis by (auto simp: release_verify_iff slot_of_def slot_ok_def)
  qed
  moreover have "\<exists>bs. tget (blob_data s) (br_hash b) = Some bs \<and> digest_sha256 K bs = d"
    if "digest_ok d" "blob_at (idx s) d = Some b" for d b
    using store_blobD(3) [OF healthyD(1) [OF h] that] by blast
  ultimately show ?thesis by blast
qed

section \<open>Properties\<close>

lemma demo_node_healthy: "healthy demo_net (demo_node pol)"
  by (simp add: healthy_def demo_node_ok demo_node_nothing(1) del: split_paired_All)

lemma demo_publish:
  obtains ix where "publish demo_net E (demo_app 5) (demo_node pol) = announce demo_net E (demo_app 5)
     (emit (ReleaseSaved (PublicKey 5) ''app'' ''v1'' 0) ((demo_node pol)\<lparr>idx := ix\<rparr>))"
    "release_at demo_net ix (demo_slot 5) = Some (demo_app 5)"
proof -
  let ?r = "demo_app 5"
  have own: "p_publisher (payload ?r) = node_id demo_net (demo_node pol)"
    by (simp add: demo_app_fields demo_net_same demo_node_id demo_node_def)
  have none: "p_blobs (payload ?r) = []" using demo_app_fields(5) [of 5] by (simp add: all_blobs_def)
  obtain ix where ix: "publish demo_net E ?r (demo_node pol) = announce demo_net E ?r (emit (ReleaseSaved
      (p_publisher (payload ?r)) (p_name (payload ?r)) (p_tag (payload ?r)) (length (p_blobs (payload ?r))))
      ((demo_node pol)\<lparr>idx := ix\<rparr>))"
    "\<And>sl. release_at demo_net ix sl = (if sl = slot_of ?r
       \<and> (\<forall>ex. release_at demo_net (idx (demo_node pol)) sl = Some ex \<longrightarrow> supersedes ?r ex) then Some ?r
       else release_at demo_net (idx (demo_node pol)) sl)"
    by (rule publish_stores [OF demo_node_ok demo_net_laws(2) demo_app_shape(2) demo_app_verifies own demo_free])
      (rule that)
  have "release_at demo_net ix (demo_slot 5) = Some ?r"
    using ix(2) [of "demo_slot 5"] by (simp add: demo_app_fields demo_node_nothing(1))
  with ix(1) show ?thesis using that by (simp add: demo_app_fields none)
qed

text \<open>A push can be lost without a sign. When the node holds a release of its own that the new one does not
  supersede, because its clock went back or another push came in between, \<open>publish\<close> reports success and
  announces the new release, while the old one stays.\<close>

theorem stale_publish_announced:
  assumes "store_ok K s" "key_laws K" "digests_ok r" "release_verify K r = Inr ()"
    and "p_publisher (payload r) = node_id K s" "node_id K s \<in> topics s" "env_broadcast E"
    and "release_at K (idx s) (slot_of r) = Some ex" "\<not> supersedes r ex"
  shows "\<exists>s'. publish K E r s = (s', Inr ()) \<and> release_at K (idx s') (slot_of r) = Some ex
    \<and> announced s' = announced s @ [summary_of r]"
proof -
  have "index_ok K (idx s)" using assms(1) by (simp add: store_ok_def)
  from held_free [OF this assms(8)] obtain ix where
    run: "publish K E r s = announce K E r (emit (ReleaseSaved (p_publisher (payload r)) (p_name (payload r))
      (p_tag (payload r)) (length (p_blobs (payload r)))) (s\<lparr>idx := ix\<rparr>))" and
    at: "\<And>sl. release_at K ix sl = (if sl = slot_of r
       \<and> (\<forall>ex. release_at K (idx s) sl = Some ex \<longrightarrow> supersedes r ex) then Some r else release_at K (idx s) sl)"
    using publish_stores [OF assms(1-5)] by metis
  have "release_at K ix (slot_of r) = Some ex" using at [of "slot_of r"] assms(8,9) by simp
  then show ?thesis
    unfolding run using assms(5-7) by (simp add: announce_def Let_def emit_def)
qed

text \<open>The release of \<open>demo_app\<close> with an older time.\<close>

definition demo_late :: "bytes32 \<Rightarrow> release" where
  "demo_late sk = release_sign demo_node_crates 50 sk ((payload (demo_app sk))\<lparr>p_timestamp := 3\<rparr>)"

lemma demo_late_fields:
  "p_publisher (payload (demo_late sk)) = PublicKey sk" "p_timestamp (payload (demo_late sk)) = 3"
  "slot_of (demo_late sk) = demo_slot sk" "digests_ok (demo_late sk)" "release_verify demo_net (demo_late sk) = Inr ()"
proof -
  have pl: "payload (demo_late sk) = (payload (demo_app sk))\<lparr>p_version := release_version,
      p_publisher := sk_public demo_node_crates sk, p_timestamp := 3\<rparr>"
    by (simp add: demo_late_def release_sign_payload)
  have "sk_public demo_node_crates sk = PublicKey sk"
    by (simp add: demo_node_crates_def codecs.defs demo_codecs_def crates.defs demo_crates_def)
  then show "p_publisher (payload (demo_late sk)) = PublicKey sk" "p_timestamp (payload (demo_late sk)) = 3"
    "slot_of (demo_late sk) = demo_slot sk" "digests_ok (demo_late sk)"
    using demo_app_shape(2) [of sk] demo_app_fields(2,3) [of sk]
    by (simp_all add: pl slot_of_def digests_ok_def all_blobs_def)
  show "release_verify demo_net (demo_late sk) = Inr ()"
    unfolding demo_late_def demo_net_same(1) [symmetric] release_sign_verifies [OF demo_net_laws(1,3)]
    using demo_app_ok demo_app_fields(2,3) by simp
qed

theorem stale_publish_announced_witness:
  "\<exists>s s'. publish demo_net demo_env (demo_late 5) s = (s', Inr ())
     \<and> release_at demo_net (idx s') (demo_slot 5) = Some (demo_app 5) \<and> announced s' = [summary_of (demo_late 5)]"
proof -
  obtain ix where run: "publish demo_net demo_env (demo_app 5) (demo_node policy_default)
      = announce demo_net demo_env (demo_app 5)
          (emit (ReleaseSaved (PublicKey 5) ''app'' ''v1'' 0) ((demo_node policy_default)\<lparr>idx := ix\<rparr>))"
    and at: "release_at demo_net ix (demo_slot 5) = Some (demo_app 5)"
    by (rule demo_publish)
  let ?s = "(demo_node policy_default)\<lparr>idx := ix, topics := {PublicKey 5}\<rparr>"
  have "healthy demo_net (fst (publish demo_net demo_env (demo_app 5) (demo_node policy_default)))"
    using keepsD [OF publish_healthy [OF demo_net_laws(2) demo_app_shape(2)]] demo_node_healthy by blast
  moreover have "healthy demo_net ?s
      = healthy demo_net (fst (publish demo_net demo_env (demo_app 5) (demo_node policy_default)))"
    unfolding run by (rule healthy_same) (simp_all add: announce_def Let_def emit_def)
  ultimately have ok: "store_ok demo_net ?s" using healthyD(1) by blast
  have id: "node_id demo_net ?s = PublicKey 5" by (simp add: demo_net_same demo_node_id demo_node_def)
  have older: "\<not> supersedes (demo_late 5) (demo_app 5)"
    by (simp add: supersedes_def demo_late_fields demo_app_fields)
  have held: "release_at demo_net (idx ?s) (slot_of (demo_late 5)) = Some (demo_app 5)"
    using at by (simp add: demo_late_fields)
  have "announced ?s = []" by (simp add: demo_node_def)
  with stale_publish_announced [OF ok demo_net_laws(2) demo_late_fields(4,5) _ _ _ held older, of demo_env] id
  show ?thesis by (auto simp: demo_late_fields demo_env_def)
qed

end
