(* ===== verification/Manifest.thy ===== *)
theory Manifest
  imports Node_Runs
begin

text \<open>
  The manifest types of \<^verbatim>\<open>crates/ocid-core/src/oci.rs\<close>. The JSON reader is serde's: it is the parameter
  \<open>json_parse\<close>, and a document is a value of the datatype \<open>json\<close>; how a document becomes a manifest
  (derived decoders) is modelled here, the positional form of a structure included.
\<close>

section \<open>Documents\<close>

text \<open>A number that is no \<open>u64\<close> (negative or with a fraction) is \<open>JOther\<close>.\<close>

datatype json = JNull | JBool bool | JUint u64 | JOther | JStr string | JArr "json list" | JObj "(string, json) table"

record json_crates = net_crates +
  json_parse :: "byte list \<Rightarrow> json option"

text \<open>A structure is decoded from an object, or from an array in the order of its fields.\<close>

definition struct_fields :: "string list \<Rightarrow> json \<Rightarrow> (string, json) table option" where
  "struct_fields names v = (case v of
     JObj t \<Rightarrow> Some t
   | JArr xs \<Rightarrow> if length xs \<le> length names then Some (zip names xs) else None
   | _ \<Rightarrow> None)"

definition str_of :: "json \<Rightarrow> string option" where
  "str_of v = (case v of JStr s \<Rightarrow> Some s | _ \<Rightarrow> None)"

definition u64_of :: "json \<Rightarrow> u64 option" where
  "u64_of v = (case v of JUint n \<Rightarrow> Some n | _ \<Rightarrow> None)"

text \<open>A field that has to be there, and one with the attribute \<open>default\<close>.\<close>

definition field :: "(json \<Rightarrow> 'a option) \<Rightarrow> (string, json) table \<Rightarrow> string \<Rightarrow> 'a option" where
  "field dec t n = Option.bind (tget t n) dec"

definition field_or :: "(json \<Rightarrow> 'a option) \<Rightarrow> 'a \<Rightarrow> (string, json) table \<Rightarrow> string \<Rightarrow> 'a option" where
  "field_or dec d t n = (case tget t n of None \<Rightarrow> Some d | Some v \<Rightarrow> dec v)"

definition nullable :: "(json \<Rightarrow> 'a option) \<Rightarrow> json \<Rightarrow> 'a option option" where
  "nullable dec v = (if v = JNull then Some None else map_option Some (dec v))"

definition list_of :: "(json \<Rightarrow> 'a option) \<Rightarrow> json \<Rightarrow> 'a list option" where
  "list_of dec v = (case v of JArr xs \<Rightarrow> those (map dec xs) | _ \<Rightarrow> None)"

definition pair_of :: "string \<times> json \<Rightarrow> (string \<times> string) option" where
  "pair_of x = map_option (Pair (fst x)) (str_of (snd x))"

definition map_of_json :: "json \<Rightarrow> (string, string) table option" where
  "map_of_json v = (case v of JObj t \<Rightarrow> map_option (sort_key fst) (those (map pair_of t)) | _ \<Rightarrow> None)"

definition digest_of_json :: "json \<Rightarrow> digest option" where
  "digest_of_json v = Option.bind (str_of v) (\<lambda>s. to_option (digest_from_str s))"

section \<open>Manifests\<close>

record descriptor =
  d_media_type :: string
  d_digest :: digest
  d_size :: u64
  d_artifact_type :: "string option"
  d_annotations :: "(string, string) table option"

record image_manifest =
  im_media_type :: "string option"
  im_artifact_type :: "string option"
  im_config :: descriptor
  im_layers :: "descriptor list"
  im_subject :: "descriptor option"
  im_annotations :: "(string, string) table option"

record image_index =
  ix_media_type :: "string option"
  ix_artifact_type :: "string option"
  ix_manifests :: "descriptor list"
  ix_subject :: "descriptor option"
  ix_annotations :: "(string, string) table option"

datatype manifest = Image image_manifest | Index image_index

definition mt_oci_manifest :: string where
  "mt_oci_manifest = ''application/vnd.oci.image.manifest.v1+json''"

definition mt_oci_index :: string where
  "mt_oci_index = ''application/vnd.oci.image.index.v1+json''"

definition mt_docker_manifest :: string where
  "mt_docker_manifest = ''application/vnd.docker.distribution.manifest.v2+json''"

definition mt_docker_list :: string where
  "mt_docker_list = ''application/vnd.docker.distribution.manifest.list.v2+json''"

definition is_manifest_media_type :: "string \<Rightarrow> bool" where
  "is_manifest_media_type mt \<longleftrightarrow> mt \<in> {mt_oci_manifest, mt_oci_index, mt_docker_manifest, mt_docker_list}"

definition descriptor_of :: "json \<Rightarrow> descriptor option" where
  "descriptor_of v =
     Option.bind (struct_fields [''mediaType'', ''digest'', ''size'', ''artifactType'', ''annotations''] v) (\<lambda>t.
     Option.bind (field str_of t ''mediaType'') (\<lambda>mt.
     Option.bind (field digest_of_json t ''digest'') (\<lambda>d.
     Option.bind (field u64_of t ''size'') (\<lambda>n.
     Option.bind (field_or (nullable str_of) None t ''artifactType'') (\<lambda>a.
     Option.bind (field_or (nullable map_of_json) None t ''annotations'') (\<lambda>an.
     Some \<lparr>d_media_type = mt, d_digest = d, d_size = n, d_artifact_type = a, d_annotations = an\<rparr>))))))"

definition image_of :: "json \<Rightarrow> image_manifest option" where
  "image_of v =
     Option.bind (struct_fields [''mediaType'', ''artifactType'', ''config'', ''layers'', ''subject'', ''annotations''] v) (\<lambda>t.
     Option.bind (field_or (nullable str_of) None t ''mediaType'') (\<lambda>mt.
     Option.bind (field_or (nullable str_of) None t ''artifactType'') (\<lambda>a.
     Option.bind (field descriptor_of t ''config'') (\<lambda>c.
     Option.bind (field_or (list_of descriptor_of) [] t ''layers'') (\<lambda>ls.
     Option.bind (field_or (nullable descriptor_of) None t ''subject'') (\<lambda>sub.
     Option.bind (field_or (nullable map_of_json) None t ''annotations'') (\<lambda>an.
     Some \<lparr>im_media_type = mt, im_artifact_type = a, im_config = c, im_layers = ls, im_subject = sub,
       im_annotations = an\<rparr>)))))))"

definition index_of :: "json \<Rightarrow> image_index option" where
  "index_of v =
     Option.bind (struct_fields [''mediaType'', ''artifactType'', ''manifests'', ''subject'', ''annotations''] v) (\<lambda>t.
     Option.bind (field_or (nullable str_of) None t ''mediaType'') (\<lambda>mt.
     Option.bind (field_or (nullable str_of) None t ''artifactType'') (\<lambda>a.
     Option.bind (field_or (list_of descriptor_of) [] t ''manifests'') (\<lambda>ms.
     Option.bind (field_or (nullable descriptor_of) None t ''subject'') (\<lambda>sub.
     Option.bind (field_or (nullable map_of_json) None t ''annotations'') (\<lambda>an.
     Some \<lparr>ix_media_type = mt, ix_artifact_type = a, ix_manifests = ms, ix_subject = sub, ix_annotations = an\<rparr>))))))"

text \<open>A member of a document that is no object is not there.\<close>

definition member :: "json \<Rightarrow> string \<Rightarrow> json option" where
  "member v n = (case v of JObj t \<Rightarrow> tget t n | _ \<Rightarrow> None)"

definition manifest_parse :: "'z json_crates_scheme \<Rightarrow> byte list \<Rightarrow> string option \<Rightarrow> manifest result" where
  "manifest_parse K bs content_type =
     and_then (ok_or (json_parse K bs) (Manifest_err ManifestJson)) (\<lambda>v.
     let mt = (case Option.bind (member v ''mediaType'') str_of of
                 Some m \<Rightarrow> m | None \<Rightarrow> (case content_type of Some c \<Rightarrow> c | None \<Rightarrow> []));
         is_index = (mt \<in> {mt_oci_index, mt_docker_list} \<or> (mt = [] \<and> member v ''manifests'' \<noteq> None))
     in if is_index then and_then (ok_or (index_of v) (Manifest_err IndexShape)) (\<lambda>i. Inr (Index i))
        else and_then (ok_or (image_of v) (Manifest_err ImageShape)) (\<lambda>m. Inr (Image m)))"

definition manifest_media_type :: "manifest \<Rightarrow> string" where
  "manifest_media_type m = (case m of
     Image i \<Rightarrow> (case im_media_type i of Some t \<Rightarrow> t | None \<Rightarrow> mt_oci_manifest)
   | Index i \<Rightarrow> (case ix_media_type i of Some t \<Rightarrow> t | None \<Rightarrow> mt_oci_index))"

definition manifest_subject :: "manifest \<Rightarrow> descriptor option" where
  "manifest_subject m = (case m of Image i \<Rightarrow> im_subject i | Index i \<Rightarrow> ix_subject i)"

definition manifest_artifact_type :: "manifest \<Rightarrow> string option" where
  "manifest_artifact_type m = (case m of
     Image i \<Rightarrow> (case im_artifact_type i of Some t \<Rightarrow> Some t | None \<Rightarrow> Some (d_media_type (im_config i)))
   | Index i \<Rightarrow> ix_artifact_type i)"

definition manifest_annotations :: "manifest \<Rightarrow> (string, string) table option" where
  "manifest_annotations m = (case m of Image i \<Rightarrow> im_annotations i | Index i \<Rightarrow> ix_annotations i)"

definition referenced :: "manifest \<Rightarrow> descriptor list" where
  "referenced m = (case m of Image i \<Rightarrow> im_config i # im_layers i | Index i \<Rightarrow> ix_manifests i)"

section \<open>What decodes is well formed\<close>

definition manifest_ok :: "manifest \<Rightarrow> bool" where
  "manifest_ok m \<longleftrightarrow> list_all (\<lambda>d. digest_ok (d_digest d)) (referenced m)
     \<and> (\<forall>d. manifest_subject m = Some d \<longrightarrow> digest_ok (d_digest d))"

lemma digest_of_json_ok: "digest_of_json v = Some d \<Longrightarrow> digest_ok d"
  by (auto simp: digest_of_json_def digest_ok_def bind_eq_Some_conv dest: digest_from_str_str)

lemma descriptor_ok: "descriptor_of v = Some d \<Longrightarrow> digest_ok (d_digest d)"
  by (auto simp: descriptor_of_def field_def bind_eq_Some_conv digest_of_json_ok)

lemma those_Some_iff: "those ms = Some xs \<longleftrightarrow> ms = map Some xs"
  by (induction ms arbitrary: xs) (auto split: option.splits simp: Cons_eq_map_conv)

lemma descriptors_ok:
  assumes "list_of descriptor_of v = Some ds"
  shows "list_all (\<lambda>d. digest_ok (d_digest d)) ds"
proof -
  obtain xs where "map descriptor_of xs = map Some ds"
    using assms by (auto simp: list_of_def those_Some_iff split: json.splits)
  then show ?thesis
    using descriptor_ok by (induction ds arbitrary: xs) (auto simp: map_eq_Cons_conv)
qed

lemma subject_ok: "nullable descriptor_of v = Some (Some d) \<Longrightarrow> digest_ok (d_digest d)"
  by (auto simp: nullable_def descriptor_ok split: if_splits)

lemma field_or_SomeD: "field_or dec d t n = Some x \<Longrightarrow> x = d \<or> (\<exists>v. dec v = Some x)"
  by (auto simp: field_or_def split: option.splits)

lemma field_SomeD: "field dec t n = Some x \<Longrightarrow> \<exists>v. dec v = Some x"
  by (auto simp: field_def bind_eq_Some_conv)

lemma subject_field_ok: "field_or (nullable descriptor_of) None t n = Some (Some d) \<Longrightarrow> digest_ok (d_digest d)"
  using field_or_SomeD [of "nullable descriptor_of" None t n "Some d"] subject_ok by blast

lemma list_field_ok:
  "field_or (list_of descriptor_of) [] t n = Some ds \<Longrightarrow> list_all (\<lambda>d. digest_ok (d_digest d)) ds"
  using field_or_SomeD [of "list_of descriptor_of" "[]" t n ds] descriptors_ok by (metis list.pred_inject(1))

lemma index_of_ok:
  assumes "index_of v = Some i"
  shows "manifest_ok (Index i)"
proof -
  obtain t m n where "field_or (list_of descriptor_of) [] t m = Some (ix_manifests i)"
      "field_or (nullable descriptor_of) None t n = Some (ix_subject i)"
    using assms unfolding index_of_def bind_eq_Some_conv option.inject
    by (elim exE conjE) (metis image_index.select_convs(3,4))
  then show ?thesis
    using subject_field_ok list_field_ok by (auto simp: manifest_ok_def referenced_def manifest_subject_def)
qed

lemma image_of_ok:
  assumes "image_of v = Some i"
  shows "manifest_ok (Image i)"
proof -
  obtain t l m n where "field_or (list_of descriptor_of) [] t m = Some (im_layers i)"
      "field_or (nullable descriptor_of) None t n = Some (im_subject i)" "field descriptor_of t l = Some (im_config i)"
    using assms unfolding image_of_def bind_eq_Some_conv option.inject
    by (elim exE conjE) (metis image_manifest.select_convs(3-5))
  then show ?thesis
    using subject_field_ok list_field_ok field_SomeD [of descriptor_of t l] descriptor_ok
    by (auto simp: manifest_ok_def referenced_def manifest_subject_def)
qed

lemma manifest_parse_ok:
  assumes "manifest_parse K bs ct = Inr m"
  shows "manifest_ok m"
  using assms index_of_ok image_of_ok by (auto simp: manifest_parse_def Let_def split: if_splits)

end
