(* ===== verification/Registry.thy ===== *)
theory Registry
  imports Manifest
begin

text \<open>
  The OCI registry (\<^verbatim>\<open>crates/ocid/src/registry.rs\<close>, the \<^verbatim>\<open>/v2/\<close> routes). A handler takes the state of
  the server and gives a response or an OCI error. Message texts, metrics and log lines are left out,
  and an operation is taken to end before its time limit. A request body is the list of its chunks and
  whether the stream breaks after them.
\<close>

section \<open>Requests and responses\<close>

datatype resp_body =
    Empty
  | Data "byte list"
  | Repositories "string list"
  | Tag_list string "string list"
  | Referrer_list "referrer list"
  | Error_code string

record http_resp =
  status :: nat
  headers :: "(string \<times> string) list"
  resp_body :: resp_body

record oci_error =
  e_status :: nat
  e_code :: string

record http_body =
  chunks :: "byte list list"
  broken :: bool

record http_req =
  rq_method :: string
  rq_path :: string
  rq_query :: "(string, string) table"
  rq_content_type :: "string option"
  rq_range :: "string option"
  rq_body :: http_body

record upload =
  up_path :: string
  up_size :: u64

record app =
  app_node :: node
  app_uploads :: "(string, upload) table"

text \<open>What the world answers during a request: as for the node, and a fresh upload id and whether a file can
  be created.\<close>

record http_env =
  net_env :: node_env
  fresh_id :: string
  can_create :: bool

type_synonym 'a handler = "(app, oci_error, 'a) fallible"

definition oci_error_new :: "nat \<Rightarrow> string \<Rightarrow> oci_error" where
  "oci_error_new st code = \<lparr>e_status = st, e_code = code\<rparr>"

definition oci_not_found :: "string \<Rightarrow> oci_error" where
  "oci_not_found code = oci_error_new 404 code"

definition oci_bad :: oci_error where
  "oci_bad = oci_error_new 400 ''UNSUPPORTED''"

definition oci_internal :: "err \<Rightarrow> oci_error" where
  "oci_internal e = oci_error_new 500 ''UNKNOWN''"

definition bad_request :: "string \<Rightarrow> err \<Rightarrow> oci_error" where
  "bad_request code e = oci_error_new 400 code"

definition api_version :: "string \<times> string" where
  "api_version = (''Docker-Distribution-API-Version'', ''registry/2.0'')"

definition error_response :: "oci_error \<Rightarrow> http_resp" where
  "error_response e = \<lparr>status = e_status e, headers = [api_version], resp_body = Error_code (e_code e)\<rparr>"

definition with_api_version :: "http_resp \<Rightarrow> http_resp" where
  "with_api_version r = r\<lparr>headers := headers r @ [api_version]\<rparr>"

text \<open>An operation of the node inside a handler, and a check of its state.\<close>

definition on_node :: "(err \<Rightarrow> oci_error) \<Rightarrow> 'a node_op \<Rightarrow> 'a handler" where
  "on_node f m a = (case m (app_node a) of (s, r) \<Rightarrow> (a\<lparr>app_node := s\<rparr>, map_err f r))"

definition with_node :: "(node \<Rightarrow> 'a handler) \<Rightarrow> 'a handler" where
  "with_node g a = g (app_node a) a"

section \<open>Routes\<close>

datatype route =
    Catalog
  | Tags string
  | Manifest_route string string
  | Upload_start string
  | Upload_route string string
  | Blob_route string string
  | Referrers_route string string

definition route_of :: "string \<Rightarrow> route option" where
  "route_of path0 =
     (let path = trim_end_by (\<lambda>c. c = CHR ''/'') path0 in
      if path = ''_catalog'' then Some Catalog
      else (case strip_suffix ''/tags/list'' path of
        Some name \<Rightarrow> Some (Tags name)
      | None \<Rightarrow> (case find_last ''/blobs/uploads'' path of
        Some (name, rest) \<Rightarrow>
          (case strip_prefix ''/'' rest of
             None \<Rightarrow> Some (Upload_start name)
           | Some i \<Rightarrow> if i = [] then Some (Upload_start name) else Some (Upload_route name i))
      | None \<Rightarrow> (case find_last ''/manifests/'' path of
        Some (name, rf) \<Rightarrow> Some (Manifest_route name rf)
      | None \<Rightarrow> (case find_last ''/referrers/'' path of
        Some (name, d) \<Rightarrow> Some (Referrers_route name d)
      | None \<Rightarrow> (case find_last ''/blobs/'' path of
        Some (name, d) \<Rightarrow> Some (Blob_route name d)
      | None \<Rightarrow> None))))))"

section \<open>Names, catalog and tags\<close>

definition resolve_dns_name :: "'z crates_scheme \<Rightarrow> http_env \<Rightarrow> string \<Rightarrow> string handler" where
  "resolve_dns_name K E name = on_node (bad_request ''NAME_INVALID'') (rewrite_dns_publisher K (net_env E) name)"

definition resolve :: "'z crates_scheme \<Rightarrow> http_env \<Rightarrow> string \<Rightarrow> (public_key \<times> string) handler" where
  "resolve K E name =
     then_do (resolve_dns_name K E name) (\<lambda>name'.
     on_node (bad_request ''NAME_INVALID'') (lift_res (\<lambda>s. resolve_repo K name' (node_policy s) (node_id K s))))"

text \<open>\<open>dedup\<close> removes neighbours that are equal.\<close>

definition catalog :: "'z crates_scheme \<Rightarrow> http_resp handler" where
  "catalog K a =
     (let repos = map (\<lambda>r. pk_display K (p_publisher (payload r)) @ ''/'' @ p_name (payload r))
                    (list_releases K (idx (app_node a)))
      in ret \<lparr>status = 200, headers = [], resp_body = Repositories (remdups_adj repos)\<rparr> a)"

definition tags_list :: "'z crates_scheme \<Rightarrow> http_env \<Rightarrow> string \<Rightarrow> http_resp handler" where
  "tags_list K E name =
     then_do (resolve K E name) (\<lambda>(publisher, img).
     then_do (on_node oci_internal (lift_res (\<lambda>s. list_tags K (idx s) publisher img))) (\<lambda>tags.
     if tags = [] then fail (oci_not_found ''NAME_UNKNOWN'')
     else ret \<lparr>status = 200, headers = [], resp_body = Tag_list name tags\<rparr>))"

section \<open>Blobs\<close>

text \<open>The entry of a digest whose data is there.\<close>

definition held_blob :: "digest \<Rightarrow> string \<Rightarrow> blob_ref handler" where
  "held_blob d code =
     then_do (on_node oci_internal (lift_res (\<lambda>s. blob_ref_get (idx s) d))) (\<lambda>m. with_node (\<lambda>s.
     case m of
       Some b \<Rightarrow> if has_hash (br_hash b) s then ret b else fail (oci_not_found code)
     | None \<Rightarrow> fail (oci_not_found code)))"

definition u64_min :: "u64 \<Rightarrow> u64 \<Rightarrow> u64" where
  "u64_min a b = (if a \<le> b then a else b)"

text \<open>The first and the last byte that the two sides of the dash ask for.\<close>

definition range_ends :: "string \<Rightarrow> string \<Rightarrow> u64 \<Rightarrow> (u64 \<times> u64) option" where
  "range_ends a b sz =
     (if a = [] then
        Option.bind (parse_u64 b) (\<lambda>n. if n = 0 then None else Some (saturating_sub sz n, sz - 1))
      else if b = [] then
        Option.bind (parse_u64 a) (\<lambda>s. Some (s, sz - 1))
      else
        Option.bind (parse_u64 a) (\<lambda>s.
        Option.bind (parse_u64 b) (\<lambda>e. Some (s, u64_min e (sz - 1)))))"

definition parse_range :: "string \<Rightarrow> u64 \<Rightarrow> (u64 \<times> u64) option" where
  "parse_range spec0 sz =
     Option.bind (strip_prefix ''bytes='' spec0) (\<lambda>spec1.
     let spec = trim spec1 in
     if CHR '','' \<in> set spec \<or> sz = 0 then None
     else
       Option.bind (split_once CHR ''-'' spec) (\<lambda>(a, b).
       Option.bind (range_ends (trim a) (trim b) sz) (\<lambda>(s, e).
       if s \<le> e \<and> s < sz then Some (s, e) else None)))"

definition show_u64 :: "u64 \<Rightarrow> string" where
  "show_u64 n = show_nat (unat n)"

definition blob_headers :: "blob_ref \<Rightarrow> u64 \<Rightarrow> (string \<times> string) list" where
  "blob_headers b len =
     [(''Content-Type'', ''application/octet-stream''), (''Content-Length'', show_u64 len),
      (''Accept-Ranges'', ''bytes''), (''Docker-Content-Digest'', digest_str (br_digest b))]"

text \<open>The answer for a blob that is there, as a whole or a range of it.\<close>

definition blob_response :: "string option \<Rightarrow> bool \<Rightarrow> blob_ref \<Rightarrow> http_resp handler" where
  "blob_response range_spec head b =
     (case (case range_spec of None \<Rightarrow> Some None | Some spec \<Rightarrow> map_option Some (parse_range spec (br_size b))) of
       None \<Rightarrow> ret \<lparr>status = 416, headers = [(''Content-Range'', ''bytes */'' @ show_u64 (br_size b))], resp_body = Empty\<rparr>
     | Some rng \<Rightarrow>
         (let (st, start, len) = (case rng of
                 Some (s, e) \<Rightarrow> (206, s, e - s + 1) | None \<Rightarrow> (200, 0, br_size b));
              hs = blob_headers b len @ (case rng of
                 Some (s, e) \<Rightarrow> [(''Content-Range'', ''bytes '' @ show_u64 s @ ''-'' @ show_u64 e @ ''/'' @ show_u64 (br_size b))]
               | None \<Rightarrow> [])
          in if head then ret \<lparr>status = st, headers = hs, resp_body = Empty\<rparr>
             else
               then_do (on_node oci_internal (lift_res (read_hash (br_hash b)))) (\<lambda>bytes.
               ret \<lparr>status = st, headers = hs,
                 resp_body = Data (take (unat len) (drop (unat start) bytes))\<rparr>)))"

definition blob_get :: "'z crates_scheme \<Rightarrow> http_env \<Rightarrow> string \<Rightarrow> string \<Rightarrow> string option \<Rightarrow> bool \<Rightarrow> http_resp handler" where
  "blob_get K E name dig range_spec head =
     then_do (resolve K E name) (\<lambda>_.
     then_do (lift_res (\<lambda>_. map_err (bad_request ''DIGEST_INVALID'') (digest_from_str dig))) (\<lambda>d.
     then_do (held_blob d ''BLOB_UNKNOWN'') (blob_response range_spec head)))"

section \<open>Manifests\<close>

definition response_media_type :: "blob_ref \<Rightarrow> string" where
  "response_media_type b = (case br_media_type b of Some m \<Rightarrow> m | None \<Rightarrow> mt_oci_manifest)"

definition manifest_get :: "'z json_crates_scheme \<Rightarrow> http_env \<Rightarrow> string \<Rightarrow> string \<Rightarrow> bool \<Rightarrow> http_resp handler" where
  "manifest_get K E name rf head =
     then_do (resolve K E name) (\<lambda>(publisher, img).
     then_do
       (case digest_from_str rf of
          Inr d \<Rightarrow> held_blob d ''MANIFEST_UNKNOWN''
        | Inl _ \<Rightarrow>
            then_do (lift_res (\<lambda>_. map_err (bad_request ''TAG_INVALID'') (validate_tag rf))) (\<lambda>_.
            then_do (on_node oci_internal (get_or_fetch K (net_env E) publisher img rf)) (\<lambda>rel.
            case rel of Some r \<Rightarrow> ret (p_manifest (payload r)) | None \<Rightarrow> fail (oci_not_found ''MANIFEST_UNKNOWN''))))
       (\<lambda>b.
     let hs = [(''Content-Type'', response_media_type b), (''Content-Length'', show_u64 (br_size b)),
               (''Docker-Content-Digest'', digest_str (br_digest b))]
     in if head then ret \<lparr>status = 200, headers = hs, resp_body = Empty\<rparr>
        else
          then_do (on_node oci_internal (lift_res (read_hash (br_hash b)))) (\<lambda>bytes.
          ret \<lparr>status = 200, headers = hs @ [(''ETag'', ''\"'' @ digest_str (br_digest b) @ ''\"'')],
            resp_body = Data bytes\<rparr>)))"

text \<open>The blobs a manifest references, those of its child manifests included. The recursion has fuel;
  \<open>Out_of_fuel\<close> is shown never to happen with the fuel given.\<close>

datatype stop = Refused oci_error | Out_of_fuel

definition on_index_read :: "(fs \<Rightarrow> 'b result) \<Rightarrow> (node, stop, 'b) fallible" where
  "on_index_read f = lift_res (\<lambda>s. map_err (\<lambda>e. Refused (oci_internal e)) (f (idx s)))"

definition fill_media_type :: "descriptor \<Rightarrow> blob_ref \<Rightarrow> (node, stop, blob_ref) fallible" where
  "fill_media_type d b s =
     (if br_media_type b = None then
        (let b' = b\<lparr>br_media_type := Some (d_media_type d)\<rparr> in
         case record_blob b' s of
           (s', Inl e) \<Rightarrow> (s', Inl (Refused (oci_internal e)))
         | (s', Inr _) \<Rightarrow> (s', Inr b'))
      else (s, Inr b))"

definition collect_one ::
  "'z json_crates_scheme \<Rightarrow> (manifest \<Rightarrow> blob_ref list \<Rightarrow> (node, stop, blob_ref list) fallible)
     \<Rightarrow> descriptor \<Rightarrow> blob_ref list \<Rightarrow> (node, stop, blob_ref list) fallible" where
  "collect_one K recurse d out =
     then_do (on_index_read (\<lambda>ix. blob_ref_get ix (d_digest d))) (\<lambda>m s.
     case m of
       None \<Rightarrow> fail (Refused (oci_error_new 400 ''MANIFEST_BLOB_UNKNOWN'')) s
     | Some b0 \<Rightarrow>
         if \<not> has_hash (br_hash b0) s then fail (Refused (oci_error_new 400 ''MANIFEST_BLOB_UNKNOWN'')) s
         else
           then_do (fill_media_type d b0) (\<lambda>b.
           if br_digest b \<in> set (map br_digest out) then ret out
           else if is_manifest_media_type (d_media_type d) then
             then_do (lift_res (\<lambda>s. map_err (\<lambda>e. Refused (oci_internal e)) (read_hash (br_hash b) s))) (\<lambda>bytes.
             then_do (lift_res (\<lambda>_. map_err (\<lambda>_. Refused (oci_error_new 400 ''MANIFEST_INVALID''))
               (manifest_parse K bytes (Some (d_media_type d))))) (\<lambda>child.
             recurse child (out @ [b])))
           else ret (out @ [b])) s)"

primrec collect_refs ::
  "'z json_crates_scheme \<Rightarrow> nat \<Rightarrow> manifest \<Rightarrow> blob_ref list \<Rightarrow> (node, stop, blob_ref list) fallible" where
  "collect_refs K 0 m out = fail Out_of_fuel"
| "collect_refs K (Suc n) m out = fold_op (collect_one K (collect_refs K n)) (referenced m) out"

text \<open>One more than there are files in the index.\<close>

definition refs_fuel :: "node \<Rightarrow> nat" where
  "refs_fuel s = Suc (length (idx s))"

definition refused :: "stop \<Rightarrow> oci_error" where
  "refused x = (case x of Refused e \<Rightarrow> e | Out_of_fuel \<Rightarrow> oci_internal Io_err)"

definition collect_all :: "'z json_crates_scheme \<Rightarrow> manifest \<Rightarrow> blob_ref list handler" where
  "collect_all K m a =
     (case collect_refs K (refs_fuel (app_node a)) m [] (app_node a) of
        (s, r) \<Rightarrow> (a\<lparr>app_node := s\<rparr>, map_err refused r))"

definition max_manifest :: nat where
  "max_manifest = 4 * 1024 * 1024"

definition to_bytes :: "nat \<Rightarrow> http_body \<Rightarrow> byte list option" where
  "to_bytes limit b =
     (if broken b \<or> length (concat (chunks b)) > limit then None else Some (concat (chunks b)))"

definition essence :: "string \<Rightarrow> string" where
  "essence s = trim (hd (split_on CHR '';'' s))"

text \<open>An artifact is remembered under its subject, and attached to our releases of the subject.\<close>

definition referrer_for :: "manifest \<Rightarrow> blob_ref \<Rightarrow> string \<Rightarrow> referrer" where
  "referrer_for m b mt = \<lparr>rf_digest = br_digest b, rf_media_type = mt, rf_size = br_size b,
     rf_artifact_type = manifest_artifact_type m,
     rf_annotations = (case manifest_annotations m of Some t \<Rightarrow> t | None \<Rightarrow> [])\<rparr>"

definition store_referrer :: "digest \<Rightarrow> referrer \<Rightarrow> unit node_op" where
  "store_referrer subject rf = on_index (\<lambda>ix. case put_referrer ix subject rf of
     Inl e \<Rightarrow> (ix, Inl e) | Inr ix' \<Rightarrow> (ix', Inr ()))"

definition attach_subject ::
  "'z json_crates_scheme \<Rightarrow> http_env \<Rightarrow> manifest \<Rightarrow> blob_ref \<Rightarrow> string \<Rightarrow> blob_ref list \<Rightarrow> unit handler" where
  "attach_subject K E m b mt blobs =
     (case manifest_subject m of
        None \<Rightarrow> ret ()
      | Some d \<Rightarrow>
          (let rf = referrer_for m b mt in
           then_do (on_node oci_internal (store_referrer (d_digest d) rf)) (\<lambda>_.
           then_do (on_node oci_internal (attach_referrer K (net_env E) (d_digest d) rf (b # blobs))) (\<lambda>_.
           ret ()))))"

definition pushed_release ::
  "'z json_crates_scheme \<Rightarrow> http_env \<Rightarrow> public_key \<Rightarrow> string \<Rightarrow> string \<Rightarrow> blob_ref \<Rightarrow> blob_ref list \<Rightarrow> node \<Rightarrow> release" where
  "pushed_release K E publisher img tag b blobs s =
     release_sign K (env_unix (net_env E)) (node_key s)
       \<lparr>p_version = 0, p_publisher = publisher, p_name = img, p_tag = tag, p_manifest = b, p_blobs = blobs,
         p_timestamp = 0, p_referrers = []\<rparr>"

definition manifest_put ::
  "'z json_crates_scheme \<Rightarrow> http_env \<Rightarrow> string \<Rightarrow> string \<Rightarrow> string option \<Rightarrow> http_body \<Rightarrow> http_resp handler" where
  "manifest_put K E name rf content_type0 body =
     then_do (resolve K E name) (\<lambda>(publisher, img).
     with_node (\<lambda>s.
     if publisher \<noteq> node_id K s then fail (oci_error_new 403 ''DENIED'')
     else
       (let content_type = map_option essence content_type0 in
        then_do (lift_res (\<lambda>_. ok_or (to_bytes max_manifest body) oci_bad)) (\<lambda>bytes.
        then_do (lift_res (\<lambda>_. map_err (bad_request ''MANIFEST_INVALID'') (manifest_parse K bytes content_type))) (\<lambda>m.
        let mt = (case content_type of Some t \<Rightarrow> t | None \<Rightarrow> manifest_media_type m) in
        then_do (collect_all K m) (\<lambda>blobs.
        let dig = digest_sha256 K bytes in
        then_do (lift_res (\<lambda>_. case digest_from_str rf of
            Inr d \<Rightarrow> ensure (\<not> d \<noteq> dig) (oci_error_new 400 ''DIGEST_INVALID'')
          | Inl _ \<Rightarrow> map_err (bad_request ''TAG_INVALID'') (validate_tag rf))) (\<lambda>_.
        then_do (on_node oci_internal (put_blob_bytes K bytes (Some dig) (Some mt))) (\<lambda>b.
        then_do (attach_subject K E m b mt blobs) (\<lambda>_.
        then_do (case digest_from_str rf of
            Inr _ \<Rightarrow> ret ()
          | Inl _ \<Rightarrow> with_node (\<lambda>s. on_node oci_internal
              (publish K (net_env E) (pushed_release K E publisher img rf b blobs s)))) (\<lambda>_.
        ret \<lparr>status = 201,
          headers = [(''Location'', ''/v2/'' @ name @ ''/manifests/'' @ digest_str (br_digest b)),
             (''Docker-Content-Digest'', digest_str (br_digest b))]
             @ (case manifest_subject m of Some d \<Rightarrow> [(''OCI-Subject'', digest_str (d_digest d))] | None \<Rightarrow> []),
          resp_body = Empty\<rparr>))))))))))"

definition referrers_get ::
  "'z crates_scheme \<Rightarrow> http_env \<Rightarrow> string \<Rightarrow> string \<Rightarrow> (string, string) table \<Rightarrow> http_resp handler" where
  "referrers_get K E name dig query =
     then_do (resolve K E name) (\<lambda>_.
     then_do (lift_res (\<lambda>_. map_err (bad_request ''DIGEST_INVALID'') (digest_from_str dig))) (\<lambda>d.
     with_node (\<lambda>s.
     let want = tget query ''artifactType'';
         found = filter (\<lambda>r. case want of None \<Rightarrow> True | Some f \<Rightarrow> rf_artifact_type r = Some f) (list_referrers (idx s) d)
     in ret \<lparr>status = 200,
          headers = (''Content-Type'', mt_oci_index) # (if want \<noteq> None then [(''OCI-Filters-Applied'', ''artifactType'')] else []),
          resp_body = Referrer_list found\<rparr>)))"

definition tags_at :: "'z crates_scheme \<Rightarrow> public_key \<Rightarrow> string \<Rightarrow> digest \<Rightarrow> node \<Rightarrow> string list result" where
  "tags_at K publisher img d s =
     and_then (list_tags K (idx s) publisher img) (\<lambda>ts.
     and_then (map_res (\<lambda>t. and_then (get_release K (idx s) publisher img t) (\<lambda>m. Inr (t, m))) ts) (\<lambda>ms.
     Inr (map fst (filter (\<lambda>(t, m). case m of Some r \<Rightarrow> br_digest (p_manifest (payload r)) = d | None \<Rightarrow> False) ms))))"

definition manifest_delete :: "'z crates_scheme \<Rightarrow> http_env \<Rightarrow> string \<Rightarrow> string \<Rightarrow> http_resp handler" where
  "manifest_delete K E name rf =
     then_do (resolve K E name) (\<lambda>(publisher, img).
     then_do
       (case digest_from_str rf of
          Inr d \<Rightarrow>
            then_do (on_node oci_internal (lift_res (tags_at K publisher img d))) (\<lambda>v.
            if v = [] then fail (oci_not_found ''MANIFEST_UNKNOWN'') else ret v)
        | Inl _ \<Rightarrow>
            then_do (lift_res (\<lambda>_. map_err (bad_request ''TAG_INVALID'') (validate_tag rf))) (\<lambda>_.
            then_do (on_node oci_internal (lift_res (\<lambda>s. get_release K (idx s) publisher img rf))) (\<lambda>m.
            if m = None then fail (oci_not_found ''MANIFEST_UNKNOWN'') else ret [rf])))
       (\<lambda>tags.
     then_do (for_each tags (\<lambda>t. then_do (on_node oci_internal (node_remove_release K publisher img (Some t))) (\<lambda>_. ret ())))
       (\<lambda>_.
     ret \<lparr>status = 202, headers = [], resp_body = Empty\<rparr>)))"

end
