(* ===== verification/Server.thy ===== *)
theory Server
  imports Registry
begin

text \<open>
  The upload sessions of the registry, the dispatch of its requests, and the control API
  (\<^verbatim>\<open>crates/ocid/src/registry.rs\<close>, \<^verbatim>\<open>/_ocid/\<close>). The JSON encoding of the control answers is serde's:
  an answer is the value that is encoded.
\<close>

section \<open>Uploads\<close>

definition upload_location :: "string \<Rightarrow> string \<Rightarrow> string" where
  "upload_location name i = ''/v2/'' @ name @ ''/blobs/uploads/'' @ i"

definition upload_headers :: "string \<Rightarrow> string \<Rightarrow> string \<Rightarrow> (string \<times> string) list" where
  "upload_headers name i rng =
     [(''Location'', upload_location name i), (''Docker-Upload-UUID'', i), (''Range'', rng)]"

definition content_length_0 :: "string \<times> string" where
  "content_length_0 = (''Content-Length'', ''0'')"

definition received :: "u64 \<Rightarrow> string" where
  "received n = ''0-'' @ show_u64 (saturating_sub n 1)"

definition unknown_upload :: oci_error where
  "unknown_upload = oci_not_found ''BLOB_UPLOAD_UNKNOWN''"

text \<open>The chunks that came before the stream broke are in the file; the recorded size is not touched then.\<close>

definition append_body :: "string \<Rightarrow> http_body \<Rightarrow> u64 handler" where
  "append_body i body a =
     (case tget (app_uploads a) i of
        None \<Rightarrow> fail unknown_upload a
      | Some u \<Rightarrow>
          (case tget (upload_files (app_node a)) (up_path u) of
             None \<Rightarrow> fail (oci_internal Io_err) a
           | Some old \<Rightarrow>
               (let content = old @ concat (chunks body);
                    s = app_node a;
                    a1 = a\<lparr>app_node := s\<lparr>upload_files := tput (up_path u) content (upload_files s)\<rparr>\<rparr>
                in if broken body then fail oci_bad a1
                   else
                     (let n = of_nat (length content)
                      in ret n (a1\<lparr>app_uploads := tput i (u\<lparr>up_size := n\<rparr>) (app_uploads a1)\<rparr>)))))"

definition upload_patch :: "string \<Rightarrow> string \<Rightarrow> http_body \<Rightarrow> http_resp handler" where
  "upload_patch name i body =
     then_do (append_body i body) (\<lambda>n.
     ret \<lparr>status = 202, headers = upload_headers name i (received n) @ [content_length_0], resp_body = Empty\<rparr>)"

definition take_upload :: "string \<Rightarrow> upload handler" where
  "take_upload i a =
     (case tget (app_uploads a) i of
        None \<Rightarrow> fail unknown_upload a
      | Some u \<Rightarrow> ret u (a\<lparr>app_uploads := tdel i (app_uploads a)\<rparr>))"

text \<open>The file goes into the blob store and away, or only away.\<close>

definition import_upload :: "'z node_crates_scheme \<Rightarrow> upload \<Rightarrow> digest \<Rightarrow> blob_ref handler" where
  "import_upload K u d a =
     (let s = app_node a;
          gone = s\<lparr>upload_files := tdel (up_path u) (upload_files s)\<rparr>
      in case tget (upload_files s) (up_path u) of
           None \<Rightarrow> fail (oci_error_new 400 ''DIGEST_INVALID'') a
         | Some content \<Rightarrow>
             (case put_blob_file K content (Some d) None gone of
                (s', Inl e) \<Rightarrow> (a\<lparr>app_node := s'\<rparr>, Inl (bad_request ''DIGEST_INVALID'' e))
              | (s', Inr b) \<Rightarrow> (a\<lparr>app_node := s'\<rparr>, Inr b)))"

definition upload_put ::
  "'z node_crates_scheme \<Rightarrow> string \<Rightarrow> string \<Rightarrow> string option \<Rightarrow> http_body \<Rightarrow> http_resp handler" where
  "upload_put K name i dig body =
     then_do (lift_res (\<lambda>_. ok_or dig (oci_error_new 400 ''DIGEST_INVALID''))) (\<lambda>text.
     then_do (lift_res (\<lambda>_. map_err (bad_request ''DIGEST_INVALID'') (digest_from_str text))) (\<lambda>d.
     then_do (append_body i body) (\<lambda>_.
     then_do (take_upload i) (\<lambda>u.
     then_do (import_upload K u d) (\<lambda>b.
     ret \<lparr>status = 201,
       headers = [(''Location'', ''/v2/'' @ name @ ''/blobs/'' @ digest_str (br_digest b)),
          (''Docker-Content-Digest'', digest_str (br_digest b)), content_length_0],
       resp_body = Empty\<rparr>)))))"

definition open_upload :: "http_env \<Rightarrow> unit handler" where
  "open_upload E a =
     (if \<not> can_create E then fail (oci_internal Io_err) a
      else
        (let s = app_node a; i = fresh_id E
         in ret () (a\<lparr>app_node := s\<lparr>upload_files := tput i [] (upload_files s)\<rparr>,
              app_uploads := tput i \<lparr>up_path = i, up_size = 0\<rparr> (app_uploads a)\<rparr>)))"

text \<open>A new session; with a digest in the request, the body is the whole blob.\<close>

definition upload_begin ::
  "'z node_crates_scheme \<Rightarrow> http_env \<Rightarrow> string \<Rightarrow> (string, string) table \<Rightarrow> http_body \<Rightarrow> http_resp handler" where
  "upload_begin K E name query body =
     then_do (open_upload E) (\<lambda>_.
     case tget query ''digest'' of
       Some d \<Rightarrow> upload_put K name (fresh_id E) (Some d) body
     | None \<Rightarrow> ret \<lparr>status = 202,
         headers = [(''Location'', upload_location name (fresh_id E)), (''Docker-Upload-UUID'', fresh_id E),
            (''Range'', ''0-0''), content_length_0],
         resp_body = Empty\<rparr>)"

definition upload_start ::
  "'z node_crates_scheme \<Rightarrow> http_env \<Rightarrow> string \<Rightarrow> (string, string) table \<Rightarrow> http_body \<Rightarrow> http_resp handler" where
  "upload_start K E name query body =
     then_do (resolve K E name) (\<lambda>(publisher, _).
     with_node (\<lambda>s.
     if publisher \<noteq> node_id K s then fail (oci_error_new 403 ''DENIED'')
     else upload_begin K E name query body))"

definition upload_status :: "string \<Rightarrow> string \<Rightarrow> http_resp handler" where
  "upload_status name i a =
     (case tget (app_uploads a) i of
        None \<Rightarrow> fail unknown_upload a
      | Some u \<Rightarrow> ret \<lparr>status = 204, headers = upload_headers name i (received (up_size u)), resp_body = Empty\<rparr> a)"

definition upload_cancel :: "string \<Rightarrow> http_resp handler" where
  "upload_cancel i a =
     (let done_resp = \<lparr>status = 204, headers = [], resp_body = Empty\<rparr> in
      case tget (app_uploads a) i of
        None \<Rightarrow> ret done_resp a
      | Some u \<Rightarrow>
          (let s = app_node a
           in ret done_resp (a\<lparr>app_node := s\<lparr>upload_files := tdel (up_path u) (upload_files s)\<rparr>,
                app_uploads := tdel i (app_uploads a)\<rparr>)))"

section \<open>Dispatch\<close>

definition method_not_allowed :: oci_error where
  "method_not_allowed = oci_error_new 405 ''UNSUPPORTED''"

definition v2_root :: http_resp where
  "v2_root = with_api_version \<lparr>status = 200, headers = [], resp_body = Empty\<rparr>"

definition no_route :: oci_error where
  "no_route = oci_not_found ''NAME_UNKNOWN''"

definition handle_v2 :: "'z json_crates_scheme \<Rightarrow> http_env \<Rightarrow> http_req \<Rightarrow> http_resp handler" where
  "handle_v2 K E q =
     (let m = rq_method q; body = rq_body q in
      case route_of (rq_path q) of
        Some Catalog \<Rightarrow> if m = ''GET'' then catalog K else fail no_route
      | Some (Tags name) \<Rightarrow> if m = ''GET'' then tags_list K E name else fail no_route
      | Some (Manifest_route name rf) \<Rightarrow>
          if m \<in> {''GET'', ''HEAD''} then manifest_get K E name rf (m = ''HEAD'')
          else if m = ''PUT'' then manifest_put K E name rf (rq_content_type q) body
          else if m = ''DELETE'' then manifest_delete K E name rf
          else fail method_not_allowed
      | Some (Upload_start name) \<Rightarrow>
          if m = ''POST'' then upload_start K E name (rq_query q) body else fail no_route
      | Some (Upload_route name i) \<Rightarrow>
          if m = ''PATCH'' then upload_patch name i body
          else if m = ''PUT'' then upload_put K name i (tget (rq_query q) ''digest'') body
          else if m = ''GET'' then upload_status name i
          else if m = ''DELETE'' then upload_cancel i
          else fail method_not_allowed
      | Some (Blob_route name d) \<Rightarrow>
          if m \<in> {''GET'', ''HEAD''} then blob_get K E name d (rq_range q) (m = ''HEAD'')
          else fail method_not_allowed
      | Some (Referrers_route name d) \<Rightarrow>
          if m = ''GET'' then referrers_get K E name d (rq_query q) else fail no_route
      | None \<Rightarrow> fail no_route)"

definition v2_dispatch :: "'z json_crates_scheme \<Rightarrow> http_env \<Rightarrow> http_req \<Rightarrow> app \<Rightarrow> app \<times> http_resp" where
  "v2_dispatch K E q a = (case handle_v2 K E q a of
     (a', Inr r) \<Rightarrow> (a', with_api_version r) | (a', Inl e) \<Rightarrow> (a', error_response e))"

section \<open>The control API\<close>

text \<open>\<open>ctl_result\<close>: an error is the status 500; else the value is encoded.\<close>

type_synonym 'a ctl = "(node, nat \<times> err, 'a) fallible"

definition ctl_result :: "'a node_op \<Rightarrow> 'a ctl" where
  "ctl_result m s = (case m s of (s', r) \<Rightarrow> (s', map_err (Pair 500) r))"

record release_info =
  ri_summary :: release_summary
  ri_complete :: bool
  ri_size :: u64
  ri_blobs :: nat
  ri_mine :: bool

definition release_info :: "'z crates_scheme \<Rightarrow> node \<Rightarrow> release \<Rightarrow> release_info" where
  "release_info K s r = \<lparr>ri_summary = summary_of r, ri_complete = is_complete r s, ri_size = total_size r,
     ri_blobs = length (all_blobs r), ri_mine = (p_publisher (payload r) = node_id K s)\<rparr>"

definition ctl_releases :: "'z crates_scheme \<Rightarrow> release_info list ctl" where
  "ctl_releases K = ctl_result (\<lambda>s. ret (map (release_info K s) (list_releases K (idx s))) s)"

definition ctl_peers :: "node_env \<Rightarrow> peer_info list ctl" where
  "ctl_peers E s = ret (peer_infos E s) s"

definition ctl_add_peer :: "'z net_crates_scheme \<Rightarrow> node_env \<Rightarrow> string \<Rightarrow> public_key ctl" where
  "ctl_add_peer K E spec = ctl_result (add_peer_spec K E spec)"

definition ctl_pull :: "'z net_crates_scheme \<Rightarrow> node_env \<Rightarrow> string \<Rightarrow> release_summary ctl" where
  "ctl_pull K E rf s =
     (case resolve_image_ref K E rf s of
        (s1, Inl e) \<Rightarrow> (s1, Inl (400, e))
      | (s1, Inr r) \<Rightarrow>
          (case get_or_fetch K E (ref_publisher r) (ref_name r) (tag_or_latest r) s1 of
             (s2, Inr (Some rel)) \<Rightarrow> (s2, Inr (summary_of rel))
           | (s2, Inr None) \<Rightarrow> (s2, Inl (404, Node_err NotLocal))
           | (s2, Inl e) \<Rightarrow> (s2, Inl (502, e))))"

definition ctl_announce :: "'z net_crates_scheme \<Rightarrow> node_env \<Rightarrow> string option \<Rightarrow> nat ctl" where
  "ctl_announce K E rf = ctl_result
     (case rf of
        None \<Rightarrow> announce_all_local K E
      | Some text \<Rightarrow>
          then_do (resolve_image_ref K E text) (\<lambda>r.
          then_do (lift_res (\<lambda>s. get_release K (idx s) (ref_publisher r) (ref_name r) (tag_or_latest r))) (\<lambda>m.
          then_do (lift_res (\<lambda>_. ok_or m (Node_err NotLocal))) (\<lambda>rel.
          then_do (announce K E rel) (\<lambda>_. ret 1)))))"

text \<open>The peers that failed, in order, with their errors.\<close>

definition sync_next ::
  "'z net_crates_scheme \<Rightarrow> node_env \<Rightarrow> public_key \<Rightarrow> nat \<times> (public_key \<times> err) list
     \<Rightarrow> (nat \<times> (public_key \<times> err) list) node_op" where
  "sync_next K E p acc s = (case sync_with K E p s of
     (s', Inr _) \<Rightarrow> (s', Inr (fst acc + 1, snd acc))
   | (s', Inl e) \<Rightarrow> (s', Inr (fst acc, snd acc @ [(p, e)])))"

definition ctl_sync ::
  "'z net_crates_scheme \<Rightarrow> node_env \<Rightarrow> string option \<Rightarrow> (nat \<times> (public_key \<times> err) list) ctl" where
  "ctl_sync K E peer = ctl_result
     (then_do (lift_res (\<lambda>s. case peer of
          Some p \<Rightarrow> and_then (parse_publisher K p) (\<lambda>k. Inr [k])
        | None \<Rightarrow> Inr (map pi_id (peer_infos E s)))) (\<lambda>peers.
      fold_op (sync_next K E) peers (0, [])))"

definition ctl_gc :: "'z crates_scheme \<Rightarrow> node_env \<Rightarrow> gc_req \<Rightarrow> gc_report ctl" where
  "ctl_gc K E q = ctl_result (gc K E q)"

definition ctl_seed :: "'z crates_scheme \<Rightarrow> node_env \<Rightarrow> string \<Rightarrow> mode \<Rightarrow> policy_change ctl" where
  "ctl_seed K E rf m = ctl_result (node_seed K E rf m)"

definition ctl_unseed :: "'z crates_scheme \<Rightarrow> node_env \<Rightarrow> string \<Rightarrow> policy_change ctl" where
  "ctl_unseed K E rf = ctl_result (node_unseed K E rf)"

definition ctl_follow :: "'z crates_scheme \<Rightarrow> node_env \<Rightarrow> string \<Rightarrow> mode \<Rightarrow> policy_change ctl" where
  "ctl_follow K E p m = ctl_result (node_follow K E p m)"

definition ctl_unfollow :: "'z crates_scheme \<Rightarrow> node_env \<Rightarrow> string \<Rightarrow> policy_change ctl" where
  "ctl_unfollow K E p = ctl_result (node_unfollow K E p)"

definition ctl_pin :: "'z crates_scheme \<Rightarrow> node_env \<Rightarrow> string \<Rightarrow> policy_change ctl" where
  "ctl_pin K E rf = ctl_result (node_pin K E rf)"

definition ctl_unpin :: "'z crates_scheme \<Rightarrow> node_env \<Rightarrow> string \<Rightarrow> policy_change ctl" where
  "ctl_unpin K E rf = ctl_result (node_unpin K E rf)"

record dns_resolve_resp =
  dr_zone :: string
  dr_state :: string
  dr_publisher :: "string option"
  dr_relay :: "string option"
  dr_seed :: "string option"
  dr_detail :: "err option"

definition ctl_dns_resolve :: "'z crates_scheme \<Rightarrow> node_env \<Rightarrow> string \<Rightarrow> node \<Rightarrow> node \<times> dns_resolve_resp" where
  "ctl_dns_resolve K E zone s =
     (let plain = (\<lambda>st. \<lparr>dr_zone = zone, dr_state = st, dr_publisher = None, dr_relay = None, dr_seed = None,
            dr_detail = None\<rparr>)
      in case node_resolve_zone K E zone s of
           (s', Inr (Resolved p newly relay seed)) \<Rightarrow>
             (s', \<lparr>dr_zone = zone, dr_state = (if newly then ''new'' else ''pinned''),
                dr_publisher = Some (pk_display K p), dr_relay = relay, dr_seed = map_option (pk_display K) seed,
                dr_detail = None\<rparr>)
         | (s', Inr NoRecord) \<Rightarrow> (s', plain ''no-record'')
         | (s', Inr Disabled) \<Rightarrow> (s', plain ''disabled'')
         | (s', Inl e) \<Rightarrow> (s', (plain ''error'')\<lparr>dr_detail := Some e\<rparr>))"

definition ctl_rm :: "'z crates_scheme \<Rightarrow> node_env \<Rightarrow> string \<Rightarrow> bool \<Rightarrow> rm_resp ctl" where
  "ctl_rm K E rf all_tags = ctl_result
     (then_do (resolve_image_ref K E rf) (\<lambda>r.
      if ref_tag r \<noteq> None \<and> all_tags then fail (Node_err RmTagAndAll)
      else if ref_tag r = None \<and> \<not> all_tags then fail (Node_err RmNeedsTag)
      else node_remove_release K (ref_publisher r) (ref_name r) (ref_tag r)))"

definition ctl_reload :: "'z crates_scheme \<Rightarrow> node_env \<Rightarrow> bool ctl" where
  "ctl_reload K E = ctl_result (then_do (reload_policy K E) (\<lambda>_. ret True))"

definition ctl_dns_unpin :: "bool \<Rightarrow> string \<Rightarrow> bool ctl" where
  "ctl_dns_unpin save_ok zone = ctl_result (\<lambda>s. case unpin save_ok zone (dns_st s) of
     (d, r) \<Rightarrow> (s\<lparr>dns_st := d\<rparr>, r))"

end
