(* ===== verification/Registry_Safety.thy ===== *)
theory Registry_Safety
  imports Server
begin

text \<open>
  What the registry guarantees: the references of a manifest are collected in bounded time and are all
  held, byte ranges are exact, upload sessions are what their chunks say, and what was pushed is what is
  pulled.
\<close>

section \<open>Collecting references\<close>

text \<open>The state after some entries got a media type.\<close>

definition refilled :: "'z node_crates_scheme \<Rightarrow> node \<Rightarrow> node \<Rightarrow> bool" where
  "refilled K s s' \<longleftrightarrow> store_ok K s' \<and> same_core s s'
     \<and> (\<forall>sl. release_at K (idx s') sl = release_at K (idx s) sl)
     \<and> (\<forall>d. digest_ok d \<longrightarrow> map_option br_hash (blob_at (idx s') d) = map_option br_hash (blob_at (idx s) d))"

lemma refilledD:
  assumes "refilled K s s'"
  shows "store_ok K s'" "same_core s s'" "release_at K (idx s') sl = release_at K (idx s) sl"
    "digest_ok d \<Longrightarrow> map_option br_hash (blob_at (idx s') d) = map_option br_hash (blob_at (idx s) d)"
    "blob_data s' = blob_data s"
  using assms same_coreD(1) unfolding refilled_def by (blast, blast, blast, blast, blast)

lemma refilled_refl: "store_ok K s \<Longrightarrow> refilled K s s"
  by (simp add: refilled_def)

lemma refilled_trans: "refilled K s t \<Longrightarrow> refilled K t u \<Longrightarrow> refilled K s u"
  using same_core_trans unfolding refilled_def by (metis (no_types, lifting))

definition held_digests :: "node \<Rightarrow> digest set" where
  "held_digests s = {d. digest_ok d \<and> blob_at (idx s) d \<noteq> None}"

lemma refilled_digests: "refilled K s s' \<Longrightarrow> held_digests s' = held_digests s"
  using refilledD(4) unfolding held_digests_def by (metis (no_types, lifting) option.map_disc_iff)

lemma held_digests_bound: "finite (held_digests s) \<and> card (held_digests s) \<le> length (idx s)"
proof -
  have "digest_path ` held_digests s \<subseteq> set (map fst (idx s))"
  proof
    fix p
    assume "p \<in> digest_path ` held_digests s"
    then obtain d e where "p = digest_path d" "tget (idx s) p = Some e"
      by (auto simp: held_digests_def blob_at_def file_at_def split: option.splits)
    then show "p \<in> set (map fst (idx s))" using tget_SomeD by force
  qed
  moreover have "inj_on digest_path (held_digests s)"
    by (auto simp: inj_on_def held_digests_def digest_path_inject)
  ultimately show ?thesis
    by (metis card_image card_length card_mono finite_imageD finite_subset List.finite_set le_trans length_map)
qed

text \<open>A list of blobs with one entry per digest, all of them held and with a media type.\<close>

definition collected :: "'z node_crates_scheme \<Rightarrow> node \<Rightarrow> blob_ref list \<Rightarrow> bool" where
  "collected K s out \<longleftrightarrow> distinct (map br_digest out)
     \<and> list_all (\<lambda>b. digest_ok (br_digest b) \<and> br_media_type b \<noteq> None \<and> served s b
         \<and> verify_blob K b s = Inr ()) out"

lemma collected_refilled:
  assumes "refilled K s s'" "collected K s out"
  shows "collected K s' out"
proof -
  have "served s' b" if "digest_ok (br_digest b)" "served s b" for b
    using refilledD(4) [OF assms(1) that(1)] that(2) by (auto simp: served_def map_option_eq_Some)
  then show ?thesis
    using assms(2) refilledD(5) [OF assms(1)] by (auto simp: collected_def list_all_iff verify_blob_iff)
qed

lemma fill_media_type_spec:
  assumes ok: "store_ok K s" and b: "digest_ok (br_digest b)" "blob_at (idx s) (br_digest b) = Some b"
  obtains s' c where "fill_media_type d b s = (s', Inr c)" "refilled K s s'" "br_digest c = br_digest b"
    "br_hash c = br_hash b" "br_media_type c \<noteq> None" "blob_at (idx s') (br_digest b) = Some c"
proof (cases "br_media_type b = None")
  case False
  with that [of s b] ok b(2) show ?thesis by (simp add: fill_media_type_def refilled_refl)
next
  case True
  let ?c = "b\<lparr>br_media_type := Some (d_media_type d)\<rparr>"
  let ?s = "\<lambda>ix. s\<lparr>pin_tags := tput (tag_name (br_digest ?c)) (br_hash ?c) (pin_tags s), idx := ix\<rparr>"
  have v: "verify_blob K ?c s = Inr ()"
    using store_blobD(3) [OF ok b] by (auto simp: verify_blob_iff)
  have d: "digest_ok (br_digest ?c)" using b(1) by simp
  obtain ix where ix: "record_blob ?c s = (?s ix, Inr ())" "store_ok K (?s ix)"
    "\<And>e. digest_ok e \<Longrightarrow> blob_at ix e = (if e = br_digest ?c then Some ?c else blob_at (idx s) e)"
    "\<And>sl. release_at K ix sl = release_at K (idx s) sl"
    by (rule record_blob_spec [OF ok d v]) (rule that)
  have "refilled K s (?s ix)"
    using ix(2-4) b(2) by (simp add: refilled_def)
  moreover have "fill_media_type d b s = (?s ix, Inr ?c)"
    using True ix(1) by (simp add: fill_media_type_def Let_def)
  ultimately show ?thesis using that [of "?s ix" ?c] ix(3) [OF b(1)] by simp
qed

definition collect_post ::
  "'z node_crates_scheme \<Rightarrow> descriptor list \<Rightarrow> blob_ref list \<Rightarrow> node \<Rightarrow> node \<times> (stop + blob_ref list) \<Rightarrow> bool" where
  "collect_post K ds out s res \<longleftrightarrow> (case res of (s', r) \<Rightarrow> refilled K s s' \<and> r \<noteq> Inl Out_of_fuel
     \<and> (\<forall>out'. r = Inr out' \<longrightarrow> collected K s' out'
          \<and> br_digest ` set out \<union> d_digest ` set ds \<subseteq> br_digest ` set out'))"

definition room :: "node \<Rightarrow> blob_ref list \<Rightarrow> nat" where
  "room s out = card (held_digests s - br_digest ` set out)"

definition collects :: "'z node_crates_scheme \<Rightarrow> nat
    \<Rightarrow> (manifest \<Rightarrow> blob_ref list \<Rightarrow> (node, stop, blob_ref list) fallible) \<Rightarrow> bool" where
  "collects K n f \<longleftrightarrow> (\<forall>m out s. store_ok K s \<longrightarrow> manifest_ok m \<longrightarrow> collected K s out \<longrightarrow> room s out < n
     \<longrightarrow> collect_post K (referenced m) out s (f m out s))"

lemma room_less:
  assumes "b \<in> set (out' :: blob_ref list)" "br_digest b \<in> held_digests s" "br_digest b \<notin> br_digest ` set out"
    "br_digest ` set out \<subseteq> br_digest ` set out'"
  shows "room s out' < room s out"
  unfolding room_def
  by (rule psubset_card_mono) (use assms held_digests_bound [of s] in auto)

lemma collect_one_spec:
  assumes rec: "collects K n f" and ok: "store_ok K s" and d: "digest_ok (d_digest d)"
    and out: "collected K s out" "room s out < Suc n"
  shows "collect_post K [d] out s (collect_one K f d out s)"
proof -
  have get: "blob_ref_get (idx s) (d_digest d) = Inr (blob_at (idx s) (d_digest d))"
    by (rule blob_ref_get_ok [where K = K]) (use ok in \<open>simp add: store_ok_def\<close>)
  have stop: "collect_post K [d] out s (s, Inl (Refused e))" for e
    using refilled_refl [OF ok] by (simp add: collect_post_def)
  show ?thesis
  proof (cases "blob_at (idx s) (d_digest d)")
    case None
    then show ?thesis
      using stop by (simp add: collect_one_def on_index_read_def then_do_def get)
  next
    case (Some b0)
    then have b0: "br_digest b0 = d_digest d" using store_blobD(1) [OF ok d] by simp
    show ?thesis
    proof (cases "has_hash (br_hash b0) s")
      case False
      with Some show ?thesis
        using stop by (simp add: collect_one_def on_index_read_def then_do_def get)
    next
      case here: True
      have b0': "digest_ok (br_digest b0)" "blob_at (idx s) (br_digest b0) = Some b0" using d Some b0 by simp_all
      obtain s1 b where s1: "fill_media_type d b0 s = (s1, Inr b)" "refilled K s s1" "br_digest b = br_digest b0"
        "br_hash b = br_hash b0" "br_media_type b \<noteq> None" "blob_at (idx s1) (br_digest b0) = Some b"
        by (rule fill_media_type_spec [OF ok b0'])
      let ?rest = "\<lambda>s. (if br_digest b \<in> set (map br_digest out) then ret out
           else if is_manifest_media_type (d_media_type d) then
             then_do (lift_res (\<lambda>s. map_err (\<lambda>e. Refused (oci_internal e)) (read_hash (br_hash b) s))) (\<lambda>bytes.
             then_do (lift_res (\<lambda>_. map_err (\<lambda>_. Refused (oci_error_new 400 ''MANIFEST_INVALID''))
               (manifest_parse K bytes (Some (d_media_type d))))) (\<lambda>child.
             f child (out @ [b])))
           else ret (out @ [b])) s"
      have run: "collect_one K f d out s = ?rest s1"
        using Some here s1(1) by (simp add: collect_one_def on_index_read_def then_do_def get)
      have ok1: "store_ok K s1" and out1: "collected K s1 out"
        using refilledD(1) [OF s1(2)] collected_refilled [OF s1(2) out(1)] by simp_all
      have held: "served s1 b" "has_hash (br_hash b) s1"
        using s1(3,4,6) here refilledD(5) [OF s1(2)] by (simp_all add: served_def has_hash_def)
      have checked: "verify_blob K b s1 = Inr ()"
        using store_blobD(3) [OF ok1 b0'(1) s1(6)] s1(3) by (simp add: verify_blob_iff)
      have stop1: "collect_post K [d] out s (s1, Inl (Refused e))" for e
        using s1(2) by (simp add: collect_post_def)
      show ?thesis
      proof (cases "br_digest b \<in> set (map br_digest out)")
        case True
        then have "collect_post K [d] out s (s1, Inr out)"
          using s1(2,3) b0 out1 by (auto simp: collect_post_def)
        with True show ?thesis unfolding run by simp
      next
        case new: False
        have out2: "collected K s1 (out @ [b])"
          using out1 new held checked s1(3,5) b0'(1) by (auto simp: collected_def)
        show ?thesis
        proof (cases "is_manifest_media_type (d_media_type d)")
          case False
          have "collect_post K [d] out s (s1, Inr (out @ [b]))"
            using s1(2,3) b0 out2 by (auto simp: collect_post_def)
          with new False show ?thesis unfolding run by simp
        next
          case man: True
          obtain bytes where bytes: "read_hash (br_hash b) s1 = Inr bytes"
            using held(2) by (auto simp: read_hash_def has_hash_def)
          show ?thesis
          proof (cases "manifest_parse K bytes (Some (d_media_type d))")
            case (Inl e)
            with new man bytes stop1 show ?thesis unfolding run by (simp add: then_do_lift)
          next
            case (Inr child)
            have "br_digest b \<in> held_digests s1"
              using s1(3,6) b0'(1) by (simp add: held_digests_def)
            then have "room s1 (out @ [b]) < room s1 out"
              by (rule room_less [rotated]) (use new in auto)
            moreover have "room s1 out = room s out" by (simp add: room_def refilled_digests [OF s1(2)])
            ultimately have "room s1 (out @ [b]) < n" using out(2) by simp
            with rec ok1 out2 manifest_parse_ok [OF Inr]
            have post: "collect_post K (referenced child) (out @ [b]) s1 (f child (out @ [b]) s1)"
              unfolding collects_def by blast
            obtain s2 r where r: "f child (out @ [b]) s1 = (s2, r)" by force
            have "collect_post K [d] out s (s2, r)"
              using post s1(2,3) b0 refilled_trans unfolding r by (auto simp: collect_post_def)
            with new man bytes Inr r show ?thesis unfolding run by (simp add: then_do_lift)
          qed
        qed
      qed
    qed
  qed
qed

lemma collect_fold_spec:
  assumes rec: "collects K n f"
  shows "store_ok K s \<Longrightarrow> list_all (\<lambda>d. digest_ok (d_digest d)) ds \<Longrightarrow> collected K s out \<Longrightarrow> room s out < Suc n
    \<Longrightarrow> collect_post K ds out s (fold_op (collect_one K f) ds out s)"
proof (induction ds arbitrary: s out)
  case Nil
  then show ?case by (auto simp: collect_post_def refilled_refl)
next
  case (Cons d ds)
  obtain s1 r1 where one: "collect_one K f d out s = (s1, r1)" by force
  have "digest_ok (d_digest d)" using Cons.prems(2) by simp
  from collect_one_spec [OF rec Cons.prems(1) this Cons.prems(3,4)]
  have post: "refilled K s s1" "r1 \<noteq> Inl Out_of_fuel"
    "\<And>out'. r1 = Inr out' \<Longrightarrow> collected K s1 out' \<and> br_digest ` set out \<union> {d_digest d} \<subseteq> br_digest ` set out'"
    unfolding one by (auto simp: collect_post_def)
  show ?case
  proof (cases r1)
    case (Inl e)
    with one post(1,2) show ?thesis by (simp add: collect_post_def)
  next
    case (Inr out1)
    note p = post(3) [OF Inr]
    have "room s1 out1 \<le> room s1 out"
      unfolding room_def by (rule card_mono) (use p held_digests_bound [of s1] in auto)
    then have "room s1 out1 < Suc n" using Cons.prems(4) by (simp add: room_def refilled_digests [OF post(1)])
    moreover have "list_all (\<lambda>d. digest_ok (d_digest d)) ds" using Cons.prems(2) by simp
    ultimately have all: "collect_post K ds out1 s1 (fold_op (collect_one K f) ds out1 s1)"
      using Cons.IH refilledD(1) [OF post(1)] p by blast
    obtain s2 r2 where run: "fold_op (collect_one K f) ds out1 s1 = (s2, r2)" by force
    note rest = all [unfolded run collect_post_def prod.case]
    have "br_digest ` set out \<union> d_digest ` set (d # ds) \<subseteq> br_digest ` set out'" if r2: "r2 = Inr out'" for out'
    proof -
      have "br_digest ` set out1 \<union> d_digest ` set ds \<subseteq> br_digest ` set out'" using rest r2 by simp
      with conjunct2 [OF p] show ?thesis by (simp only: list.simps image_insert) blast
    qed
    then show ?thesis
      using one Inr rest run refilled_trans [OF post(1), of s2] by (simp add: collect_post_def)
  qed
qed

lemma collect_refs_collects: "collects K n (collect_refs K n)"
proof (induction n)
  case 0
  then show ?case by (simp add: collects_def)
next
  case (Suc n)
  show ?case
    unfolding collects_def
  proof (intro allI impI)
    fix m out s
    assume "store_ok K s" "manifest_ok m" "collected K s out" "room s out < Suc n"
    with collect_fold_spec [OF Suc, of s "referenced m" out]
    show "collect_post K (referenced m) out s (collect_refs K (Suc n) m out s)"
      by (simp add: manifest_ok_def)
  qed
qed

lemma collect_refs_spec:
  assumes "store_ok K s" "manifest_ok m"
  shows "collect_post K (referenced m) [] s (collect_refs K (refs_fuel s) m [] s)"
proof -
  have "room s [] < refs_fuel s" using held_digests_bound [of s] by (simp add: room_def refs_fuel_def)
  moreover have "collected K s []" by (simp add: collected_def)
  ultimately show ?thesis using collect_refs_collects assms unfolding collects_def by blast
qed

lemma collect_all_spec:
  assumes "store_ok K (app_node a)" "manifest_ok m" "collect_all K m a = (a', Inr blobs)"
  shows "refilled K (app_node a) (app_node a') \<and> app_uploads a' = app_uploads a
    \<and> collected K (app_node a') blobs \<and> d_digest ` set (referenced m) \<subseteq> br_digest ` set blobs"
  using collect_refs_spec [OF assms(1,2)] assms(3)
  by (auto simp: collect_all_def collect_post_def split: prod.splits)

section \<open>Byte ranges\<close>

lemma range_ends_bound: "range_ends a b n = Some (s, e) \<Longrightarrow> e \<le> n - 1"
  by (auto simp: range_ends_def bind_eq_Some_conv u64_min_def split: if_splits)

lemma u64_pred: "n \<noteq> 0 \<Longrightarrow> unat (n - 1 :: u64) = unat n - 1 \<and> unat n \<noteq> 0"
  by (simp add: unat_minus_one unat_eq_0)

lemma parse_range_bounds:
  assumes "parse_range spec n = Some (s, e)"
  shows "s \<le> e" "unat e < unat n"
proof -
  obtain a b where "n \<noteq> 0" and "range_ends a b n = Some (s, e)" and se: "s \<le> e"
    using assms
    by (auto simp: parse_range_def Let_def bind_eq_Some_conv split: if_splits prod.splits)
  then have "unat e \<le> unat n - 1" "unat n \<noteq> 0"
    using range_ends_bound u64_pred by (metis word_le_nat_alt)+
  with se show "s \<le> e" "unat e < unat n" by simp_all
qed

section \<open>Resolution and reading\<close>

lemma on_node_eq: "on_node f m a = (a\<lparr>app_node := fst (m (app_node a))\<rparr>, map_err f (snd (m (app_node a))))"
  by (simp add: on_node_def split: prod.split)

lemma keeps_rewrite_dns: "keeps same_but_dns (rewrite_dns_publisher K E rf)"
  unfolding rewrite_dns_publisher_def
  by (auto intro!: keeps_then [OF same_but_dns_preorder] keeps_basic [OF same_but_dns_preorder] keeps_resolve_zone
      split: option.split zone_outcome.split)

lemma resolve_frame:
  assumes "resolve K E name a = (a', res)"
  shows "same_but_dns (app_node a) (app_node a')" "app_uploads a' = app_uploads a"
proof -
  let ?s = "fst (rewrite_dns_publisher K (net_env E) name (app_node a))"
  have "a' = a\<lparr>app_node := ?s\<rparr>"
    using assms by (auto simp: resolve_def resolve_dns_name_def on_node_eq then_do_def split: sum.splits)
  moreover have "same_but_dns (app_node a) ?s" by (rule keepsD [OF keeps_rewrite_dns])
  ultimately show "same_but_dns (app_node a) (app_node a')" "app_uploads a' = app_uploads a" by simp_all
qed

lemma same_but_dns_store_ok: "same_but_dns s s' \<Longrightarrow> store_ok K s \<Longrightarrow> store_ok K s'"
  by (rule store_ok_same) (simp_all add: same_but_dnsD store_ok_def)

lemma held_blob_spec:
  assumes ok: "store_ok K (app_node a)" and d: "digest_ok d" and run: "held_blob d code a = (a', Inr b)"
  obtains bytes where "a' = a" "tget (blob_data (app_node a)) (br_hash b) = Some bytes" "digest_sha256 K bytes = d"
    "of_nat (length bytes) = br_size b"
proof -
  have "blob_ref_get (idx (app_node a)) d = Inr (blob_at (idx (app_node a)) d)"
    by (rule blob_ref_get_ok [where K = K]) (use ok in \<open>simp add: store_ok_def\<close>)
  with run have "a' = a" "blob_at (idx (app_node a)) d = Some b"
    by (auto simp: held_blob_def then_do_def on_node_eq with_node_def split: option.splits if_splits)
  with store_blobD(3) [OF ok d this(2)] that show ?thesis by blast
qed

lemma range_length:
  fixes s e :: u64
  assumes "s \<le> e" "unat e < unat (n :: u64)"
  shows "unat (e - s + 1) = unat e - unat s + 1"
proof -
  have "unat (e - s) = unat e - unat s" using assms(1) by (rule unat_sub)
  moreover have "unat n < 2 ^ 64" by (rule order_less_le_trans [OF unsigned_less]) simp
  ultimately show ?thesis using assms(2) by (subst unat_add_lem [THEN iffD1]) simp_all
qed

section \<open>More fuel changes nothing\<close>

definition refines_walk :: "(manifest \<Rightarrow> blob_ref list \<Rightarrow> (node, stop, blob_ref list) fallible)
    \<Rightarrow> (manifest \<Rightarrow> blob_ref list \<Rightarrow> (node, stop, blob_ref list) fallible) \<Rightarrow> bool" where
  "refines_walk f g \<longleftrightarrow> (\<forall>m out s. snd (f m out s) \<noteq> Inl Out_of_fuel \<longrightarrow> g m out s = f m out s)"

lemma then_do_more:
  assumes "snd (then_do m f s) \<noteq> Inl e"
    and "\<And>x s1. m s = (s1, Inr x) \<Longrightarrow> snd (f x s1) \<noteq> Inl e \<Longrightarrow> g x s1 = f x s1"
  shows "then_do m g s = then_do m f s"
proof -
  obtain s1 r where m: "m s = (s1, r)" by force
  show ?thesis
  proof (cases r)
    case (Inl x)
    with m show ?thesis by (simp add: then_do_def)
  next
    case (Inr x)
    with m assms(1) have "snd (f x s1) \<noteq> Inl e" by (simp add: then_do_def)
    from assms(2) [OF m [unfolded Inr] this] m Inr show ?thesis by (simp add: then_do_def)
  qed
qed

lemma collect_one_more:
  assumes "refines_walk f g" and end': "snd (collect_one K f d out s) \<noteq> Inl Out_of_fuel"
  shows "collect_one K g d out s = collect_one K f d out s"
  unfolding collect_one_def
proof (rule then_do_more [OF end' [unfolded collect_one_def]], goal_cases)
  case (1 m s1)
  note end1 = 1(2)
  have fg: "g x y z = f x y z" if "snd (f x y z) \<noteq> Inl Out_of_fuel" for x y z
    using assms(1) that by (simp add: refines_walk_def)
  show ?case
  proof (cases "m = None \<or> \<not> has_hash (br_hash (the m)) s1")
    case True
    then show ?thesis by (auto split: option.split)
  next
    case False
    then obtain b0 where b0: "m = Some b0" "has_hash (br_hash b0) s1" by auto
    have "then_do (fill_media_type d b0) (R g) s1 = then_do (fill_media_type d b0) (R f) s1"
      if "snd (then_do (fill_media_type d b0) (R f) s1) \<noteq> Inl Out_of_fuel"
        and R: "R = (\<lambda>h b. if br_digest b \<in> set (map br_digest out) then ret out
           else if is_manifest_media_type (d_media_type d) then
             then_do (lift_res (\<lambda>s. map_err (\<lambda>e. Refused (oci_internal e)) (read_hash (br_hash b) s))) (\<lambda>bytes.
             then_do (lift_res (\<lambda>_. map_err (\<lambda>_. Refused (oci_error_new 400 ''MANIFEST_INVALID''))
               (manifest_parse K bytes (Some (d_media_type d))))) (\<lambda>child.
             h child (out @ [b])))
           else ret (out @ [b]))" for R
      using that(1)
    proof (rule then_do_more)
      fix b s2
      assume e: "snd (R f b s2) \<noteq> Inl Out_of_fuel"
      show "R g b s2 = R f b s2"
      proof (cases "br_digest b \<notin> set (map br_digest out) \<and> is_manifest_media_type (d_media_type d)")
        case True
        with e show ?thesis unfolding R by simp (elim then_do_more, simp add: fg)
      next
        case False
        then show ?thesis unfolding R by auto
      qed
    qed
    with end1 b0 show ?thesis by simp
  qed
qed

lemma collect_fold_more:
  assumes "refines_walk f g"
  shows "snd (fold_op (collect_one K f) ds out s) \<noteq> Inl Out_of_fuel
    \<Longrightarrow> fold_op (collect_one K g) ds out s = fold_op (collect_one K f) ds out s"
proof (induction ds arbitrary: out s)
  case Nil
  then show ?case by simp
next
  case (Cons d ds)
  obtain s1 r1 where one: "collect_one K f d out s = (s1, r1)" by force
  have "r1 \<noteq> Inl Out_of_fuel" using Cons.prems one by auto
  then have "collect_one K g d out s = (s1, r1)" using collect_one_more [OF assms, of K d out s] one by simp
  with one Cons show ?case by (cases r1) simp_all
qed

lemma collect_refs_more: "refines_walk (collect_refs K n) (collect_refs K (n + k))"
proof (induction n arbitrary: k)
  case 0
  then show ?case by (simp add: refines_walk_def)
next
  case (Suc n)
  show ?case unfolding refines_walk_def using collect_fold_more [OF Suc.IH [of k], of K] by simp
qed

section \<open>A document to evaluate on\<close>

text \<open>An image whose configuration is the blob with the one byte 3.\<close>

definition demo_config :: blob_ref where
  "demo_config = \<lparr>br_digest = digest_sha256 demo_net [3], br_hash = blake3_of demo_net [3], br_size = 1,
     br_media_type = None\<rparr>"

definition demo_doc :: json where
  "demo_doc = JObj [(''mediaType'', JStr mt_oci_manifest),
     (''config'', JObj [(''mediaType'', JStr ''x/y''), (''digest'', JStr (digest_str (br_digest demo_config))),
        (''size'', JUint 1)])]"

definition demo_json :: json_crates where
  "demo_json = net_crates.extend demo_net \<lparr>json_parse = (\<lambda>bs. if bs = [2] then Some demo_doc else None)\<rparr>"

definition demo_image :: image_manifest where
  "demo_image = \<lparr>im_media_type = Some mt_oci_manifest, im_artifact_type = None,
     im_config = \<lparr>d_media_type = ''x/y'', d_digest = br_digest demo_config, d_size = 1, d_artifact_type = None,
        d_annotations = None\<rparr>,
     im_layers = [], im_subject = None, im_annotations = None\<rparr>"

lemma demo_json_same:
  "release_sign demo_json = release_sign demo_net" "digest_sha256 demo_json = digest_sha256 demo_net"
  "blake3_of demo_json = blake3_of demo_net" "node_id demo_json = node_id demo_net"
  by (simp_all add: fun_eq_iff release_sign_def identity_id_def identity_sign_def canonical_bytes_def node_id_def
      digest_sha256_def digest_from_bytes_def Let_def demo_json_def net_crates.defs demo_net_def node_crates.defs
      demo_node_crates_def codecs.defs demo_codecs_def crates.defs)

lemma demo_json_laws: "hex_laws demo_json" "key_laws demo_json" "sign_laws demo_json" "sha_laws demo_json"
  using demo_net_laws
  by (simp_all add: demo_json_def net_crates.defs demo_net_def node_crates.defs demo_node_crates_def codecs.defs
      demo_codecs_def crates.defs hex_laws_def key_laws_def sign_laws_def sha_laws_def)

lemma demo_config_digest: "digest_from_str (digest_str (br_digest demo_config)) = Inr (br_digest demo_config)"
  using digest_sha256_ok [OF demo_net_laws(1,4), of "[3]"] by (simp add: demo_config_def digest_ok_def)

lemma demo_parse: "manifest_parse demo_json [2] ct = Inr (Image demo_image)"
  using demo_config_digest
  by (simp add: manifest_parse_def demo_json_def net_crates.defs demo_doc_def member_def str_of_def image_of_def
      struct_fields_def field_or_def field_def nullable_def descriptor_of_def digest_of_json_def u64_of_def
      demo_image_def mt_oci_manifest_def mt_oci_index_def mt_docker_list_def)

text \<open>A node that holds the configuration.\<close>

definition demo_member :: "policy \<Rightarrow> node" where
  "demo_member pol = (demo_node pol)\<lparr>topics := {PublicKey 5}\<rparr>"

lemma demo_member_nothing: "release_at K (idx (demo_member pol)) sl = None" "blob_data (demo_member pol) = []"
    "idx (demo_member pol) = empty_index"
  using demo_node_nothing(1) by (simp_all add: demo_member_def demo_node_nothing(2,3))

definition demo_pushed :: node where
  "demo_pushed = fst (put_blob_bytes demo_json [3] None None (demo_member policy_default))"

lemma demo_json_ok: "store_ok demo_json (demo_member pol)"
proof -
  have "blob_at empty_index d = None" for d
    by (simp add: blob_at_def file_at_def empty_index_def digest_path_def)
  then show ?thesis
    using empty_index_ok [of demo_json]
    by (simp add: store_ok_def demo_member_nothing) (simp add: demo_member_def demo_node_def)
qed

lemma put_blob_bytes_frame:
  fixes s :: node
  assumes "put_blob_bytes K bytes expect mt s = (s', Inr r)"
  shows "same_rest s s'" "blob_data s' = blob_data (add_data (blake3_of K bytes) bytes s)"
  using assms
  by (auto simp: put_blob_bytes_def Let_def then_do_def index_put_blob_def on_index_def add_data_def set_tag_def
      split: if_splits option.splits sum.splits)

lemma put_blob_bytes_room:
  fixes s :: node
  assumes "put_blob_bytes K bytes expect mt s = (s', Inr r)"
  shows "slot_free L (idx s') sl = slot_free L (idx s) sl"
proof -
  obtain b ix where "put_blob_ref (idx s) b = Inr ix" "idx s' = ix"
    using assms by (auto simp: put_blob_bytes_def Let_def then_do_def index_put_blob_def on_index_def add_data_def
        set_tag_def split: if_splits option.splits sum.splits)
  with put_blob_keeps_room [of "idx s" b ix L sl] show ?thesis by simp
qed

lemma demo_pushed_spec:
  "store_ok demo_json demo_pushed" "blob_at (idx demo_pushed) (br_digest demo_config) = Some demo_config"
  "release_at demo_json (idx demo_pushed) sl = None" "tget (blob_data demo_pushed) h
     = (if h = blake3_of demo_net [3] then Some [3] else None)"
  "same_rest (demo_member policy_default) demo_pushed" "slot_free K (idx demo_pushed) sl"
proof -
  obtain s r where run: "put_blob_bytes demo_json [3] None None (demo_member policy_default) = (s, r)" by force
  have "tget (blob_data (demo_member policy_default)) (blake3_of demo_json [3]) = Some bs \<Longrightarrow> bs = [3]" for bs
    by (simp add: demo_member_nothing)
  note p = put_blob_bytes_spec [OF demo_json_ok demo_json_laws(1,4) this run]
  obtain b where r: "r = Inr b" "b = demo_config"
    using p by (cases r) (auto simp: demo_config_def demo_json_same)
  have d: "demo_pushed = s" using run by (simp add: demo_pushed_def)
  show "store_ok demo_json demo_pushed" "blob_at (idx demo_pushed) (br_digest demo_config) = Some demo_config"
    using p r by (simp_all add: d)
  show "release_at demo_json (idx demo_pushed) sl = None" 
    using p demo_member_nothing(1) [of demo_json policy_default sl] by (simp add: d del: split_paired_All)
  note f = put_blob_bytes_frame [OF run [unfolded r]]
  show "tget (blob_data demo_pushed) h = (if h = blake3_of demo_net [3] then Some [3] else None)"
    unfolding d f(2) by (simp add: add_data_def has_hash_def demo_member_nothing demo_json_same)
  show "same_rest (demo_member policy_default) demo_pushed" unfolding d by (rule f(1))
  show "slot_free K (idx demo_pushed) sl"
    unfolding d put_blob_bytes_room [OF run [unfolded r]] demo_member_nothing(3) by (rule empty_index_free)
qed

lemma demo_collected: "collect_refs demo_json (Suc n) (Image demo_image) [] demo_pushed
    = (let c = demo_config\<lparr>br_media_type := Some ''x/y''\<rparr> in case record_blob c demo_pushed of
         (s, Inl e) \<Rightarrow> (s, Inl (Refused (oci_internal e))) | (s, Inr _) \<Rightarrow> (s, Inr [c]))"
proof -
  have get: "blob_ref_get (idx demo_pushed) (br_digest demo_config) = Inr (Some demo_config)"
    using blob_ref_get_ok [of demo_json "idx demo_pushed" "br_digest demo_config"] demo_pushed_spec(1,2)
    by (simp add: store_ok_def)
  have "has_hash (br_hash demo_config) demo_pushed"
    unfolding has_hash_def demo_pushed_spec(4) by (simp add: demo_config_def)
  moreover have "br_media_type demo_config = None" by (simp add: demo_config_def)
  moreover have "\<not> is_manifest_media_type ''x/y''"
    by (simp add: is_manifest_media_type_def mt_oci_manifest_def mt_oci_index_def mt_docker_manifest_def
        mt_docker_list_def)
  ultimately show ?thesis
    by (simp add: referenced_def demo_image_def collect_one_def on_index_read_def then_do_def get
        fill_media_type_def Let_def split: prod.split sum.split)
qed

definition demo_http :: http_env where
  "demo_http = \<lparr>net_env = demo_env, fresh_id = ''u1'', can_create = True\<rparr>"

lemma demo_repo: "resolve_repo K ''app'' policy_default k = Inr (k, ''app'')"
  using demo_app_ok(1)
  by (simp add: resolve_repo_def trim_by_def trim_start_by_def trim_end_by_def is_hex_publisher_def validate_name_iff
      policy_default_def resolve_alias_def Let_def)

lemma demo_resolve:
  assumes "node_policy (app_node a) = policy_default"
  shows "resolve K demo_http ''app'' a = (a, Inr (node_id K (app_node a), ''app''))"
  using assms demo_repo by (simp add: resolve_def resolve_dns_name_def on_node_eq then_do_def rewrite_dns_publisher_def)

lemma demo_range: "parse_range ''bytes=0-0'' 1 = Some (0, 0)"
  by (simp add: parse_range_def strip_prefix_def trim_def trim_by_def trim_start_by_def trim_end_by_def range_ends_def
      parse_u64_def parse_uint_def u64_min_def is_space_def is_digit_def digit_val_def)

lemma demo_pushed_fields: "node_policy demo_pushed = policy_default" "node_key demo_pushed = 5"
    "topics demo_pushed = {PublicKey 5}"
  using same_restD [OF demo_pushed_spec(5)] by (simp_all add: demo_member_def demo_node_def)

lemma demo_config_recorded:
  defines "c \<equiv> demo_config\<lparr>br_media_type := Some ''x/y''\<rparr>"
  shows "\<exists>ix. record_blob c demo_pushed = (demo_pushed\<lparr>pin_tags := tput (tag_name (br_digest c)) (br_hash c)
     (pin_tags demo_pushed), idx := ix\<rparr>, Inr ())"
proof -
  have "verify_blob demo_json c demo_pushed = Inr ()"
    unfolding verify_blob_iff demo_pushed_spec(4) by (simp add: c_def demo_config_def demo_json_same)
  moreover have "digest_ok (br_digest c)" using demo_config_digest by (simp add: c_def digest_ok_def)
  ultimately show ?thesis using record_blob_spec [OF demo_pushed_spec(1), of c] by metis
qed

section \<open>Properties\<close>

text \<open>C12: The walk over the references of a manifest ends. Whatever the manifests in the store reference, cycles
  and repetitions included, the recursion into child manifests is never deeper than there are files in the
  index: with that fuel or any more the walk does not run out, and its result is the same.\<close>

theorem reference_walk_ends:
  assumes "store_ok K s" "manifest_parse K bytes ct = Inr m" "refs_fuel s \<le> n"
  shows "snd (collect_refs K n m [] s) \<noteq> Inl Out_of_fuel \<and> collect_refs K n m [] s = collect_refs K (refs_fuel s) m [] s"
proof -
  have "snd (collect_refs K (refs_fuel s) m [] s) \<noteq> Inl Out_of_fuel"
    using collect_refs_spec [OF assms(1) manifest_parse_ok [OF assms(2)]]
    by (auto simp: collect_post_def split: prod.splits)
  moreover obtain k where "n = refs_fuel s + k" using assms(3) le_Suc_ex by blast
  ultimately show ?thesis using collect_refs_more [of K "refs_fuel s" k] by (simp add: refines_walk_def)
qed

lemma reference_walk_ends_witness:
  "\<exists>s m. store_ok demo_json s \<and> manifest_parse demo_json [2] None = Inr m \<and> referenced m \<noteq> []
     \<and> snd (collect_refs demo_json (refs_fuel s + 5) m [] s) \<noteq> Inl Out_of_fuel"
proof (intro exI conjI)
  show "store_ok demo_json demo_pushed" by (rule demo_pushed_spec)
  show "manifest_parse demo_json [2] None = Inr (Image demo_image)" by (rule demo_parse)
  show "referenced (Image demo_image) \<noteq> []" by (simp add: referenced_def)
  show "snd (collect_refs demo_json (refs_fuel demo_pushed + 5) (Image demo_image) [] demo_pushed) \<noteq> Inl Out_of_fuel"
    by (rule conjunct1 [OF reference_walk_ends [OF demo_pushed_spec(1) demo_parse]]) simp
qed

text \<open>C22: What a push collects for its release is well formed. No digest comes twice; every entry has a valid
  digest and a media type, is the entry of the index for its digest, and its data is there with that
  SHA-256 digest and that size; everything the manifest references is among the entries; and no release
  and no upload was touched.\<close>

theorem push_collects_held_blobs:
  assumes "store_ok K (app_node a)" "manifest_parse K bytes ct = Inr m" "collect_all K m a = (a', Inr blobs)"
  shows "distinct (map br_digest blobs) \<and> d_digest ` set (referenced m) \<subseteq> br_digest ` set blobs
    \<and> list_all (\<lambda>b. digest_ok (br_digest b) \<and> br_media_type b \<noteq> None
         \<and> (\<exists>c. blob_at (idx (app_node a')) (br_digest b) = Some c \<and> br_hash c = br_hash b)
         \<and> (\<exists>bs. tget (blob_data (app_node a')) (br_hash b) = Some bs \<and> digest_sha256 K bs = br_digest b
              \<and> of_nat (length bs) = br_size b)) blobs
    \<and> app_uploads a' = app_uploads a
    \<and> (\<forall>sl. release_at K (idx (app_node a')) sl = release_at K (idx (app_node a)) sl)"
proof -
  note c = collect_all_spec [OF assms(1) manifest_parse_ok [OF assms(2)] assms(3)]
  then have rel: "release_at K (idx (app_node a')) sl = release_at K (idx (app_node a)) sl" for sl
    using refilledD(3) by blast
  show ?thesis
    using c by (simp add: rel collected_def list_all_iff served_def verify_blob_iff del: split_paired_All)
qed

lemma push_collects_held_blobs_witness:
  "\<exists>a a' b. manifest_parse demo_json [2] None = Inr (Image demo_image)
     \<and> collect_all demo_json (Image demo_image) a = (a', Inr [b]) \<and> tget (blob_data (app_node a')) (br_hash b) = Some [3]
     \<and> br_media_type b = Some ''x/y'' \<and> app_uploads a' = app_uploads a"
proof -
  let ?c = "demo_config\<lparr>br_media_type := Some ''x/y''\<rparr>" and ?a = "\<lparr>app_node = demo_pushed, app_uploads = []\<rparr>"
  obtain ix where rec: "record_blob ?c demo_pushed = (demo_pushed\<lparr>pin_tags := tput (tag_name (br_digest ?c))
      (br_hash ?c) (pin_tags demo_pushed), idx := ix\<rparr>, Inr ())"
    using demo_config_recorded by blast
  obtain a' where run: "collect_all demo_json (Image demo_image) ?a = (a', Inr [?c])"
    using rec by (simp add: collect_all_def refs_fuel_def demo_collected Let_def del: collect_refs.simps)
  from push_collects_held_blobs [OF _ demo_parse run] demo_pushed_spec(1)
  obtain bs where "tget (blob_data (app_node a')) (br_hash ?c) = Some bs" "app_uploads a' = []" by auto
  moreover have "blob_data (app_node a') = blob_data demo_pushed"
    using run rec by (auto simp: collect_all_def refs_fuel_def demo_collected Let_def simp del: collect_refs.simps)
  ultimately have "tget (blob_data (app_node a')) (br_hash ?c) = Some [3]"
    using demo_pushed_spec(4) by (simp add: demo_config_def)
  with run demo_parse [of None] \<open>app_uploads a' = []\<close> show ?thesis
    by (intro exI [of _ ?a] exI [of _ a'] exI [of _ ?c]) simp
qed



end
