(* ===== verification/Push_Pull.thy ===== *)
theory Push_Pull
  imports Registry_Safety
begin

text \<open>
  What is pushed is what is pulled: after an accepted push of a manifest under a tag, a pull of the tag
  gives the same bytes.
\<close>

section \<open>Steps of a push\<close>

lemma resolve_local:
  assumes "domain_slot name = None"
  shows "resolve K E name a = (a, map_err (bad_request ''NAME_INVALID'')
     (resolve_repo K name (node_policy (app_node a)) (node_id K (app_node a))))"
proof -
  have "rewrite_dns_publisher K (net_env E) name s = (s, Inr name)" for s
    using assms by (auto simp: rewrite_dns_publisher_def domain_slot_def bind_eq_None_conv split: option.split)
  then show ?thesis by (simp add: resolve_def resolve_dns_name_def on_node_eq then_do_def)
qed

lemma tag_is_no_digest: "tag_ok t \<Longrightarrow> \<exists>e. digest_from_str t = Inl e"
proof (cases "digest_from_str t")
  case (Inr d)
  assume "tag_ok t"
  then have "list_all tag_char t" unfolding tag_ok_def validate_tag_def by simp
  moreover obtain h where h: "t = ''sha256:'' @ h" using Inr by (metis digest_from_str_Inr_iff)
  ultimately have "tag_char CHR '':''" by simp
  then show ?thesis by (simp add: tag_char_def is_alnum_def is_digit_def is_lower_def is_upper_def)
qed simp

lemma announce_frame:
  assumes "announce K E r s = (s', res)"
  shows "idx s' = idx s" "blob_data s' = blob_data s" "node_key s' = node_key s" "node_policy s' = node_policy s"
    "pin_tags s' = pin_tags s"
  using assms by (auto simp: announce_def emit_def Let_def split: if_splits)

lemma publish_held:
  assumes ok: "store_ok K s" and keys: "key_laws K" and dig: "digests_ok r" and run: "publish K E r s = (s', Inr u)"
    and newer: "\<And>ex. release_at K (idx s) (slot_of r) = Some ex \<Longrightarrow> supersedes r ex"
  shows "release_at K (idx s') (slot_of r) = Some r" "blob_data s' = blob_data s"
    "node_key s' = node_key s" "node_policy s' = node_policy s" "slot_ok r"
    "store_ok K s'"
proof -
  obtain b s1 e where store: "on_index (\<lambda>ix. put_release K ix r) s = (s1, Inr b)"
    and ann: "announce K E r (emit e s1) = (s', Inr u)"
    using run unfolding publish_def then_do_Inr_iff by (elim exE conjE) (simp only: op_simps prod.inject, metis)
  obtain ix where put: "put_release K (idx s) r = (ix, Inr b)" and s1: "s1 = s\<lparr>idx := ix\<rparr>"
    using store by (auto simp: on_index_def split: prod.splits)
  note s' = announce_frame [OF ann, unfolded s1 emit_def, simplified]
  then show "blob_data s' = blob_data s" "node_key s' = node_key s" "node_policy s' = node_policy s" by simp_all
  have "index_ok K (idx s)" using ok by (simp add: store_ok_def)
  note p = put_release_spec [OF this keys dig put]
  show "store_ok K s'" by (rule store_ok_same [OF ok]) (use p in \<open>simp_all add: s'\<close>)
  have "slot_ok r" "b \<longleftrightarrow> (\<forall>ex. release_at K (idx s) (slot_of r) = Some ex \<longrightarrow> supersedes r ex)" using p by simp_all
  moreover from this newer have b by simp
  ultimately show "release_at K (idx s') (slot_of r) = Some r" "slot_ok r"
    using p unfolding s'(1) by (metis, metis)
qed

lemma on_node_Inr: "on_node f m a = (a', Inr x) \<longleftrightarrow> (\<exists>s. m (app_node a) = (s, Inr x) \<and> a' = a\<lparr>app_node := s\<rparr>)"
  by (cases "m (app_node a)") (auto simp: on_node_def)

text \<open>What an accepted push of a manifest under a tag did, step by step.\<close>

lemma push_steps:
  assumes plain: "domain_slot name = None" and tag: "tag_ok tag"
    and res: "resolve_repo K name (node_policy (app_node a)) (node_id K (app_node a)) = Inr (p, img)"
    and m: "manifest_parse K (concat (chunks body)) (map_option essence ct) = Inr m" "manifest_subject m = None"
    and put: "manifest_put K E name tag ct body a = (a', Inr r)"
  obtains a1 blobs s b s' u where "p = node_id K (app_node a)" "collect_all K m a = (a1, Inr blobs)"
    "put_blob_bytes K (concat (chunks body)) (Some (digest_sha256 K (concat (chunks body))))
        (Some (case map_option essence ct of Some t \<Rightarrow> t | None \<Rightarrow> manifest_media_type m)) (app_node a1) = (s, Inr b)"
    "publish K (net_env E) (pushed_release K E p img tag b blobs s) s = (s', Inr u)"
    "a' = a1\<lparr>app_node := s'\<rparr>" "status r = 201"
proof -
  let ?bytes = "concat (chunks body)"
  obtain e where e: "digest_from_str tag = Inl e" using tag_is_no_digest [OF tag] by blast
  have step: "then_do (resolve K E name) f a = f (p, img) a" for f :: "public_key \<times> string \<Rightarrow> http_resp handler"
    by (simp add: then_do_def resolve_local [OF plain] res)
  note put' = put [unfolded manifest_put_def step prod.case with_node_def]
  have own: "p = node_id K (app_node a)" using put' by (auto split: if_splits)
  note put2 = put' [unfolded own, simplified, unfolded Let_def then_do_Inr_iff]
  have bytes: "to_bytes max_manifest body = Some x \<Longrightarrow> x = concat (chunks body)" for x
    by (simp add: to_bytes_def split: if_splits)
  have "\<exists>a1 blobs s b s' u. collect_all K m a = (a1, Inr blobs)
     \<and> put_blob_bytes K (concat (chunks body)) (Some (digest_sha256 K (concat (chunks body))))
        (Some (case map_option essence ct of Some t \<Rightarrow> t | None \<Rightarrow> manifest_media_type m)) (app_node a1) = (s, Inr b)
     \<and> publish K (net_env E) (pushed_release K E p img tag b blobs s) s = (s', Inr u)
     \<and> a' = a1\<lparr>app_node := s'\<rparr> \<and> status r = 201"
    using put2 m tag e
    by (auto simp: then_do_Inr_iff with_node_def own attach_subject_def on_node_Inr dest!: bytes)
  with that own show ?thesis by blast
qed

lemma push_runs:
  assumes plain: "domain_slot name = None" and tag: "tag_ok tag"
    and res: "resolve_repo K name (node_policy (app_node a)) (node_id K (app_node a)) = Inr (node_id K (app_node a), img)"
    and m: "to_bytes max_manifest body = Some bytes" "manifest_parse K bytes (map_option essence ct) = Inr m"
      "manifest_subject m = None"
    and col: "collect_all K m a = (a1, Inr blobs)"
    and put: "put_blob_bytes K bytes (Some (digest_sha256 K bytes))
        (Some (case map_option essence ct of Some t \<Rightarrow> t | None \<Rightarrow> manifest_media_type m)) (app_node a1) = (s, Inr b)"
    and pub: "publish K (net_env E) (pushed_release K E (node_id K (app_node a)) img tag b blobs s) s = (s', Inr ())"
  shows "\<exists>r. manifest_put K E name tag ct body a = (a1\<lparr>app_node := s'\<rparr>, Inr r)"
proof -
  obtain e where e: "digest_from_str tag = Inl e" using tag_is_no_digest [OF tag] by blast
  have step: "then_do (resolve K E name) f a = f (node_id K (app_node a), img) a"
    for f :: "public_key \<times> string \<Rightarrow> http_resp handler"
    by (simp add: then_do_def resolve_local [OF plain] res)
  have v: "map_err f (validate_tag tag) = Inr ()" for f :: "err \<Rightarrow> oci_error"
    using tag unfolding tag_ok_def by (simp only: map_err_simps)
  show ?thesis
    unfolding manifest_put_def step using m put pub
    by (simp add: with_node_def then_do_def e v col on_node_eq attach_subject_def Let_def del: validate_tag_iff)
qed

text \<open>A push succeeds when the references are there and the node takes part in its own topic.\<close>

lemma push_accepted:
  assumes ok: "store_ok K (app_node a)" and laws: "hex_laws K" "sha_laws K" "key_laws K" "sign_laws K"
    and plain: "domain_slot name = None" and tag: "tag_ok tag"
    and res: "resolve_repo K name (node_policy (app_node a)) (node_id K (app_node a)) = Inr (node_id K (app_node a), img)"
    and m: "to_bytes max_manifest body = Some bytes" "manifest_parse K bytes (map_option essence ct) = Inr m"
      "manifest_subject m = None"
    and col: "collect_all K m a = (a1, Inr blobs)"
    and fresh: "\<And>bs. tget (blob_data (app_node a)) (blake3_of K bytes) = Some bs \<Longrightarrow> bs = bytes"
    and room: "\<And>sl. slot_free K (idx (app_node a1)) sl"
    and name: "name_ok img" and on: "node_id K (app_node a) \<in> topics (app_node a)" "env_broadcast (net_env E)"
  shows "\<exists>a' r. manifest_put K E name tag ct body a = (a', Inr r)"
proof -
  let ?mt = "case map_option essence ct of Some t \<Rightarrow> t | None \<Rightarrow> manifest_media_type m"
  have ref: "refilled K (app_node a) (app_node a1)" and held: "collected K (app_node a1) blobs"
    using collect_all_spec [OF ok manifest_parse_ok [OF m(2)] col] by simp_all
  note ok1 = refilledD(1) [OF ref] and core = same_coreD [OF refilledD(2) [OF ref]]
  obtain s x where put: "put_blob_bytes K bytes (Some (digest_sha256 K bytes)) (Some ?mt) (app_node a1) = (s, x)" by force
  have "tget (blob_data (app_node a1)) (blake3_of K bytes) = Some bs \<Longrightarrow> bs = bytes" for bs
    using fresh by (simp add: core)
  note w = put_blob_bytes_spec [OF ok1 laws(1,2) this put]
  then obtain b where x: "x = Inr b" by (cases x) auto
  note w = w [unfolded x sum.case]
  have ok2: "store_ok K s" using w by blast
  note rest = same_restD [OF put_blob_bytes_frame(1) [OF put [unfolded x]]]
  let ?rel = "pushed_release K E (node_id K (app_node a)) img tag b blobs s"
  have id: "node_id K s = node_id K (app_node a)" by (simp add: rest core node_id_def)
  have fields: "p_publisher (payload ?rel) = node_id K s" "all_blobs ?rel = b # blobs" "p_referrers (payload ?rel) = []"
    by (simp_all add: pushed_release_def release_sign_payload all_blobs_def node_id_def identity_id_def)
  have "digest_ok (br_digest b)" using w digest_sha256_ok [OF laws(1,2)] by simp
  then have dig: "digests_ok ?rel"
    using held unfolding digests_ok_def fields by (simp add: collected_def list_all_iff)
  have ver: "release_verify K ?rel = Inr ()"
    unfolding pushed_release_def release_sign_verifies [OF laws(1,4)] using name tag by simp
  have free: "slot_free K (idx s) (slot_of ?rel)"
    unfolding put_blob_bytes_room [OF put [unfolded x]] by (rule room)
  obtain ix where pub: "publish K (net_env E) ?rel s = announce K (net_env E) ?rel (emit (ReleaseSaved
      (p_publisher (payload ?rel)) (p_name (payload ?rel)) (p_tag (payload ?rel)) (length (p_blobs (payload ?rel))))
      (s\<lparr>idx := ix\<rparr>))"
    by (rule publish_stores [OF ok2 laws(3) dig ver fields(1) free]) (rule that)
  have "\<exists>s'. publish K (net_env E) ?rel s = (s', Inr ())"
    unfolding pub using on by (simp add: announce_def Let_def emit_def fields id rest core)
  with push_runs [OF plain tag res m col put [unfolded x]] show ?thesis by blast
qed

section \<open>Steps of a pull\<close>

text \<open>A manifest is answered from the release that is held or fetched, and from the data under its hash.\<close>

lemma pull_fetched:
  assumes plain: "domain_slot name = None" and tag: "tag_ok tag"
    and res: "resolve_repo K name (node_policy (app_node a)) (node_id K (app_node a)) = Inr (p, img)"
    and got: "get_or_fetch K (net_env E) p img tag (app_node a) = (s, Inr (Some r))"
    and data: "tget (blob_data s) (br_hash (p_manifest (payload r))) = Some bytes"
  obtains resp where "manifest_get K E name tag False a = (a\<lparr>app_node := s\<rparr>, Inr resp)" "status resp = 200"
    "resp_body resp = Data bytes" "(''Content-Type'', response_media_type (p_manifest (payload r))) \<in> set (headers resp)"
    "(''Docker-Content-Digest'', digest_str (br_digest (p_manifest (payload r)))) \<in> set (headers resp)"
proof -
  obtain e where e: "digest_from_str tag = Inl e" using tag_is_no_digest [OF tag] by blast
  have step: "then_do (resolve K E name) f a = f (p, img) a" for f :: "public_key \<times> string \<Rightarrow> http_resp handler"
    by (simp add: then_do_def resolve_local [OF plain] res)
  have "map_err f (validate_tag tag) = Inr ()" for f :: "err \<Rightarrow> oci_error"
    using tag unfolding tag_ok_def by (simp only: map_err_simps)
  then have "(lift_res (\<lambda>_. map_err f (validate_tag tag)) :: unit handler) = ret ()" for f
    by (simp add: fun_eq_iff lift_res_def ret_def)
  then show ?thesis
    using that data got unfolding manifest_get_def step e sum.case
    by (simp add: then_do_def on_node_eq read_hash_def Let_def)
qed

lemma pull_held:
  assumes "domain_slot name = None" "tag_ok tag"
    and "resolve_repo K name (node_policy (app_node a)) (node_id K (app_node a)) = Inr (p, img)"
    and held: "release_at K (idx (app_node a)) (p, img, tag) = Some r" "name_ok img" "is_complete r (app_node a)"
    and "tget (blob_data (app_node a)) (br_hash (p_manifest (payload r))) = Some bytes"
  obtains resp where "manifest_get K E name tag False a = (a, Inr resp)" "status resp = 200" "resp_body resp = Data bytes"
    "(''Content-Type'', response_media_type (p_manifest (payload r))) \<in> set (headers resp)"
    "(''Docker-Content-Digest'', digest_str (br_digest (p_manifest (payload r)))) \<in> set (headers resp)"
proof -
  have "get_or_fetch K (net_env E) p img tag (app_node a) = (app_node a, Inr (Some r))"
    using get_release_found [OF held(1,2) assms(2)] held(3) by (simp add: get_or_fetch_def then_do_def)
  from pull_fetched [OF assms(1-3) this assms(7)] that show ?thesis by auto
qed

text \<open>What an accepted push leaves: the release, with all its blobs, of which the manifest is what was pushed.\<close>

definition left_by_push :: "'z node_crates_scheme \<Rightarrow> node \<Rightarrow> slot \<Rightarrow> byte list \<Rightarrow> string \<Rightarrow> release \<Rightarrow> bool" where
  "left_by_push K s sl bytes mt r \<longleftrightarrow> store_ok K s \<and> release_at K (idx s) sl = Some r \<and> slot_of r = sl
     \<and> release_verify K r = Inr () \<and> digests_ok r \<and> list_all (\<lambda>b. verify_blob K b s = Inr ()) (all_blobs r)
     \<and> p_manifest (payload r) = \<lparr>br_digest = digest_sha256 K bytes, br_hash = blake3_of K bytes,
         br_size = of_nat (length bytes), br_media_type = Some mt\<rparr>
     \<and> tget (blob_data s) (blake3_of K bytes) = Some bytes"

lemma push_leaves:
  assumes ok: "store_ok K (app_node a)" and laws: "hex_laws K" "sha_laws K" "key_laws K"
    and plain: "domain_slot name = None" and tag: "tag_ok tag"
    and res: "resolve_repo K name (node_policy (app_node a)) (node_id K (app_node a)) = Inr (p, img)"
    and m: "manifest_parse K (concat (chunks body)) (map_option essence ct) = Inr m" "manifest_subject m = None"
    and older: "\<And>ex. release_at K (idx (app_node a)) (p, img, tag) = Some ex
      \<Longrightarrow> p_timestamp (payload ex) < env_unix (net_env E)"
    and fresh: "\<And>bs. tget (blob_data (app_node a)) (blake3_of K (concat (chunks body))) = Some bs
      \<Longrightarrow> bs = concat (chunks body)"
    and put: "manifest_put K E name tag ct body a = (a', Inr r)"
  shows "\<exists>rel. status r = 201 \<and> p = node_id K (app_node a') \<and> node_policy (app_node a') = node_policy (app_node a)
    \<and> node_id K (app_node a') = node_id K (app_node a)
    \<and> left_by_push K (app_node a') (p, img, tag) (concat (chunks body))
        (case map_option essence ct of Some t \<Rightarrow> t | None \<Rightarrow> manifest_media_type m) rel"
proof -
  let ?bytes = "concat (chunks body)"
  let ?mt = "case map_option essence ct of Some t \<Rightarrow> t | None \<Rightarrow> manifest_media_type m"
  obtain a1 blobs s b s' u where own: "p = node_id K (app_node a)" and col: "collect_all K m a = (a1, Inr blobs)"
    and import: "put_blob_bytes K ?bytes (Some (digest_sha256 K ?bytes)) (Some ?mt) (app_node a1) = (s, Inr b)"
    and pub: "publish K (net_env E) (pushed_release K E p img tag b blobs s) s = (s', Inr u)"
    and a': "a' = a1\<lparr>app_node := s'\<rparr>" and st: "status r = 201"
    by (rule push_steps [OF plain tag res m put])
  note c = collect_all_spec [OF ok manifest_parse_ok [OF m(1)] col]
  then have ref: "refilled K (app_node a) (app_node a1)" and held: "collected K (app_node a1) blobs" by simp_all
  note ok1 = refilledD(1) [OF ref] and core = refilledD(2) [OF ref]
  have "tget (blob_data (app_node a1)) (blake3_of K ?bytes) = Some bs \<Longrightarrow> bs = ?bytes" for bs
    using fresh by (simp add: same_coreD(1) [OF core])
  note w = put_blob_bytes_spec [OF ok1 laws(1,2) this import, unfolded sum.case]
  then have ok2: "store_ok K s" and data: "tget (blob_data s) (br_hash b) = Some ?bytes"
    and b: "b = \<lparr>br_digest = digest_sha256 K ?bytes, br_hash = blake3_of K ?bytes, br_size = of_nat (length ?bytes),
        br_media_type = Some ?mt\<rparr>" by blast+
  have rel2: "release_at K (idx s) sl = release_at K (idx (app_node a)) sl" for sl
    using w refilledD(3) [OF ref, of sl] by metis
  note frame = put_blob_bytes_frame [OF import] same_restD [OF put_blob_bytes_frame(1) [OF import]]
  let ?rel = "pushed_release K E p img tag b blobs s"
  have key: "sk_public K (node_key s) = p" using own
    by (simp add: frame same_coreD(2) [OF core] node_id_def identity_id_def)
  have fields: "slot_of ?rel = (p, img, tag)" "p_manifest (payload ?rel) = b" "all_blobs ?rel = b # blobs"
    "p_referrers (payload ?rel) = []" "p_timestamp (payload ?rel) = env_unix (net_env E)"
    using key by (simp_all add: pushed_release_def release_sign_payload slot_of_def all_blobs_def)
  have "digest_ok (br_digest b)" using digest_sha256_ok [OF laws(1,2)] by (simp add: b)
  then have dig: "digests_ok ?rel"
    using held unfolding digests_ok_def fields by (simp add: collected_def list_all_iff)
  have newer: "supersedes ?rel ex" if "release_at K (idx s) (slot_of ?rel) = Some ex" for ex
    using that older by (simp add: rel2 fields supersedes_def)
  note held' = publish_held [OF ok2 laws(3) dig pub newer]
  have ver: "release_verify K ?rel = Inr ()"
    using pub by (cases "release_verify K ?rel") (simp_all add: publish_def then_do_def)
  have "verify_blob K x s' = Inr ()" if "x \<in> set (b # blobs)" for x
  proof (cases "x = b")
    case True
    have "br_digest b = digest_sha256 K ?bytes" "br_size b = of_nat (length ?bytes)" by (simp_all add: b)
    with data show ?thesis unfolding True verify_blob_iff by (auto simp: held'(2))
  next
    case False
    with that held have "verify_blob K x (app_node a1) = Inr ()" by (simp add: collected_def list_all_iff)
    then obtain y where y: "tget (blob_data (app_node a1)) (br_hash x) = Some y" "digest_sha256 K y = br_digest x"
      "of_nat (length y) = br_size x" by (auto simp: verify_blob_iff)
    then have "tget (blob_data s') (br_hash x) = Some y" by (auto simp: held'(2) frame(2) add_data_def has_hash_def)
    with y(2,3) show ?thesis by (auto simp: verify_blob_iff)
  qed
  then have full: "list_all (\<lambda>b. verify_blob K b s' = Inr ()) (all_blobs ?rel)" by (simp add: fields list_all_iff)
  have same: "node_key s' = node_key (app_node a)" "node_policy s' = node_policy (app_node a)"
    by (simp_all add: held'(3,4) frame same_coreD [OF core])
  have own': "p = node_id K s'" "node_id K s' = node_id K (app_node a)" using own by (simp_all add: node_id_def same)
  have "br_hash b = blake3_of K ?bytes" by (simp add: b)
  with data have data': "tget (blob_data s') (blake3_of K ?bytes) = Some ?bytes" by (simp add: held'(2))
  have "left_by_push K s' (p, img, tag) ?bytes ?mt ?rel"
    unfolding left_by_push_def fields(1,2)
    using held'(1) [unfolded fields(1)] held'(6) full dig ver data' b by blast
  then show ?thesis using st own' same(2) by (auto simp: a')
qed

lemma verified_complete: "list_all (\<lambda>b. verify_blob K b s = Inr ()) (all_blobs r) \<Longrightarrow> is_complete r s"
  by (auto simp: is_complete_def list_all_iff verify_blob_iff has_hash_def)

section \<open>Properties\<close>

text \<open>C3: What is pushed is pulled. A manifest without a subject is pushed under a tag of a name that holds no
  domain, where no release as new as the clock is held, and BLAKE3 does not collide with data already
  there; when the push is answered without an error, the answer is 201, and any later request for the tag in
  that state, whatever the network does, gives the bytes that were pushed, their SHA-256 digest and the media
  type of the push.\<close>

theorem pushed_is_pulled:
  assumes "store_ok K (app_node a)" "hex_laws K" "sha_laws K" "key_laws K" "domain_slot name = None" "tag_ok tag"
    and "resolve_repo K name (node_policy (app_node a)) (node_id K (app_node a)) = Inr (p, img)"
    and "manifest_parse K (concat (chunks body)) (map_option essence ct) = Inr m" "manifest_subject m = None"
    and "\<And>ex. release_at K (idx (app_node a)) (p, img, tag) = Some ex \<Longrightarrow> p_timestamp (payload ex) < env_unix (net_env E)"
    and "\<And>bs. tget (blob_data (app_node a)) (blake3_of K (concat (chunks body))) = Some bs \<Longrightarrow> bs = concat (chunks body)"
    and "manifest_put K E name tag ct body a = (a', Inr r)"
  shows "status r = 201 \<and> (\<exists>q. manifest_get K E' name tag False a' = (a', Inr q) \<and> status q = 200
    \<and> resp_body q = Data (concat (chunks body))
    \<and> (''Docker-Content-Digest'', digest_str (digest_sha256 K (concat (chunks body)))) \<in> set (headers q)
    \<and> (''Content-Type'', case map_option essence ct of Some t \<Rightarrow> t | None \<Rightarrow> manifest_media_type m) \<in> set (headers q))"
proof -
  let ?mt = "case map_option essence ct of Some t \<Rightarrow> t | None \<Rightarrow> manifest_media_type m"
  from push_leaves [OF assms] obtain rel where st: "status r = 201"
    and same: "node_policy (app_node a') = node_policy (app_node a)" "node_id K (app_node a') = node_id K (app_node a)"
    and rel: "left_by_push K (app_node a') (p, img, tag) (concat (chunks body)) ?mt rel" by blast
  note rel = rel [unfolded left_by_push_def]
  have full: "is_complete rel (app_node a')" by (rule verified_complete) (use rel in blast)
  have res: "resolve_repo K name (node_policy (app_node a')) (node_id K (app_node a')) = Inr (p, img)"
    using assms(7) by (simp add: same)
  have name: "name_ok img" by (rule resolve_repo_name_ok [OF assms(7)])
  have held: "release_at K (idx (app_node a')) (p, img, tag) = Some rel"
    "tget (blob_data (app_node a')) (br_hash (p_manifest (payload rel))) = Some (concat (chunks body))"
    using rel by simp_all
  from pull_held [OF assms(5,6) res held(1) name full held(2), of E'] obtain q where
    "manifest_get K E' name tag False a' = (a', Inr q)" "status q = 200" "resp_body q = Data (concat (chunks body))"
    "(''Content-Type'', response_media_type (p_manifest (payload rel))) \<in> set (headers q)"
    "(''Docker-Content-Digest'', digest_str (br_digest (p_manifest (payload rel)))) \<in> set (headers q)" by blast
  then show ?thesis using st rel by (auto simp: response_media_type_def)
qed

lemma demo_push:
  obtains a' r where "manifest_put demo_json demo_http ''app'' ''v1'' None \<lparr>chunks = [[2]], broken = False\<rparr>
      \<lparr>app_node = demo_pushed, app_uploads = []\<rparr> = (a', Inr r)"
proof -
  let ?a = "\<lparr>app_node = demo_pushed, app_uploads = []\<rparr>" and ?c = "demo_config\<lparr>br_media_type := Some ''x/y''\<rparr>"
  let ?body = "\<lparr>chunks = [[2]], broken = False\<rparr> :: http_body"
  obtain ix where rec: "record_blob ?c demo_pushed = (demo_pushed\<lparr>pin_tags := tput (tag_name (br_digest ?c))
      (br_hash ?c) (pin_tags demo_pushed), idx := ix\<rparr>, Inr ())"
    using demo_config_recorded by blast
  let ?s1 = "demo_pushed\<lparr>pin_tags := tput (tag_name (br_digest ?c)) (br_hash ?c) (pin_tags demo_pushed), idx := ix\<rparr>"
  have col: "collect_all demo_json (Image demo_image) ?a = (?a\<lparr>app_node := ?s1\<rparr>, Inr [?c])"
    using rec by (simp add: collect_all_def refs_fuel_def demo_collected Let_def del: collect_refs.simps)
  have id: "node_id demo_json demo_pushed = PublicKey 5"
    unfolding demo_json_same demo_net_same demo_node_id demo_pushed_fields(2) ..
  have bytes: "to_bytes max_manifest ?body = Some [2]" by (simp add: to_bytes_def max_manifest_def)
  have "demo_checksum [2] \<noteq> (demo_checksum [3] :: bytes32)" by (simp add: demo_checksum_def)
  then have fresh: "tget (blob_data (app_node ?a)) (blake3_of demo_json [2]) = Some bs \<Longrightarrow> bs = [2]" for bs
    by (simp add: demo_pushed_spec(4) demo_json_same demo_net_same demo_node_crates_def codecs.defs)
  have room: "slot_free demo_json (idx (app_node (?a\<lparr>app_node := ?s1\<rparr>))) sl" for sl
    using record_blob_keeps_room [OF rec, of demo_json sl] demo_pushed_spec(6) by simp
  have "\<exists>a' r. manifest_put demo_json demo_http ''app'' ''v1'' None ?body ?a = (a', Inr r)"
    by (rule push_accepted [OF _ demo_json_laws(1,4,2,3) _ demo_app_ok(2) _ bytes demo_parse _ col fresh room demo_app_ok(1)])
      (simp_all add: demo_pushed_spec(1) domain_slot_def demo_repo demo_pushed_fields id manifest_subject_def
        demo_image_def demo_http_def demo_env_def demo_app_ok)
  then show ?thesis using that by blast
qed

text \<open>What the push on the example rests on.\<close>

lemma demo_push_ready:
  defines "a \<equiv> \<lparr>app_node = demo_pushed, app_uploads = []\<rparr>" and "bytes \<equiv> concat (chunks \<lparr>chunks = [[2]], broken = False\<rparr>)"
  shows "manifest_parse demo_json bytes (map_option essence None) = Inr (Image demo_image)"
    "tget (blob_data (app_node a)) (blake3_of demo_json bytes) = Some bs \<Longrightarrow> bs = bytes"
    "release_at demo_json (idx (app_node a)) sl \<noteq> Some ex"
    "resolve_repo demo_json ''app'' (node_policy (app_node a)) (node_id demo_json (app_node a))
      = Inr (node_id demo_json demo_pushed, ''app'')"
    "domain_slot ''app'' = None" "manifest_subject (Image demo_image) = None" "store_ok demo_json (app_node a)"
proof -
  show "manifest_parse demo_json bytes (map_option essence None) = Inr (Image demo_image)"
    by (simp add: bytes_def demo_parse)
  have "demo_checksum [2] \<noteq> (demo_checksum [3] :: bytes32)" by (simp add: demo_checksum_def)
  then show "tget (blob_data (app_node a)) (blake3_of demo_json bytes) = Some bs \<Longrightarrow> bs = bytes"
    by (simp add: a_def bytes_def demo_pushed_spec(4) demo_json_same demo_net_same demo_node_crates_def codecs.defs)
qed (simp_all add: a_def demo_pushed_spec demo_repo demo_pushed_fields domain_slot_def manifest_subject_def demo_image_def)

theorem pushed_is_pulled_witness:
  "\<exists>a a' r q. manifest_put demo_json demo_http ''app'' ''v1'' None \<lparr>chunks = [[2]], broken = False\<rparr> a = (a', Inr r)
     \<and> manifest_get demo_json demo_http ''app'' ''v1'' False a' = (a', Inr q) \<and> resp_body q = Data [2]
     \<and> (''Content-Type'', mt_oci_manifest) \<in> set (headers q)"
proof -
  let ?a = "\<lparr>app_node = demo_pushed, app_uploads = []\<rparr>" and ?body = "\<lparr>chunks = [[2]], broken = False\<rparr> :: http_body"
  obtain a' r where put: "manifest_put demo_json demo_http ''app'' ''v1'' None ?body ?a = (a', Inr r)"
    by (rule demo_push)
  note ready = demo_push_ready
  have "\<exists>q. manifest_get demo_json demo_http ''app'' ''v1'' False a' = (a', Inr q) \<and> status q = 200
    \<and> resp_body q = Data (concat (chunks ?body))
    \<and> (''Docker-Content-Digest'', digest_str (digest_sha256 demo_json (concat (chunks ?body)))) \<in> set (headers q)
    \<and> (''Content-Type'', case map_option essence None of Some t \<Rightarrow> t | None \<Rightarrow> manifest_media_type (Image demo_image))
        \<in> set (headers q)"
    by (rule conjunct2 [OF pushed_is_pulled [OF ready(7) demo_json_laws(1,4,2) ready(5) demo_app_ok(2) ready(4,1,6) _ _ put]])
      (blast dest: ready(2) elim: notE [OF ready(3)])+
  with put show ?thesis by (auto simp: manifest_media_type_def demo_image_def)
qed

end
