(* ===== verification/Upload_Sessions.thy ===== *)
theory Upload_Sessions
  imports Push_Pull
begin

text \<open>
  What the upload sessions of the registry promise: a map from session ids to the bytes received so far,
  and the set of stored digests. The handlers of \<^verbatim>\<open>crates/ocid/src/registry.rs\<close> on their table of
  uploads and their upload files implement it, request by request and over whole runs.
\<close>

section \<open>The specification\<close>

text \<open>\<open>acked\<close> is the number of bytes the server last told the client.\<close>

record session =
  received_bytes :: "byte list"
  acked :: u64

record upload_spec =
  sessions :: "string \<Rightarrow> session option"
  stored :: "digest set"

datatype upload_request =
    Open string
  | Append string http_body
  | Finish string digest http_body
  | Whole string digest http_body
  | Query string
  | Cancel string

datatype upload_answer = Opened | Received u64 | Stored digest | Cancelled | Unknown | Interrupted | Wrong_digest

definition spec_append :: "string \<Rightarrow> http_body \<Rightarrow> upload_spec \<Rightarrow> upload_spec \<times> (upload_answer + byte list)" where
  "spec_append i b t =
     (case sessions t i of
        None \<Rightarrow> (t, Inl Unknown)
      | Some x \<Rightarrow>
          (let bs = received_bytes x @ concat (chunks b) in
           if broken b then (t\<lparr>sessions := (sessions t)(i \<mapsto> x\<lparr>received_bytes := bs\<rparr>)\<rparr>, Inl Interrupted)
           else (t\<lparr>sessions := (sessions t)(i \<mapsto> \<lparr>received_bytes = bs, acked = of_nat (length bs)\<rparr>)\<rparr>, Inr bs)))"

definition spec_finish :: "'z crates_scheme \<Rightarrow> string \<Rightarrow> digest \<Rightarrow> http_body \<Rightarrow> upload_spec \<Rightarrow> upload_spec \<times> upload_answer" where
  "spec_finish K i d b t =
     (case spec_append i b t of
        (t', Inl e) \<Rightarrow> (t', e)
      | (t', Inr bs) \<Rightarrow>
          (let t2 = t'\<lparr>sessions := (sessions t')(i := None)\<rparr> in
           if digest_sha256 K bs = d then (t2\<lparr>stored := insert d (stored t2)\<rparr>, Stored d) else (t2, Wrong_digest)))"

definition spec_open :: "string \<Rightarrow> upload_spec \<Rightarrow> upload_spec" where
  "spec_open i t = t\<lparr>sessions := (sessions t)(i \<mapsto> \<lparr>received_bytes = [], acked = 0\<rparr>)\<rparr>"

definition spec_step :: "'z crates_scheme \<Rightarrow> upload_request \<Rightarrow> upload_spec \<Rightarrow> upload_spec \<times> upload_answer" where
  "spec_step K r t = (case r of
     Open i \<Rightarrow> (spec_open i t, Opened)
   | Append i b \<Rightarrow> (case spec_append i b t of
         (t', Inl e) \<Rightarrow> (t', e) | (t', Inr bs) \<Rightarrow> (t', Received (of_nat (length bs))))
   | Finish i d b \<Rightarrow> spec_finish K i d b t
   | Whole i d b \<Rightarrow> spec_finish K i d b (spec_open i t)
   | Query i \<Rightarrow> (t, case sessions t i of None \<Rightarrow> Unknown | Some x \<Rightarrow> Received (acked x))
   | Cancel i \<Rightarrow> (t\<lparr>sessions := (sessions t)(i := None)\<rparr>, Cancelled))"

fun spec_run :: "'z crates_scheme \<Rightarrow> upload_request list \<Rightarrow> upload_spec \<Rightarrow> upload_spec \<times> upload_answer list" where
  "spec_run K [] t = (t, [])"
| "spec_run K (r # rs) t = (case spec_step K r t of (t1, x) \<Rightarrow> case spec_run K rs t1 of (t2, xs) \<Rightarrow> (t2, x # xs))"

section \<open>The requests as the registry handles them\<close>

text \<open>The id of a new session is what the generator of ids gave.\<close>

definition upload_step ::
  "'z node_crates_scheme \<Rightarrow> http_env \<Rightarrow> string \<Rightarrow> upload_request \<Rightarrow> http_resp handler" where
  "upload_step K E name r = (case r of
     Open i \<Rightarrow> upload_begin K (E\<lparr>fresh_id := i, can_create := True\<rparr>) name [] \<lparr>chunks = [], broken = False\<rparr>
   | Append i b \<Rightarrow> upload_patch name i b
   | Finish i d b \<Rightarrow> upload_put K name i (Some (digest_str d)) b
   | Whole i d b \<Rightarrow> upload_begin K (E\<lparr>fresh_id := i, can_create := True\<rparr>) name [(''digest'', digest_str d)] b
   | Query i \<Rightarrow> upload_status name i
   | Cancel i \<Rightarrow> upload_cancel i)"

fun upload_run ::
  "'z node_crates_scheme \<Rightarrow> http_env \<Rightarrow> string \<Rightarrow> upload_request list \<Rightarrow> app \<Rightarrow> app \<times> (oci_error + http_resp) list" where
  "upload_run K E name [] a = (a, [])"
| "upload_run K E name (r # rs) a =
     (case upload_step K E name r a of (a1, x) \<Rightarrow> case upload_run K E name rs a1 of (a2, xs) \<Rightarrow> (a2, x # xs))"

section \<open>The relation between the two\<close>

definition session_of :: "app \<Rightarrow> upload \<Rightarrow> session" where
  "session_of a u = \<lparr>received_bytes = (case tget (upload_files (app_node a)) (up_path u) of Some c \<Rightarrow> c | None \<Rightarrow> []),
     acked = up_size u\<rparr>"

definition uploads_abs :: "app \<Rightarrow> upload_spec" where
  "uploads_abs a = \<lparr>sessions = (\<lambda>i. map_option (session_of a) (tget (app_uploads a) i)),
     stored = held_digests (app_node a)\<rparr>"

text \<open>Each session has its own file, which is there.\<close>

definition sessions_ok :: "app \<Rightarrow> bool" where
  "sessions_ok a \<longleftrightarrow> (\<forall>i u. tget (app_uploads a) i = Some u
     \<longrightarrow> up_path u = i \<and> tget (upload_files (app_node a)) i \<noteq> None)"

definition answers_as :: "upload_answer \<Rightarrow> oci_error + http_resp \<Rightarrow> bool" where
  "answers_as x res = (case x of
     Opened \<Rightarrow> (\<exists>r. res = Inr r \<and> status r = 202 \<and> (''Range'', ''0-0'') \<in> set (headers r))
   | Received n \<Rightarrow> (\<exists>r. res = Inr r \<and> status r \<in> {202, 204} \<and> (''Range'', received n) \<in> set (headers r))
   | Stored d \<Rightarrow> (\<exists>r. res = Inr r \<and> status r = 201 \<and> (''Docker-Content-Digest'', digest_str d) \<in> set (headers r))
   | Cancelled \<Rightarrow> (\<exists>r. res = Inr r \<and> status r = 204)
   | Unknown \<Rightarrow> res = Inl (oci_error_new 404 ''BLOB_UPLOAD_UNKNOWN'')
   | Interrupted \<Rightarrow> res = Inl (oci_error_new 400 ''UNSUPPORTED'')
   | Wrong_digest \<Rightarrow> res = Inl (oci_error_new 400 ''DIGEST_INVALID''))"

definition request_ok :: "upload_request \<Rightarrow> bool" where
  "request_ok r = (case r of Finish _ d _ \<Rightarrow> digest_ok d | Whole _ d _ \<Rightarrow> digest_ok d | _ \<Rightarrow> True)"

definition uploads_inv :: "'z crates_scheme \<Rightarrow> app \<Rightarrow> bool" where
  "uploads_inv K a \<longleftrightarrow> sessions_ok a \<and> index_ok K (idx (app_node a))"

section \<open>One request\<close>

lemma uploads_abs_simps:
  "sessions (uploads_abs a) i = map_option (session_of a) (tget (app_uploads a) i)"
  "stored (uploads_abs a) = held_digests (app_node a)"
  by (simp_all add: uploads_abs_def)

lemma uploads_abs_eqI:
  assumes "\<And>i. sessions t i = map_option (session_of a) (tget (app_uploads a) i)" "stored t = held_digests (app_node a)"
  shows "uploads_abs a = t"
  using assms by (cases t) (simp add: uploads_abs_def fun_eq_iff)

lemma uploads_invD:
  assumes "uploads_inv K a" "tget (app_uploads a) i = Some u"
  obtains c where "up_path u = i" "tget (upload_files (app_node a)) i = Some c"
  using assms by (auto simp: uploads_inv_def sessions_ok_def)

lemma append_sim:
  assumes inv: "uploads_inv K a" and run: "append_body i b a = (a', res)"
  shows "uploads_inv K a' \<and> uploads_abs a' = fst (spec_append i b (uploads_abs a))
    \<and> (case snd (spec_append i b (uploads_abs a)) of
         Inl x \<Rightarrow> \<exists>e. res = Inl e \<and> answers_as x (Inl e)
       | Inr bs \<Rightarrow> res = Inr (of_nat (length bs)) \<and> (\<exists>u. tget (app_uploads a') i = Some u)
           \<and> tget (upload_files (app_node a')) i = Some bs)"
proof (cases "tget (app_uploads a) i")
  case None
  with run inv show ?thesis
    by (auto simp: append_body_def spec_append_def uploads_abs_simps answers_as_def unknown_upload_def oci_not_found_def)
next
  case (Some u)
  then obtain c where u: "up_path u = i" "tget (upload_files (app_node a)) i = Some c" by (rule uploads_invD [OF inv])
  have paths: "tget (app_uploads a) j = Some v \<Longrightarrow> up_path v = j" for j v
    using inv by (simp add: uploads_inv_def sessions_ok_def)
  let ?bs = "c @ concat (chunks b)"
  let ?a1 = "a\<lparr>app_node := (app_node a)\<lparr>upload_files := tput i ?bs (upload_files (app_node a))\<rparr>\<rparr>"
  let ?a2 = "?a1\<lparr>app_uploads := tput i (u\<lparr>up_size := of_nat (length ?bs)\<rparr>) (app_uploads a)\<rparr>"
  have x: "sessions (uploads_abs a) i = Some \<lparr>received_bytes = c, acked = up_size u\<rparr>"
    using Some u by (simp add: uploads_abs_simps session_of_def)
  have others: "session_of ?a1 v = session_of a v" if "tget (app_uploads a) j = Some v" "j \<noteq> i" for j v
    using paths [OF that(1)] that(2) by (simp add: session_of_def)
  have inv1: "uploads_inv K ?a1" "uploads_inv K ?a2"
    using inv u Some by (auto simp: uploads_inv_def sessions_ok_def)
  show ?thesis
  proof (cases "broken b")
    case True
    have "a' = ?a1" "res = Inl oci_bad" using run Some u True by (simp_all add: append_body_def Let_def)
    moreover have "uploads_abs ?a1 = fst (spec_append i b (uploads_abs a))"
      by (rule uploads_abs_eqI)
        (use x True Some u others in \<open>auto simp: spec_append_def Let_def uploads_abs_simps session_of_def held_digests_def
          map_option_case split: option.split\<close>)
    ultimately show ?thesis using inv1 x True by (simp add: spec_append_def Let_def answers_as_def oci_bad_def)
  next
    case False
    have "a' = ?a2" "res = Inr (of_nat (length ?bs))" using run Some u False by (simp_all add: append_body_def Let_def)
    moreover have "uploads_abs ?a2 = fst (spec_append i b (uploads_abs a))"
      by (rule uploads_abs_eqI)
        (use x False Some u others in \<open>auto simp: spec_append_def Let_def uploads_abs_simps session_of_def held_digests_def
          map_option_case split: option.split\<close>)
    ultimately show ?thesis using inv1 x False by (simp add: spec_append_def Let_def)
  qed
qed

lemma open_sim:
  assumes inv: "uploads_inv K a"
  obtains a' where "open_upload (E\<lparr>fresh_id := i, can_create := True\<rparr>) a = (a', Inr ())" "uploads_inv K a'"
    "uploads_abs a' = spec_open i (uploads_abs a)"
proof -
  let ?a = "a\<lparr>app_node := (app_node a)\<lparr>upload_files := tput i [] (upload_files (app_node a))\<rparr>,
      app_uploads := tput i \<lparr>up_path = i, up_size = 0\<rparr> (app_uploads a)\<rparr>"
  have paths: "tget (app_uploads a) j = Some v \<Longrightarrow> up_path v = j" for j v
    using inv by (simp add: uploads_inv_def sessions_ok_def)
  have "uploads_abs ?a = spec_open i (uploads_abs a)"
    by (rule uploads_abs_eqI)
      (use paths in \<open>auto simp: spec_open_def uploads_abs_simps session_of_def held_digests_def map_option_case
        split: option.split\<close>)
  moreover have "uploads_inv K ?a" using inv by (auto simp: uploads_inv_def sessions_ok_def)
  ultimately show ?thesis using that [of ?a] by (simp add: open_upload_def Let_def)
qed

text \<open>The file of a session goes into the store, or away.\<close>

lemma import_sim:
  assumes laws: "hex_laws K" "sha_laws K" and ok: "index_ok K (idx (app_node a))" and d: "digest_ok d"
    and content: "tget (upload_files (app_node a)) (up_path u) = Some bs"
    and run: "import_upload K u d a = (a', res)"
  shows "index_ok K (idx (app_node a')) \<and> app_uploads a' = app_uploads a
    \<and> (\<forall>j. j \<noteq> up_path u \<longrightarrow> tget (upload_files (app_node a')) j = tget (upload_files (app_node a)) j)
    \<and> (if digest_sha256 K bs = d
       then (\<exists>b. res = Inr b \<and> br_digest b = d) \<and> held_digests (app_node a') = insert d (held_digests (app_node a))
       else res = Inl (oci_error_new 400 ''DIGEST_INVALID'') \<and> held_digests (app_node a') = held_digests (app_node a))"
proof -
  let ?gone = "(app_node a)\<lparr>upload_files := tdel (up_path u) (upload_files (app_node a))\<rparr>"
  show ?thesis
  proof (cases "digest_sha256 K bs = d")
    case False
    then have "put_blob_file K bs (Some d) None ?gone = (?gone, Inl (Store_err DigestMismatch))"
      by (simp add: put_blob_file_def)
    with content run have "a' = a\<lparr>app_node := ?gone\<rparr>" "res = Inl (oci_error_new 400 ''DIGEST_INVALID'')"
      by (simp_all add: import_upload_def bad_request_def Let_def)
    with False ok show ?thesis by (simp add: held_digests_def)
  next
    case True
    let ?r = "\<lparr>br_digest = d, br_hash = blake3_of K bs, br_size = of_nat (length bs), br_media_type = None\<rparr> :: blob_ref"
    let ?s1 = "set_tag (tag_name d) (blake3_of K bs) (add_data (blake3_of K bs) bs ?gone)"
    have same: "idx ?s1 = idx (app_node a)" "upload_files ?s1 = upload_files ?gone"
      by (simp_all add: set_tag_def add_data_def)
    obtain ix where put: "index_put_blob ?r ?s1 = (?s1\<lparr>idx := ix\<rparr>, Inr ())" and ix: "index_ok K ix"
      and at: "\<And>e. digest_ok e \<Longrightarrow> blob_at ix e = (if e = br_digest ?r then Some ?r else blob_at (idx ?s1) e)"
      by (rule index_put_blob_spec [of K ?s1 ?r]) (use ok d same in simp_all)
    have "put_blob_file K bs (Some d) None ?gone = (?s1\<lparr>idx := ix\<rparr>, Inr ?r)"
      using True put by (simp add: put_blob_file_def Let_def then_do_def)
    with content run have "a' = a\<lparr>app_node := ?s1\<lparr>idx := ix\<rparr>\<rparr>" "res = Inr ?r"
      by (simp_all add: import_upload_def Let_def)
    moreover have "held_digests (?s1\<lparr>idx := ix\<rparr>) = insert d (held_digests (app_node a))"
      using at d same by (auto simp: held_digests_def split: if_splits)
    ultimately show ?thesis using True ix same by simp
  qed
qed

lemma finish_sim:
  assumes laws: "hex_laws K" "sha_laws K" and inv: "uploads_inv K a" and d: "digest_ok d"
    and run: "upload_put K name i (Some (digest_str d)) b a = (a', res)"
  shows "uploads_inv K a' \<and> uploads_abs a' = fst (spec_finish K i d b (uploads_abs a))
    \<and> answers_as (snd (spec_finish K i d b (uploads_abs a))) res"
proof -
  obtain a1 r1 where app: "append_body i b a = (a1, r1)" by force
  note one = append_sim [OF inv app]
  obtain t1 x1 where spec: "spec_append i b (uploads_abs a) = (t1, x1)" by force
  have run': "upload_put K name i (Some (digest_str d)) b a = (case r1 of Inl e \<Rightarrow> (a1, Inl e) | Inr n \<Rightarrow>
      then_do (take_upload i) (\<lambda>u. then_do (import_upload K u d) (\<lambda>b. ret \<lparr>status = 201,
       headers = [(''Location'', ''/v2/'' @ name @ ''/blobs/'' @ digest_str (br_digest b)),
          (''Docker-Content-Digest'', digest_str (br_digest b)), content_length_0],
       resp_body = Empty\<rparr>)) a1)"
    using d app by (simp add: upload_put_def digest_ok_def then_do_def split: sum.split prod.split)
  show ?thesis
  proof (cases x1)
    case (Inl x)
    with one spec obtain e where "r1 = Inl e" "answers_as x (Inl e)" "uploads_inv K a1" "uploads_abs a1 = t1" by auto
    with run run' Inl spec show ?thesis by (simp add: spec_finish_def)
  next
    case (Inr bs)
    with one spec obtain u where u: "r1 = Inr (of_nat (length bs))" "uploads_inv K a1" "uploads_abs a1 = t1"
      "tget (app_uploads a1) i = Some u" "tget (upload_files (app_node a1)) i = Some bs" by auto
    have paths: "tget (app_uploads a1) j = Some v \<Longrightarrow> up_path v = j" for j v
      using u(2) by (simp add: uploads_inv_def sessions_ok_def)
    let ?a2 = "a1\<lparr>app_uploads := tdel i (app_uploads a1)\<rparr>"
    obtain a3 r3 where imp: "import_upload K u d ?a2 = (a3, r3)" by force
    have "index_ok K (idx (app_node ?a2))" using u(2) by (simp add: uploads_inv_def)
    moreover have "tget (upload_files (app_node ?a2)) (up_path u) = Some bs" using u(5) paths [OF u(4)] by simp
    ultimately have three: "index_ok K (idx (app_node a3))" "app_uploads a3 = tdel i (app_uploads a1)"
      "\<And>j. j \<noteq> i \<Longrightarrow> tget (upload_files (app_node a3)) j = tget (upload_files (app_node a1)) j"
      "if digest_sha256 K bs = d
       then (\<exists>b. r3 = Inr b \<and> br_digest b = d) \<and> held_digests (app_node a3) = insert d (held_digests (app_node a1))
       else r3 = Inl (oci_error_new 400 ''DIGEST_INVALID'') \<and> held_digests (app_node a3) = held_digests (app_node a1)"
      using import_sim [OF laws _ d _ imp] paths [OF u(4)] by simp_all
    have a': "a' = a3" and res: "res = (case r3 of Inl e \<Rightarrow> Inl e | Inr b \<Rightarrow> Inr \<lparr>status = 201,
       headers = [(''Location'', ''/v2/'' @ name @ ''/blobs/'' @ digest_str (br_digest b)),
          (''Docker-Content-Digest'', digest_str (br_digest b)), content_length_0], resp_body = Empty\<rparr>)"
      using run run' u(1,4) imp by (auto simp: take_upload_def then_do_def split: sum.splits)
    have inv3: "uploads_inv K a3"
      using u(2) three(1-3) by (auto simp: uploads_inv_def sessions_ok_def split: if_splits)
    have rest: "map_option (session_of a3) (tget (app_uploads a3) j)
        = (if j = i then None else map_option (session_of a1) (tget (app_uploads a1) j))" for j
      using three(2,3) paths by (cases "tget (app_uploads a1) j") (auto simp: session_of_def)
    have t1: "sessions t1 j = map_option (session_of a1) (tget (app_uploads a1) j)" "stored t1 = held_digests (app_node a1)" for j
      unfolding u(3) [symmetric] by (rule uploads_abs_simps)+
    have "uploads_abs a3 = fst (spec_finish K i d b (uploads_abs a))"
      by (rule uploads_abs_eqI)
        (use three(4) in \<open>auto simp: spec_finish_def spec Inr Let_def rest t1 split: if_splits\<close>)
    moreover have "answers_as (snd (spec_finish K i d b (uploads_abs a))) res"
      using three(4) by (auto simp: spec_finish_def spec Inr Let_def res answers_as_def)
    ultimately show ?thesis using inv3 a' by simp
  qed
qed

lemma step_sim:
  assumes laws: "hex_laws K" "sha_laws K" and inv: "uploads_inv K a" and r: "request_ok r"
    and run: "upload_step K E name r a = (a', res)"
  shows "uploads_inv K a' \<and> uploads_abs a' = fst (spec_step K r (uploads_abs a))
    \<and> answers_as (snd (spec_step K r (uploads_abs a))) res"
proof (cases r)
  case (Open i)
  obtain a1 where "open_upload (E\<lparr>fresh_id := i, can_create := True\<rparr>) a = (a1, Inr ())" "uploads_inv K a1"
    "uploads_abs a1 = spec_open i (uploads_abs a)" by (rule open_sim [OF inv])
  with run Open show ?thesis
    by (auto simp: upload_step_def upload_begin_def then_do_def spec_step_def answers_as_def)
next
  case (Append i b)
  obtain a1 r1 where app: "append_body i b a = (a1, r1)" by force
  obtain t1 x1 where spec: "spec_append i b (uploads_abs a) = (t1, x1)" by force
  from append_sim [OF inv app] run Append spec app show ?thesis
    by (cases x1) (auto simp: upload_step_def upload_patch_def then_do_def spec_step_def answers_as_def upload_headers_def)
next
  case (Finish i d b)
  then have "digest_ok d" "upload_put K name i (Some (digest_str d)) b a = (a', res)"
    using r run by (simp_all add: request_ok_def upload_step_def)
  from finish_sim [OF laws inv this] Finish show ?thesis by (simp add: spec_step_def)
next
  case (Whole i d b)
  obtain a1 where a1: "open_upload (E\<lparr>fresh_id := i, can_create := True\<rparr>) a = (a1, Inr ())" "uploads_inv K a1"
    "uploads_abs a1 = spec_open i (uploads_abs a)" by (rule open_sim [OF inv])
  then have "digest_ok d" "upload_put K name i (Some (digest_str d)) b a1 = (a', res)"
    using r run Whole by (simp_all add: request_ok_def upload_step_def upload_begin_def then_do_def)
  from finish_sim [OF laws a1(2) this] Whole a1(3) show ?thesis by (simp add: spec_step_def)
next
  case (Query i)
  show ?thesis
  proof (cases "tget (app_uploads a) i")
    case None
    with run Query inv show ?thesis
      by (auto simp: upload_step_def upload_status_def spec_step_def uploads_abs_simps answers_as_def unknown_upload_def
          oci_not_found_def)
  next
    case (Some u)
    with run Query inv show ?thesis
      by (auto simp: upload_step_def upload_status_def spec_step_def uploads_abs_simps answers_as_def session_of_def
          upload_headers_def)
  qed
next
  case (Cancel i)
  show ?thesis
  proof (cases "tget (app_uploads a) i")
    case None
    then have "uploads_abs a = (uploads_abs a)\<lparr>sessions := (sessions (uploads_abs a))(i := None)\<rparr>"
      by (intro uploads_abs_eqI) (simp_all add: uploads_abs_simps)
    with None run Cancel inv show ?thesis
      by (auto simp: upload_step_def upload_cancel_def spec_step_def answers_as_def)
  next
    case (Some u)
    have paths: "tget (app_uploads a) j = Some v \<Longrightarrow> up_path v = j" for j v
      using inv by (simp add: uploads_inv_def sessions_ok_def)
    let ?a = "a\<lparr>app_node := (app_node a)\<lparr>upload_files := tdel i (upload_files (app_node a))\<rparr>,
      app_uploads := tdel i (app_uploads a)\<rparr>"
    have "a' = ?a" "\<exists>q. res = Inr q \<and> status q = 204"
      using Some run Cancel paths [OF Some] by (auto simp: upload_step_def upload_cancel_def Let_def)
    moreover have "uploads_abs ?a = (uploads_abs a)\<lparr>sessions := (sessions (uploads_abs a))(i := None)\<rparr>"
      by (rule uploads_abs_eqI)
        (use paths in \<open>auto simp: uploads_abs_simps session_of_def held_digests_def map_option_case split: option.split\<close>)
    moreover have "uploads_inv K ?a" using inv by (auto simp: uploads_inv_def sessions_ok_def)
    ultimately show ?thesis using Cancel by (simp add: spec_step_def answers_as_def)
  qed
qed

section \<open>Properties\<close>

text \<open>C5: The upload sessions implement their specification. Over any sequence of requests, from any state where
  each session has its file, each answer is the one the map of sessions gives, and the state afterwards is
  that of the map: an upload is stored exactly when all the bytes received in its session have the digest
  named at the end, and a session ends with that request whatever its outcome.\<close>

theorem uploads_refine_sessions:
  assumes "hex_laws K" "sha_laws K" "uploads_inv K a" "list_all request_ok rs"
    and "upload_run K E name rs a = (a', out)"
  shows "uploads_inv K a' \<and> uploads_abs a' = fst (spec_run K rs (uploads_abs a))
    \<and> list_all2 answers_as (snd (spec_run K rs (uploads_abs a))) out"
  using assms(3-5)
proof (induction rs arbitrary: a out)
  case Nil
  then show ?case by simp
next
  case (Cons r rs)
  obtain a1 x where one: "upload_step K E name r a = (a1, x)" by force
  obtain xs where rest: "upload_run K E name rs a1 = (a', xs)" and out: "out = x # xs"
    using Cons.prems(3) one by (auto split: prod.splits)
  have "request_ok r" "list_all request_ok rs" using Cons.prems(2) by simp_all
  with step_sim [OF assms(1,2) Cons.prems(1) _ one] Cons.IH [OF _ _ rest] out show ?case
    by (simp add: split_beta)
qed

theorem uploads_refine_sessions_witness:
  "\<exists>a a' d out. upload_run demo_json demo_http ''app'' [Open ''u'', Append ''u'' \<lparr>chunks = [[1], [2, 3]], broken = False\<rparr>,
       Query ''u'', Finish ''u'' d \<lparr>chunks = [[4]], broken = False\<rparr>, Query ''u''] a = (a', out)
     \<and> d = digest_sha256 demo_json [1, 2, 3, 4]
     \<and> list_all2 answers_as [Opened, Received 3, Received 3, Stored d, Unknown] out
     \<and> stored (uploads_abs a') = insert d (stored (uploads_abs a))"
proof -
  let ?d = "digest_sha256 demo_json [1, 2, 3, 4]" and ?a = "\<lparr>app_node = demo_member policy_default, app_uploads = []\<rparr>"
  let ?rs = "[Open ''u'', Append ''u'' \<lparr>chunks = [[1], [2, 3]], broken = False\<rparr>, Query ''u'',
      Finish ''u'' ?d \<lparr>chunks = [[4]], broken = False\<rparr>, Query ''u'']"
  obtain a' out where run: "upload_run demo_json demo_http ''app'' ?rs ?a = (a', out)" by force
  have inv: "uploads_inv demo_json ?a"
    using demo_json_ok [of policy_default] by (simp add: uploads_inv_def sessions_ok_def store_ok_def)
  have ok: "list_all request_ok ?rs" using digest_sha256_ok [OF demo_json_laws(1,4)] by (simp add: request_ok_def)
  have spec: "spec_run demo_json ?rs t = (t\<lparr>sessions := (sessions t)(''u'' := None), stored := insert ?d (stored t)\<rparr>,
      [Opened, Received 3, Received 3, Stored ?d, Unknown])" for t
    by (simp add: spec_step_def spec_open_def spec_append_def spec_finish_def Let_def)
  from uploads_refine_sessions [OF demo_json_laws(1,4) inv ok run] run show ?thesis
    unfolding spec by (intro exI [of _ ?a] exI [of _ a'] exI [of _ ?d] exI [of _ out]) simp
qed

end
