(* ===== verification/Home.thy ===== *)
theory Home
  imports Node_State Retention
begin

text \<open>
  The home directory of a node: its files (\<^verbatim>\<open>crates/ocid-core/src/paths.rs\<close>), the node configuration and
  the forms in which configuration and policy are stored (\<^verbatim>\<open>config.rs\<close>), and the address of the daemon a
  client derives from them (\<^verbatim>\<open>client.rs\<close>). A stored file is the tree its text encodes: the crate
  \<open>toml\<close> reads back the tree it wrote. What serde derives for the types is written out.
\<close>

section \<open>Addresses\<close>

datatype ip = V4 u32 | V6 "128 word"

record socket_addr =
  sa_ip :: ip
  sa_port :: "16 word"

text \<open>The standard library's text form of the addresses.\<close>

record addr_text =
  show_addr :: "socket_addr \<Rightarrow> string"
  read_addr :: "string \<Rightarrow> socket_addr option"
  read_ip :: "string \<Rightarrow> ip option"

definition addr_laws :: "'z addr_text_scheme \<Rightarrow> bool" where
  "addr_laws A \<longleftrightarrow> (\<forall>a. read_addr A (show_addr A a) = Some a)"

definition localhost :: "16 word \<Rightarrow> socket_addr" where
  "localhost port = \<lparr>sa_ip = V4 0x7F000001, sa_port = port\<rparr>"

definition is_unspecified :: "ip \<Rightarrow> bool" where
  "is_unspecified i = (case i of V4 w \<Rightarrow> w = 0 | V6 w \<Rightarrow> w = 0)"

definition is_loopback :: "ip \<Rightarrow> bool" where
  "is_loopback i = (case i of V4 w \<Rightarrow> drop_bit 24 w = 127 | V6 w \<Rightarrow> w = 1)"

text \<open>A daemon that listens on all interfaces is dialed on loopback.\<close>

definition dial_addr :: "socket_addr \<Rightarrow> socket_addr" where
  "dial_addr listen = (if is_unspecified (sa_ip listen) then localhost (sa_port listen) else listen)"

section \<open>The configuration\<close>

datatype tls_mode = Tls_Off | Tls_Auto

datatype relay_mode = Relay_Default | Relay_Disabled

datatype dns_mode = Dns_On | Dns_Off

datatype pkarr_mode = Pkarr_On | Pkarr_Off

definition scheme :: "tls_mode \<Rightarrow> string" where
  "scheme m = (case m of Tls_Off \<Rightarrow> ''http'' | Tls_Auto \<Rightarrow> ''https'')"

record config =
  cfg_listen :: socket_addr
  cfg_tls :: tls_mode
  cfg_relay :: relay_mode
  cfg_p2p_port :: "16 word"
  cfg_mdns :: bool
  cfg_fetch_timeout :: u64
  cfg_metrics :: bool
  cfg_gc_interval :: u64
  cfg_gc_grace :: u64
  cfg_blob_gc_interval :: u64
  cfg_dns :: dns_mode
  cfg_nameserver :: "string option"
  cfg_dns_max_age :: u64
  cfg_pkarr :: pkarr_mode

definition config_default :: config where
  "config_default = \<lparr>cfg_listen = localhost 5050, cfg_tls = Tls_Off, cfg_relay = Relay_Default, cfg_p2p_port = 0,
     cfg_mdns = True, cfg_fetch_timeout = 120, cfg_metrics = True, cfg_gc_interval = 3600, cfg_gc_grace = 86400,
     cfg_blob_gc_interval = 60, cfg_dns = Dns_On, cfg_nameserver = None, cfg_dns_max_age = 30 * 24 * 3600,
     cfg_pkarr = Pkarr_On\<rparr>"

text \<open>The base of the URLs of a client: the scheme it speaks and the address it dials.\<close>

definition client_base :: "'z addr_text_scheme \<Rightarrow> config \<Rightarrow> string" where
  "client_base A c = scheme (cfg_tls c) @ ''://'' @ show_addr A (dial_addr (cfg_listen c))"

section \<open>Stored forms\<close>

datatype toml =
    TStr string
  | TInt int
  | TBool bool
  | TArr "toml list"
  | TTable "(string \<times> toml) list"

text \<open>A field of a struct with \<open>serde(default)\<close> takes the default's value when it is missing.\<close>

definition field :: "(string \<times> toml) list \<Rightarrow> string \<Rightarrow> (toml \<Rightarrow> 'a result) \<Rightarrow> 'a \<Rightarrow> 'a result" where
  "field t key dec d = (case tget t key of None \<Rightarrow> Inr d | Some v \<Rightarrow> dec v)"

definition required :: "(string \<times> toml) list \<Rightarrow> string \<Rightarrow> (toml \<Rightarrow> 'a result) \<Rightarrow> 'a result" where
  "required t key dec = and_then (ok_or (tget t key) (Config_err FieldMissing)) dec"

definition dec_str :: "toml \<Rightarrow> string result" where
  "dec_str v = (case v of TStr s \<Rightarrow> Inr s | _ \<Rightarrow> Inl (Config_err FieldType))"

definition dec_bool :: "toml \<Rightarrow> bool result" where
  "dec_bool v = (case v of TBool b \<Rightarrow> Inr b | _ \<Rightarrow> Inl (Config_err FieldType))"

definition dec_table :: "toml \<Rightarrow> (string \<times> toml) list result" where
  "dec_table v = (case v of TTable t \<Rightarrow> Inr t | _ \<Rightarrow> Inl (Config_err FieldType))"

definition dec_list :: "(toml \<Rightarrow> 'a result) \<Rightarrow> toml \<Rightarrow> 'a list result" where
  "dec_list dec v = (case v of TArr vs \<Rightarrow> map_res dec vs | _ \<Rightarrow> Inl (Config_err FieldType))"

definition dec_map :: "toml \<Rightarrow> (string, string) table result" where
  "dec_map v = and_then (dec_table v) (map_res (\<lambda>(k, x). and_then (dec_str x) (\<lambda>s. Inr (k, s))))"

text \<open>An unsigned integer of the width of the result. A TOML integer is a signed 64-bit one.\<close>

definition dec_word :: "toml \<Rightarrow> 'a::len word result" where
  "dec_word v = (case v of
     TInt i \<Rightarrow> if 0 \<le> i \<and> i < 2 ^ LENGTH('a) \<and> i < 2 ^ 63 then Inr (word_of_int i) else Inl (Config_err FieldRange)
   | _ \<Rightarrow> Inl (Config_err FieldType))"

definition enc_word :: "'a::len word \<Rightarrow> toml result" where
  "enc_word w = (if uint w < 2 ^ 63 then Inr (TInt (uint w)) else Inl (Config_err FieldRange))"

text \<open>An enum with \<open>rename_all = "lowercase"\<close>: the table of its names.\<close>

definition dec_enum :: "(string \<times> 'a) list \<Rightarrow> toml \<Rightarrow> 'a result" where
  "dec_enum names v = and_then (dec_str v) (\<lambda>s. ok_or (tget names s) (Config_err FieldVariant))"

definition tls_names :: "(string \<times> tls_mode) list" where
  "tls_names = [(''off'', Tls_Off), (''auto'', Tls_Auto)]"

definition relay_names :: "(string \<times> relay_mode) list" where
  "relay_names = [(''default'', Relay_Default), (''disabled'', Relay_Disabled)]"

definition dns_names :: "(string \<times> dns_mode) list" where
  "dns_names = [(''on'', Dns_On), (''off'', Dns_Off)]"

definition pkarr_names :: "(string \<times> pkarr_mode) list" where
  "pkarr_names = [(''on'', Pkarr_On), (''off'', Pkarr_Off)]"

definition enc_enum :: "(string \<times> 'a) list \<Rightarrow> 'a \<Rightarrow> toml" where
  "enc_enum names x = TStr (case List.find (\<lambda>(s, y). y = x) names of Some (s, _) \<Rightarrow> s | None \<Rightarrow> [])"

definition config_to_toml :: "'z addr_text_scheme \<Rightarrow> config \<Rightarrow> toml result" where
  "config_to_toml A c =
     and_then (enc_word (cfg_p2p_port c)) (\<lambda>port.
     and_then (enc_word (cfg_fetch_timeout c)) (\<lambda>fetch.
     and_then (enc_word (cfg_gc_interval c)) (\<lambda>interval.
     and_then (enc_word (cfg_gc_grace c)) (\<lambda>grace.
     and_then (enc_word (cfg_blob_gc_interval c)) (\<lambda>blob.
     and_then (enc_word (cfg_dns_max_age c)) (\<lambda>age.
     Inr (TTable (
       [(''listen'', TStr (show_addr A (cfg_listen c))), (''tls'', enc_enum tls_names (cfg_tls c)),
        (''relay'', enc_enum relay_names (cfg_relay c)), (''p2p_port'', port), (''mdns'', TBool (cfg_mdns c)),
        (''fetch_timeout_secs'', fetch), (''metrics'', TBool (cfg_metrics c)), (''gc_interval_secs'', interval),
        (''gc_grace_secs'', grace), (''blob_gc_interval_secs'', blob), (''dns'', enc_enum dns_names (cfg_dns c))]
       @ (case cfg_nameserver c of Some s \<Rightarrow> [(''dns_nameserver'', TStr s)] | None \<Rightarrow> [])
       @ [(''dns_max_age_secs'', age), (''pkarr'', enc_enum pkarr_names (cfg_pkarr c))]))))))))"

definition dec_addr :: "'z addr_text_scheme \<Rightarrow> toml \<Rightarrow> socket_addr result" where
  "dec_addr A v = and_then (dec_str v) (\<lambda>s. ok_or (read_addr A s) (Config_err FieldVariant))"

definition config_of_toml :: "'z addr_text_scheme \<Rightarrow> toml \<Rightarrow> config result" where
  "config_of_toml A v =
     (let d = config_default in
      and_then (dec_table v) (\<lambda>t.
      and_then (field t ''listen'' (dec_addr A) (cfg_listen d)) (\<lambda>listen.
      and_then (field t ''tls'' (dec_enum tls_names) (cfg_tls d)) (\<lambda>tls.
      and_then (field t ''relay'' (dec_enum relay_names) (cfg_relay d)) (\<lambda>relay.
      and_then (field t ''p2p_port'' dec_word (cfg_p2p_port d)) (\<lambda>port.
      and_then (field t ''mdns'' dec_bool (cfg_mdns d)) (\<lambda>mdns.
      and_then (field t ''fetch_timeout_secs'' dec_word (cfg_fetch_timeout d)) (\<lambda>fetch.
      and_then (field t ''metrics'' dec_bool (cfg_metrics d)) (\<lambda>metrics.
      and_then (field t ''gc_interval_secs'' dec_word (cfg_gc_interval d)) (\<lambda>interval.
      and_then (field t ''gc_grace_secs'' dec_word (cfg_gc_grace d)) (\<lambda>grace.
      and_then (field t ''blob_gc_interval_secs'' dec_word (cfg_blob_gc_interval d)) (\<lambda>blob.
      and_then (field t ''dns'' (dec_enum dns_names) (cfg_dns d)) (\<lambda>dns.
      and_then (field t ''dns_nameserver'' (\<lambda>v. and_then (dec_str v) (\<lambda>s. Inr (Some s))) (cfg_nameserver d)) (\<lambda>ns.
      and_then (field t ''dns_max_age_secs'' dec_word (cfg_dns_max_age d)) (\<lambda>age.
      and_then (field t ''pkarr'' (dec_enum pkarr_names) (cfg_pkarr d)) (\<lambda>pkarr.
      Inr \<lparr>cfg_listen = listen, cfg_tls = tls, cfg_relay = relay, cfg_p2p_port = port, cfg_mdns = mdns,
        cfg_fetch_timeout = fetch, cfg_metrics = metrics, cfg_gc_interval = interval, cfg_gc_grace = grace,
        cfg_blob_gc_interval = blob, cfg_dns = dns, cfg_nameserver = ns, cfg_dns_max_age = age,
        cfg_pkarr = pkarr\<rparr>))))))))))))))))"

text \<open>A rule of the policy: a table, or a bare string in older files.\<close>

definition mode_to_toml :: "mode \<Rightarrow> (string \<times> toml) list" where
  "mode_to_toml m = (if m = Latest then [] else [(''mode'', TStr (show_mode m))])"

definition dec_mode :: "toml \<Rightarrow> mode result" where
  "dec_mode v = and_then (dec_str v) mode_from_str"

definition dec_rule :: "string \<Rightarrow> toml \<Rightarrow> (string \<times> mode) result" where
  "dec_rule key v = (case v of
     TStr s \<Rightarrow> Inr (s, Latest)
   | TTable t \<Rightarrow> map_err (\<lambda>_. Config_err FieldVariant)
       (and_then (required t key dec_str) (\<lambda>s.
        and_then (field t ''mode'' dec_mode Latest) (\<lambda>m. Inr (s, m))))
   | _ \<Rightarrow> Inl (Config_err FieldVariant))"

definition seed_to_toml :: "seed_entry \<Rightarrow> toml" where
  "seed_to_toml e = TTable ((''ref'', TStr (se_reference e)) # mode_to_toml (se_mode e))"

definition dec_seed :: "toml \<Rightarrow> seed_entry result" where
  "dec_seed v = and_then (dec_rule ''ref'' v) (\<lambda>(s, m). Inr \<lparr>se_reference = s, se_mode = m\<rparr>)"

definition follow_to_toml :: "follow_entry \<Rightarrow> toml" where
  "follow_to_toml e = TTable ((''publisher'', TStr (fe_publisher e)) # mode_to_toml (fe_mode e))"

definition dec_follow :: "toml \<Rightarrow> follow_entry result" where
  "dec_follow v = and_then (dec_rule ''publisher'' v) (\<lambda>(s, m). Inr \<lparr>fe_publisher = s, fe_mode = m\<rparr>)"

definition map_to_toml :: "(string, string) table \<Rightarrow> toml" where
  "map_to_toml t = TTable (map (\<lambda>(k, s). (k, TStr s)) t)"

definition policy_to_toml :: "policy \<Rightarrow> toml result" where
  "policy_to_toml p = Inr (TTable (
     [(''seed'', TArr (map seed_to_toml (pol_seed p))), (''follow'', TArr (map follow_to_toml (pol_follow p))),
      (''pin'', TArr (map TStr (pol_pin p))), (''alias'', map_to_toml (pol_alias p))]
     @ (if pol_dns p = [] then [] else [(''dns'', map_to_toml (pol_dns p))])))"

definition policy_of_toml :: "toml \<Rightarrow> policy result" where
  "policy_of_toml v =
     and_then (dec_table v) (\<lambda>t.
     and_then (field t ''seed'' (dec_list dec_seed) []) (\<lambda>seed.
     and_then (field t ''follow'' (dec_list dec_follow) []) (\<lambda>follow.
     and_then (field t ''pin'' (dec_list dec_str) []) (\<lambda>pin.
     and_then (field t ''alias'' dec_map []) (\<lambda>alias.
     and_then (field t ''dns'' dec_map []) (\<lambda>dns.
     Inr \<lparr>pol_seed = seed, pol_follow = follow, pol_pin = pin, pol_alias = alias, pol_dns = dns\<rparr>))))))"


section \<open>Files that can be read back\<close>

datatype 'v stored = Absent | Unreadable | Stored 'v

text \<open>A missing file is the default. A value is encoded before the file is touched, and the file is replaced as
  a whole.\<close>

definition load_file :: "('v \<Rightarrow> 'a result) \<Rightarrow> 'a \<Rightarrow> 'v stored \<Rightarrow> 'a result" where
  "load_file dec d f = (case f of
     Absent \<Rightarrow> Inr d | Unreadable \<Rightarrow> Inl (Config_err FileText) | Stored v \<Rightarrow> dec v)"

definition save_file :: "('a \<Rightarrow> 'v result) \<Rightarrow> bool \<Rightarrow> 'a \<Rightarrow> 'v stored \<Rightarrow> 'v stored \<times> unit result" where
  "save_file enc ok x f = (case enc x of
     Inl e \<Rightarrow> (f, Inl e) | Inr v \<Rightarrow> if ok then (Stored v, Inr ()) else (f, Inl Io_err))"

locale stored_form =
  fixes enc :: "'a \<Rightarrow> 'v result" and dec :: "'v \<Rightarrow> 'a result" and valid :: "'a \<Rightarrow> bool"
  assumes form_round_trip: "valid x \<Longrightarrow> \<exists>v. enc x = Inr v \<and> dec v = Inr x"
begin

lemma load_saved:
  assumes "valid x" "save_file enc ok x f = (f', r)"
  shows "if ok then r = Inr () \<and> load_file dec d f' = Inr x else f' = f \<and> r = Inl Io_err"
  using form_round_trip [OF assms(1)] assms(2) by (auto simp: save_file_def load_file_def)

lemma failed_save_keeps: "save_file enc ok x f = (f', Inl e) \<Longrightarrow> f' = f"
  by (auto simp: save_file_def split: sum.splits if_splits)

lemma saved_loads: "valid x \<Longrightarrow> save_file enc ok x f = (f', Inr u) \<Longrightarrow> load_file dec d f' = Inr x"
  using load_saved [of x ok f f' "Inr u" d] by (cases ok) auto

end

definition word_ok :: "'a::len word \<Rightarrow> bool" where
  "word_ok w \<longleftrightarrow> uint w < 2 ^ 63"

lemma word_form:
  assumes "word_ok w"
  shows "enc_word w = Inr (TInt (uint w))" "dec_word (TInt (uint w)) = Inr w"
proof -
  have "uint w < 2 ^ LENGTH('a)" by (rule uint_lt2p)
  then show "enc_word w = Inr (TInt (uint w))" "dec_word (TInt (uint w)) = Inr w"
    using assms by (simp_all add: word_ok_def enc_word_def dec_word_def)
qed

lemma word_ok_16 [simp]: "word_ok (w :: 16 word)"
proof -
  have "uint w < 2 ^ 16" using uint_lt2p [of w] by simp
  then show ?thesis by (simp add: word_ok_def)
qed

lemma enum_forms:
  "dec_enum tls_names (enc_enum tls_names t) = Inr t" "dec_enum relay_names (enc_enum relay_names r) = Inr r"
  "dec_enum dns_names (enc_enum dns_names d) = Inr d" "dec_enum pkarr_names (enc_enum pkarr_names p) = Inr p"
  by (cases t; cases r; cases d; cases p;
      simp add: dec_enum_def enc_enum_def dec_str_def tls_names_def relay_names_def dns_names_def pkarr_names_def)+

definition config_ok :: "config \<Rightarrow> bool" where
  "config_ok c \<longleftrightarrow> word_ok (cfg_fetch_timeout c) \<and> word_ok (cfg_gc_interval c) \<and> word_ok (cfg_gc_grace c)
     \<and> word_ok (cfg_blob_gc_interval c) \<and> word_ok (cfg_dns_max_age c)"

text \<open>The configuration file is read back as it was saved.\<close>

lemma config_form:
  assumes "addr_laws A" "config_ok c"
  shows "\<exists>v. config_to_toml A c = Inr v \<and> config_of_toml A v = Inr c"
proof -
  have a: "read_addr A (show_addr A x) = Some x" for x using assms(1) by (simp add: addr_laws_def)
  show ?thesis
    using assms(2) by (cases "cfg_nameserver c")
      (simp_all add: config_default_def config_to_toml_def config_of_toml_def config_ok_def word_form enum_forms field_def dec_table_def
        dec_addr_def dec_str_def dec_bool_def a Let_def)
qed

text \<open>The modes that the program makes, from the command line or a file.\<close>

definition mode_ok :: "mode \<Rightarrow> bool" where
  "mode_ok m \<longleftrightarrow> mode_from_str (show_mode m) = Inr m"

definition policy_ok :: "policy \<Rightarrow> bool" where
  "policy_ok p \<longleftrightarrow> list_all (\<lambda>e. mode_ok (se_mode e)) (pol_seed p) \<and> list_all (\<lambda>e. mode_ok (fe_mode e)) (pol_follow p)"

lemma rule_form:
  assumes "mode_ok m" "key \<noteq> ''mode''"
  shows "dec_rule key (TTable ((key, TStr s) # mode_to_toml m)) = Inr (s, m)"
  using assms
  by (auto simp: dec_rule_def required_def field_def mode_to_toml_def dec_str_def dec_mode_def mode_ok_def map_err_def)

lemma map_form: "dec_map (map_to_toml t) = Inr t"
proof -
  have "map_res (\<lambda>(k, x). and_then (dec_str x) (\<lambda>s. Inr (k, s))) (map (\<lambda>(k, s). (k, TStr s)) t) = (Inr t :: _ result)"
    by (induction t) (auto simp: dec_str_def)
  then show ?thesis by (simp add: dec_map_def map_to_toml_def dec_table_def)
qed

lemma rules_form:
  "list_all (\<lambda>e. mode_ok (se_mode e)) es \<Longrightarrow> map_res dec_seed (map seed_to_toml es) = Inr es"
  "list_all (\<lambda>e. mode_ok (fe_mode e)) fs \<Longrightarrow> map_res dec_follow (map follow_to_toml fs) = Inr fs"
  "map_res dec_str (map TStr ps) = Inr ps"
proof -
  show "list_all (\<lambda>e. mode_ok (se_mode e)) es \<Longrightarrow> map_res dec_seed (map seed_to_toml es) = Inr es"
    by (induction es) (auto simp: dec_seed_def seed_to_toml_def rule_form)
  show "list_all (\<lambda>e. mode_ok (fe_mode e)) fs \<Longrightarrow> map_res dec_follow (map follow_to_toml fs) = Inr fs"
    by (induction fs) (auto simp: dec_follow_def follow_to_toml_def rule_form)
  show "map_res dec_str (map TStr ps) = Inr ps" by (induction ps) (auto simp: dec_str_def)
qed

lemma policy_form:
  assumes "policy_ok p"
  shows "\<exists>v. policy_to_toml p = Inr v \<and> policy_of_toml v = Inr p"
  using assms
  by (cases "pol_dns p = []")
    (simp_all add: policy_to_toml_def policy_of_toml_def policy_ok_def dec_table_def field_def dec_list_def rules_form map_form)

interpretation config_file: stored_form "config_to_toml A" "config_of_toml A" "\<lambda>c. addr_laws A \<and> config_ok c" for A
  by unfold_locales (use config_form in blast)

interpretation policy_file: stored_form policy_to_toml policy_of_toml policy_ok
  by unfold_locales (rule policy_form)


text \<open>What a file holds can be saved again, and is read back then.\<close>

lemma decoded_ok: "dec_word v = Inr (w :: 'a::len word) \<Longrightarrow> word_ok w"
proof -
  assume "dec_word v = Inr w"
  then obtain i where "v = TInt i" "0 \<le> i" "i < 2 ^ LENGTH('a)" "i < 2 ^ 63" "w = word_of_int i"
    by (auto simp: dec_word_def split: toml.splits if_splits)
  then show ?thesis by (simp add: word_ok_def uint_word_of_int)
qed

lemma field_ok: "field t key dec_word d = Inr (w :: 'a::len word) \<Longrightarrow> word_ok d \<Longrightarrow> word_ok w"
  by (auto simp: field_def decoded_ok split: option.splits)

lemma config_of_toml_ok:
  assumes "config_of_toml A v = Inr c"
  shows "config_ok c"
proof -
  have d: "word_ok (cfg_fetch_timeout config_default)" "word_ok (cfg_gc_interval config_default)"
    "word_ok (cfg_gc_grace config_default)" "word_ok (cfg_blob_gc_interval config_default)"
    "word_ok (cfg_dns_max_age config_default)"
    by (simp_all add: config_default_def word_ok_def)
  from assms show ?thesis
    by (auto simp: config_of_toml_def Let_def config_ok_def intro: field_ok [OF _ d(1)] field_ok [OF _ d(2)]
        field_ok [OF _ d(3)] field_ok [OF _ d(4)] field_ok [OF _ d(5)])
qed

lemma dec_rule_ok: "dec_rule key v = Inr (s, m) \<Longrightarrow> mode_ok m"
proof -
  have latest: "mode_ok Latest" by (simp add: mode_ok_def show_mode_def mode_from_str_def trim_no_space is_space_def)
  have "dec_mode x = Inr m \<Longrightarrow> mode_ok m" for x
    using mode_text_stable by (auto simp: dec_mode_def mode_ok_def)
  with latest show "dec_rule key v = Inr (s, m) \<Longrightarrow> mode_ok m"
    by (auto simp: dec_rule_def map_err_def field_def split: toml.splits sum.splits option.splits)
qed

lemma policy_of_toml_ok:
  assumes "policy_of_toml v = Inr p"
  shows "policy_ok p"
proof -
  have seeds: "map_res dec_seed vs = Inr es \<Longrightarrow> list_all (\<lambda>e. mode_ok (se_mode e)) es" for vs es
    by (induction vs arbitrary: es) (auto simp: dec_seed_def intro: dec_rule_ok)
  have follows: "map_res dec_follow vs = Inr es \<Longrightarrow> list_all (\<lambda>e. mode_ok (fe_mode e)) es" for vs es
    by (induction vs arbitrary: es) (auto simp: dec_follow_def intro: dec_rule_ok)
  have "field t key (dec_list dec_seed) [] = Inr es \<Longrightarrow> list_all (\<lambda>e. mode_ok (se_mode e)) es"
    "field t key (dec_list dec_follow) [] = Inr fs \<Longrightarrow> list_all (\<lambda>e. mode_ok (fe_mode e)) fs" for t key es fs
    using seeds follows by (auto simp: field_def dec_list_def split: option.splits toml.splits)
  with assms show ?thesis by (auto simp: policy_of_toml_def policy_ok_def)
qed


text \<open>C36: A file that can be read can be saved. Whatever a configuration or policy file holds, be it written by hand, with
  fields left out or rules in the old form of bare strings, saving what was read succeeds, and it is read back the same.\<close>

theorem loaded_files_save:
  assumes "addr_laws A"
  shows "(config_of_toml A v = Inr c \<longrightarrow> (\<exists>v'. config_to_toml A c = Inr v' \<and> config_of_toml A v' = Inr c))
    \<and> (policy_of_toml w = Inr p \<longrightarrow> (\<exists>w'. policy_to_toml p = Inr w' \<and> policy_of_toml w' = Inr p))"
  using config_form [OF assms config_of_toml_ok] policy_form [OF policy_of_toml_ok] by blast

definition demo_text :: addr_text where
  "demo_text = \<lparr>show_addr = (\<lambda>a. show_nat (unat (sa_port a)) @
       (case sa_ip a of V4 w \<Rightarrow> ''.'' @ show_nat (unat w) | V6 w \<Rightarrow> '':'' @ show_nat (unat w))),
     read_addr = (\<lambda>s. case split_once CHR ''.'' s of
         Some (p, w) \<Rightarrow> (case (parse_uint 16 p, parse_uint 32 w) of
           (Some p, Some w) \<Rightarrow> Some \<lparr>sa_ip = V4 (of_nat w), sa_port = of_nat p\<rparr> | _ \<Rightarrow> None)
       | None \<Rightarrow> (case split_once CHR '':'' s of
           Some (p, w) \<Rightarrow> (case (parse_uint 16 p, parse_uint 128 w) of
             (Some p, Some w) \<Rightarrow> Some \<lparr>sa_ip = V6 (of_nat w), sa_port = of_nat p\<rparr> | _ \<Rightarrow> None)
         | None \<Rightarrow> None)),
     read_ip = (\<lambda>s. None)\<rparr>"

lemma demo_text_laws: "addr_laws demo_text"
proof -
  have no: "CHR ''.'' \<notin> set (show_nat n)" "CHR '':'' \<notin> set (show_nat n)" for n
    using show_nat_digits [of n] by (auto simp: list_all_iff is_digit_def)
  have dot: "split_once CHR ''.'' (show_nat n @ ''.'' @ x) = Some (show_nat n, x)" for n x
    using no(1) [of n] by (simp add: split_once_Some_iff)
  have colon: "split_once CHR '':'' (show_nat n @ '':'' @ x) = Some (show_nat n, x)" for n x
    using no(2) [of n] by (simp add: split_once_Some_iff)
  have none: "split_once CHR ''.'' (show_nat n @ '':'' @ show_nat m) = None" for n m
    using no by (simp add: split_once_None_iff)
  have "unat (p :: 16 word) < 2 ^ 16" "unat (w :: u32) < 2 ^ 32" "unat (v :: 128 word) < 2 ^ 128" for p w v
    using unsigned_less [of p] unsigned_less [of w] unsigned_less [of v] by simp_all
  note parse = this [THEN parse_uint_show_nat]
  have "read_addr demo_text (show_addr demo_text a) = Some a" for a
  proof (cases "sa_ip a")
    case (V4 w)
    then show ?thesis
      using dot [of "unat (sa_port a)" "show_nat (unat w)"] by (simp add: demo_text_def parse)
  next
    case (V6 w)
    then show ?thesis
      using colon [of "unat (sa_port a)" "show_nat (unat w)"] none [of "unat (sa_port a)" "unat w"]
      by (simp add: demo_text_def parse)
  qed
  then show ?thesis by (simp add: addr_laws_def)
qed



theorem loaded_files_save_witness:
  "\<exists>p w. policy_of_toml (TTable [(''seed'', TArr [TStr ''k/app'', TTable [(''ref'', TStr ''k/lib''), (''mode'', TStr ''all'')]])])
      = Inr p \<and> pol_seed p = [\<lparr>se_reference = ''k/app'', se_mode = Latest\<rparr>, \<lparr>se_reference = ''k/lib'', se_mode = Full\<rparr>]
     \<and> policy_to_toml p = Inr w \<and> policy_of_toml w = Inr p"
proof -
  let ?v = "TTable [(''seed'', TArr [TStr ''k/app'', TTable [(''ref'', TStr ''k/lib''), (''mode'', TStr ''all'')]])]"
  let ?p = "\<lparr>pol_seed = [\<lparr>se_reference = ''k/app'', se_mode = Latest\<rparr>, \<lparr>se_reference = ''k/lib'', se_mode = Full\<rparr>],
      pol_follow = [], pol_pin = [], pol_alias = [], pol_dns = []\<rparr>"
  have "mode_from_str ''all'' = Inr Full" by (simp add: mode_from_str_def Let_def trim_no_space is_space_def)
  then have load: "policy_of_toml ?v = Inr ?p"
    by (simp add: policy_of_toml_def dec_table_def field_def dec_list_def dec_seed_def dec_rule_def required_def dec_str_def
        dec_mode_def map_err_def)
  from loaded_files_save [OF demo_text_laws, THEN conjunct2, rule_format, OF load] load show ?thesis by auto
qed

end
