(* ===== verification/Boot.thy ===== *)
theory Boot
  imports Home Node_Runs
begin

text \<open>
  Starting a node (\<^verbatim>\<open>run\<close> of \<^verbatim>\<open>crates/ocid/src/node.rs\<close>, \<^verbatim>\<open>crates/ocid/src/main.rs\<close>): from the files of the
  home directory and the command line to the state of the running node, what the process leaves on disk when
  it ends, and what the node tells about itself. A restart loses nothing that counts.
\<close>

section \<open>The home directory\<close>

record home =
  h_key :: "key_file option"
  h_config :: "toml stored"
  h_policy :: "toml stored"
  h_peers :: "endpoint_addr list stored"
  h_dns_pins :: "dns_pins stored"
  h_index :: fs
  h_tags :: "(string, blake3) table"
  h_data :: "(blake3, byte list) table"
  h_uploads :: "(string, byte list) table"

type_synonym 'a home_op = "(home, 'a) op"

text \<open>What the world answers during a start: as for the node, the key that \<open>Identity::generate\<close> draws, which
  directories and files can be written, and whether the network services come up.\<close>

record boot_env =
  boot_node :: node_env
  boot_key :: bytes32
  boot_dirs :: bool
  boot_writes :: "string \<Rightarrow> bool"
  boot_resolver :: bool
  boot_services :: "config \<Rightarrow> bool"

record run_options =
  opt_listen :: "socket_addr option"
  opt_tls :: bool
  opt_peers :: "string list"
  opt_no_relay :: bool
  opt_no_metrics :: bool

definition no_options :: run_options where
  "no_options = \<lparr>opt_listen = None, opt_tls = False, opt_peers = [], opt_no_relay = False, opt_no_metrics = False\<rparr>"

definition is_initialized :: "home \<Rightarrow> bool" where
  "is_initialized h \<longleftrightarrow> h_key h \<noteq> None"

definition ensure_dirs :: "fs \<Rightarrow> fs result" where
  "ensure_dirs ix = and_then (create_dir_all [''digests''] ix) (create_dir_all [''releases''])"

definition make_dirs :: "boot_env \<Rightarrow> unit home_op" where
  "make_dirs B h =
     (if \<not> boot_dirs B then fail Io_err h
      else case ensure_dirs (h_index h) of
        Inl e \<Rightarrow> fail e h
      | Inr ix \<Rightarrow> ret () (h\<lparr>h_index := ix\<rparr>))"

definition save_key :: "'z crates_scheme \<Rightarrow> boot_env \<Rightarrow> unit home_op" where
  "save_key K B h =
     (if h_key h = None \<and> \<not> boot_writes B ''secret.key'' then fail Io_err h
      else case identity_save K (boot_key B) (h_key h) of (f, r) \<Rightarrow> (h\<lparr>h_key := f\<rparr>, r))"

definition config_load :: "'z addr_text_scheme \<Rightarrow> home \<Rightarrow> config result" where
  "config_load A h = load_file (config_of_toml A) config_default (h_config h)"

definition config_save :: "'z addr_text_scheme \<Rightarrow> boot_env \<Rightarrow> config \<Rightarrow> unit home_op" where
  "config_save A B c h =
     (case save_file (config_to_toml A) (boot_writes B ''config.toml'') c (h_config h) of (f, r) \<Rightarrow> (h\<lparr>h_config := f\<rparr>, r))"

definition policy_load :: "home \<Rightarrow> policy result" where
  "policy_load h = load_file policy_of_toml policy_default (h_policy h)"

definition policy_save :: "bool \<Rightarrow> policy \<Rightarrow> unit home_op" where
  "policy_save ok p h =
     (case save_file policy_to_toml ok p (h_policy h) of (f, r) \<Rightarrow> (h\<lparr>h_policy := f\<rparr>, r))"

definition peers_load :: "home \<Rightarrow> endpoint_addr list result" where
  "peers_load h = load_file Inr [] (h_peers h)"

definition peers_save :: "boot_env \<Rightarrow> endpoint_addr list \<Rightarrow> unit home_op" where
  "peers_save B ps h =
     (case save_file Inr (boot_writes B ''peers.json'') ps (h_peers h) of (f, r) \<Rightarrow> (h\<lparr>h_peers := f\<rparr>, r))"

definition pins_load :: "home \<Rightarrow> dns_pins result" where
  "pins_load h = load_file Inr [] (h_dns_pins h)"

section \<open>Starting\<close>

definition init_home :: "'z crates_scheme \<Rightarrow> 'a addr_text_scheme \<Rightarrow> boot_env \<Rightarrow> unit home_op" where
  "init_home K A B =
     then_do (make_dirs B) (\<lambda>_.
     then_do (save_key K B) (\<lambda>_.
     then_do (config_save A B config_default) (\<lambda>_.
     policy_save (boot_writes B ''policy.toml'') policy_default)))"

text \<open>The overrides of the command line, and whether one changed the configuration.\<close>

definition override :: "run_options \<Rightarrow> config \<Rightarrow> config \<times> bool" where
  "override o' c =
     (let (c1, b1) = (case opt_listen o' of None \<Rightarrow> (c, False)
            | Some l \<Rightarrow> (c\<lparr>cfg_listen := l\<rparr>, cfg_listen c \<noteq> l));
          (c2, b2) = (if opt_tls o' then (c1\<lparr>cfg_tls := Tls_Auto\<rparr>, b1 \<or> cfg_tls c1 \<noteq> Tls_Auto) else (c1, b1));
          (c3, b3) = (if opt_no_relay o' then (c2\<lparr>cfg_relay := Relay_Disabled\<rparr>, b2 \<or> cfg_relay c2 \<noteq> Relay_Disabled)
            else (c2, b2))
      in if opt_no_metrics o' then (c3\<lparr>cfg_metrics := False\<rparr>, b3 \<or> cfg_metrics c3) else (c3, b3))"

definition parse_u16 :: "string \<Rightarrow> 16 word option" where
  "parse_u16 s = map_option of_nat (parse_uint 16 s)"

text \<open>An explicit nameserver is an IP literal, with the port after the last colon.\<close>

definition custom_resolver :: "'z addr_text_scheme \<Rightarrow> string \<Rightarrow> (ip \<times> 16 word) result" where
  "custom_resolver A ns =
     and_then (case rsplit_once CHR '':'' ns of
         Some (h, p) \<Rightarrow> map_err (\<lambda>_. Config_err NameserverPort) (and_then (ok_or (parse_u16 p) Io_err) (\<lambda>port. Inr (h, port)))
       | None \<Rightarrow> Inr (ns, 53)) (\<lambda>(host, port).
     and_then (ok_or (read_ip A host) (Config_err NameserverHost)) (\<lambda>i. Inr (i, port)))"

definition dns_service :: "'z addr_text_scheme \<Rightarrow> boot_env \<Rightarrow> config \<Rightarrow> home \<Rightarrow> dns_state result" where
  "dns_service A B c h =
     and_then (case cfg_nameserver c of
         Some ns \<Rightarrow> and_then (custom_resolver A ns) (\<lambda>_. Inr ())
       | None \<Rightarrow> ensure (boot_resolver B) Io_err) (\<lambda>_.
     and_then (pins_load h) (\<lambda>pins. Inr \<lparr>cache = [], zone_pins = pins\<rparr>))"

text \<open>The node reads its configuration through these parameters.\<close>

definition configured :: "config \<Rightarrow> node_env \<Rightarrow> node_env" where
  "configured c E = E\<lparr>env_dns := \<lparr>dns_enabled = (cfg_dns c = Dns_On), max_age = cfg_dns_max_age c\<rparr>,
     env_grace := unat (cfg_gc_grace c)\<rparr>"

text \<open>A peer of the command line; a resolution can pin a key, and the pin is on disk then.\<close>

definition boot_peer ::
  "'z net_crates_scheme \<Rightarrow> node_env \<Rightarrow> string \<Rightarrow> endpoint_addr list \<Rightarrow> (home \<times> dns_state, endpoint_addr list) op" where
  "boot_peer K E p peers st =
     (case st of (h, d) \<Rightarrow>
      if is_domain_name p then
        (case resolve_zone K (env_dns E) (env_now E) (env_unix E) (env_pin_save E) (env_answer E p) p d of
           (d', r) \<Rightarrow>
             (let h' = (if zone_pins d' = zone_pins d \<or> \<not> env_pin_save E then h
                        else h\<lparr>h_dns_pins := Stored (zone_pins d')\<rparr>)
              in case r of
                   Inr (Resolved k newly relay seed) \<Rightarrow>
                     (let known = (case seed of Some i \<Rightarrow> fst (peers_upsert (addr_new i) peers) | None \<Rightarrow> peers)
                      in ret (fst (peers_upsert (addr_with_relay_hint K k relay) known)) (h', d'))
                 | Inr _ \<Rightarrow> fail (Dns_err NoZoneRecord) (h', d')
                 | Inl e \<Rightarrow> fail e (h', d')))
      else case parse_peer_spec K p of
        Inl e \<Rightarrow> fail e st
      | Inr a \<Rightarrow> ret (fst (peers_upsert a peers)) st)"

definition boot_peers ::
  "'z net_crates_scheme \<Rightarrow> node_env \<Rightarrow> string list \<Rightarrow> endpoint_addr list \<Rightarrow> dns_state
     \<Rightarrow> (endpoint_addr list \<times> dns_state) home_op" where
  "boot_peers K E specs peers d h =
     (case fold_op (boot_peer K E) specs peers (h, d) of
        ((h', d'), Inl e) \<Rightarrow> (h', Inl e) | ((h', d'), Inr ps) \<Rightarrow> (h', Inr (ps, d')))"

text \<open>The state of the node when its services are up.\<close>

definition start_node ::
  "'z crates_scheme \<Rightarrow> node_env \<Rightarrow> bytes32 \<Rightarrow> policy \<Rightarrow> endpoint_addr list \<Rightarrow> dns_state \<Rightarrow> home \<Rightarrow> node" where
  "start_node K E key pol ps d h = sync_topics K E
     \<lparr>idx = h_index h, pin_tags = h_tags h, blob_data = h_data h, node_key = key, node_policy = pol,
      policy_disk = Some pol, known_peers = ps, neighbors = {}, last_seen = [], topics = {}, dns_st = d,
      inflight = {}, upload_files = h_uploads h, events = [], announced = []\<rparr>"

definition open_store :: "boot_env \<Rightarrow> unit home_op" where
  "open_store B = make_dirs B"

definition boot ::
  "'z net_crates_scheme \<Rightarrow> 'a addr_text_scheme \<Rightarrow> boot_env \<Rightarrow> run_options \<Rightarrow> (config \<times> node) home_op" where
  "boot K A B o' =
     then_do (\<lambda>h. if is_initialized h then ret () h else init_home K A B h) (\<lambda>_.
     then_do (lift_res (\<lambda>h. identity_load K (h_key h))) (\<lambda>key.
     then_do (lift_res (config_load A)) (\<lambda>c0.
     let (c, changed) = override o' c0 in
     then_do (if changed then config_save A B c else ret ()) (\<lambda>_.
     then_do (lift_res policy_load) (\<lambda>pol.
     then_do (lift_res peers_load) (\<lambda>ps0.
     then_do (lift_res (dns_service A B c)) (\<lambda>d0.
     let E = configured c (boot_node B) in
     then_do (boot_peers K E (opt_peers o') ps0 d0) (\<lambda>(ps, d).
     then_do (peers_save B ps) (\<lambda>_.
     then_do (open_store B) (\<lambda>_.
     then_do (lift_res (\<lambda>_. ensure (boot_services B c) Io_err)) (\<lambda>_.
     lift_res (\<lambda>h. Inr (c, start_node K E key pol ps d h)))))))))))))"

text \<open>Afterwards every known peer is asked once, in any order and each on its own.\<close>

definition initial_sync :: "'z net_crates_scheme \<Rightarrow> node_env \<Rightarrow> public_key list \<Rightarrow> unit node_op" where
  "initial_sync K E peers = for_each peers (\<lambda>p. ignore_err (sync_with K E p))"

text \<open>What the process leaves on disk when it ends in a state: the store, the uploads, the policy as last
  saved, and the tables of peers and pins, which are saved with each change.\<close>

definition home_after :: "node \<Rightarrow> home \<Rightarrow> home" where
  "home_after s h = h\<lparr>
     h_policy := (case policy_disk s of
       None \<Rightarrow> Unreadable
     | Some p \<Rightarrow> (case policy_to_toml p of Inr v \<Rightarrow> Stored v | Inl _ \<Rightarrow> Unreadable)),
     h_peers := Stored (known_peers s), h_dns_pins := Stored (zone_pins (dns_st s)),
     h_index := idx s, h_tags := pin_tags s, h_data := blob_data s, h_uploads := upload_files s\<rparr>"

section \<open>What the node tells about itself\<close>

record daemon_status =
  st_id :: public_key
  st_did :: string
  st_ticket :: string
  st_registry :: string
  st_uptime :: nat
  st_neighbors :: "public_key list"
  st_known_peers :: nat
  st_releases :: nat
  st_seeds :: "string list"
  st_follows :: "string list"
  st_pkarr :: string
  st_pins :: "string list"
  st_version :: string

definition show_rule :: "string \<Rightarrow> mode \<Rightarrow> string" where
  "show_rule s m = s @ '' ['' @ show_mode m @ '']''"

text \<open>The ticket of the endpoint and the version are given; \<open>started\<close> is when the node started.\<close>

definition node_status ::
  "'z crates_scheme \<Rightarrow> 'a addr_text_scheme \<Rightarrow> node_env \<Rightarrow> config \<Rightarrow> string \<Rightarrow> string \<Rightarrow> nat \<Rightarrow> node \<Rightarrow> daemon_status" where
  "node_status K A E c ticket version started s =
     \<lparr>st_id = node_id K s, st_did = did_key K (node_id K s), st_ticket = ticket,
      st_registry = scheme (cfg_tls c) @ ''://'' @ show_addr A (cfg_listen c), st_uptime = env_now E - started,
      st_neighbors = sorted_list_of_set (neighbors s), st_known_peers = length (known_peers s),
      st_releases = length (list_releases K (idx s)),
      st_seeds = map (\<lambda>e. show_rule (se_reference e) (se_mode e)) (pol_seed (node_policy s)),
      st_follows = map (\<lambda>e. show_rule (fe_publisher e) (fe_mode e)) (pol_follow (node_policy s)),
      st_pkarr = (case cfg_pkarr c of Pkarr_On \<Rightarrow> ''on'' | Pkarr_Off \<Rightarrow> ''off''),
      st_pins = pol_pin (node_policy s), st_version = version\<rparr>"

record gauges =
  g_neighbors :: nat
  g_peers_known :: nat
  g_releases :: nat
  g_seeds :: nat
  g_follows :: nat
  g_uptime :: nat

definition refresh_gauges :: "'z crates_scheme \<Rightarrow> node_env \<Rightarrow> nat \<Rightarrow> node \<Rightarrow> gauges" where
  "refresh_gauges K E started s =
     \<lparr>g_neighbors = card (neighbors s), g_peers_known = length (known_peers s),
      g_releases = length (list_releases K (idx s)), g_seeds = length (pol_seed (node_policy s)),
      g_follows = length (pol_follow (node_policy s)), g_uptime = env_now E - started\<rparr>"


section \<open>The steps of a start\<close>

interpretation peers_file: stored_form Inr Inr "\<lambda>_. True"
  by unfold_locales simp

lemma override_changed: "override o' c = (c', b) \<Longrightarrow> b \<longleftrightarrow> c' \<noteq> c"
  by (cases "opt_listen o'"; cases "opt_tls o'"; cases "opt_no_relay o'"; cases "opt_no_metrics o'"; cases c)
    (auto simp: override_def)

lemma override_no_options: "override no_options c = (c, False)"
  by (simp add: override_def no_options_def)

lemma override_ok: "config_ok (fst (override o' c)) = config_ok c"
  by (simp add: override_def config_ok_def Let_def split: option.split)

lemma bootE:
  assumes "boot K A B o' h = (h', Inr (c, s))"
  obtains h0 key c0 h1 pol ps0 d0 h2 ps d h3 where
    "(if is_initialized h then ret () h else init_home K A B h) = (h0, Inr ())"
    "identity_load K (h_key h0) = Inr key" "config_load A h0 = Inr c0" "fst (override o' c0) = c"
    "(if snd (override o' c0) then config_save A B c else ret ()) h0 = (h1, Inr ())"
    "policy_load h1 = Inr pol" "peers_load h1 = Inr ps0" "dns_service A B c h1 = Inr d0"
    "boot_peers K (configured c (boot_node B)) (opt_peers o') ps0 d0 h1 = (h2, Inr (ps, d))"
    "peers_save B ps h2 = (h3, Inr ())" "open_store B h3 = (h', Inr ())" "boot_services B c"
    "s = start_node K (configured c (boot_node B)) key pol ps d h'"
  using assms unfolding boot_def Let_def case_prod_beta
  by (auto simp: then_do_Inr_iff)

lemma make_dirs_frame:
  assumes "make_dirs B h = (h', Inr ())"
  shows "h_key h' = h_key h" "h_config h' = h_config h" "h_policy h' = h_policy h" "h_peers h' = h_peers h"
    "h_dns_pins h' = h_dns_pins h" "h_tags h' = h_tags h" "h_data h' = h_data h" "h_uploads h' = h_uploads h"
  using assms by (auto simp: make_dirs_def split: if_splits sum.splits)

lemma make_dirs_same:
  assumes "index_ok K (h_index h)" "boot_dirs B"
  shows "make_dirs B h = (h, Inr ())"
  using assms index_okD(4,5) [OF assms(1)]
  by (simp add: make_dirs_def ensure_dirs_def create_dir_all_def)

lemma boot_peer_frame:
  assumes "boot_peer K E p peers (h, d) = ((h', d'), r)"
  shows "\<exists>f. h' = h\<lparr>h_dns_pins := f\<rparr>"
    "env_pin_save E \<Longrightarrow> pins_load h = Inr (zone_pins d) \<Longrightarrow> pins_load h' = Inr (zone_pins d')"
proof -
  have self: "\<exists>f. h = h\<lparr>h_dns_pins := f\<rparr>" by (rule exI [of _ "h_dns_pins h"]) simp
  show "\<exists>f. h' = h\<lparr>h_dns_pins := f\<rparr>"
    using assms self
    by (auto simp: boot_peer_def Let_def split: if_splits prod.splits sum.splits zone_outcome.splits)
  show "env_pin_save E \<Longrightarrow> pins_load h = Inr (zone_pins d) \<Longrightarrow> pins_load h' = Inr (zone_pins d')"
    using assms
    by (auto simp: boot_peer_def Let_def pins_load_def load_file_def
        split: if_splits prod.splits sum.splits zone_outcome.splits)
qed

lemma boot_peers_fold:
  assumes "fold_op (boot_peer K E) specs peers (h, d) = ((h', d'), r)"
  shows "(\<exists>f. h' = h\<lparr>h_dns_pins := f\<rparr>)
    \<and> (env_pin_save E \<and> pins_load h = Inr (zone_pins d) \<longrightarrow> pins_load h' = Inr (zone_pins d'))"
  using assms
proof (induction specs arbitrary: peers h d)
  case Nil
  then show ?case by (auto intro: exI [of _ "h_dns_pins h"])
next
  case (Cons p specs)
  obtain h1 d1 r1 where one: "boot_peer K E p peers (h, d) = ((h1, d1), r1)" by (metis surj_pair)
  note f = boot_peer_frame [OF one]
  show ?case
  proof (cases r1)
    case (Inl e)
    with Cons.prems one f show ?thesis by auto
  next
    case (Inr ps)
    with Cons.prems one have "fold_op (boot_peer K E) specs ps (h1, d1) = ((h', d'), r)" by simp
    from Cons.IH [OF this] f show ?thesis by auto
  qed
qed

lemma boot_peers_frame:
  assumes "boot_peers K E specs ps d h = (h', Inr (ps', d'))"
  shows "\<exists>f. h' = h\<lparr>h_dns_pins := f\<rparr>"
    "env_pin_save E \<Longrightarrow> pins_load h = Inr (zone_pins d) \<Longrightarrow> pins_load h' = Inr (zone_pins d')"
  using assms boot_peers_fold [of K E specs ps h d]
  by (auto simp: boot_peers_def split: prod.splits sum.splits)

lemma peers_save_frame:
  assumes "peers_save B ps h = (h', Inr ())"
  shows "h' = h\<lparr>h_peers := Stored ps\<rparr>"
  using assms by (auto simp: peers_save_def save_file_def split: if_splits)

lemma config_save_frame:
  assumes "config_save A B c h = (h', Inr ())"
  shows "\<exists>f. h' = h\<lparr>h_config := f\<rparr>"
  using assms by (auto simp: config_save_def split: prod.splits)

lemma config_saved:
  assumes "addr_laws A" "config_ok c" "config_save A B c h = (h', Inr ())"
  shows "config_load A h' = Inr c"
proof -
  obtain f where "save_file (config_to_toml A) (boot_writes B ''config.toml'') c (h_config h) = (f, Inr ())"
    "h' = h\<lparr>h_config := f\<rparr>"
    using assms(3) by (auto simp: config_save_def split: prod.splits)
  with config_file.saved_loads [of A c] assms(1,2) show ?thesis by (simp add: config_load_def)
qed

lemma loaded_config_ok: "config_load A h = Inr c \<Longrightarrow> config_ok c"
proof -
  have "config_ok config_default" by (simp add: config_ok_def config_default_def word_ok_def)
  then show "config_load A h = Inr c \<Longrightarrow> config_ok c"
    using config_of_toml_ok by (auto simp: config_load_def load_file_def split: stored.splits)
qed

lemma start_node_fields:
  "node_key (start_node K E key pol ps d h) = key" "node_policy (start_node K E key pol ps d h) = pol"
  "policy_disk (start_node K E key pol ps d h) = Some pol" "known_peers (start_node K E key pol ps d h) = ps"
  "dns_st (start_node K E key pol ps d h) = d" "idx (start_node K E key pol ps d h) = h_index h"
  "pin_tags (start_node K E key pol ps d h) = h_tags h" "blob_data (start_node K E key pol ps d h) = h_data h"
  "upload_files (start_node K E key pol ps d h) = h_uploads h"
  by (simp_all add: start_node_def sync_topics_def Let_def)

text \<open>What a start leaves on disk is what the node starts with.\<close>

lemma boot_consistent:
  assumes laws: "addr_laws A" and run: "boot K A B o' h = (h', Inr (c, s))"
  shows "identity_load K (h_key h') = Inr (node_key s)" "config_load A h' = Inr c" "policy_load h' = Inr (node_policy s)"
    "policy_disk s = Some (node_policy s)" "h_peers h' = Stored (known_peers s)"
    "idx s = h_index h'" "pin_tags s = h_tags h'" "blob_data s = h_data h'" "upload_files s = h_uploads h'"
    "case cfg_nameserver c of Some ns \<Rightarrow> is_ok (custom_resolver A ns) | None \<Rightarrow> True"
proof -
  obtain h0 key c0 h1 pol ps0 d0 h2 ps d h3 where
    key: "identity_load K (h_key h0) = Inr key" and c0: "config_load A h0 = Inr c0" "fst (override o' c0) = c"
    and saved: "(if snd (override o' c0) then config_save A B c else ret ()) h0 = (h1, Inr ())"
    and pol: "policy_load h1 = Inr pol" and dns: "dns_service A B c h1 = Inr d0"
    and peers: "boot_peers K (configured c (boot_node B)) (opt_peers o') ps0 d0 h1 = (h2, Inr (ps, d))"
    and save: "peers_save B ps h2 = (h3, Inr ())" and dirs: "open_store B h3 = (h', Inr ())"
    and s: "s = start_node K (configured c (boot_node B)) key pol ps d h'"
    by (rule bootE [OF run]) (rule that)
  obtain f where h2: "h2 = h1\<lparr>h_dns_pins := f\<rparr>" using boot_peers_frame(1) [OF peers] by blast
  note h3 = peers_save_frame [OF save]
  note h' = make_dirs_frame [OF dirs [unfolded open_store_def]]
  have h1: "h_key h1 = h_key h0 \<and> config_load A h1 = Inr c"
  proof (cases "snd (override o' c0)")
    case True
    with saved have save: "config_save A B c h0 = (h1, Inr ())" by simp
    have "config_ok c" using override_ok [of o' c0] c0(2) loaded_config_ok [OF c0(1)] by simp
    from config_saved [OF laws this save] config_save_frame [OF save] show ?thesis by auto
  next
    case False
    then have "c = c0" using override_changed [of o' c0 c] c0(2) by (metis prod.collapse)
    with False saved c0(1) show ?thesis by simp
  qed
  show "identity_load K (h_key h') = Inr (node_key s)" "config_load A h' = Inr c" "policy_load h' = Inr (node_policy s)"
    "policy_disk s = Some (node_policy s)" "h_peers h' = Stored (known_peers s)"
    "idx s = h_index h'" "pin_tags s = h_tags h'" "blob_data s = h_data h'" "upload_files s = h_uploads h'"
    using h1 key pol by (simp_all add: s start_node_fields h' h3 h2 config_load_def policy_load_def)
  show "case cfg_nameserver c of Some ns \<Rightarrow> is_ok (custom_resolver A ns) | None \<Rightarrow> True"
    using dns by (auto simp: dns_service_def split: option.splits)
qed


lemma home_after_loads:
  assumes "policy_disk s = Some p" "policy_ok p"
  shows "policy_load (home_after s h) = Inr p" "peers_load (home_after s h) = Inr (known_peers s)"
    "pins_load (home_after s h) = Inr (zone_pins (dns_st s))" "config_load A (home_after s h) = config_load A h"
    "h_key (home_after s h) = h_key h" "h_peers (home_after s h) = Stored (known_peers s)"
    "h_index (home_after s h) = idx s" "h_tags (home_after s h) = pin_tags s" "h_data (home_after s h) = blob_data s"
    "h_uploads (home_after s h) = upload_files s"
proof -
  obtain v where "policy_to_toml p = Inr v" "policy_of_toml v = Inr p" using policy_form [OF assms(2)] by blast
  with assms(1) show "policy_load (home_after s h) = Inr p"
    by (simp add: policy_load_def load_file_def home_after_def)
qed (simp_all add: home_after_def peers_load_def pins_load_def load_file_def config_load_def)

text \<open>A start without options on a home that has everything changes nothing and starts from it.\<close>

lemma boot_complete_home:
  assumes key: "h_key h \<noteq> None" "identity_load K (h_key h) = Inr key"
    and files: "config_load A h = Inr c" "policy_load h = Inr pol" "h_peers h = Stored ps" "pins_load h = Inr zp"
    and index: "index_ok K (h_index h)"
    and world: "boot_dirs B" "boot_writes B ''peers.json''" "boot_resolver B" "boot_services B c"
      "case cfg_nameserver c of Some ns \<Rightarrow> is_ok (custom_resolver A ns) | None \<Rightarrow> True"
  shows "boot K A B no_options h
    = (h, Inr (c, start_node K (configured c (boot_node B)) key pol ps \<lparr>cache = [], zone_pins = zp\<rparr> h))"
proof -
  have dns: "dns_service A B c h = Inr \<lparr>cache = [], zone_pins = zp\<rparr>"
    using world(3,5) files(4) by (cases "cfg_nameserver c") (auto simp: dns_service_def is_ok_def split: sum.splits)
  have peers: "peers_load h = Inr ps" using files(3) by (simp add: peers_load_def load_file_def)
  have save: "peers_save B ps h = (h, Inr ())" using world(2) files(3) by (simp add: peers_save_def save_file_def)
  have none: "boot_peers K E (opt_peers no_options) ps d h = (h, Inr (ps, d))" for E d
    by (simp add: boot_peers_def no_options_def)
  show ?thesis
    using key files(1,2) world(4)
    by (simp add: boot_def is_initialized_def then_do_def override_no_options dns peers save none open_store_def
        make_dirs_same [OF index world(1)] Let_def)
qed

section \<open>Properties\<close>


text \<open>A fresh home: nothing but the directory.\<close>

definition fresh_home :: home where
  "fresh_home = \<lparr>h_key = None, h_config = Absent, h_policy = Absent, h_peers = Absent, h_dns_pins = Absent,
     h_index = [], h_tags = [], h_data = [], h_uploads = []\<rparr>"

definition demo_boot :: boot_env where
  "demo_boot = \<lparr>boot_node = demo_env, boot_key = 5, boot_dirs = True, boot_writes = (\<lambda>_. True), boot_resolver = True,
     boot_services = (\<lambda>_. True)\<rparr>"

text \<open>The first start: a new identity and the defaults, with the overrides saved.\<close>

lemma first_start:
  assumes "hex_laws K" "addr_laws A" "boot_dirs B" "\<And>f. boot_writes B f" "boot_resolver B" "\<And>c. boot_services B c"
    and "opt_peers o' = []"
  shows "\<exists>h. boot K A B o' fresh_home = (h, Inr (fst (override o' config_default),
      start_node K (configured (fst (override o' config_default)) (boot_node B)) (boot_key B) policy_default []
        \<lparr>cache = [], zone_pins = []\<rparr> h)) \<and> h_index h = empty_index \<and> h_tags h = [] \<and> h_data h = [] \<and> h_uploads h = []"
proof -
  let ?c = "fst (override o' config_default)"
  have d: "config_ok config_default" by (simp add: config_ok_def config_default_def word_ok_def)
  then have c: "config_ok ?c" by (simp add: override_ok)
  have ns: "cfg_nameserver ?c = None" by (simp add: override_def config_default_def Let_def split: option.split)
  obtain vd where vd: "config_to_toml A config_default = Inr vd" "config_of_toml A vd = Inr config_default"
    using config_form [OF assms(2) d] by blast
  obtain vc where vc: "config_to_toml A ?c = Inr vc" "config_of_toml A vc = Inr ?c"
    using config_form [OF assms(2) c] by blast
  have "policy_ok policy_default" by (simp add: policy_ok_def policy_default_def)
  then obtain vp where vp: "policy_to_toml policy_default = Inr vp" "policy_of_toml vp = Inr policy_default"
    using policy_form by blast
  let ?kf = "\<lparr>contents = hex_encode K (bytes_of 32 (boot_key B)), mode_bits = 384\<rparr>"
  have kf: "identity_save K (boot_key B) None = (Some ?kf, Inr ())" by (simp add: identity_save_def)
  with identity_save_load [OF assms(1) this] have key: "identity_load K (Some ?kf) = Inr (boot_key B)" by simp
  have dirs: "ensure_dirs [] = Inr empty_index" "ensure_dirs empty_index = Inr empty_index"
    by (simp_all add: ensure_dirs_def create_dir_all_def empty_index_def tput_def)
  let ?f = "if snd (override o' config_default) then vc else vd"
  let ?h = "fresh_home\<lparr>h_key := Some ?kf, h_index := empty_index, h_config := Stored ?f, h_policy := Stored vp,
      h_peers := Stored []\<rparr>"
  have "boot K A B o' fresh_home = (?h, Inr (?c,
      start_node K (configured ?c (boot_node B)) (boot_key B) policy_default [] \<lparr>cache = [], zone_pins = []\<rparr> ?h))"
    using assms(3-7)
    by (simp add: boot_def then_do_def is_initialized_def fresh_home_def init_home_def make_dirs_def dirs save_key_def kf
        config_save_def save_file_def vd(1) policy_save_def vp(1) key config_load_def load_file_def vd(2) vc(1) policy_load_def
        vp(2) peers_load_def dns_service_def ns pins_load_def boot_peers_def peers_save_def open_store_def Let_def
        case_prod_beta)
  then show ?thesis by (intro exI [of _ ?h]) (simp add: fresh_home_def)
qed



section \<open>A start that fails\<close>

text \<open>Every file of the home can be read.\<close>

definition sound_home :: "'z crates_scheme \<Rightarrow> 'a addr_text_scheme \<Rightarrow> home \<Rightarrow> bool" where
  "sound_home K A h \<longleftrightarrow> (h_key h \<noteq> None \<longrightarrow> is_ok (identity_load K (h_key h)))
     \<and> (case config_load A h of Inl _ \<Rightarrow> False
        | Inr c \<Rightarrow> (case cfg_nameserver c of Some ns \<Rightarrow> is_ok (custom_resolver A ns) | None \<Rightarrow> True))
     \<and> is_ok (policy_load h) \<and> is_ok (peers_load h) \<and> is_ok (pins_load h) \<and> is_ok (ensure_dirs (h_index h))"

abbreviation stays_sound :: "'z crates_scheme \<Rightarrow> 'a addr_text_scheme \<Rightarrow> home \<Rightarrow> home \<Rightarrow> bool" where
  "stays_sound K A h h' \<equiv> sound_home K A h \<longrightarrow> sound_home K A h'"

lemmas sound_pre = keeps_invariant [of "sound_home K A" for K A]

lemma ensure_dirs_again:
  assumes "ensure_dirs ix = Inr ix'"
  shows "ensure_dirs ix' = Inr ix'"
proof -
  have one: "tget fs' [c] = Some Directory \<and> (tget fs [d] = Some Directory \<longrightarrow> tget fs' [d] = Some Directory)"
    if "create_dir_all [c] fs = Inr fs'" for c d fs fs'
    using that by (cases "tget fs [c]") (auto simp: create_dir_all_def split: entry.splits)
  obtain ix1 where a: "create_dir_all [''digests''] ix = Inr ix1" "create_dir_all [''releases''] ix1 = Inr ix'"
    using assms by (auto simp: ensure_dirs_def)
  have "tget ix' [''digests''] = Some Directory" "tget ix' [''releases''] = Some Directory"
    using one [OF a(1)] one [OF a(2)] by blast+
  then show ?thesis by (simp add: ensure_dirs_def create_dir_all_def)
qed

lemma make_dirs_sound: "keeps (stays_sound K A) (make_dirs B)"
proof -
  have "sound_home K A (h\<lparr>h_index := ix\<rparr>)" if "sound_home K A h" "ensure_dirs (h_index h) = Inr ix" for h ix
    using that ensure_dirs_again [OF that(2)]
    by (simp add: sound_home_def config_load_def policy_load_def peers_load_def pins_load_def)
  then show ?thesis by (simp add: keeps_def make_dirs_def split: sum.split)
qed

lemma save_key_sound:
  assumes "hex_laws K"
  shows "keeps (stays_sound K A) (save_key K B)"
  unfolding keeps_def
proof (intro allI impI)
  fix h
  assume s: "sound_home K A h"
  obtain f r where save: "identity_save K (boot_key B) (h_key h) = (f, r)" by force
  have "is_ok (identity_load K f) \<or> f = h_key h"
  proof (cases "h_key h")
    case None
    with save identity_save_load [OF assms, of "boot_key B" f r] show ?thesis by simp
  next
    case (Some kf)
    with save show ?thesis by (simp add: identity_save_existing)
  qed
  then show "sound_home K A (fst (save_key K B h))"
    using s save
    by (auto simp: sound_home_def save_key_def config_load_def policy_load_def peers_load_def pins_load_def)
qed

lemma config_save_sound:
  assumes "addr_laws A" "config_ok c" "case cfg_nameserver c of Some ns \<Rightarrow> is_ok (custom_resolver A ns) | None \<Rightarrow> True"
    and "sound_home K A h"
  shows "sound_home K A (fst (config_save A B c h))"
proof -
  obtain f r where save: "save_file (config_to_toml A) (boot_writes B ''config.toml'') c (h_config h) = (f, r)" by force
  have "f = h_config h \<or> load_file (config_of_toml A) config_default f = Inr c"
  proof (cases r)
    case (Inl e)
    with save config_file.failed_save_keeps show ?thesis by blast
  next
    case (Inr u)
    with save assms(1,2) config_file.saved_loads [of A c] show ?thesis by blast
  qed
  with assms(3,4) save show ?thesis
    by (auto simp: sound_home_def config_save_def config_load_def policy_load_def peers_load_def pins_load_def)
qed

lemma policy_save_sound: "policy_ok p \<Longrightarrow> keeps (stays_sound K A) (policy_save ok p)"
  unfolding keeps_def
proof (intro allI impI)
  fix h
  assume p: "policy_ok p" and s: "sound_home K A h"
  obtain f r where save: "save_file policy_to_toml ok p (h_policy h) = (f, r)" by force
  have "f = h_policy h \<or> load_file policy_of_toml policy_default f = Inr p"
  proof (cases r)
    case (Inl e)
    with save policy_file.failed_save_keeps show ?thesis by blast
  next
    case (Inr u)
    with save p policy_file.saved_loads show ?thesis by blast
  qed
  with s save show "sound_home K A (fst (policy_save ok p h))"
    by (auto simp: sound_home_def policy_save_def config_load_def policy_load_def peers_load_def pins_load_def)
qed

lemma init_sound:
  assumes "hex_laws K" "addr_laws A"
  shows "keeps (stays_sound K A) (init_home K A B)"
proof -
  have d: "config_ok config_default" "cfg_nameserver config_default = None" "policy_ok policy_default"
    by (simp_all add: config_ok_def config_default_def word_ok_def policy_ok_def policy_default_def)
  have "keeps (stays_sound K A) (config_save A B config_default)"
    using config_save_sound [OF assms(2) d(1), where K = K] d(2) by (simp add: keeps_def)
  then show ?thesis
    unfolding init_home_def
    by (intro keeps_then [OF sound_pre] make_dirs_sound save_key_sound [OF assms(1)] policy_save_sound d(3))
qed

lemma boot_peers_sound: "keeps (stays_sound K A) (boot_peers K' E specs ps d)"
  unfolding keeps_def
proof (intro allI impI)
  fix h
  assume s: "sound_home K A h"
  have step: "is_ok (pins_load (fst (fst (boot_peer K' E p peers (h, d)))))" if "is_ok (pins_load h)" for p peers h d
    using that by (auto simp: boot_peer_def Let_def pins_load_def load_file_def
        split: prod.split sum.split zone_outcome.split)
  have "is_ok (pins_load (fst (fst (fold_op (boot_peer K' E) specs ps (h, d)))))" if "is_ok (pins_load h)" for h
    using that
  proof (induction specs arbitrary: ps h d)
    case (Cons p specs)
    obtain h1 d1 r1 where "boot_peer K' E p ps (h, d) = ((h1, d1), r1)" by (metis surj_pair)
    with step [OF Cons.prems, of p ps d] Cons.IH show ?case by (simp split: sum.split)
  qed simp
  moreover obtain h' d' r where run: "fold_op (boot_peer K' E) specs ps (h, d) = ((h', d'), r)" by (metis surj_pair)
  ultimately have "is_ok (pins_load h')" using s by (metis fst_conv sound_home_def)
  moreover obtain f where "h' = h\<lparr>h_dns_pins := f\<rparr>" using boot_peers_fold [OF run] by blast
  ultimately show "sound_home K A (fst (boot_peers K' E specs ps d h))"
    using s run
    by (auto simp: boot_peers_def sound_home_def config_load_def policy_load_def peers_load_def pins_load_def
        split: sum.split)
qed

lemma peers_save_sound: "keeps (stays_sound K A) (peers_save B ps)"
  by (auto simp: keeps_def peers_save_def save_file_def sound_home_def config_load_def policy_load_def peers_load_def
      pins_load_def load_file_def)

lemma keeps_then_lift:
  assumes "preorder_on_states R" "\<And>s x. f s = Inr x \<Longrightarrow> R s (fst (g x s))"
  shows "keeps R (then_do (lift_res f) g)"
  using assms by (auto simp: keeps_def then_do_lift preorder_on_states_def reflp_def split: sum.split)

lemma boot_sound:
  assumes "hex_laws K" "addr_laws A"
  shows "keeps (stays_sound K A) (boot K A B o')"
proof -
  have init: "keeps (stays_sound K A) (\<lambda>h. if is_initialized h then ret () h else init_home K A B h)"
    using keepsD [OF init_sound [OF assms]] by (simp add: keeps_def)
  have rest: "keeps (stays_sound K A) (then_do (lift_res policy_load) (\<lambda>pol.
      then_do (lift_res peers_load) (\<lambda>ps0.
      then_do (lift_res (dns_service A B c)) (\<lambda>d0.
      then_do (boot_peers K (configured c (boot_node B)) (opt_peers o') ps0 d0) (\<lambda>psd.
      then_do (peers_save B (fst psd)) (\<lambda>_.
      then_do (open_store B) (\<lambda>_.
      then_do (lift_res (\<lambda>_. ensure (boot_services B c) Io_err)) (\<lambda>_.
      lift_res (\<lambda>h. Inr (c, start_node K (configured c (boot_node B)) key pol (fst psd) (snd psd) h))))))))))" for c key
    unfolding open_store_def
    by (intro keeps_then [OF sound_pre] keeps_basic [OF sound_pre] boot_peers_sound peers_save_sound make_dirs_sound)
  have config: "stays_sound K A h (fst (then_do (if snd (override o' c0) then config_save A B (fst (override o' c0)) else ret ())
      (\<lambda>_. R) h))"
    if c0: "config_load A h = Inr c0" and R: "keeps (stays_sound K A) R"
    for h c0 and R :: "(config \<times> node) home_op"
  proof
    assume s: "sound_home K A h"
    have "cfg_nameserver (fst (override o' c0)) = cfg_nameserver c0"
      by (simp add: override_def Let_def split: option.split)
    then have ns: "case cfg_nameserver (fst (override o' c0)) of Some ns \<Rightarrow> is_ok (custom_resolver A ns) | None \<Rightarrow> True"
      using s c0 by (simp add: sound_home_def)
    have "config_ok (fst (override o' c0))" using loaded_config_ok [OF c0] by (simp add: override_ok)
    from config_save_sound [OF assms(2) this ns s, of B] keepsD [OF R] s
    show "sound_home K A (fst (then_do (if snd (override o' c0) then config_save A B (fst (override o' c0)) else ret ()) (\<lambda>_. R) h))"
      by (auto simp: then_do_def split: prod.split sum.split)
  qed
  show ?thesis
    unfolding boot_def Let_def case_prod_beta
    by (rule keeps_then [OF sound_pre init], rule keeps_then [OF sound_pre],
        rule keeps_basic(3) [OF sound_pre], rule keeps_then_lift [OF sound_pre], rule config, assumption, rule rest)
qed


text \<open>A relation that each write to the home keeps holds over a start.\<close>

lemma boot_peers_keeps:
  assumes "\<And>h f. R h (h\<lparr>h_dns_pins := f\<rparr>)"
  shows "keeps R (boot_peers K E specs ps d)"
  unfolding keeps_def
proof
  fix h
  obtain h' d' r where run: "fold_op (boot_peer K E) specs ps (h, d) = ((h', d'), r)" by (metis surj_pair)
  then obtain f where "h' = h\<lparr>h_dns_pins := f\<rparr>" using boot_peers_fold [OF run] by blast
  with run assms show "R h (fst (boot_peers K E specs ps d h))" by (simp add: boot_peers_def split: sum.split)
qed

lemma boot_keeps:
  assumes pre: "preorder_on_states R" and files: "keeps R (make_dirs B)" "\<And>c. keeps R (config_save A B c)"
    "\<And>ok p. keeps R (policy_save ok p)" "\<And>ps. keeps R (peers_save B ps)" "keeps R (save_key K B)"
    and pins: "\<And>h f. R h (h\<lparr>h_dns_pins := f\<rparr>)"
  shows "keeps R (boot K A B o')"
proof -
  note peers = boot_peers_keeps [of R, OF pins]
  have "keeps R (init_home K A B)"
    unfolding init_home_def by (intro keeps_then [OF pre] files)
  then have init: "keeps R (\<lambda>h. if is_initialized h then ret () h else init_home K A B h)"
    using pre by (simp add: keeps_def preorder_on_states_def reflp_def)
  show ?thesis
    unfolding boot_def Let_def case_prod_beta open_store_def
    by (intro keeps_then [OF pre] keeps_if keeps_basic [OF pre] init files peers)
qed

text \<open>Once the configuration is saved the rest of a start leaves it, wherever it ends; and a start whose services do
  not come up fails.\<close>

lemma boot_initialized:
  assumes key: "identity_load K (h_key h) = Inr key" and c: "config_load A h = Inr c0" "override o' c0 = (c, changed)"
    and save: "(if changed then config_save A B c else ret ()) h = (h1, Inr ())" and run: "boot K A B o' h = (h', r)"
  shows "h_config h' = h_config h1" "h_key h' = h_key h" "\<not> boot_services B c \<Longrightarrow> \<not> is_ok r"
proof -
  let ?E = "configured c (boot_node B)" and ?R = "\<lambda>h h'. h_config h' = h_config h \<and> h_key h' = h_key h"
  let ?rest = "then_do (lift_res policy_load) (\<lambda>pol. then_do (lift_res peers_load) (\<lambda>ps0.
      then_do (lift_res (dns_service A B c)) (\<lambda>d0. then_do (boot_peers K ?E (opt_peers o') ps0 d0) (\<lambda>psd.
      then_do (peers_save B (fst psd)) (\<lambda>_. then_do (open_store B) (\<lambda>_.
      then_do (lift_res (\<lambda>_. ensure (boot_services B c) Io_err)) (\<lambda>_.
      lift_res (\<lambda>h. Inr (c, start_node K ?E key pol (fst psd) (snd psd) h)))))))))"
  have "h_key h \<noteq> None" using key by (auto simp: identity_load_def)
  moreover have over: "fst (override o' c0) = c" "snd (override o' c0) = changed" using c(2) by simp_all
  ultimately have rest: "?rest h1 = (h', r)"
    using run key c(1) save unfolding boot_def Let_def case_prod_beta
    by (cases changed) (auto simp: then_do_def is_initialized_def over)
  have pre: "preorder_on_states ?R" by (simp add: preorder_on_states_def reflp_def transp_def)
  have "keeps ?R (make_dirs B)" by (auto simp: keeps_def make_dirs_def split: sum.split)
  moreover have "keeps ?R (peers_save B ps)" for ps by (simp add: keeps_def peers_save_def split: prod.split)
  moreover have "keeps ?R (boot_peers K ?E specs ps d)" for specs ps d by (rule boot_peers_keeps) simp
  ultimately have "keeps ?R ?rest"
    unfolding open_store_def by (intro keeps_then [OF pre] keeps_basic [OF pre])
  from keepsD [OF this, of h1] rest show "h_config h' = h_config h1" "h_key h' = h_key h"
    using save by (auto simp: config_save_def split: if_splits prod.splits)
  show "\<not> boot_services B c \<Longrightarrow> \<not> is_ok r"
    using rest by (cases r) (auto simp: then_do_Inr_iff ensure_def is_ok_def split: if_splits)
qed

text \<open>The identity is never replaced, and the store is taken as it is.\<close>

abbreviation key_kept :: "home \<Rightarrow> home \<Rightarrow> bool" where
  "key_kept h h' \<equiv> h_key h \<noteq> None \<longrightarrow> h_key h' = h_key h"

lemma boot_key_kept: "keeps key_kept (boot K A B o')"
  by (rule boot_keeps)
    (auto simp: preorder_on_states_def reflp_def transp_def keeps_def make_dirs_def config_save_def policy_save_def
      peers_save_def save_key_def identity_save_def split: sum.split prod.split option.split)

abbreviation store_kept :: "'z crates_scheme \<Rightarrow> home \<Rightarrow> home \<Rightarrow> bool" where
  "store_kept K h h' \<equiv> index_ok K (h_index h) \<longrightarrow> h_index h' = h_index h \<and> h_tags h' = h_tags h \<and> h_data h' = h_data h"

lemma boot_store_kept: "keeps (store_kept K') (boot K A B o')"
proof (rule boot_keeps)
  show "preorder_on_states (store_kept K')" by (simp add: preorder_on_states_def reflp_def transp_def)
  show "keeps (store_kept K') (make_dirs B)"
  proof (cases "boot_dirs B")
    case True
    then show ?thesis using make_dirs_same by (fastforce simp: keeps_def)
  next
    case False
    then show ?thesis by (simp add: keeps_def make_dirs_def)
  qed
qed (simp_all add: keeps_def config_save_def policy_save_def peers_save_def save_key_def split: prod.split)

lemma init_succeeds:
  assumes "hex_laws K" "addr_laws A" "boot_dirs B" "\<And>f. boot_writes B f" "h_key h = None" "is_ok (ensure_dirs (h_index h))"
  shows "\<exists>h0. init_home K A B h = (h0, Inr ()) \<and> h_key h0 \<noteq> None \<and> identity_load K (h_key h0) = Inr (boot_key B)"
proof -
  have d: "config_ok config_default" "policy_ok policy_default"
    by (simp_all add: config_ok_def config_default_def word_ok_def policy_ok_def policy_default_def)
  obtain vd vp where v: "config_to_toml A config_default = Inr vd" "policy_to_toml policy_default = Inr vp"
    using config_form [OF assms(2) d(1)] policy_form [OF d(2)] by blast
  obtain ix where ix: "ensure_dirs (h_index h) = Inr ix" using assms(6) by (cases "ensure_dirs (h_index h)") simp_all
  obtain kf where kf: "identity_save K (boot_key B) None = (Some kf, Inr ())" by (simp add: identity_save_def)
  with identity_save_load [OF assms(1) kf] show ?thesis
    using assms(3-5) v ix
    by (simp add: init_home_def then_do_def make_dirs_def save_key_def config_save_def save_file_def policy_save_def)
qed

lemma sound_start:
  assumes sound: "sound_home K A h" and key: "identity_load K (h_key h) = Inr key" "h_key h \<noteq> None"
    and world: "boot_dirs B" "\<And>f. boot_writes B f" "boot_resolver B" "\<And>c. boot_services B c"
  shows "\<exists>h2 c s. boot K A B no_options h = (h2, Inr (c, s)) \<and> node_key s = key"
proof -
  have ok: "is_ok r \<longleftrightarrow> (\<exists>x. r = Inr x)" for r :: "'e + 'x" by (cases r) simp_all
  obtain c pol ps zp ix where files: "config_load A h = Inr c" "policy_load h = Inr pol" "peers_load h = Inr ps"
    "pins_load h = Inr zp" "ensure_dirs (h_index h) = Inr ix"
    and ns: "case cfg_nameserver c of Some ns \<Rightarrow> is_ok (custom_resolver A ns) | None \<Rightarrow> True"
    using sound unfolding sound_home_def ok by (auto split: sum.splits)
  have dns: "dns_service A B c h = Inr \<lparr>cache = [], zone_pins = zp\<rparr>"
    using world(3) ns files(4) by (cases "cfg_nameserver c") (auto simp: dns_service_def is_ok_def split: sum.splits)
  have none: "boot_peers K E (opt_peers no_options) ps d h = (h, Inr (ps, d))" for E d
    by (simp add: boot_peers_def no_options_def)
  have save: "peers_save B ps h = (h\<lparr>h_peers := Stored ps\<rparr>, Inr ())" using world(2) by (simp add: peers_save_def save_file_def)
  have dirs: "open_store B (h\<lparr>h_peers := Stored ps\<rparr>) = (h\<lparr>h_peers := Stored ps, h_index := ix\<rparr>, Inr ())"
    using world(1) files(5) by (simp add: open_store_def make_dirs_def)
  show ?thesis
    using key world(4) files(1-3)
    by (simp add: boot_def is_initialized_def then_do_def override_no_options dns none save dirs start_node_fields Let_def)
qed




lemma boot_healthy:
  assumes "addr_laws A" "healthy K s" "boot K A B o' (home_after s h) = (h', Inr (c, s'))"
  shows "healthy K s'"
proof -
  have ix: "index_ok K (h_index (home_after s h))" using healthyD(2) [OF assms(2)] by (simp add: home_after_def)
  have "store_kept K (home_after s h) h'" using keepsD [OF boot_store_kept, of K "home_after s h" K A B o'] assms(3) by simp
  with ix have "h_index h' = idx s" "h_tags h' = pin_tags s" "h_data h' = blob_data s" by (simp_all add: home_after_def)
  with boot_consistent(6-8) [OF assms(1,3)] have "healthy K s' = healthy K s" by (intro healthy_same) simp_all
  with assms(2) show ?thesis by simp
qed

end
