(* ===== verification/Server_Runs.thy ===== *)
theory Server_Runs
  imports Upload_Sessions Boot
begin

text \<open>
  Requests to the registry beside the operations of the node, in any order: no request brings in a release
  that its publisher did not sign, or a blob entry that leads to other data.
\<close>

section \<open>Handlers and the invariant\<close>

text \<open>From a healthy node in a state with \<open>I\<close> the handler leaves a healthy node, and a value \<open>x\<close> in a state with
  \<open>P x\<close>.\<close>

definition after :: "'z node_crates_scheme \<Rightarrow> (app \<Rightarrow> bool) \<Rightarrow> 'a handler \<Rightarrow> ('a \<Rightarrow> app \<Rightarrow> bool) \<Rightarrow> bool" where
  "after K I m P \<longleftrightarrow> (\<forall>a a' r. healthy K (app_node a) \<and> I a \<longrightarrow> m a = (a', r)
     \<longrightarrow> healthy K (app_node a') \<and> (\<forall>x. r = Inr x \<longrightarrow> P x a'))"

lemma afterI:
  assumes "\<And>a a' r. healthy K (app_node a) \<Longrightarrow> I a \<Longrightarrow> m a = (a', r) \<Longrightarrow> healthy K (app_node a') \<and> (\<forall>x. r = Inr x \<longrightarrow> P x a')"
  shows "after K I m P"
  using assms unfolding after_def by blast

lemma after_then:
  assumes "after K I m P" "\<And>x. after K (P x) (f x) Q"
  shows "after K I (then_do m f) Q"
proof (rule afterI)
  fix a a' r
  assume a: "healthy K (app_node a)" "I a" and run: "then_do m f a = (a', r)"
  obtain a1 r1 where m: "m a = (a1, r1)" by force
  with assms(1) a have one: "healthy K (app_node a1)" "\<And>x. r1 = Inr x \<Longrightarrow> P x a1" unfolding after_def by blast+
  show "healthy K (app_node a') \<and> (\<forall>x. r = Inr x \<longrightarrow> Q x a')"
  proof (cases r1)
    case (Inl e)
    with run m one show ?thesis by (auto simp: then_do_def)
  next
    case (Inr x)
    with run m have "f x a1 = (a', r)" by (simp add: then_do_def)
    with assms(2) [of x] one Inr show ?thesis unfolding after_def by blast
  qed
qed

lemma after_basic:
  "(\<And>a. I a \<Longrightarrow> P x a) \<Longrightarrow> after K I (ret x) P"
  "after K I (fail e) P"
  "(\<And>a x. I a \<Longrightarrow> g a = Inr x \<Longrightarrow> P x a) \<Longrightarrow> after K I (lift_res g) P"
  by (auto simp: after_def)

lemma after_node:
  assumes "keeps (stays_healthy K) m" "\<And>a s x. I a \<Longrightarrow> m (app_node a) = (s, Inr x) \<Longrightarrow> P x (a\<lparr>app_node := s\<rparr>)"
  shows "after K I (on_node f m) P"
proof (rule afterI)
  fix a a' r
  assume a: "healthy K (app_node a)" "I a" and run: "on_node f m a = (a', r)"
  obtain s x where m: "m (app_node a) = (s, x)" by force
  have "healthy K s" using keepsD [OF assms(1), of "app_node a"] a(1) m by simp
  with run m assms(2) [OF a(2)] show "healthy K (app_node a') \<and> (\<forall>x. r = Inr x \<longrightarrow> P x a')"
    by (auto simp: on_node_def)
qed

lemma after_with: "(\<And>s. after K I (g s) P) \<Longrightarrow> after K I (with_node g) P"
  unfolding after_def with_node_def by blast

lemma after_if: "after K I m P \<Longrightarrow> after K I n P \<Longrightarrow> after K I (if c then m else n) P"
  by simp

lemma after_weaken: "after K I m P \<Longrightarrow> (\<And>a. I' a \<Longrightarrow> I a) \<Longrightarrow> after K I' m P"
  unfolding after_def by blast

abbreviation safe :: "'z node_crates_scheme \<Rightarrow> 'a handler \<Rightarrow> bool" where
  "safe K m \<equiv> after K (\<lambda>_. True) m (\<lambda>_ _. True)"

lemmas safe_intros = after_then [where P = "\<lambda>_ _. True"] after_basic after_node after_with after_if
  keeps_basic [OF healthy_pre]

lemma safe_for_each: "(\<And>x. safe K (f x)) \<Longrightarrow> safe K (for_each xs f)"
proof (induction xs)
  case Nil
  then show ?case by (simp add: after_def)
next
  case (Cons x xs)
  have "for_each (x # xs) f = then_do (f x) (\<lambda>_. for_each xs f)"
    by (simp add: fun_eq_iff then_do_def split: sum.split prod.split)
  with Cons show ?case using after_then [where P = "\<lambda>_ _. True"] by metis
qed

section \<open>Reading\<close>

lemma resolve_after: "(\<And>a s x. I a \<Longrightarrow> same_but_dns (app_node a) s \<Longrightarrow> P x (a\<lparr>app_node := s\<rparr>)) \<Longrightarrow> after K I (resolve K E name) P"
proof (rule afterI)
  fix a a' r
  assume I: "\<And>a s x. I a \<Longrightarrow> same_but_dns (app_node a) s \<Longrightarrow> P x (a\<lparr>app_node := s\<rparr>)"
    and a: "healthy K (app_node a)" "I a" and run: "resolve K E name a = (a', r)"
  note f = resolve_frame [OF run]
  have "a' = a\<lparr>app_node := app_node a'\<rparr>" using f(2) by simp
  with I [OF a(2) f(1)] same_but_dns_healthy [OF f(1), of K] a(1)
  show "healthy K (app_node a') \<and> (\<forall>x. r = Inr x \<longrightarrow> P x a')" by metis
qed

lemmas resolve_safe = resolve_after [where I = "\<lambda>_. True" and P = "\<lambda>_ _. True", simplified]

lemma held_blob_safe: "safe K (held_blob d code)"
  unfolding held_blob_def by (auto intro!: safe_intros split: option.split)

lemma reads_safe:
  "safe K (catalog K)" "safe K (tags_list K E name)" "safe K (referrers_get K E name dig query)"
  "safe K (blob_get K E name dig rng head)"
proof -
  show "safe K (catalog K)" by (simp add: after_def catalog_def Let_def)
  show "safe K (tags_list K E name)" "safe K (referrers_get K E name dig query)"
    unfolding tags_list_def referrers_get_def Let_def
    by (auto intro!: safe_intros resolve_safe split: prod.split)
  have "safe K (blob_response rng head b)" for b
    unfolding blob_response_def Let_def by (auto intro!: safe_intros split: option.split prod.split)
  then show "safe K (blob_get K E name dig rng head)"
    unfolding blob_get_def by (intro safe_intros resolve_safe held_blob_safe)
qed

lemma manifest_get_safe:
  assumes "net_laws K (net_env E)"
  shows "safe K (manifest_get K E name rf head)"
  unfolding manifest_get_def Let_def
  by (auto intro!: safe_intros resolve_safe held_blob_safe get_or_fetch_healthy [OF assms] split: prod.split sum.split option.split)

lemma manifest_delete_safe:
  assumes "key_laws K"
  shows "safe K (manifest_delete K E name rf)"
  unfolding manifest_delete_def
  by (auto intro!: safe_intros resolve_safe safe_for_each remove_release_healthy [OF assms] split: prod.split sum.split)

section \<open>Pushing a manifest\<close>

text \<open>No other data with the same BLAKE3 hash is there.\<close>

definition fresh_data :: "'z node_crates_scheme \<Rightarrow> byte list \<Rightarrow> app \<Rightarrow> bool" where
  "fresh_data K bytes a \<longleftrightarrow> (\<forall>bs. tget (blob_data (app_node a)) (blake3_of K bytes) = Some bs \<longrightarrow> bs = bytes)"

definition good_blobs :: "blob_ref list \<Rightarrow> bool" where
  "good_blobs bs \<longleftrightarrow> list_all (\<lambda>b. digest_ok (br_digest b)) bs"

lemma fresh_same: "blob_data (app_node a') = blob_data (app_node a) \<Longrightarrow> fresh_data K bytes a' = fresh_data K bytes a"
  by (simp add: fresh_data_def)

lemma resolve_fresh: "after K (fresh_data K bytes) (resolve K E name) (\<lambda>_. fresh_data K bytes)"
  by (rule resolve_after) (simp add: fresh_data_def same_but_dnsD)

lemma collect_after:
  assumes "manifest_ok m"
  shows "after K (fresh_data K bytes) (collect_all K m) (\<lambda>blobs a. good_blobs blobs \<and> fresh_data K bytes a)"
proof (rule afterI)
  fix a a' r
  assume a: "healthy K (app_node a)" "fresh_data K bytes a" and run: "collect_all K m a = (a', r)"
  obtain s x where walk: "collect_refs K (refs_fuel (app_node a)) m [] (app_node a) = (s, x)" by force
  from collect_refs_spec [OF healthyD(1) [OF a(1)] assms]
  have post: "refilled K (app_node a) s" "\<And>out. x = Inr out \<Longrightarrow> collected K s out"
    unfolding walk by (auto simp: collect_post_def)
  have a': "a' = a\<lparr>app_node := s\<rparr>" and r: "r = map_err refused x" using run walk by (simp_all add: collect_all_def)
  have "healthy K s"
    by (rule healthy_less [OF a(1) refilledD(1) [OF post(1)]]) (simp add: refilledD(3) [OF post(1)])
  moreover have "fresh_data K bytes a'"
    using a(2) refilledD(5) [OF post(1)] by (simp add: fresh_data_def a')
  moreover have "good_blobs out" if "r = Inr out" for out
    using post(2) [of out] that r by (auto simp: collected_def good_blobs_def list_all_iff)
  ultimately show "healthy K (app_node a') \<and> (\<forall>blobs. r = Inr blobs \<longrightarrow> good_blobs blobs \<and> fresh_data K bytes a')"
    by (simp add: a')
qed

lemma put_after:
  assumes "hex_laws K" "sha_laws K"
  shows "after K (fresh_data K bytes) (on_node f (put_blob_bytes K bytes expect mt)) (\<lambda>b _. digest_ok (br_digest b))"
proof (rule afterI)
  fix a a' r
  assume a: "healthy K (app_node a)" "fresh_data K bytes a" and run: "on_node f (put_blob_bytes K bytes expect mt) a = (a', r)"
  obtain s x where put: "put_blob_bytes K bytes expect mt (app_node a) = (s, x)" by force
  have fresh: "tget (blob_data (app_node a)) (blake3_of K bytes) = Some bs \<Longrightarrow> bs = bytes" for bs
    using a(2) by (simp add: fresh_data_def)
  have "healthy K s" using push_healthy [OF assms a(1) fresh, of expect mt] put by simp
  moreover have "digest_ok (br_digest b)" if "x = Inr b" for b
    using put_blob_bytes_spec [OF healthyD(1) [OF a(1)] assms fresh put] that digest_sha256_ok [OF assms] by simp
  ultimately show "healthy K (app_node a') \<and> (\<forall>b. r = Inr b \<longrightarrow> digest_ok (br_digest b))"
    using run put by (auto simp: on_node_def)
qed

lemma store_referrer_healthy:
  assumes "digest_ok subject" "digest_ok (rf_digest rf)"
  shows "keeps (stays_healthy K) (store_referrer subject rf)"
  unfolding keeps_def
proof (intro allI impI)
  fix s :: node
  assume h: "healthy K s"
  show "healthy K (fst (store_referrer subject rf s))"
  proof (cases "put_referrer (idx s) subject rf")
    case (Inl e)
    with h show ?thesis by (simp add: store_referrer_def on_index_def)
  next
    case (Inr ix)
    obtain ix' where put: "put_referrer (idx s) subject rf = Inr ix'" and ok: "index_ok K ix'"
      and files: "\<And>q. file_at ix' q = (if q = referrer_path subject (rf_digest rf) then Some (ReferrerFile rf) else file_at (idx s) q)"
      by (rule put_referrer_spec [OF healthyD(2) [OF h] assms]) (rule that)
    have "ix' = ix" using put Inr by simp
    moreover have "file_at ix' q = file_at (idx s) q" if "\<nexists>d. q = referrer_path subject d" for q
      using files that by simp
    ultimately have spec: "index_ok K ix" "\<And>d. blob_at ix d = blob_at (idx s) d"
      "\<And>sl. release_at K ix sl = release_at K (idx s) sl"
      using ok file_views [of subject ix' "idx s"] by simp_all
    have "store_ok K (s\<lparr>idx := ix\<rparr>)"
      by (rule store_ok_same [OF healthyD(1) [OF h]]) (use spec in simp_all)
    then have "healthy K (s\<lparr>idx := ix\<rparr>)" by (rule healthy_less [OF h]) (simp add: spec)
    with Inr show ?thesis by (simp add: store_referrer_def on_index_def)
  qed
qed

lemma attach_subject_after:
  assumes "key_laws K" "manifest_ok m" "digest_ok (br_digest b)" "good_blobs blobs"
  shows "safe K (attach_subject K E m b mt blobs)"
proof -
  have rf: "digest_ok (rf_digest (referrer_for m b mt))" using assms(3) by (simp add: referrer_for_def)
  have "list_all (\<lambda>b. digest_ok (br_digest b)) (b # blobs)" using assms(3,4) by (simp add: good_blobs_def)
  from attach_healthy [OF assms(1) rf this] store_referrer_healthy [OF _ rf] assms(2)
  show ?thesis
    unfolding attach_subject_def Let_def
    by (auto intro!: safe_intros simp: manifest_ok_def split: option.split)
qed

lemma pushed_digests:
  assumes "digest_ok (br_digest b)" "good_blobs blobs"
  shows "digests_ok (pushed_release K E publisher img tag b blobs s)"
  using assms by (simp add: digests_ok_def pushed_release_def release_sign_payload all_blobs_def good_blobs_def)

text \<open>The part of a push after its body is read, and the reading itself.\<close>

lemma push_stores_after:
  assumes laws: "hex_laws K" "sha_laws K" "key_laws K" and m: "manifest_ok m"
    and rest: "\<And>b blobs. digest_ok (br_digest b) \<Longrightarrow> good_blobs blobs \<Longrightarrow> safe K (rest b blobs)"
  shows "after K (fresh_data K bytes) (then_do (collect_all K m) (\<lambda>blobs.
      then_do (lift_res chk) (\<lambda>u.
      then_do (on_node oci_internal (put_blob_bytes K bytes d mt)) (\<lambda>b.
      then_do (attach_subject K E m b mt' blobs) (\<lambda>_. rest b blobs))))) (\<lambda>_ _. True)"
proof (rule after_then [OF collect_after [OF m]])
  fix blobs
  show "after K (\<lambda>a. good_blobs blobs \<and> fresh_data K bytes a) (then_do (lift_res chk) (\<lambda>u.
      then_do (on_node oci_internal (put_blob_bytes K bytes d mt)) (\<lambda>b.
      then_do (attach_subject K E m b mt' blobs) (\<lambda>_. rest b blobs)))) (\<lambda>_ _. True)"
  proof (cases "good_blobs blobs")
    case True
    have "after K (\<lambda>a. fresh_data K bytes a) (then_do (lift_res chk) (\<lambda>u.
      then_do (on_node oci_internal (put_blob_bytes K bytes d mt)) (\<lambda>b.
      then_do (attach_subject K E m b mt' blobs) (\<lambda>_. rest b blobs)))) (\<lambda>_ _. True)"
    proof (rule after_then [where P = "\<lambda>_. fresh_data K bytes"])
      fix u
      show "after K (fresh_data K bytes) (then_do (on_node oci_internal (put_blob_bytes K bytes d mt)) (\<lambda>b.
        then_do (attach_subject K E m b mt' blobs) (\<lambda>_. rest b blobs))) (\<lambda>_ _. True)"
      proof (rule after_then [OF put_after [OF laws(1,2)]])
        fix b
        show "after K (\<lambda>_. digest_ok (br_digest b)) (then_do (attach_subject K E m b mt' blobs) (\<lambda>_. rest b blobs)) (\<lambda>_ _. True)"
        proof (cases "digest_ok (br_digest b)")
          case d: True
          have "safe K (then_do (attach_subject K E m b mt' blobs) (\<lambda>_. rest b blobs))"
            by (rule after_then [OF attach_subject_after [OF laws(3) m d True]]) (rule rest [OF d True])
          then show ?thesis by (rule after_weaken) simp
        next
          case False
          then show ?thesis by (simp add: after_def)
        qed
      qed
    qed (simp add: after_def)
    then show ?thesis by (rule after_weaken) simp
  next
    case False
    then show ?thesis by (simp add: after_def)
  qed
qed

lemma push_reads_after:
  fixes g :: "byte list \<Rightarrow> manifest \<Rightarrow> http_resp handler"
  assumes g: "\<And>m. manifest_ok m \<Longrightarrow> after K (fresh_data K (concat (chunks body))) (g (concat (chunks body)) m) (\<lambda>_ _. True)"
  shows "after K (fresh_data K (concat (chunks body))) (then_do (lift_res (\<lambda>_. ok_or (to_bytes max_manifest body) oci_bad)) (\<lambda>bytes.
      then_do (lift_res (\<lambda>_. map_err (bad_request ''MANIFEST_INVALID'') (manifest_parse K bytes t))) (\<lambda>m. g bytes m)))
      (\<lambda>_ _. True)"
proof (rule after_then [where P = "\<lambda>x a. x = (concat (chunks body)) \<and> fresh_data K (concat (chunks body)) a"])
  show "after K (fresh_data K (concat (chunks body))) (lift_res (\<lambda>_. ok_or (to_bytes max_manifest body) oci_bad))
    (\<lambda>x a. x = (concat (chunks body)) \<and> fresh_data K (concat (chunks body)) a)"
    by (auto simp: after_def to_bytes_def split: if_splits)
  fix x
  have "after K (fresh_data K (concat (chunks body))) (then_do (lift_res (\<lambda>_. map_err (bad_request ''MANIFEST_INVALID'')
      (manifest_parse K (concat (chunks body)) t))) (g (concat (chunks body)))) (\<lambda>_ _. True)"
  proof (rule after_then [where P = "\<lambda>m a. manifest_ok m \<and> fresh_data K (concat (chunks body)) a"])
    show "after K (fresh_data K (concat (chunks body))) (lift_res (\<lambda>_. map_err (bad_request ''MANIFEST_INVALID'') (manifest_parse K (concat (chunks body)) t)))
      (\<lambda>m a. manifest_ok m \<and> fresh_data K (concat (chunks body)) a)"
      using manifest_parse_ok by (auto simp: after_def)
    fix m
    show "after K (\<lambda>a. manifest_ok m \<and> fresh_data K (concat (chunks body)) a) (g (concat (chunks body)) m) (\<lambda>_ _. True)"
      using g [of m] unfolding after_def by blast
  qed
  then show "after K (\<lambda>a. x = (concat (chunks body)) \<and> fresh_data K (concat (chunks body)) a) (then_do (lift_res (\<lambda>_. map_err (bad_request ''MANIFEST_INVALID'')
      (manifest_parse K x t))) (g x)) (\<lambda>_ _. True)"
    unfolding after_def by blast
qed

lemma manifest_put_after:
  assumes laws: "hex_laws K" "sha_laws K" "key_laws K"
  shows "after K (fresh_data K (concat (chunks body))) (manifest_put K E name rf ct body) (\<lambda>_ _. True)"
proof -
  have last: "safe K (then_do (case digest_from_str rf of
            Inr _ \<Rightarrow> ret ()
          | Inl _ \<Rightarrow> with_node (\<lambda>s. on_node oci_internal
              (publish K (net_env E) (pushed_release K E publisher img rf b blobs s)))) (\<lambda>_. ret resp))"
    if "digest_ok (br_digest b)" "good_blobs blobs" for publisher img b blobs and resp :: http_resp
    using publish_healthy [OF laws(3) pushed_digests [OF that]]
    by (auto intro!: safe_intros split: sum.split)
  show ?thesis
    unfolding manifest_put_def Let_def case_prod_beta
    by (intro after_then [OF resolve_fresh] after_with after_if after_basic push_reads_after push_stores_after [OF laws] last; assumption?)
qed


section \<open>Uploads\<close>

text \<open>No other data has the BLAKE3 hash of the request's body, on its own or after what an upload file has already.\<close>

definition no_clash :: "'z node_crates_scheme \<Rightarrow> byte list \<Rightarrow> app \<Rightarrow> bool" where
  "no_clash K bytes a \<longleftrightarrow> fresh_data K bytes a
     \<and> (\<forall>p c. tget (upload_files (app_node a)) p = Some c \<longrightarrow> fresh_data K (c @ bytes) a)"

lemma healthy_files [simp]: "healthy K (s\<lparr>upload_files := f\<rparr>) = healthy K s"
  by (rule healthy_same) simp_all

text \<open>What the session has received is new data.\<close>

definition fresh_session :: "'z node_crates_scheme \<Rightarrow> upload \<Rightarrow> app \<Rightarrow> bool" where
  "fresh_session K u a \<longleftrightarrow> (\<forall>c. tget (upload_files (app_node a)) (up_path u) = Some c \<longrightarrow> fresh_data K c a)"

lemma append_body_after:
  "after K (no_clash K (concat (chunks body))) (append_body i body)
     (\<lambda>_ a. \<forall>u. tget (app_uploads a) i = Some u \<longrightarrow> fresh_session K u a)"
  by (rule afterI) (auto simp: append_body_def Let_def no_clash_def fresh_session_def fresh_data_def
      split: option.splits if_splits)

lemma take_upload_after:
  "after K (\<lambda>a. \<forall>u. tget (app_uploads a) i = Some u \<longrightarrow> fresh_session K u a) (take_upload i) (fresh_session K)"
  by (rule afterI) (auto simp: take_upload_def fresh_session_def fresh_data_def split: option.splits)

lemma import_upload_after:
  assumes "hex_laws K" "sha_laws K"
  shows "after K (fresh_session K u) (import_upload K u d) (\<lambda>_ _. True)"
proof (rule afterI)
  fix a a' r
  assume a: "healthy K (app_node a)" "fresh_session K u a" and run: "import_upload K u d a = (a', r)"
  let ?gone = "(app_node a)\<lparr>upload_files := tdel (up_path u) (upload_files (app_node a))\<rparr>"
  have gone: "healthy K ?gone" using a(1) by simp
  have same: "put_blob_file K = put_blob_bytes K" by (intro ext) (simp add: put_blob_file_def put_blob_bytes_def Let_def)
  show "healthy K (app_node a') \<and> (\<forall>b. r = Inr b \<longrightarrow> True)"
  proof (cases "tget (upload_files (app_node a)) (up_path u)")
    case None
    with run a(1) show ?thesis by (auto simp: import_upload_def)
  next
    case (Some c)
    then have "tget (blob_data ?gone) (blake3_of K c) = Some bs \<Longrightarrow> bs = c" for bs
      using a(2) by (simp add: fresh_session_def fresh_data_def)
    from push_healthy [OF assms gone this, of "Some d" None]
    have "healthy K (fst (put_blob_file K c (Some d) None ?gone))" by (simp add: same)
    with run Some show ?thesis by (auto simp: import_upload_def Let_def split: prod.splits sum.splits)
  qed
qed

lemma upload_put_after:
  assumes "hex_laws K" "sha_laws K"
  shows "after K (no_clash K (concat (chunks body))) (upload_put K name i dig body) (\<lambda>_ _. True)"
proof -
  have recv: "after K (no_clash K (concat (chunks body))) (then_do (append_body i body) (\<lambda>_.
      then_do (take_upload i) (\<lambda>u. then_do (import_upload K u d) (\<lambda>b. ret (resp b))))) (\<lambda>_ _. True)"
    for d and resp :: "blob_ref \<Rightarrow> http_resp"
    by (rule after_then [OF append_body_after], rule after_then [OF take_upload_after],
        rule after_then [OF import_upload_after [OF assms]], rule after_basic, simp)
  show ?thesis
    unfolding upload_put_def
    by (rule after_then [where P = "\<lambda>_. no_clash K (concat (chunks body))"], rule after_basic, assumption,
        rule after_then [where P = "\<lambda>_. no_clash K (concat (chunks body))"], rule after_basic, assumption, rule recv)
qed

lemma same_but_dns_files: "same_but_dns s s' \<Longrightarrow> upload_files s' = upload_files s"
  by (drule arg_cong [where f = upload_files, OF same_but_dns_def [THEN iffD1]]) simp

lemma open_upload_after: "after K (no_clash K bytes) (open_upload E) (\<lambda>_. no_clash K bytes)"
  by (rule afterI) (auto simp: open_upload_def Let_def no_clash_def fresh_data_def split: if_splits)

lemma upload_start_after:
  assumes "hex_laws K" "sha_laws K"
  shows "after K (no_clash K (concat (chunks body))) (upload_start K E name query body) (\<lambda>_ _. True)"
proof -
  have one: "after K (no_clash K (concat (chunks body))) (upload_begin K E name query body) (\<lambda>_ _. True)"
    unfolding upload_begin_def
    by (rule after_then [OF open_upload_after]) (auto intro: upload_put_after [OF assms] after_basic split: option.split)
  have "after K (no_clash K (concat (chunks body))) (resolve K E name) (\<lambda>_. no_clash K (concat (chunks body)))"
    by (rule resolve_after) (simp add: no_clash_def fresh_data_def same_but_dnsD same_but_dns_files)
  then show ?thesis
    unfolding upload_start_def case_prod_beta
    by (rule after_then) (intro after_with after_if one after_basic(2))
qed

lemma uploads_safe:
  "safe K (upload_status name i)" "safe K (upload_cancel i)"
  by (auto simp: after_def upload_status_def upload_cancel_def Let_def split: option.splits)

lemma upload_patch_after: "after K (no_clash K (concat (chunks body))) (upload_patch name i body) (\<lambda>_ _. True)"
  unfolding upload_patch_def by (rule after_then [OF append_body_after]) (rule after_basic, simp)

section \<open>Requests and operations in any order\<close>

lemma v2_after:
  assumes "hex_laws K" "sha_laws K" "key_laws K" "net_laws K (net_env E)"
  shows "after K (no_clash K (concat (chunks (rq_body q)))) (handle_v2 K E q) (\<lambda>_ _. True)"
proof -
  have weak: "after K (no_clash K (concat (chunks body))) m (\<lambda>_ _. True)"
    if "safe K m" for m :: "http_resp handler" and body
    using that by (rule after_weaken) simp
  have put: "after K (no_clash K (concat (chunks body))) (manifest_put K E name rf ct body) (\<lambda>_ _. True)" for name rf ct body
    using manifest_put_after [OF assms(1-3)] by (rule after_weaken) (simp add: no_clash_def)
  show ?thesis
    unfolding handle_v2_def Let_def
    by (auto intro!: weak [OF reads_safe(1)] weak [OF reads_safe(2)] weak [OF reads_safe(3)] weak [OF reads_safe(4)]
        weak [OF manifest_get_safe [OF assms(4)]] weak [OF manifest_delete_safe [OF assms(3)]] weak [OF uploads_safe(1)]
        weak [OF uploads_safe(2)] put upload_start_after [OF assms(1,2)] upload_put_after [OF assms(1,2)] upload_patch_after
        after_basic split: option.split route.split)
qed

text \<open>The server's step: an operation of its node, a request to its registry, or the end of the process and a
  new start, with any options, on what it left on disk; the upload sessions are gone then.\<close>

inductive server_step :: "'z json_crates_scheme \<Rightarrow> addr_text \<Rightarrow> app \<Rightarrow> app \<Rightarrow> bool" for K A where
  node: "node_step K (app_node a) s \<Longrightarrow> server_step K A a (a\<lparr>app_node := s\<rparr>)"
| request: "net_laws K (net_env E) \<Longrightarrow> no_clash K (concat (chunks (rq_body q))) a
    \<Longrightarrow> server_step K A a (fst (v2_dispatch K E q a))"
| restart: "boot K A B o' (home_after (app_node a) h) = (h', Inr (c, s))
    \<Longrightarrow> server_step K A a \<lparr>app_node = s, app_uploads = []\<rparr>"

lemma server_step_healthy:
  assumes "hex_laws K" "key_laws K" "sha_laws K" "addr_laws A"
  shows "server_step K A a a' \<Longrightarrow> healthy K (app_node a) \<Longrightarrow> healthy K (app_node a')"
proof (induction rule: server_step.induct)
  case (node a s)
  then show ?case using step_healthy [OF assms(1-3)] by simp
next
  case (request E q a)
  obtain a' r where run: "handle_v2 K E q a = (a', r)" by force
  with v2_after [OF assms(1,3,2) request.hyps(1), of q] request.prems request.hyps(2)
  have "healthy K (app_node a')" unfolding after_def by blast
  with run show ?case by (simp add: v2_dispatch_def split: sum.split)
next
  case (restart B o' a h h' c s)
  then show ?case using boot_healthy [OF assms(4)] by simp
qed

lemma server_healthy:
  assumes "hex_laws K" "key_laws K" "sha_laws K" "addr_laws A"
  shows "(server_step K A)\<^sup>*\<^sup>* a a' \<Longrightarrow> healthy K (app_node a) \<Longrightarrow> healthy K (app_node a')"
  by (induction rule: rtranclp_induct) (auto intro: server_step_healthy [OF assms])

section \<open>Properties\<close>

text \<open>C1: No forgery gets in. In every state that the server reaches from a healthy one, by registry requests
  of any client, gossip, requests of peers, synchronisation, pulls, publishing, policy changes, collections and
  restarts in any order and against any peers, each release held under a publisher, a name and a tag is
  for exactly these, and its publisher's key signed it; and each blob entry leads to data with that SHA-256
  digest.\<close>

theorem server_never_forged:
  assumes "hex_laws K" "key_laws K" "sha_laws K" "addr_laws A"
    and "healthy K (app_node a)" "(server_step K A)\<^sup>*\<^sup>* a a'"
  shows "(\<forall>p n t r. release_at K (idx (app_node a')) (p, n, t) = Some r \<longrightarrow>
      slot_of r = (p, n, t) \<and> name_ok n \<and> tag_ok t
      \<and> (\<exists>sig. Option.bind (hex_decode K (signature r)) (try_array 64) = Some sig
           \<and> pk_verify K p (canonical_bytes K (payload r)) sig))
    \<and> (\<forall>d b. digest_ok d \<and> blob_at (idx (app_node a')) d = Some b \<longrightarrow>
        (\<exists>bs. tget (blob_data (app_node a')) (br_hash b) = Some bs \<and> digest_sha256 K bs = d))"
  by (rule healthy_authentic [OF assms(2) server_healthy [OF assms(1-4,6,5)]])


lemma demo_json_net: "net_laws demo_json (net_env demo_http)"
  using demo_json_laws by (auto simp: net_laws_def honest_download_def decodes_digests_def demo_http_def demo_env_def
      demo_json_def net_crates.defs demo_net_def node_crates.defs decode_release_digests)

theorem server_never_forged_witness:
  "\<exists>(a :: app) b bs. blob_at (idx (app_node a)) (digest_sha256 demo_json [3]) = Some b
     \<and> tget (blob_data (app_node a)) (br_hash b) = Some bs \<and> digest_sha256 demo_json bs = digest_sha256 demo_json [3]"
proof -
  let ?q = "\<lparr>rq_method = ''GET'', rq_path = ''_catalog'', rq_query = [], rq_content_type = None, rq_range = None,
      rq_body = \<lparr>chunks = [], broken = False\<rparr>\<rparr> :: http_req"
  let ?a = "\<lparr>app_node = demo_member policy_default, app_uploads = []\<rparr>"
  have empty: "release_at demo_json (idx (demo_member policy_default)) sl = None" for sl
    by (rule demo_member_nothing(1))
  have h: "healthy demo_json (app_node ?a)"
    using demo_json_ok by (simp add: healthy_def empty del: split_paired_All)
  have "no_clash demo_json (concat (chunks (rq_body ?q))) ?a"
    by (simp add: no_clash_def fresh_data_def demo_member_nothing(2)) 
  from server_step.request [OF demo_json_net this]
  have one: "server_step demo_json demo_text ?a (fst (v2_dispatch demo_json demo_http ?q ?a))" .
  have "route_of ''_catalog'' = Some Catalog" by (simp add: route_of_def trim_end_by_def)
  then have still: "fst (v2_dispatch demo_json demo_http ?q ?a) = ?a"
    by (simp add: v2_dispatch_def handle_v2_def Let_def catalog_def split: option.split route.split sum.split)
  have "node_step demo_json (app_node ?a) demo_pushed"
    unfolding demo_pushed_def using node_step.push [of "demo_member policy_default"] by (simp add: demo_member_nothing(2))
  from server_step.node [OF this, where A = demo_text] one
  have run: "(server_step demo_json demo_text)\<^sup>*\<^sup>* ?a (?a\<lparr>app_node := demo_pushed\<rparr>)" unfolding still by simp
  let ?b = "?a\<lparr>app_node := demo_pushed\<rparr>"
  have d: "digest_ok (br_digest demo_config)" "br_digest demo_config = digest_sha256 demo_json [3]"
    using digest_sha256_ok [OF demo_json_laws(1,4)] by (simp_all add: demo_config_def demo_json_same)
  have b: "blob_at (idx (app_node ?b)) (br_digest demo_config) = Some demo_config" using demo_pushed_spec(2) by simp
  from server_never_forged [OF demo_json_laws(1,2,4) demo_text_laws h run, THEN conjunct2, rule_format, OF conjI [OF d(1) b]]
  obtain bs where "tget (blob_data (app_node ?b)) (br_hash demo_config) = Some bs"
    "digest_sha256 demo_json bs = br_digest demo_config" by blast
  with b show ?thesis unfolding d(2) by blast
qed

end
