(* ===== verification/Event_Stream.thy ===== *)
theory Event_Stream
  imports Node_State
begin

text \<open>
  The stream of daemon events: how the daemon sends them (\<^verbatim>\<open>ctl_events\<close> of
  \<^verbatim>\<open>crates/ocid/src/registry.rs\<close>) and how the dashboard takes them apart again (\<^verbatim>\<open>listen_sse\<close> of
  \<^verbatim>\<open>crates/ocitop/src/main.rs\<close>). The bytes of the stream are characters here; the JSON form of an event is
  serde's, and the frame around it is that of the HTTP library: one \<^verbatim>\<open>data:\<close> line and an empty line.
\<close>

section \<open>Text\<close>

definition lf :: char where
  "lf = CHR 0x0A"

text \<open>\<open>str::lines\<close>: a carriage return before the line feed belongs to the line end.\<close>

definition strip_cr :: "string \<Rightarrow> string" where
  "strip_cr s = (if s \<noteq> [] \<and> last s = CHR 0x0D then butlast s else s)"

definition text_lines :: "string \<Rightarrow> string list" where
  "text_lines s = (let ls = split_on lf s in map strip_cr (butlast ls) @ (if last ls = [] then [] else [last ls]))"

text \<open>\<open>str::from_utf8\<close>: the length of the character at the head of some bytes, 0 when there is none.\<close>

definition continuation :: "nat \<Rightarrow> bool" where
  "continuation b \<longleftrightarrow> 0x80 \<le> b \<and> b \<le> 0xBF"

definition second_byte :: "nat \<Rightarrow> nat \<Rightarrow> bool" where
  "second_byte a b \<longleftrightarrow> continuation b \<and> (a = 0xE0 \<longrightarrow> 0xA0 \<le> b) \<and> (a = 0xED \<longrightarrow> b \<le> 0x9F)
     \<and> (a = 0xF0 \<longrightarrow> 0x90 \<le> b) \<and> (a = 0xF4 \<longrightarrow> b \<le> 0x8F)"

definition char_width :: "nat \<Rightarrow> nat" where
  "char_width a = (if a < 0x80 then 1 else if 0xC2 \<le> a \<and> a \<le> 0xDF then 2 else if 0xE0 \<le> a \<and> a \<le> 0xEF then 3
     else if 0xF0 \<le> a \<and> a \<le> 0xF4 then 4 else 0)"

definition head_char :: "nat list \<Rightarrow> nat" where
  "head_char s = (case s of [] \<Rightarrow> 0
     | a # t \<Rightarrow> (let w = char_width a in
         if w = 0 \<or> length t < w - 1 then 0
         else if w = 1 then 1
         else if second_byte a (hd t) \<and> list_all continuation (take (w - 2) (tl t)) then w else 0))"

function utf8 :: "nat list \<Rightarrow> bool" where
  "utf8 s = (if s = [] then True else if head_char s = 0 then False else utf8 (drop (head_char s) s))"
  by pat_completeness auto
termination by (relation "measure length") auto

declare utf8.simps [simp del]

definition utf8_ok :: "string \<Rightarrow> bool" where
  "utf8_ok s = utf8 (map of_char s)"

lemma utf8_Nil [simp]: "utf8 []"
  by (simp add: utf8.simps)

lemma head_char_append:
  assumes "head_char s \<noteq> 0"
  shows "head_char (s @ t) = head_char s \<and> head_char s \<le> length s"
proof -
  obtain a u where s: "s = a # u" using assms by (cases s) (simp_all add: head_char_def)
  have len: "char_width a \<noteq> 0" "char_width a - 1 \<le> length u"
    using assms by (auto simp: s head_char_def Let_def split: if_splits)
  show ?thesis
  proof (cases "char_width a = 1")
    case True
    then show ?thesis by (simp add: s head_char_def)
  next
    case False
    then have "hd (u @ t) = hd u" "take (char_width a - 2) (tl (u @ t)) = take (char_width a - 2) (tl u)"
      using len by (cases u; simp)+
    with assms len False show ?thesis by (simp add: s head_char_def Let_def split: if_splits)
  qed
qed

lemma utf8_append: "utf8 s \<Longrightarrow> utf8 t \<Longrightarrow> utf8 (s @ t)"
proof (induction s rule: utf8.induct)
  case (1 s)
  show ?case
  proof (cases "s = []")
    case False
    then have h: "head_char s \<noteq> 0" and rest: "utf8 (drop (head_char s) s)"
      using "1.prems"(1) utf8.simps [of s] by (auto split: if_splits)
    note a = head_char_append [OF h, of t]
    from "1.IH" [OF False h rest "1.prems"(2)] a h False show ?thesis
      by (subst utf8.simps) simp
  qed (use "1.prems" in simp)
qed

lemma utf8_ok_append: "utf8_ok s \<Longrightarrow> utf8_ok t \<Longrightarrow> utf8_ok (s @ t)"
  by (simp add: utf8_ok_def utf8_append)

lemma utf8_ascii: "list_all (\<lambda>b. b < 0x80) s \<Longrightarrow> utf8 s"
proof (induction s)
  case (Cons a s)
  then have "head_char (a # s) = 1" by (simp add: head_char_def char_width_def)
  with Cons show ?case by (subst utf8.simps) simp
qed simp

section \<open>The sender\<close>

record event_crates =
  event_json :: "daemon_event \<Rightarrow> string"
  event_of_json :: "string \<Rightarrow> daemon_event option"

text \<open>serde reads back an event it wrote, as UTF-8 on one line.\<close>

definition event_laws :: "'z event_crates_scheme \<Rightarrow> daemon_event list \<Rightarrow> bool" where
  "event_laws J es \<longleftrightarrow> (\<forall>e \<in> set es. event_of_json J (event_json J e) = Some e \<and> lf \<notin> set (event_json J e)
     \<and> CHR 0x0D \<notin> set (event_json J e) \<and> utf8_ok (event_json J e))"

definition sse_frame :: "'z event_crates_scheme \<Rightarrow> daemon_event \<Rightarrow> string" where
  "sse_frame J e = ''data: '' @ event_json J e @ [lf, lf]"

text \<open>Between events the server may send a comment to keep the connection alive.\<close>

definition keep_alive :: string where
  "keep_alive = [CHR '':'', lf, lf]"

definition sse_item :: "'z event_crates_scheme \<Rightarrow> daemon_event option \<Rightarrow> string" where
  "sse_item J i = (case i of Some e \<Rightarrow> sse_frame J e | None \<Rightarrow> keep_alive)"

definition sse_stream :: "'z event_crates_scheme \<Rightarrow> daemon_event option list \<Rightarrow> string" where
  "sse_stream J items = concat (map (sse_item J) items)"

fun sent_events :: "daemon_event option list \<Rightarrow> daemon_event list" where
  "sent_events [] = []"
| "sent_events (Some e # items) = e # sent_events items"
| "sent_events (None # items) = sent_events items"

section \<open>The receiver\<close>

text \<open>The buffer up to and with the first empty line, and the rest.\<close>

fun split_frame :: "string \<Rightarrow> (string \<times> string) option" where
  "split_frame (c # d # s) =
     (if c = lf \<and> d = lf then Some ([c, d], s)
      else map_option (\<lambda>(f, r). (c # f, r)) (split_frame (d # s)))"
| "split_frame _ = None"

definition line_event :: "'z event_crates_scheme \<Rightarrow> string \<Rightarrow> daemon_event option" where
  "line_event J line0 =
     (case strip_prefix ''data:'' (trim_start_by is_space line0) of
        None \<Rightarrow> None
      | Some rest \<Rightarrow> event_of_json J (case strip_prefix '' '' rest of Some r \<Rightarrow> r | None \<Rightarrow> rest))"

definition frame_events :: "'z event_crates_scheme \<Rightarrow> string \<Rightarrow> daemon_event list" where
  "frame_events J f = (if utf8_ok f then List.map_filter (line_event J) (text_lines f) else [])"

lemma split_frame_append: "split_frame s = Some (f, r) \<Longrightarrow> split_frame (s @ t) = Some (f, r @ t)"
  by (induction s arbitrary: f rule: split_frame.induct) (auto split: if_splits)

lemma split_frame_length: "split_frame s = Some (f, r) \<Longrightarrow> s = f @ r \<and> f \<noteq> []"
  by (induction s arbitrary: f rule: split_frame.induct) (auto split: if_splits)

text \<open>All frames that are complete, and what is left in the buffer.\<close>

function drain_frames :: "'z event_crates_scheme \<Rightarrow> string \<Rightarrow> daemon_event list \<times> string" where
  "drain_frames J buf = (case split_frame buf of
     None \<Rightarrow> ([], buf)
   | Some (f, rest) \<Rightarrow> (case drain_frames J rest of (es, b) \<Rightarrow> (frame_events J f @ es, b)))"
  by pat_completeness auto
termination
proof (relation "measure (\<lambda>(J, buf). length buf)", goal_cases)
  case (2 J buf x f rest)
  with split_frame_length [of buf f rest] show ?case by auto
qed simp

declare drain_frames.simps [simp del]

text \<open>One chunk of the response: the state is the buffer and the events sent to the user interface.\<close>

definition sse_chunk ::
  "'z event_crates_scheme \<Rightarrow> string \<Rightarrow> string \<times> daemon_event list \<Rightarrow> string \<times> daemon_event list" where
  "sse_chunk J chunk st = (case drain_frames J (fst st @ chunk) of (es, b) \<Rightarrow> (b, snd st @ es))"

definition listen_sse :: "'z event_crates_scheme \<Rightarrow> string list \<Rightarrow> daemon_event list" where
  "listen_sse J chunk_list = snd (fold (sse_chunk J) chunk_list ([], []))"

section \<open>Chunks do not matter\<close>

lemma drain_step:
  "split_frame buf = Some (f, r) \<Longrightarrow> drain_frames J buf
     = (frame_events J f @ fst (drain_frames J r), snd (drain_frames J r))"
  by (subst drain_frames.simps) (simp split: prod.split)

lemma drain_none: "split_frame buf = None \<Longrightarrow> drain_frames J buf = ([], buf)"
  by (subst drain_frames.simps) simp

lemma drain_append:
  "drain_frames J (x @ y) = (case drain_frames J x of (es, b) \<Rightarrow>
     (case drain_frames J (b @ y) of (es', b') \<Rightarrow> (es @ es', b')))"
proof (induction J x rule: drain_frames.induct)
  case (1 J x)
  show ?case
  proof (cases "split_frame x")
    case None
    then show ?thesis by (simp add: drain_none split: prod.split)
  next
    case (Some fr)
    obtain f r where fr: "fr = (f, r)" by (cases fr) simp
    from "1.IH" [OF Some fr [symmetric]] Some show ?thesis
      by (simp add: fr drain_step split_frame_append split: prod.splits)
  qed
qed

lemma drain_rest: "split_frame (snd (drain_frames J x)) = None"
proof (induction J x rule: drain_frames.induct)
  case (1 J x)
  show ?case
  proof (cases "split_frame x")
    case None
    then show ?thesis by (simp add: drain_none)
  next
    case (Some fr)
    obtain f r where fr: "fr = (f, r)" by (cases fr) simp
    from "1.IH" [OF Some fr [symmetric]] Some show ?thesis by (simp add: fr drain_step)
  qed
qed

lemma fold_chunks:
  "snd (drain_frames J b) = b \<Longrightarrow> fst (drain_frames J b) = []
     \<Longrightarrow> fold (sse_chunk J) cs (b, es) = (case drain_frames J (b @ concat cs) of (es', b') \<Rightarrow> (b', es @ es'))"
proof (induction cs arbitrary: b es)
  case Nil
  then show ?case by (cases "drain_frames J b") simp
next
  case (Cons c cs)
  obtain es1 b1 where one: "drain_frames J (b @ c) = (es1, b1)" by force
  have "split_frame b1 = None" using drain_rest [of J "b @ c"] one by simp
  then have rest: "snd (drain_frames J b1) = b1" "fst (drain_frames J b1) = []" by (simp_all add: drain_none)
  have "drain_frames J (b @ c @ concat cs) = (case drain_frames J (b1 @ concat cs) of (es', b') \<Rightarrow> (es1 @ es', b'))"
    using drain_append [of J "b @ c" "concat cs"] one by simp
  with Cons.IH [OF rest, of "es @ es1"] one show ?case
    by (simp add: sse_chunk_def split: prod.split)
qed

lemma listen_concat: "listen_sse J cs = fst (drain_frames J (concat cs))"
proof -
  have "snd (drain_frames J []) = []" "fst (drain_frames J []) = []" by (simp_all add: drain_none)
  from fold_chunks [OF this, of cs "[]"] show ?thesis by (simp add: listen_sse_def split: prod.split)
qed


section \<open>Frames\<close>

lemma split_frame_body: "lf \<notin> set b \<Longrightarrow> split_frame (b @ lf # lf # r) = Some (b @ [lf, lf], r)"
proof (induction b)
  case (Cons c b)
  obtain d t where t: "b @ lf # lf # r = d # t" by (cases b) simp_all
  from Cons have "c \<noteq> lf" "split_frame (b @ lf # lf # r) = Some (b @ [lf, lf], r)" by auto
  with t show ?case by simp
qed simp

lemma lines_body: "lf \<notin> set b \<Longrightarrow> text_lines (b @ [lf, lf]) = [strip_cr b, []]"
proof -
  assume "lf \<notin> set b"
  then have "split_on lf (b @ lf # [lf]) = [b, [], []]"
    unfolding split_on_append_sep by (simp add: split_on_no_sep)
  then show ?thesis by (simp add: text_lines_def strip_cr_def)
qed

lemma utf8_plain: "utf8_ok ''data: ''" "utf8_ok [lf, lf]" "utf8_ok keep_alive"
  unfolding utf8_ok_def by (rule utf8_ascii, simp add: lf_def keep_alive_def)+

lemma no_event: "line_event J [] = None" "line_event J (CHR '':'' # s) = None"
  by (simp_all add: line_event_def strip_prefix_def trim_start_by_def is_space_def)

lemma frame_event:
  assumes "event_laws J [e]"
  shows "frame_events J (sse_frame J e) = [e]"
proof -
  let ?j = "event_json J e" and ?b = "''data: '' @ event_json J e"
  have j: "event_of_json J ?j = Some e" "lf \<notin> set ?j" "CHR 0x0D \<notin> set ?j" "utf8_ok ?j"
    using assms by (simp_all add: event_laws_def)
  have "utf8_ok (sse_frame J e)"
    unfolding sse_frame_def by (intro utf8_ok_append utf8_plain j(4))
  moreover have "text_lines (sse_frame J e) = [strip_cr ?b, []]"
    unfolding sse_frame_def using lines_body [of ?b] j(2) by (simp add: lf_def)
  moreover have "strip_cr ?b = ?b"
    using j(3) last_in_set [of ?b] by (auto simp: strip_cr_def)
  moreover have "line_event J ?b = Some e"
    using j(1) by (simp add: line_event_def trim_start_by_def is_space_def strip_prefix_def)
  ultimately show ?thesis by (simp add: frame_events_def no_event map_filter_simps)
qed

lemma keep_alive_events: "frame_events J keep_alive = []"
proof -
  have "text_lines keep_alive = [strip_cr [CHR '':''], []]"
    unfolding keep_alive_def using lines_body [of "[CHR '':'']"] by (simp add: lf_def)
  then show ?thesis by (simp add: frame_events_def strip_cr_def no_event map_filter_simps)
qed

lemma item_head:
  assumes "event_laws J (case i of Some e \<Rightarrow> [e] | None \<Rightarrow> [])"
  shows "split_frame (sse_item J i @ s) = Some (sse_item J i, s)"
    "frame_events J (sse_item J i) = (case i of Some e \<Rightarrow> [e] | None \<Rightarrow> [])"
proof -
  have "split_frame (sse_frame J e @ s) = Some (sse_frame J e, s)" if "event_laws J [e]" for e
    using split_frame_body [of "''data: '' @ event_json J e" s] that
    by (simp add: sse_frame_def event_laws_def lf_def)
  moreover have "split_frame (keep_alive @ s) = Some (keep_alive, s)"
    using split_frame_body [of "[CHR '':'']" s] by (simp add: keep_alive_def lf_def)
  ultimately show "split_frame (sse_item J i @ s) = Some (sse_item J i, s)"
    using assms by (cases i) (simp_all add: sse_item_def)
  show "frame_events J (sse_item J i) = (case i of Some e \<Rightarrow> [e] | None \<Rightarrow> [])"
    using assms frame_event keep_alive_events by (cases i) (simp_all add: sse_item_def)
qed

lemma drain_stream:
  assumes "event_laws J (sent_events items)"
  shows "drain_frames J (sse_stream J items) = (sent_events items, [])"
  using assms
proof (induction items)
  case Nil
  then show ?case by (simp add: sse_stream_def drain_none)
next
  case (Cons i items)
  have i: "event_laws J (case i of Some e \<Rightarrow> [e] | None \<Rightarrow> [])" and rest: "event_laws J (sent_events items)"
    using Cons.prems by (cases i; simp add: event_laws_def)+
  have "sse_stream J (i # items) = sse_item J i @ sse_stream J items" by (simp add: sse_stream_def)
  with item_head [OF i] Cons.IH [OF rest] show ?case
    by (cases i) (simp_all add: drain_step)
qed

section \<open>Properties\<close>

text \<open>C16: The events arrive as they were sent. However the network cuts the stream into chunks, in the middle of a frame or
  of a character too, the dashboard receives exactly the events the daemon sent on the connection, in their order,
  whatever comments are between them.\<close>

theorem events_arrive:
  assumes "event_laws J (sent_events items)" "concat chunk_list = sse_stream J items"
  shows "listen_sse J chunk_list = sent_events items"
  by (simp add: listen_concat assms(2) drain_stream [OF assms(1)])

definition demo_events :: event_crates where
  "demo_events = \<lparr>event_json = (\<lambda>e. ''{}''), event_of_json = (\<lambda>s. if s = ''{}'' then Some (PeerChange (PublicKey 7) True) else None)\<rparr>"

theorem events_arrive_witness:
  "listen_sse demo_events [''da'', ''ta: {}'' @ [lf], [lf, CHR '':'', lf], [lf] @ ''data: {}'' @ [lf, lf]]
     = [PeerChange (PublicKey 7) True, PeerChange (PublicKey 7) True]"
proof -
  let ?e = "PeerChange (PublicKey 7) True"
  have "utf8_ok ''{}''" unfolding utf8_ok_def by (rule utf8_ascii) simp
  then have laws: "event_laws demo_events (sent_events [Some ?e, None, Some ?e])"
    by (simp add: event_laws_def demo_events_def lf_def)
  have "concat [''da'', ''ta: {}'' @ [lf], [lf, CHR '':'', lf], [lf] @ ''data: {}'' @ [lf, lf]]
      = sse_stream demo_events [Some ?e, None, Some ?e]"
    by (simp add: sse_stream_def sse_item_def sse_frame_def keep_alive_def demo_events_def)
  from events_arrive [OF laws this] show ?thesis by simp
qed

end
