(* ===== verification/Texts.thy ===== *)
theory Texts
  imports Ocid_Prelude
begin

text \<open>
  The texts that the command line (\<^verbatim>\<open>crates/ocictl/src/main.rs\<close>) and the dashboard
  (\<^verbatim>\<open>crates/ocitop/src/main.rs\<close>) have in common: sizes, quoted strings, the ellipsis.
\<close>

definition ellipsis :: string where
  "ellipsis = [CHR 0xE2, CHR 0x80, CHR 0xA6]"

definition em_dash :: string where
  "em_dash = [CHR 0xE2, CHR 0x80, CHR 0x94]"

text \<open>A \<open>u64\<close> as a double, rounded to even; scaled by powers of two it stays exact.\<close>

definition round_even :: "nat \<Rightarrow> nat \<Rightarrow> nat" where
  "round_even n d = (let q = n div d; r = n mod d in if 2 * r > d \<or> (2 * r = d \<and> odd q) then q + 1 else q)"

fun bit_len :: "nat \<Rightarrow> nat" where
  "bit_len n = (if n = 0 then 0 else Suc (bit_len (n div 2)))"

declare bit_len.simps [simp del]

definition to_double :: "nat \<Rightarrow> nat" where
  "to_double n = (let k = bit_len n - 53 in round_even n (2 ^ k) * 2 ^ k)"

fun unit_of :: "nat \<Rightarrow> nat \<Rightarrow> string list \<Rightarrow> nat \<times> string" where
  "unit_of v d [] = (d, [])"
| "unit_of v d [u] = (d, u)"
| "unit_of v d (u # us) = (if v \<ge> 1024 * d then unit_of v (1024 * d) us else (d, u))"

definition units :: "string list" where
  "units = [''B'', ''KiB'', ''MiB'', ''GiB'', ''TiB'']"

definition human_bytes :: "u64 \<Rightarrow> string" where
  "human_bytes b =
     (let v = to_double (unat b); (d, u) = unit_of v 1 units
      in if d = 1 then show_nat (unat b) @ '' B''
         else (let tenths = round_even (10 * v) d
               in show_nat (tenths div 10) @ ''.'' @ show_nat (tenths mod 10) @ '' '' @ u))"

text \<open>\<open>{:?}\<close> of a string of printable characters.\<close>

definition debug_text :: "string \<Rightarrow> string" where
  "debug_text s = [CHR 0x22] @ concat (map (\<lambda>c. if c \<in> {CHR 0x22, CHR 0x5C} then [CHR 0x5C, c] else [c]) s) @ [CHR 0x22]"

end
