(* ===== verification/Top.thy ===== *)
theory Top
  imports Server Boot Event_Stream Texts
begin

text \<open>
  The terminal dashboard (\<^verbatim>\<open>crates/ocitop/src/main.rs\<close>): its state, the daemon's events in its log, the policy
  actions, the keys and one turn of its main loop, with the policy column and the suggested pull command. The
  frames it draws are the next theory. A key gives an ASCII character; strings are bytes, so the arrows and
  the ellipsis are written as such. What the daemon answers and the clocks are parameters of each turn.
\<close>

section \<open>State\<close>

datatype tab = Images | Peers | Events

definition next_tab :: "tab \<Rightarrow> tab" where
  "next_tab t = (case t of Images \<Rightarrow> Peers | Peers \<Rightarrow> Events | Events \<Rightarrow> Images)"

datatype modal =
    No_modal
  | Confirm_gc bool
  | Confirm_delete string
  | Seed_prompt string string
  | Notice string nat

datatype color = Blue | Green | Light_green | Yellow | Cyan | Red | Dark_gray | Gray | Magenta

record log_entry =
  le_time :: string
  le_kind :: string
  le_msg :: string
  le_color :: color

text \<open>What the dashboard asks of the daemon, besides reading its state.\<close>

datatype top_request = Gc_request gc_req | Rm_request string bool | Sync_request | Reload_request

record top =
  top_policy :: policy
  top_status :: "daemon_status option"
  top_releases :: "release_info list"
  top_peers :: "peer_info list"
  top_images :: "nat option"
  top_peer_rows :: "nat option"
  top_tab :: tab
  top_modal :: modal
  top_log :: "log_entry list"
  top_last_poll :: nat
  top_quit :: bool
  top_file :: "toml stored"
  top_sent :: "top_request list"

text \<open>What one turn sees: the monotonic clock in milliseconds, the local time, the texts of errors, the answers of
  the daemon, where \<open>None\<close> and \<open>Inl\<close> are a failed request, and whether \<^verbatim>\<open>policy.toml\<close> can be written.\<close>

record top_env =
  te_now :: nat
  te_clock :: string
  te_show_err :: "err \<Rightarrow> string"
  te_status :: "daemon_status option"
  te_releases :: "release_info list option"
  te_peers :: "peer_info list option"
  te_sync :: "string + nat"
  te_gc :: "string + gc_report"
  te_rm :: "string + rm_resp"
  te_save :: bool

definition poll_interval :: nat where
  "poll_interval = 2000"

definition notice_time :: nat where
  "notice_time = 3000"

definition log_cap :: nat where
  "log_cap = 200"

section \<open>Texts\<close>

definition arrow_out :: string where
  "arrow_out = [CHR 0xE2, CHR 0x86, CHR 0x92]"

definition arrow_in :: string where
  "arrow_in = [CHR 0xE2, CHR 0x86, CHR 0x90]"

definition middle_dot :: string where
  "middle_dot = [CHR 0xC2, CHR 0xB7]"

definition short :: "'z crates_scheme \<Rightarrow> public_key \<Rightarrow> string" where
  "short K p = (let s = pk_display K p in take (min (length s) 10) s @ ellipsis)"

section \<open>The lists\<close>

definition clamp :: "nat option \<Rightarrow> nat \<Rightarrow> nat option" where
  "clamp sel len =
     (if len = 0 then None
      else case sel of None \<Rightarrow> Some 0 | Some i \<Rightarrow> if i \<ge> len then Some (len - 1) else Some i)"

definition top_poll :: "top_env \<Rightarrow> top \<Rightarrow> top" where
  "top_poll E a =
     (let st = (case te_status E of Some s \<Rightarrow> Some s | None \<Rightarrow> top_status a);
          rs = (case te_releases E of Some r \<Rightarrow> r | None \<Rightarrow> top_releases a);
          ps = (case te_peers E of Some p \<Rightarrow> p | None \<Rightarrow> top_peers a);
          pol = (case load_file policy_of_toml policy_default (top_file a) of Inr p \<Rightarrow> p | Inl _ \<Rightarrow> top_policy a)
      in a\<lparr>top_status := st, top_releases := rs, top_peers := ps, top_policy := pol,
           top_images := clamp (top_images a) (length rs), top_peer_rows := clamp (top_peer_rows a) (length ps),
           top_last_poll := te_now E\<rparr>)"

definition selected :: "top \<Rightarrow> release_info option" where
  "selected a = Option.bind (top_images a) (\<lambda>i. if i < length (top_releases a) then Some (top_releases a ! i) else None)"

definition move_to :: "int \<Rightarrow> nat option \<Rightarrow> nat \<Rightarrow> nat option" where
  "move_to delta sel len =
     (if len = 0 then sel
      else Some (nat ((int (case sel of Some i \<Rightarrow> i | None \<Rightarrow> 0) + delta) mod int len)))"

definition move_selection :: "int \<Rightarrow> top \<Rightarrow> top" where
  "move_selection delta a = (case top_tab a of
     Images \<Rightarrow> a\<lparr>top_images := move_to delta (top_images a) (length (top_releases a))\<rparr>
   | Peers \<Rightarrow> a\<lparr>top_peer_rows := move_to delta (top_peer_rows a) (length (top_peers a))\<rparr>
   | Events \<Rightarrow> a)"

section \<open>The log\<close>

definition push_log :: "top_env \<Rightarrow> string \<Rightarrow> string \<Rightarrow> color \<Rightarrow> top \<Rightarrow> top" where
  "push_log E kind msg c a =
     (let old = (if length (top_log a) \<ge> log_cap then butlast (top_log a) else top_log a)
      in a\<lparr>top_log := \<lparr>le_time = te_clock E, le_kind = kind, le_msg = msg, le_color = c\<rparr> # old\<rparr>)"

definition report :: "top_env \<Rightarrow> string \<Rightarrow> string \<Rightarrow> color \<Rightarrow> top \<Rightarrow> top" where
  "report E kind msg c a = push_log E kind msg c (a\<lparr>top_modal := Notice msg (te_now E)\<rparr>)"

definition of_release :: "'z crates_scheme \<Rightarrow> public_key \<Rightarrow> string \<Rightarrow> string \<Rightarrow> string" where
  "of_release K p n t = short K p @ ''/'' @ n @ '':'' @ t"

text \<open>\<open>(bytes_done * 100).checked_div(bytes_total)\<close>, with the product of the release build.\<close>

definition percent :: "u64 \<Rightarrow> u64 \<Rightarrow> u64" where
  "percent bytes total_bytes = (if total_bytes = 0 then 100 else (bytes * 100) div total_bytes)"

definition on_event :: "'z crates_scheme \<Rightarrow> top_env \<Rightarrow> daemon_event \<Rightarrow> top \<Rightarrow> top" where
  "on_event K E ev a = (case ev of
     Gossip_event p n t outbound \<Rightarrow>
       push_log E ''GOSSIP'' ((if outbound then arrow_out else arrow_in) @ '' '' @ of_release K p n t)
         (if outbound then Blue else Green) a
   | ReleaseSaved p n t blobs \<Rightarrow>
       push_log E ''SAVED'' (of_release K p n t @ '' ('' @ show_nat blobs @ '' blobs)'') Light_green a
   | Pruned_event p n t reason \<Rightarrow>
       push_log E ''PRUNE'' (of_release K p n t @ '' ('' @ reason @ '')'') Yellow a
   | PullProgress p n t bd bt yd yt \<Rightarrow>
       push_log E ''PULL''
         (of_release K p n t @ '' '' @ show_nat bd @ ''/'' @ show_nat bt @ '' blobs '' @ middle_dot @ '' ''
          @ human_bytes yd @ '' / '' @ human_bytes yt @ '' ('' @ show_u64 (percent yd yt) @ ''%)'') Cyan a
   | FetchFailed p n t e \<Rightarrow>
       push_log E ''FAIL'' (of_release K p n t @ '' '' @ em_dash @ '' '' @ te_show_err E e) Red a
   | PeerChange p connected \<Rightarrow>
       push_log E ''PEER'' (short K p @ '' '' @ (if connected then ''connected'' else ''disconnected''))
         (if connected then Cyan else Dark_gray) a
   | HttpRequest m path st \<Rightarrow>
       push_log E ''HTTP'' (m @ '' '' @ path @ '' '' @ arrow_out @ '' '' @ show_nat st)
         (if st < 400 then Gray else Red) a)"

section \<open>Actions\<close>

definition sent :: "top_request \<Rightarrow> top \<Rightarrow> top" where
  "sent q a = a\<lparr>top_sent := top_sent a @ [q]\<rparr>"

text \<open>Save the policy, ask the daemon to reload it, and read everything again; the errors are dropped.\<close>

definition top_reload :: "top_env \<Rightarrow> top \<Rightarrow> top" where
  "top_reload E a =
     (let f = fst (save_file policy_to_toml (te_save E) (top_policy a) (top_file a))
      in top_poll E (sent Reload_request (a\<lparr>top_file := f\<rparr>)))"

definition top_sync :: "top_env \<Rightarrow> top \<Rightarrow> top" where
  "top_sync E a0 =
     (let a = sent Sync_request a0
      in top_poll E (case te_sync E of
           Inr n \<Rightarrow> report E ''SYNC'' (''synced with '' @ show_nat n @ '' peer(s)'') Green a
         | Inl e \<Rightarrow> report E ''ERROR'' (''sync failed: '' @ e) Red a))"

definition top_gc :: "top_env \<Rightarrow> bool \<Rightarrow> top \<Rightarrow> top" where
  "top_gc E force a0 =
     (let a = sent (Gc_request \<lparr>gc_dry = False, gc_force = force\<rparr>) a0
      in top_poll E (case te_gc E of
           Inr r \<Rightarrow> report E ''GC'' (''removed '' @ show_nat (length (rep_releases r)) @ '' release(s), ''
             @ show_nat (rep_blobs r) @ '' blob(s), '' @ human_bytes (rep_bytes r) @ '' freed'') Green a
         | Inl e \<Rightarrow> report E ''ERROR'' (''gc failed: '' @ e) Red a))"

definition top_delete :: "top_env \<Rightarrow> string \<Rightarrow> top \<Rightarrow> top" where
  "top_delete E rf a0 =
     (let a = sent (Rm_request rf False) a0
      in top_poll E (case te_rm E of
           Inr r \<Rightarrow> report E ''DELETE'' (''removed '' @ join_with '', '' (rm_removed r)
             @ (if still_wanted r then '' (policy still wants it; will be re-fetched)'' else [])) Red a
         | Inl e \<Rightarrow> report E ''ERROR'' (''delete failed: '' @ e) Red a))"

definition release_ref :: "'z crates_scheme \<Rightarrow> release_info \<Rightarrow> string" where
  "release_ref K r = (let s = ri_summary r in pk_display K (sum_publisher s) @ ''/'' @ sum_name s @ '':'' @ sum_tag s)"

text \<open>The selected release unless it is the node's own.\<close>

definition selected_foreign :: "top_env \<Rightarrow> top \<Rightarrow> top \<times> release_info option" where
  "selected_foreign E a = (case selected a of
     None \<Rightarrow> (a, None)
   | Some r \<Rightarrow>
       if ri_mine r then (report E ''POLICY'' ''own release: always kept, no policy needed'' Yellow a, None)
       else (a, Some r))"

text \<open>\<open>let _ = policy.change()\<close>: the policy changed, or as it was when the change is refused.\<close>

definition try_change :: "(policy \<Rightarrow> (policy \<times> bool) result) \<Rightarrow> top \<Rightarrow> top" where
  "try_change f a = (case f (top_policy a) of Inr (p, _) \<Rightarrow> a\<lparr>top_policy := p\<rparr> | Inl _ \<Rightarrow> a)"

definition toggle_pin :: "'z crates_scheme \<Rightarrow> top_env \<Rightarrow> top \<Rightarrow> top" where
  "toggle_pin K E a0 = (case selected_foreign E a0 of
     (a, None) \<Rightarrow> a
   | (a, Some r) \<Rightarrow>
       (let s = ri_summary r; rf = release_ref K r
        in top_reload E
             (if is_pinned K (top_policy a) (sum_publisher s) (sum_name s) (sum_tag s)
              then report E ''PIN'' (''unpinned '' @ rf) Yellow (try_change (remove_pin K rf) a)
              else report E ''PIN'' (''pinned '' @ rf) Magenta (try_change (add_pin K rf) a))))"

definition top_follow :: "'z crates_scheme \<Rightarrow> top_env \<Rightarrow> top \<Rightarrow> top" where
  "top_follow K E a0 = (case selected_foreign E a0 of
     (a, None) \<Rightarrow> a
   | (a, Some r) \<Rightarrow>
       (let p = sum_publisher (ri_summary r); change = add_follow K (pk_display K p) Latest;
            msg = (case change (top_policy a) of
              Inr (_, True) \<Rightarrow> ''following '' @ short K p @ '' (latest)''
            | _ \<Rightarrow> ''already following '' @ short K p)
        in top_reload E (report E ''FOLLOW'' msg Cyan (try_change change a))))"

definition top_seed :: "'z crates_scheme \<Rightarrow> top_env \<Rightarrow> string \<Rightarrow> string \<Rightarrow> top \<Rightarrow> top" where
  "top_seed K E target input a = (case mode_from_str (trim input) of
     Inl e \<Rightarrow> report E ''ERROR'' (''bad mode '' @ debug_text input @ '': '' @ te_show_err E e) Red a
   | Inr m \<Rightarrow>
       top_reload E (case add_seed K target m (top_policy a) of
         Inr (p, _) \<Rightarrow> report E ''SEED'' (''seeding '' @ target @ '' ('' @ show_mode m @ '')'') Cyan (a\<lparr>top_policy := p\<rparr>)
       | Inl e \<Rightarrow> report E ''ERROR'' (''seed failed: '' @ te_show_err E e) Red a))"

section \<open>Keys\<close>

datatype key_code = Key_char char | Key_tab | Key_down | Key_up | Key_esc | Key_enter | Key_backspace | Key_other

record key_event =
  ke_code :: key_code
  ke_control :: bool

definition is_yes :: "key_event \<Rightarrow> bool" where
  "is_yes k \<longleftrightarrow> ke_code k \<in> {Key_char CHR ''y'', Key_char CHR ''Y''}"

text \<open>The keys while no modal is open; the first arm that fits is taken.\<close>

definition on_plain_key :: "'z crates_scheme \<Rightarrow> top_env \<Rightarrow> key_event \<Rightarrow> top \<Rightarrow> top" where
  "on_plain_key K E k a =
     (let c = ke_code k in
      if c = Key_char CHR ''q'' then a\<lparr>top_quit := True\<rparr>
      else if c = Key_char CHR ''c'' \<and> ke_control k then a\<lparr>top_quit := True\<rparr>
      else if c = Key_tab then a\<lparr>top_tab := next_tab (top_tab a)\<rparr>
      else if c = Key_char CHR ''1'' then a\<lparr>top_tab := Images\<rparr>
      else if c = Key_char CHR ''2'' then a\<lparr>top_tab := Peers\<rparr>
      else if c = Key_char CHR ''3'' then a\<lparr>top_tab := Events\<rparr>
      else if c = Key_down \<or> c = Key_char CHR ''j'' then move_selection 1 a
      else if c = Key_up \<or> c = Key_char CHR ''k'' then move_selection (- 1) a
      else if c = Key_char CHR ''r'' then top_poll E a
      else if c = Key_char CHR ''y'' then top_sync E a
      else if c = Key_char CHR ''g'' then a\<lparr>top_modal := Confirm_gc False\<rparr>
      else if c = Key_char CHR ''G'' then a\<lparr>top_modal := Confirm_gc True\<rparr>
      else if c = Key_char CHR ''p'' then toggle_pin K E a
      else if c = Key_char CHR ''f'' then top_follow K E a
      else if c = Key_char CHR ''s'' then
        (case selected_foreign E a of
           (a', None) \<Rightarrow> a'
         | (a', Some r) \<Rightarrow> (let s = ri_summary r in
             a'\<lparr>top_modal := Seed_prompt (pk_display K (sum_publisher s) @ ''/'' @ sum_name s) ''latest''\<rparr>))
      else if c = Key_char CHR ''d'' then
        (case selected a of
           None \<Rightarrow> a
         | Some r \<Rightarrow> a\<lparr>top_modal := Confirm_delete (release_ref K r)\<rparr>)
      else a)"

definition on_prompt_key :: "'z crates_scheme \<Rightarrow> top_env \<Rightarrow> string \<Rightarrow> string \<Rightarrow> key_event \<Rightarrow> top \<Rightarrow> top" where
  "on_prompt_key K E target input k a =
     (if ke_control k \<and> ke_code k \<in> {Key_char CHR ''c'', Key_char CHR ''d''} then a\<lparr>top_modal := No_modal\<rparr>
      else case ke_code k of
        Key_esc \<Rightarrow> a\<lparr>top_modal := No_modal\<rparr>
      | Key_enter \<Rightarrow> top_seed K E target input (a\<lparr>top_modal := No_modal\<rparr>)
      | Key_backspace \<Rightarrow> a\<lparr>top_modal := Seed_prompt target (butlast input)\<rparr>
      | Key_char c \<Rightarrow> a\<lparr>top_modal := Seed_prompt target (input @ [c])\<rparr>
      | _ \<Rightarrow> a)"

definition on_key :: "'z crates_scheme \<Rightarrow> top_env \<Rightarrow> key_event \<Rightarrow> top \<Rightarrow> top" where
  "on_key K E k a = (case top_modal a of
     Confirm_gc force \<Rightarrow>
       (let a' = a\<lparr>top_modal := No_modal\<rparr> in if is_yes k then top_gc E force a' else a')
   | Confirm_delete rf \<Rightarrow>
       (let a' = a\<lparr>top_modal := No_modal\<rparr> in if is_yes k then top_delete E rf a' else a')
   | Seed_prompt target input \<Rightarrow> on_prompt_key K E target input k a
   | Notice _ _ \<Rightarrow> a\<lparr>top_modal := No_modal\<rparr>
   | No_modal \<Rightarrow> on_plain_key K E k a)"

section \<open>The main loop\<close>

definition top_new :: "top_env \<Rightarrow> toml stored \<Rightarrow> top" where
  "top_new E f = top_poll E
     \<lparr>top_policy = (case load_file policy_of_toml policy_default f of Inr p \<Rightarrow> p | Inl _ \<Rightarrow> policy_default),
      top_status = None, top_releases = [], top_peers = [], top_images = None, top_peer_rows = None,
      top_tab = Images, top_modal = No_modal, top_log = [], top_last_poll = te_now E, top_quit = False,
      top_file = f, top_sent = []\<rparr>"

record turn =
  tn_env :: top_env
  tn_events :: "daemon_event list"
  tn_key :: "key_event option"

text \<open>A turn: the events that have come, a poll when it is due, a notice that has been there long enough; then the key
  that was pressed, if any.\<close>

definition before_key :: "'z crates_scheme \<Rightarrow> turn \<Rightarrow> top \<Rightarrow> top" where
  "before_key K t a =
     (let E = tn_env t;
          a1 = fold (on_event K E) (tn_events t) a;
          a2 = (if te_now E - top_last_poll a1 \<ge> poll_interval then top_poll E a1 else a1)
      in case top_modal a2 of
           Notice _ since \<Rightarrow> if te_now E - since > notice_time then a2\<lparr>top_modal := No_modal\<rparr> else a2
         | _ \<Rightarrow> a2)"

definition top_turn :: "'z crates_scheme \<Rightarrow> turn \<Rightarrow> top \<Rightarrow> top" where
  "top_turn K t a = (let b = before_key K t a in case tn_key t of None \<Rightarrow> b | Some k \<Rightarrow> on_key K (tn_env t) k b)"

fun top_run :: "'z crates_scheme \<Rightarrow> turn list \<Rightarrow> top \<Rightarrow> top" where
  "top_run K [] a = a"
| "top_run K (t # ts) a = (if top_quit a then a else top_run K ts (top_turn K t a))"

section \<open>Texts of the display\<close>

text \<open>The policy column of the image list.\<close>

definition rule_text :: "'z crates_scheme \<Rightarrow> policy \<Rightarrow> release_info \<Rightarrow> string" where
  "rule_text K pol r =
     (let s = ri_summary r in
      if ri_mine r then ''own''
      else if is_pinned K pol (sum_publisher s) (sum_name s) (sum_tag s) then ''pin''
      else window_describe (policy_window K pol (sum_publisher s) (sum_name s)))"

definition pull_verify_suffix :: "bool \<Rightarrow> bool \<Rightarrow> bool \<Rightarrow> string" where
  "pull_verify_suffix https ca_installed loopback =
     (if https then (if ca_installed then [] else '' --tls-verify=false'')
      else if loopback then [] else '' --tls-verify=false'')"

definition podman_pull_cmd :: "'z addr_text_scheme \<Rightarrow> config \<Rightarrow> bool \<Rightarrow> string \<Rightarrow> string" where
  "podman_pull_cmd A c ca_installed rf =
     ''podman pull'' @ pull_verify_suffix (strip_prefix ''https://'' (client_base A c) \<noteq> None) ca_installed
         (is_loopback (sa_ip (cfg_listen c)))
     @ '' '' @ show_addr A (cfg_listen c) @ ''/'' @ rf"


section \<open>The lists and the log\<close>

definition in_list :: "nat option \<Rightarrow> 'a list \<Rightarrow> bool" where
  "in_list sel xs \<longleftrightarrow> (case sel of None \<Rightarrow> xs = [] | Some i \<Rightarrow> i < length xs)"

definition top_ok :: "top \<Rightarrow> bool" where
  "top_ok a \<longleftrightarrow> in_list (top_images a) (top_releases a) \<and> in_list (top_peer_rows a) (top_peers a)
     \<and> length (top_log a) \<le> log_cap"

lemma clamp_in: "in_list (clamp sel (length xs)) xs"
  by (auto simp: in_list_def clamp_def split: option.split)

lemma move_in:
  assumes "in_list sel xs"
  shows "in_list (move_to d sel (length xs)) xs"
proof (cases "xs = []")
  case False
  then have "0 \<le> x mod int (length xs)" "x mod int (length xs) < int (length xs)" for x by simp_all
  then show ?thesis using False by (simp add: in_list_def move_to_def nat_less_iff)
qed (use assms in \<open>simp add: move_to_def\<close>)

lemma poll_ok: "length (top_log a) \<le> log_cap \<Longrightarrow> top_ok (top_poll E a)"
  by (simp add: top_ok_def top_poll_def Let_def clamp_in)

lemma push_ok: "top_ok a \<Longrightarrow> top_ok (push_log E kind msg c a)"
  by (auto simp: top_ok_def push_log_def Let_def log_cap_def)

lemma report_ok: "top_ok a \<Longrightarrow> top_ok (report E kind msg c a)"
  unfolding report_def by (rule push_ok) (simp add: top_ok_def)

lemma okD: "top_ok a \<Longrightarrow> length (top_log a) \<le> log_cap"
  by (simp add: top_ok_def)

lemma update_ok: "top_ok a \<Longrightarrow> top_ok (a\<lparr>top_modal := m\<rparr>)" "top_ok a \<Longrightarrow> top_ok (a\<lparr>top_tab := t\<rparr>)"
  "top_ok a \<Longrightarrow> top_ok (a\<lparr>top_quit := q\<rparr>)" "top_ok a \<Longrightarrow> top_ok (a\<lparr>top_policy := p\<rparr>)"
  "top_ok a \<Longrightarrow> top_ok (a\<lparr>top_file := f\<rparr>)" "top_ok a \<Longrightarrow> top_ok (sent r a)"
  by (simp_all add: top_ok_def sent_def)

lemmas ok_intros = poll_ok [OF okD] push_ok report_ok update_ok

lemma event_ok: "top_ok a \<Longrightarrow> top_ok (on_event K E ev a)"
  by (cases ev) (simp_all add: on_event_def push_ok)

lemma foreign_ok: "top_ok a \<Longrightarrow> top_ok (fst (selected_foreign E a))"
  by (auto simp: selected_foreign_def intro: ok_intros split: option.split)

lemma change_ok: "top_ok a \<Longrightarrow> top_ok (try_change f a)"
  by (auto simp: try_change_def intro: ok_intros split: sum.split)

lemma reload_ok: "top_ok a \<Longrightarrow> top_ok (top_reload E a)"
  unfolding top_reload_def Let_def by (intro ok_intros)

lemma actions_ok:
  assumes "top_ok a"
  shows "top_ok (top_sync E a)" "top_ok (top_gc E force a)" "top_ok (top_delete E rf a)" "top_ok (toggle_pin K E a)"
    "top_ok (top_follow K E a)" "top_ok (top_seed K E target input a)"
proof -
  note f = foreign_ok [OF assms, of E]
  show "top_ok (top_sync E a)" "top_ok (top_gc E force a)" "top_ok (top_delete E rf a)"
    unfolding top_sync_def top_gc_def top_delete_def Let_def
    using assms by (auto intro!: ok_intros split: sum.split)
  show "top_ok (toggle_pin K E a)" "top_ok (top_follow K E a)"
    unfolding toggle_pin_def top_follow_def Let_def
    using f by (auto intro!: reload_ok report_ok change_ok split: prod.split option.split)
  show "top_ok (top_seed K E target input a)"
    unfolding top_seed_def
    using assms by (auto intro!: reload_ok report_ok update_ok split: sum.split)
qed

lemma key_ok:
  assumes "top_ok a"
  shows "top_ok (on_key K E k a)"
proof -
  have move: "top_ok (move_selection d a)" for d
    using assms by (auto simp: top_ok_def move_selection_def move_in split: tab.split)
  have foreign: "top_ok b" if "selected_foreign E a = (b, r)" for b r
    using foreign_ok [OF assms, of E] that by simp
  have branch: "top_ok x \<Longrightarrow> top_ok y \<Longrightarrow> top_ok (if c then x else y)" for c x y by simp
  have prompt_s: "top_ok (case selected_foreign E a of (a', None) \<Rightarrow> a' | (a', Some r) \<Rightarrow> a'\<lparr>top_modal := m r\<rparr>)" for m
    using foreign by (auto intro: update_ok split: prod.split option.split)
  have prompt_d: "top_ok (case selected a of None \<Rightarrow> a | Some r \<Rightarrow> a\<lparr>top_modal := m r\<rparr>)" for m
    using assms by (auto intro: update_ok split: option.split)
  have plain: "top_ok (on_plain_key K E k a)"
    unfolding on_plain_key_def Let_def
    by (intro branch update_ok poll_ok [OF okD] move actions_ok prompt_s prompt_d assms)
  have prompt: "top_ok (on_prompt_key K E target input k a)" for target input
    unfolding on_prompt_key_def
    using assms by (auto intro!: ok_intros actions_ok split: key_code.split)
  show ?thesis
    unfolding on_key_def Let_def
    using assms plain prompt by (auto intro!: ok_intros actions_ok split: modal.split)
qed

lemma before_ok:
  assumes "top_ok a"
  shows "top_ok (before_key K t a)"
proof -
  have "top_ok (fold (on_event K E) evs a)" for E evs
    using assms by (induction evs arbitrary: a) (simp_all add: event_ok)
  then show ?thesis
    unfolding before_key_def Let_def by (auto intro!: ok_intros split: modal.split)
qed

lemma turn_ok: "top_ok a \<Longrightarrow> top_ok (top_turn K t a)"
  by (auto simp: top_turn_def Let_def before_ok key_ok split: option.split)

lemma run_ok: "top_ok a \<Longrightarrow> top_ok (top_run K ts a)"
  by (induction ts arbitrary: a) (simp_all add: turn_ok)

section \<open>What is asked of the daemon\<close>

lemma sent_simps [simp]:
  "top_sent (top_poll E a) = top_sent a" "top_modal (top_poll E a) = top_modal a" "top_quit (top_poll E a) = top_quit a"
  "top_sent (push_log E kind msg c a) = top_sent a" "top_modal (push_log E kind msg c a) = top_modal a"
  "top_sent (report E kind msg c a) = top_sent a" "top_modal (report E kind msg c a) = Notice msg (te_now E)"
  "top_sent (sent r a) = top_sent a @ [r]" "top_modal (sent r a) = top_modal a"
  "top_sent (try_change f a) = top_sent a" "top_modal (try_change f a) = top_modal a"
  "top_sent (move_selection d a) = top_sent a" "top_modal (move_selection d a) = top_modal a"
  "top_sent (on_event K E ev a) = top_sent a" "top_modal (on_event K E ev a) = top_modal a"
  "top_sent (top_reload E a) = top_sent a @ [Reload_request]" "top_modal (top_reload E a) = top_modal a"
proof -
  show poll: "top_sent (top_poll E a) = top_sent a" "top_modal (top_poll E a) = top_modal a"
    "top_quit (top_poll E a) = top_quit a" for E a
    by (simp_all add: top_poll_def Let_def)
  show push: "top_sent (push_log E kind msg c a) = top_sent a" "top_modal (push_log E kind msg c a) = top_modal a" for a kind msg c
    by (simp_all add: push_log_def Let_def)
  show "top_sent (report E kind msg c a) = top_sent a" "top_modal (report E kind msg c a) = Notice msg (te_now E)"
    by (simp_all add: report_def push)
  show "top_sent (sent r a) = top_sent a @ [r]" "top_modal (sent r a) = top_modal a" for r a by (simp_all add: sent_def)
  show "top_sent (try_change f a) = top_sent a" "top_modal (try_change f a) = top_modal a"
    by (simp_all add: try_change_def split: sum.split)
  show "top_sent (move_selection d a) = top_sent a" "top_modal (move_selection d a) = top_modal a"
    by (simp_all add: move_selection_def split: tab.split)
  show "top_sent (on_event K E ev a) = top_sent a" "top_modal (on_event K E ev a) = top_modal a"
    by (cases ev; simp add: on_event_def push)+
  show "top_sent (top_reload E a) = top_sent a @ [Reload_request]" "top_modal (top_reload E a) = top_modal a"
    by (simp_all add: top_reload_def Let_def poll sent_def)
qed

lemma before_sent: "top_sent (before_key K t a) = top_sent a"
  "top_modal (before_key K t a) = top_modal a \<or> top_modal (before_key K t a) = No_modal"
proof -
  have fold: "top_sent (fold (on_event K E) evs a) = top_sent a" "top_modal (fold (on_event K E) evs a) = top_modal a" for E evs
    by (induction evs arbitrary: a) simp_all
  show "top_sent (before_key K t a) = top_sent a"
    "top_modal (before_key K t a) = top_modal a \<or> top_modal (before_key K t a) = No_modal"
    by (auto simp: before_key_def Let_def fold split: modal.split)
qed


text \<open>A step that asks for nothing destructive and opens no question.\<close>

definition quiet :: "top \<Rightarrow> top \<Rightarrow> bool" where
  "quiet a b \<longleftrightarrow> (\<exists>qs. top_sent b = top_sent a @ qs \<and> set qs \<subseteq> {Reload_request, Sync_request})
     \<and> (top_modal b = top_modal a \<or> (\<exists>m n. top_modal b = Notice m n))"

lemma quiet_same: "top_sent b = top_sent a \<Longrightarrow> top_modal b = top_modal a \<Longrightarrow> quiet a b"
  by (simp add: quiet_def)

lemma quiet_sent:
  "top_sent b = top_sent a @ [q] \<Longrightarrow> q \<in> {Reload_request, Sync_request} \<Longrightarrow> top_modal b = Notice m n \<Longrightarrow> quiet a b"
  by (auto simp: quiet_def)

lemma quiet_notice: "top_sent b = top_sent a \<Longrightarrow> top_modal b = Notice m n \<Longrightarrow> quiet a b"
  by (auto simp: quiet_def)

lemma foreign_cases:
  "selected_foreign E a = (a, None) \<or> (\<exists>m. selected_foreign E a = (report E ''POLICY'' m Yellow a, None))
     \<or> (\<exists>r. selected_foreign E a = (a, Some r) \<and> \<not> ri_mine r)"
  by (auto simp: selected_foreign_def split: option.split)

lemma quiet_reload: "top_sent x = top_sent a \<Longrightarrow> quiet a (top_reload E (report E kind m c x))"
  by (rule quiet_sent [where q = Reload_request]) simp_all

lemma actions_quiet:
  "quiet a (toggle_pin K E a)" "quiet a (top_follow K E a)" "quiet a (top_seed K E target input a)" "quiet a (top_sync E a)"
proof -
  show "quiet a (toggle_pin K E a)" "quiet a (top_follow K E a)"
    using foreign_cases [of E a]
    by (auto simp: toggle_pin_def top_follow_def Let_def quiet_reload quiet_same quiet_notice)
  show "quiet a (top_seed K E target input a)"
    by (auto simp: top_seed_def quiet_notice quiet_reload split: sum.split)
  show "quiet a (top_sync E a)" by (cases "te_sync E") (auto simp: top_sync_def intro: quiet_sent)
qed

definition opens :: "'z crates_scheme \<Rightarrow> key_event \<Rightarrow> top \<Rightarrow> modal \<Rightarrow> bool" where
  "opens K k a m \<longleftrightarrow> (case m of
     Confirm_gc force \<Rightarrow> ke_code k = Key_char (if force then CHR ''G'' else CHR ''g'')
   | Confirm_delete rf \<Rightarrow> ke_code k = Key_char CHR ''d'' \<and> (\<exists>r. selected a = Some r \<and> rf = release_ref K r)
   | Seed_prompt _ _ \<Rightarrow> True
   | _ \<Rightarrow> False)"

definition plain_result :: "'z crates_scheme \<Rightarrow> key_event \<Rightarrow> top \<Rightarrow> top \<Rightarrow> bool" where
  "plain_result K k a b \<longleftrightarrow> quiet a b \<or> (top_sent b = top_sent a \<and> opens K k a (top_modal b))"

lemma plain_key: "plain_result K k a (on_plain_key K E k a)"
proof -
  have branch: "(c \<Longrightarrow> plain_result K k a x) \<Longrightarrow> (\<not> c \<Longrightarrow> plain_result K k a y) \<Longrightarrow> plain_result K k a (if c then x else y)"
    for c x y by simp
  have quiet: "quiet a b \<Longrightarrow> plain_result K k a b" for b by (simp add: plain_result_def)
  have quits: "quiet a (a\<lparr>top_quit := q\<rparr>)" "quiet a (a\<lparr>top_tab := t\<rparr>)" "quiet a (move_selection d a)" "quiet a (top_poll E a)" for q t d
    by (simp_all add: quiet_same)
  have gc: "plain_result K k a (a\<lparr>top_modal := Confirm_gc force\<rparr>)" if "ke_code k = Key_char (if force then CHR ''G'' else CHR ''g'')" for force
    using that by (simp add: plain_result_def opens_def)
  have delete: "plain_result K k a (case selected a of None \<Rightarrow> a | Some r \<Rightarrow> a\<lparr>top_modal := Confirm_delete (release_ref K r)\<rparr>)"
    if "ke_code k = Key_char CHR ''d''"
    using that by (auto simp: plain_result_def opens_def quiet_same split: option.split)
  have seed: "plain_result K k a (case selected_foreign E a of (a', None) \<Rightarrow> a' | (a', Some r) \<Rightarrow> a'\<lparr>top_modal := Seed_prompt (t r) i\<rparr>)" for t i
    using foreign_cases [of E a]
    by (auto simp: plain_result_def opens_def intro: quiet_same quiet_notice)
  show ?thesis
    unfolding on_plain_key_def Let_def
    by (intro branch gc seed delete quiet actions_quiet quits quiet_same refl) simp_all
qed

text \<open>Which keys ask for something destructive, and which open the question.\<close>

lemma key_sends:
  assumes "top_sent (on_key K E k b) = top_sent b @ qs" "q \<in> set qs" "q \<notin> {Reload_request, Sync_request}"
  shows "is_yes k \<and> ((\<exists>rf. top_modal b = Confirm_delete rf \<and> q = Rm_request rf False)
    \<or> (\<exists>force. top_modal b = Confirm_gc force \<and> q = Gc_request \<lparr>gc_dry = False, gc_force = force\<rparr>))"
proof -
  have loud: "\<not> quiet b c" if "top_sent c = top_sent b @ qs" for c
    using that assms(2,3) by (auto simp: quiet_def)
  show ?thesis
  proof (cases "top_modal b")
    case No_modal
    with plain_key [of K k b E] loud [of "on_key K E k b"] assms(1,2) show ?thesis
      by (auto simp: on_key_def plain_result_def)
  next
    case (Confirm_gc force)
    with assms show ?thesis by (cases "te_gc E") (auto simp: on_key_def Let_def top_gc_def split: if_splits)
  next
    case (Confirm_delete rf)
    with assms show ?thesis by (cases "te_rm E") (auto simp: on_key_def Let_def top_delete_def split: if_splits)
  next
    case (Seed_prompt t i)
    have same: "quiet (b\<lparr>top_modal := m\<rparr>) c \<Longrightarrow> top_sent c = top_sent b @ qs \<Longrightarrow> False" for m c
      using assms(2,3) by (auto simp: quiet_def)
    from Seed_prompt assms same [OF actions_quiet(3)] show ?thesis
      by (auto simp: on_key_def on_prompt_key_def split: if_splits key_code.splits)
  next
    case (Notice m n)
    with assms show ?thesis by (auto simp: on_key_def)
  qed
qed

lemma key_opens:
  assumes "top_modal (on_key K E k b) = m" "m = Confirm_gc force \<or> m = Confirm_delete rf"
  shows "opens K k b m"
proof -
  have no: "\<not> quiet (b\<lparr>top_modal := No_modal\<rparr>) c" if "top_modal c = m" for c
    using that assms(2) by (auto simp: quiet_def)
  show ?thesis
  proof (cases "top_modal b")
    case No_modal
    then have "quiet b (on_key K E k b) \<Longrightarrow> False" using assms by (auto simp: quiet_def)
    with No_modal plain_key [of K k b E] assms(1) show ?thesis by (auto simp: on_key_def plain_result_def)
  next
    case (Confirm_gc f)
    with assms show ?thesis by (cases "te_gc E") (auto simp: on_key_def Let_def top_gc_def split: if_splits)
  next
    case (Confirm_delete f)
    with assms show ?thesis by (cases "te_rm E") (auto simp: on_key_def Let_def top_delete_def split: if_splits)
  next
    case (Seed_prompt t i)
    with assms no [of "top_seed K E t i (b\<lparr>top_modal := No_modal\<rparr>)"]
      actions_quiet(3) [of "b\<lparr>top_modal := No_modal\<rparr>" K E t i] show ?thesis
      by (auto simp: on_key_def on_prompt_key_def split: if_splits key_code.splits)
  next
    case (Notice t n)
    with assms show ?thesis by (auto simp: on_key_def)
  qed
qed


section \<open>Runs\<close>

lemma run_snoc: "top_run K (ts @ [t]) a = (let b = top_run K ts a in if top_quit b then b else top_turn K t b)"
  by (induction ts arbitrary: a) (simp_all add: Let_def)

lemma new_modal: "top_modal (top_new E f) = No_modal"
  by (simp add: top_new_def)

text \<open>The last key that was pressed opened the question, and no key came after it.\<close>

definition asked :: "'z crates_scheme \<Rightarrow> top \<Rightarrow> turn list \<Rightarrow> modal \<Rightarrow> bool" where
  "asked K a0 ts m \<longleftrightarrow> (\<exists>us u vs k. ts = us @ u # vs \<and> (\<forall>v \<in> set vs. tn_key v = None) \<and> tn_key u = Some k
     \<and> opens K k (before_key K u (top_run K us a0)) m)"

lemma question_was_asked:
  assumes "top_modal a0 = No_modal"
    and "\<not> top_quit (top_run K ts a0)" "top_modal (top_run K ts a0) = m" "m = Confirm_gc force \<or> m = Confirm_delete rf"
  shows "asked K a0 ts m"
  using assms(2-4)
proof (induction ts rule: rev_induct)
  case Nil
  with assms(1) show ?case by auto
next
  case (snoc t ts)
  let ?b = "top_run K ts a0"
  have go: "\<not> top_quit ?b" and turn: "top_run K (ts @ [t]) a0 = top_turn K t ?b"
    using snoc.prems(1) by (auto simp: run_snoc Let_def split: if_splits)
  show ?case
  proof (cases "tn_key t")
    case None
    then have "top_modal (before_key K t ?b) = m" using snoc.prems(2) turn by (simp add: top_turn_def)
    then have "top_modal ?b = m" using before_sent(2) [of K t ?b] snoc.prems(3) by auto
    from snoc.IH [OF go this snoc.prems(3)] obtain us u vs k where
      "ts = us @ u # vs" "\<forall>v \<in> set vs. tn_key v = None" "tn_key u = Some k" "opens K k (before_key K u (top_run K us a0)) m"
      unfolding asked_def by blast
    then show ?thesis
      unfolding asked_def using None by (intro exI [of _ us] exI [of _ u] exI [of _ "vs @ [t]"] exI [of _ k]) simp
  next
    case (Some k)
    then have "top_modal (on_key K (tn_env t) k (before_key K t ?b)) = m" using snoc.prems(2) turn by (simp add: top_turn_def)
    from key_opens [OF this snoc.prems(3)] Some show ?thesis
      unfolding asked_def by (intro exI [of _ ts] exI [of _ t] exI [of _ "[]"] exI [of _ k]) simp
  qed
qed

section \<open>Properties\<close>

text \<open>The selections always point at a row. Whatever the daemon answers, whichever events come and keys are pressed, a list
  has a selected row exactly when it has rows, the row is one of them, and the log keeps at most two hundred entries.\<close>

theorem top_stays_in_bounds:
  "let a = top_run K ts (top_new E f) in
     (case top_images a of None \<Rightarrow> top_releases a = [] | Some i \<Rightarrow> i < length (top_releases a))
   \<and> (case top_peer_rows a of None \<Rightarrow> top_peers a = [] | Some i \<Rightarrow> i < length (top_peers a))
   \<and> length (top_log a) \<le> 200"
proof -
  have "top_ok (top_new E f)" unfolding top_new_def by (rule poll_ok) simp
  from run_ok [OF this, of K ts] show ?thesis by (simp add: top_ok_def in_list_def log_cap_def Let_def)
qed

text \<open>C24: Nothing is deleted by accident. When a turn of the dashboard asks the daemon to remove a release or to collect
  garbage, its key was y or Y, the key pressed last before it was d, g or G, and what is asked is what that key stood for:
  the release that was selected when d was pressed, whatever the list has become since, or a collection that is forced
  exactly when it was G.\<close>

theorem destruction_confirmed:
  assumes "\<not> top_quit (top_run K ts (top_new E f))"
    and "top_sent (top_turn K t (top_run K ts (top_new E f))) = top_sent (top_run K ts (top_new E f)) @ qs"
    and "q \<in> set qs" "q \<notin> {Reload_request, Sync_request}"
  shows "\<exists>k us u vs k'. tn_key t = Some k \<and> is_yes k \<and> ts = us @ u # vs \<and> (\<forall>v \<in> set vs. tn_key v = None) \<and> tn_key u = Some k'
    \<and> ((\<exists>r. ke_code k' = Key_char CHR ''d'' \<and> selected (before_key K u (top_run K us (top_new E f))) = Some r
          \<and> q = Rm_request (release_ref K r) False)
       \<or> (\<exists>force. ke_code k' = Key_char (if force then CHR ''G'' else CHR ''g'')
          \<and> q = Gc_request \<lparr>gc_dry = False, gc_force = force\<rparr>))"
proof -
  let ?init = "top_new E f"
  let ?a = "top_run K ts ?init"
  let ?b = "before_key K t ?a"
  obtain k where k: "tn_key t = Some k"
    using assms(2,3) before_sent(1) [of K t ?a] by (cases "tn_key t") (auto simp: top_turn_def)
  then have "top_sent (on_key K (tn_env t) k ?b) = top_sent ?b @ qs"
    using assms(2) before_sent(1) [of K t ?a] by (simp add: top_turn_def)
  note yes = key_sends [OF this assms(3,4)]
  have modal: "top_modal ?a = m" if "top_modal ?b = m" "m = Confirm_gc force \<or> m = Confirm_delete rf" for m force rf
    using that before_sent(2) [of K t ?a] by auto
  note asked = question_was_asked [OF new_modal assms(1)]
  from yes consider (rm) rf where "top_modal ?b = Confirm_delete rf" "q = Rm_request rf False"
    | (gc) force where "top_modal ?b = Confirm_gc force" "q = Gc_request \<lparr>gc_dry = False, gc_force = force\<rparr>"
    by blast
  then show ?thesis
  proof cases
    case rm
    have "asked K ?init ts (Confirm_delete rf)"
      by (rule asked [of "Confirm_delete rf" False rf]) (use modal [OF rm(1)] in auto)
    then show ?thesis using k yes rm(2) unfolding asked_def opens_def by auto
  next
    case gc
    have "asked K ?init ts (Confirm_gc force)"
      by (rule asked [of "Confirm_gc force" force "[]"]) (use modal [OF gc(1)] in auto)
    then show ?thesis using k yes gc(2) unfolding asked_def opens_def by auto
  qed
qed


definition demo_info :: release_info where
  "demo_info = \<lparr>ri_summary = summary_of (demo_app 7), ri_complete = True, ri_size = 5, ri_blobs = 1, ri_mine = False\<rparr>"

definition demo_top :: top_env where
  "demo_top = \<lparr>te_now = 0, te_clock = ''12:00:00'', te_show_err = (\<lambda>e. ''error''), te_status = None,
     te_releases = Some [demo_info], te_peers = None, te_sync = Inl ''down'', te_gc = Inl ''down'', te_rm = Inl ''down'',
     te_save = True\<rparr>"

definition press :: "char \<Rightarrow> turn" where
  "press c = \<lparr>tn_env = demo_top, tn_events = [], tn_key = Some \<lparr>ke_code = Key_char c, ke_control = False\<rparr>\<rparr>"

text \<open>The deletion of a release, up to its confirmation.\<close>

lemma demo_delete:
  defines "a \<equiv> top_run demo_net [press CHR ''d''] (top_new demo_top Absent)"
  shows "before_key demo_net (press CHR ''y'') a = a" "\<not> top_quit a" "top_sent a = []"
    "top_sent (on_key demo_net demo_top \<lparr>ke_code = Key_char CHR ''y'', ke_control = False\<rparr> a)
       = [Rm_request (release_ref demo_net demo_info) False]"
proof -
  have new: "top_images (top_new demo_top Absent) = Some 0" "top_releases (top_new demo_top Absent) = [demo_info]"
    "top_modal (top_new demo_top Absent) = No_modal" "top_sent (top_new demo_top Absent) = []"
    "\<not> top_quit (top_new demo_top Absent)" "top_last_poll (top_new demo_top Absent) = 0"
    by (simp_all add: top_new_def top_poll_def demo_top_def clamp_def Let_def)
  have sel: "selected (top_new demo_top Absent) = Some demo_info" by (simp add: selected_def new)
  have before: "before_key demo_net (press c) b = b" if "top_last_poll b = 0" "\<And>m n. top_modal b \<noteq> Notice m n" for b c
    using that by (cases "top_modal b") (simp_all add: before_key_def press_def demo_top_def poll_interval_def)
  have a: "a = (top_new demo_top Absent)\<lparr>top_modal := Confirm_delete (release_ref demo_net demo_info)\<rparr>"
    using new sel before [of "top_new demo_top Absent" "CHR ''d''"]
    by (simp add: a_def top_turn_def press_def on_key_def on_plain_key_def)
  show "before_key demo_net (press CHR ''y'') a = a"
    unfolding a by (rule before) (simp_all add: new)
  show "\<not> top_quit a" "top_sent a = []" unfolding a by (simp_all add: new)
  have rm: "top_sent (top_delete demo_top rf c) = top_sent c @ [Rm_request rf False]" for rf c
    by (simp add: top_delete_def demo_top_def)
  show "top_sent (on_key demo_net demo_top \<lparr>ke_code = Key_char CHR ''y'', ke_control = False\<rparr> a)
      = [Rm_request (release_ref demo_net demo_info) False]"
    unfolding a by (simp add: on_key_def is_yes_def rm new)
qed

theorem destruction_confirmed_witness:
  "top_sent (top_turn demo_net (press CHR ''y'') (top_run demo_net [press CHR ''d''] (top_new demo_top Absent)))
     = [Rm_request (release_ref demo_net demo_info) False]"
proof -
  let ?a = "top_run demo_net [press CHR ''d''] (top_new demo_top Absent)"
  note d = demo_delete
  have t: "top_sent (top_turn demo_net (press CHR ''y'') ?a) = top_sent ?a @ [Rm_request (release_ref demo_net demo_info) False]"
    unfolding top_turn_def Let_def d(1,3) using d(4) by (simp add: press_def)
  with destruction_confirmed [OF d(2) t] d(3) show ?thesis by simp
qed

text \<open>Pressing p on a release that is pinned under the \<open>did:key\<close> of its publisher reports that it is unpinned, while the
  policy that is saved and reloaded keeps it pinned.\<close>

theorem unpin_only_reported:
  assumes "b58_laws K" "key_laws K" "name_ok n" "tag_ok t" "te_save E" "policy_ok (top_policy a)"
    and "pol_pin (top_policy a) = [did_key K p @ ''/'' @ n @ '':'' @ t]"
    and "selected a = Some r" "\<not> ri_mine r" "sum_publisher (ri_summary r) = p" "sum_name (ri_summary r) = n"
    and "sum_tag (ri_summary r) = t"
  shows "le_msg (hd (top_log (toggle_pin K E a))) = ''unpinned '' @ release_ref K r
    \<and> is_pinned K (top_policy (toggle_pin K E a)) p n t"
proof -
  have ref: "release_ref K r = pk_display K p @ ''/'' @ n @ '':'' @ t" using assms(10-12) by (simp add: release_ref_def)
  note pin = pin_survives_removal [OF assms(1-4,7), folded ref]
  have foreign: "selected_foreign E a = (a, Some r)" using assms(8,9) by (simp add: selected_foreign_def)
  let ?b = "report E ''PIN'' (''unpinned '' @ release_ref K r) Yellow a"
  have run: "toggle_pin K E a = top_reload E ?b"
    using foreign pin assms(10-12) by (simp add: toggle_pin_def try_change_def)
  obtain v where v: "policy_to_toml (top_policy a) = Inr v" "policy_of_toml v = Inr (top_policy a)"
    using policy_form [OF assms(6)] by blast
  have fields: "top_policy ?b = top_policy a" "le_msg (hd (top_log ?b)) = ''unpinned '' @ release_ref K r"
    by (simp_all add: report_def push_log_def Let_def)
  then show ?thesis
    unfolding run using pin v assms(5)
    by (simp add: top_reload_def top_poll_def Let_def sent_def save_file_def load_file_def)
qed

end
