(* ===== verification/Top_View.thy ===== *)
theory Top_View
  imports Top
begin

text \<open>
  What the dashboard draws (\<^verbatim>\<open>ui\<close> of \<^verbatim>\<open>crates/ocitop/src/main.rs\<close>): the texts of a frame, as they follow from
  the state that the next key acts on. A line is the texts of its spans one after the other; colours, borders,
  column widths and the sizes of the areas are left out.
\<close>

section \<open>The parts of a frame\<close>

record list_view =
  lv_title :: string
  lv_header :: "string list"
  lv_rows :: "string list list"
  lv_selected :: "nat option"

datatype main_view =
    Images_view list_view "string list"
  | Peers_view list_view
  | Events_view string "string list"

record modal_view =
  mv_title :: string
  mv_body :: "string list"

record frame =
  fr_header :: string
  fr_tabs :: "string list \<times> nat"
  fr_main :: main_view
  fr_ticker :: "(string \<times> string list) option"
  fr_footer :: string
  fr_modal :: "modal_view option"

definition check_mark :: string where
  "check_mark = [CHR 0xE2, CHR 0x9C, CHR 0x93]"

definition block_cursor :: string where
  "block_cursor = [CHR 0xE2, CHR 0x96, CHR 0x88]"

section \<open>Header and tabs\<close>

definition header_kv :: "string \<Rightarrow> string \<Rightarrow> string" where
  "header_kv k v = '' '' @ k @ '' '' @ v"

definition render_header :: "'z crates_scheme \<Rightarrow> 'a addr_text_scheme \<Rightarrow> socket_addr \<Rightarrow> top \<Rightarrow> string" where
  "render_header K A listen a = '' ocid '' @ '' '' @ show_addr A listen @ '' '' @
     (case top_status a of
        Some s \<Rightarrow>
          header_kv ''node'' (short K (st_id s))
          @ header_kv ''did'' (take (min (length (st_did s)) 16) (st_did s) @ ellipsis)
          @ header_kv ''peers'' (show_nat (length (st_neighbors s)))
          @ header_kv ''releases'' (show_nat (st_releases s))
          @ header_kv ''policy'' (show_nat (length (st_follows s)) @ ''f/'' @ show_nat (length (st_seeds s)) @ ''s/''
              @ show_nat (length (st_pins s)) @ ''p'')
          @ header_kv ''up'' (show_nat (st_uptime s div 60) @ ''m'')
          @ (if st_pkarr s = ''off'' then header_kv ''pkarr'' ''off'' else [])
          @ header_kv ''v'' (st_version s)
      | None \<Rightarrow> ''  daemon not reachable '' @ em_dash @ '' start `ocid` (retrying)'')"

definition tab_index :: "tab \<Rightarrow> nat" where
  "tab_index t = (case t of Images \<Rightarrow> 0 | Peers \<Rightarrow> 1 | Events \<Rightarrow> 2)"

definition render_tabs :: "top \<Rightarrow> string list \<times> nat" where
  "render_tabs a = (map (\<lambda>(n, t). '' '' @ n @ '' '' @ t)
     [(''1'', ''Images & Policy''), (''2'', ''Peers & Swarm''), (''3'', ''Events'')], tab_index (top_tab a))"

section \<open>Images\<close>

definition image_row :: "'z crates_scheme \<Rightarrow> policy \<Rightarrow> release_info \<Rightarrow> string list" where
  "image_row K pol r =
     (let s = ri_summary r in
      [if ri_mine r then ''(me)'' else short K (sum_publisher s), sum_name s, sum_tag s, rule_text K pol r,
       human_bytes (ri_size r), if ri_complete r then check_mark else ellipsis,
       take 10 (digest_hex (sum_digest s)) @ ellipsis])"

definition images_table :: "'z crates_scheme \<Rightarrow> top \<Rightarrow> list_view" where
  "images_table K a =
     \<lparr>lv_title = ''Images ('' @ show_nat (length (top_releases a)) @ '')'',
      lv_header = [''PUBLISHER'', ''IMAGE'', ''TAG'', ''POLICY'', ''SIZE'', ''OK'', ''DIGEST''],
      lv_rows = map (image_row K (top_policy a)) (top_releases a), lv_selected = top_images a\<rparr>"

text \<open>The command for the selected release is given: \<open>pull\<close> is \<open>podman_pull_cmd\<close> of the configuration.\<close>

definition render_inspector :: "'z crates_scheme \<Rightarrow> (string \<Rightarrow> string) \<Rightarrow> top \<Rightarrow> string list" where
  "render_inspector K pull a = (case selected a of
     None \<Rightarrow> [''nothing selected '' @ em_dash @ '' push an image or follow a publisher'']
   | Some r \<Rightarrow>
       (let s = ri_summary r; p = sum_publisher s;
            followed = follow_mode K (top_policy a) p;
            pinned = is_pinned K (top_policy a) p (sum_name s) (sum_tag s)
        in [sum_name s @ '':'' @ sum_tag s @ (if ri_mine r then ''  (own release)'' else []), [],
            ''publisher  '' @ pk_display K p, ''did        '' @ did_key K p, ''manifest   '' @ digest_str (sum_digest s),
            ''size       '' @ human_bytes (ri_size r) @ '' in '' @ show_nat (ri_blobs r) @ '' blob(s)'',
            ''state      '' @ (if ri_complete r then ''complete, verified'' else ''incomplete (fetching)''), [],
            ''window     '' @ window_describe (policy_window K (top_policy a) p (sum_name s))
              @ (case followed of Some m \<Rightarrow> ''   follow: '' @ show_mode m | None \<Rightarrow> []) @ (if pinned then ''   pinned'' else []),
            [], ''pull'', '' '' @ pull (release_ref K r) @ '' '']))"

section \<open>Peers and events\<close>

definition peer_view_row :: "'z crates_scheme \<Rightarrow> peer_info \<Rightarrow> string list" where
  "peer_view_row K p =
     [pk_display K (pi_id p), did_key K (pi_id p),
      if pi_neighbor p then check_mark @ '' neighbor'' else if pi_known p then ''known'' else ''seen'',
      case pi_last_seen p of Some s \<Rightarrow> show_nat s @ ''s ago'' | None \<Rightarrow> ''-'']"

definition peers_table :: "'z crates_scheme \<Rightarrow> top \<Rightarrow> list_view" where
  "peers_table K a =
     \<lparr>lv_title = ''Peers ('' @ show_nat (length (top_peers a)) @ '')'',
      lv_header = [''PEER (iroh endpoint id)'', ''DID'', ''STATE'', ''LAST SEEN''],
      lv_rows = map (peer_view_row K) (top_peers a), lv_selected = top_peer_rows a\<rparr>"

definition pad_right :: "nat \<Rightarrow> string \<Rightarrow> string" where
  "pad_right n s = s @ replicate (n - length s) CHR '' ''"

text \<open>The newest entries, at most \<open>n\<close> of them if there is a bound.\<close>

definition render_events :: "nat option \<Rightarrow> top \<Rightarrow> string list" where
  "render_events n a =
     (let items = map (\<lambda>e. le_time e @ '' '' @ pad_right 6 (le_kind e) @ '' '' @ le_msg e)
            (case n of Some k \<Rightarrow> take k (top_log a) | None \<Rightarrow> top_log a)
      in if items = [] then [''waiting for events'' @ ellipsis] else items)"

section \<open>Footer and modals\<close>

definition render_footer :: string where
  "render_footer = concat (map (\<lambda>(k, t). '' '' @ k @ '' '' @ '' '' @ t @ ''  '')
     [(''1-3/Tab'', ''tabs''), (''j/k'', ''select''), (''s'', ''seed''), (''f'', ''follow''), (''p'', ''pin''), (''y'', ''sync''),
      (''g/G'', ''gc/force''), (''d'', ''delete''), (''r'', ''refresh''), (''q'', ''quit'')])"

definition confirm_line :: "string \<Rightarrow> string \<Rightarrow> string" where
  "confirm_line key verb = '' ['' @ key @ ''] '' @ verb @ '' '' @ ''   '' @ '' [Esc/any] cancel ''"

definition render_modal :: "top \<Rightarrow> modal_view option" where
  "render_modal a = (case top_modal a of
     No_modal \<Rightarrow> None
   | Notice t _ \<Rightarrow> Some \<lparr>mv_title = ''Notice'', mv_body = [t]\<rparr>
   | Confirm_gc force \<Rightarrow> Some
       \<lparr>mv_title = (if force then ''Force garbage collection'' else ''Garbage collection''),
        mv_body = [if force then ''Remove ALL unmanaged releases now, ignoring the grace period.''
            else ''Remove unmanaged releases older than the grace period and orphaned blobs.'',
          ''Own, pinned and in-window releases are never touched.'', [], confirm_line ''Y'' ''run'']\<rparr>
   | Confirm_delete rf \<Rightarrow> Some
       \<lparr>mv_title = ''Delete release'',
        mv_body = [rf, ''Removes the local record and unpins its blobs; not propagated to peers.'', [], confirm_line ''Y'' ''delete'']\<rparr>
   | Seed_prompt target input \<Rightarrow> Some
       \<lparr>mv_title = ''Seed image'',
        mv_body = [target, ''retention mode: latest | last:N | full'', [], ''> '' @ input @ block_cursor, [],
          confirm_line ''Enter'' ''save'']\<rparr>)"

definition ui :: "'z crates_scheme \<Rightarrow> 'a addr_text_scheme \<Rightarrow> config \<Rightarrow> bool \<Rightarrow> top \<Rightarrow> frame" where
  "ui K A c ca_installed a =
     \<lparr>fr_header = render_header K A (cfg_listen c) a, fr_tabs = render_tabs a,
      fr_main = (case top_tab a of
          Images \<Rightarrow> Images_view (images_table K a) (render_inspector K (podman_pull_cmd A c ca_installed) a)
        | Peers \<Rightarrow> Peers_view (peers_table K a)
        | Events \<Rightarrow> Events_view ''Live Daemon Events (SSE)'' (render_events None a)),
      fr_ticker = (if top_tab a = Events then None else Some (''Activity'', render_events (Some 6) a)),
      fr_footer = render_footer, fr_modal = render_modal a\<rparr>"

section \<open>Lemmas\<close>

lemma selected_row:
  assumes "top_ok a"
  shows "case lv_selected (images_table K a) of
      None \<Rightarrow> selected a = None \<and> lv_rows (images_table K a) = []
    | Some i \<Rightarrow> i < length (lv_rows (images_table K a))
        \<and> (\<exists>r. selected a = Some r \<and> lv_rows (images_table K a) ! i = image_row K (top_policy a) r)"
  using assms by (auto simp: images_table_def selected_def top_ok_def in_list_def split: option.split)

text \<open>The description of a window is none of the other words of the policy column, and the dash stands for the empty
  window only.\<close>

lemma describe_words:
  "window_describe w \<noteq> ''own''" "window_describe w \<noteq> ''pin''" "window_describe w = ''-'' \<longleftrightarrow> window_is_empty w"
proof -
  let ?n = "show_nat (card (w_tags w))"
  have hd: "hd ?n \<noteq> c" if "\<not> is_digit c" for c
    using show_nat_no_char [OF that] by (metis list.set_sel(1) show_nat_nonempty)
  then have "hd ?n \<noteq> CHR ''o''" "hd ?n \<noteq> CHR ''p''" "hd ?n \<noteq> CHR ''-''" by (simp_all add: is_digit_def)
  then have no: "?n @ '' tag(s)'' \<noteq> ''own''" "?n @ '' tag(s)'' \<noteq> ''pin''" "?n @ '' tag(s)'' \<noteq> ''-''"
    by (metis hd_append2 list.sel(1) show_nat_nonempty)+
  show "window_describe w \<noteq> ''own''" "window_describe w \<noteq> ''pin''" "window_describe w = ''-'' \<longleftrightarrow> window_is_empty w"
    using no by (auto simp: window_describe_def window_is_empty_def Let_def)
qed

lemma rule_text_cases:
  "rule_text K pol i = ''own'' \<longleftrightarrow> ri_mine i"
  "rule_text K pol i = ''pin'' \<longleftrightarrow> \<not> ri_mine i
     \<and> is_pinned K pol (sum_publisher (ri_summary i)) (sum_name (ri_summary i)) (sum_tag (ri_summary i))"
  "rule_text K pol i = ''-'' \<Longrightarrow> \<not> ri_mine i
     \<and> window_is_empty (policy_window K pol (sum_publisher (ri_summary i)) (sum_name (ri_summary i)))"
  using describe_words by (auto simp: rule_text_def Let_def split: if_splits)

section \<open>Properties\<close>

text \<open>C26: The policy column tells what a collection does. For a release that the node holds and reports to a dashboard with
  the same policy, the column says own or pin only if every collection keeps it, and a dash only if a forced collection
  removes it.\<close>

theorem column_tells_collection:
  assumes "store_ok K s" "key_laws K" "release_at K (idx s) sl = Some r" "\<not> gc_dry q"
  shows "(rule_text K (node_policy s) (release_info K s r) \<in> {''own'', ''pin''}
        \<longrightarrow> release_at K (idx (fst (gc K E q s))) sl = Some r)
    \<and> (gc_force q \<and> rule_text K (node_policy s) (release_info K s r) = ''-''
        \<longrightarrow> release_at K (idx (fst (gc K E q s))) sl = None)"
proof -
  let ?i = "release_info K s r" and ?p = "payload r"
  have fields: "sum_publisher (ri_summary ?i) = p_publisher ?p" "sum_name (ri_summary ?i) = p_name ?p"
    "sum_tag (ri_summary ?i) = p_tag ?p" "ri_mine ?i \<longleftrightarrow> p_publisher ?p = node_id K s"
    by (simp_all add: release_info_def summary_fields)
  obtain s' where s': "gc K E q s = (s', Inr (collected_report K E q s))"
    "\<And>sl. release_at K (idx s') sl = keep_if (\<lambda>r. \<not> doomed K E q s r) (release_at K (idx s) sl)"
    by (rule gc_spec [OF assms(1,2,4), of E]) (rule that)
  have "\<not> doomed K E q s r" if "rule_text K (node_policy s) ?i \<in> {''own'', ''pin''}"
    using that pinned_retained [of K s r] by (auto simp: rule_text_cases fields doomed_def retained_def)
  moreover have "doomed K E q s r" if "gc_force q" "rule_text K (node_policy s) ?i = ''-''"
    using rule_text_cases(3) [OF that(2)] that(1)
    by (simp add: fields doomed_def retained_def in_window_def empty_window_selects)
  ultimately show ?thesis using s' assms(3) by auto
qed

theorem column_tells_collection_witness:
  "\<exists>s. release_at demo_node_crates (idx s) (demo_slot 7) = Some (demo_app 7)
     \<and> rule_text demo_node_crates (node_policy s) (release_info demo_node_crates s (demo_app 7)) = ''-''
     \<and> release_at demo_node_crates (idx (fst (gc demo_node_crates demo_env \<lparr>gc_dry = False, gc_force = True\<rparr> s))) (demo_slot 7) = None"
proof -
  obtain s :: node where s: "store_ok demo_node_crates s" "node_key s = 5" "node_policy s = policy_default"
    "release_at demo_node_crates (idx s) (demo_slot 7) = Some (demo_app 7)"
    by (rule demo_stored) (rule that)
  have not_pinned: "\<not> is_pinned demo_node_crates policy_default p n t" for p n t
    by (simp add: is_pinned_def pins_def policy_default_def map_filter_simps)
  have dash: "rule_text demo_node_crates (node_policy s) (release_info demo_node_crates s (demo_app 7)) = ''-''"
    by (simp add: rule_text_def Let_def release_info_def summary_fields demo_app_fields demo_node_id s(2,3) not_pinned
        empty_policy_window window_describe_def window_default_def)
  have "\<not> gc_dry (\<lparr>gc_dry = False, gc_force = True\<rparr> :: gc_req)" by simp
  from column_tells_collection [OF s(1) demo_node_crate_laws(2) s(4) this, of demo_env] dash s(4) show ?thesis by auto
qed

text \<open>C25: What is drawn is what is done. In every turn of the dashboard the key acts on the state that was drawn just
  before it. If the key makes it ask the daemon to remove a release, the frame showed the question with that very
  reference; if it asks for a collection, the frame showed the question for a forced one exactly when it is forced. On the
  first tab the marked row is the row of the release that the keys act on, and without one the list is empty.\<close>

theorem drawn_is_done:
  assumes "b = before_key K t (top_run K ts (top_new E f))"
    and "tn_key t = Some k" "top_sent (on_key K (tn_env t) k b) = top_sent b @ qs"
  shows "(\<forall>rf dry. Rm_request rf dry \<in> set qs \<longrightarrow> (\<exists>m. fr_modal (ui K A c ca b) = Some m \<and> mv_title m = ''Delete release''
        \<and> mv_body m ! 0 = rf))
    \<and> (\<forall>q. Gc_request q \<in> set qs \<longrightarrow> (\<exists>m. fr_modal (ui K A c ca b) = Some m
        \<and> mv_title m = (if gc_force q then ''Force garbage collection'' else ''Garbage collection'')))
    \<and> (top_tab b = Images \<longrightarrow> (\<exists>lv lines. fr_main (ui K A c ca b) = Images_view lv lines \<and> (case lv_selected lv of
          None \<Rightarrow> selected b = None \<and> lv_rows lv = []
        | Some i \<Rightarrow> i < length (lv_rows lv) \<and> (\<exists>r. selected b = Some r \<and> lv_rows lv ! i = image_row K (top_policy b) r))))"
proof (intro conjI allI impI)
  fix rf dry
  assume "Rm_request rf dry \<in> set qs"
  from key_sends [OF assms(3) this] have "top_modal b = Confirm_delete rf" by auto
  then show "\<exists>m. fr_modal (ui K A c ca b) = Some m \<and> mv_title m = ''Delete release'' \<and> mv_body m ! 0 = rf"
    by (simp add: ui_def render_modal_def)
next
  fix q
  assume "Gc_request q \<in> set qs"
  from key_sends [OF assms(3) this] obtain force where "top_modal b = Confirm_gc force" "gc_force q = force" by auto
  then show "\<exists>m. fr_modal (ui K A c ca b) = Some m
      \<and> mv_title m = (if gc_force q then ''Force garbage collection'' else ''Garbage collection'')"
    by (simp add: ui_def render_modal_def)
next
  assume "top_tab b = Images"
  moreover have "top_ok (top_new E f)" unfolding top_new_def by (rule poll_ok) simp
  then have "top_ok b" unfolding assms(1) by (intro before_ok run_ok)
  note selected_row [OF this, of K]
  ultimately show "\<exists>lv lines. fr_main (ui K A c ca b) = Images_view lv lines \<and> (case lv_selected lv of
          None \<Rightarrow> selected b = None \<and> lv_rows lv = []
        | Some i \<Rightarrow> i < length (lv_rows lv) \<and> (\<exists>r. selected b = Some r \<and> lv_rows lv ! i = image_row K (top_policy b) r))"
    by (simp add: ui_def)
qed

theorem drawn_is_done_witness:
  "\<exists>m. fr_modal (ui demo_net demo_text config_default False
       (before_key demo_net (press CHR ''y'') (top_run demo_net [press CHR ''d''] (top_new demo_top Absent)))) = Some m
     \<and> mv_title m = ''Delete release'' \<and> mv_body m ! 0 = release_ref demo_net demo_info"
proof -
  let ?a = "top_run demo_net [press CHR ''d''] (top_new demo_top Absent)"
  note d = demo_delete
  have k: "tn_key (press CHR ''y'') = Some \<lparr>ke_code = Key_char CHR ''y'', ke_control = False\<rparr>" by (simp add: press_def)
  have "top_sent (on_key demo_net (tn_env (press CHR ''y'')) \<lparr>ke_code = Key_char CHR ''y'', ke_control = False\<rparr>
      (before_key demo_net (press CHR ''y'') ?a))
    = top_sent (before_key demo_net (press CHR ''y'') ?a) @ [Rm_request (release_ref demo_net demo_info) False]"
    unfolding d(1,3) using d(4) by (simp add: press_def)
  note shown = drawn_is_done [OF refl k this, of demo_text config_default False]
  have "Rm_request (release_ref demo_net demo_info) False \<in> set [Rm_request (release_ref demo_net demo_info) False]" by simp
  with conjunct1 [OF shown] show ?thesis by blast
qed

end
