(* ===== verification/Cli.thy ===== *)
theory Cli
  imports Server Boot Texts
begin

text \<open>
  The command line (\<^verbatim>\<open>crates/ocictl/src/main.rs\<close>). A command works on the files of the home directory, or
  asks the running daemon through its control API; the policy commands do either. What it prints is a list of
  lines and tables; the layout of a table is the table library's.
\<close>

section \<open>The world of a command\<close>

datatype printed = Line string | Table_rows "string list" "string list list"

record cli =
  c_home :: home
  c_node :: "node option"
  c_out :: "printed list"

datatype cli_err =
    Failed err
  | Bad_config err
  | Not_running
  | Daemon_err nat err
  | Domain_offline string
  | Own_image string
  | Pin_tag string
  | Zone_failed string
  | No_publisher
  | No_detail
  | Bad_state string

type_synonym 'a cli_op = "(cli, cli_err, 'a) fallible"

text \<open>Besides what a start sees: the home directory as it is printed, the system clock, what the daemon knows of
  itself, and the texts of errors and of TOML values.\<close>

record cli_env =
  ce_boot :: boot_env
  ce_path :: string
  ce_now :: u64
  ce_ticket :: string
  ce_version :: string
  ce_started :: nat
  ce_failed :: "public_key \<times> err \<Rightarrow> string"
  ce_error :: "err \<Rightarrow> string"
  ce_toml :: "toml \<Rightarrow> string"

definition say :: "string list \<Rightarrow> unit cli_op" where
  "say ls = modify (\<lambda>w. w\<lparr>c_out := c_out w @ map Line ls\<rparr>)"

definition show_rows :: "string list \<Rightarrow> string list list \<Rightarrow> unit cli_op" where
  "show_rows hs rows = modify (\<lambda>w. w\<lparr>c_out := c_out w @ [Table_rows hs rows]\<rparr>)"

definition on_home :: "'a home_op \<Rightarrow> 'a cli_op" where
  "on_home f w = (case f (c_home w) of (h, r) \<Rightarrow> (w\<lparr>c_home := h\<rparr>, map_err Failed r))"

definition read_home :: "(home \<Rightarrow> 'a result) \<Rightarrow> 'a cli_op" where
  "read_home f = on_home (lift_res f)"

definition lift_err :: "'a result \<Rightarrow> 'a cli_op" where
  "lift_err r = lift_res (\<lambda>_. map_err Failed r)"

section \<open>The daemon\<close>

text \<open>The policy file is shared with the daemon: a request reads what is there, and a changed policy is saved.
  Its other files are the daemon's own.\<close>

definition daemon_saved :: "policy option \<Rightarrow> node \<Rightarrow> home \<Rightarrow> home" where
  "daemon_saved old s h =
     (if policy_disk s = old then h
      else h\<lparr>h_policy := (case policy_disk s of
          None \<Rightarrow> Unreadable
        | Some p \<Rightarrow> (case policy_to_toml p of Inr v \<Rightarrow> Stored v | Inl _ \<Rightarrow> Unreadable))\<rparr>)"

definition daemon_call :: "cli_env \<Rightarrow> config \<Rightarrow> (node_env \<Rightarrow> 'a ctl) \<Rightarrow> 'a cli_op" where
  "daemon_call X c f w =
     (case c_node w of
        None \<Rightarrow> fail Not_running w
      | Some s \<Rightarrow>
          (let old = to_option (policy_load (c_home w));
               (s', r) = f (configured c (boot_node (ce_boot X))) (s\<lparr>policy_disk := old\<rparr>)
           in (w\<lparr>c_node := Some s', c_home := daemon_saved old s' (c_home w)\<rparr>, map_err (\<lambda>(st, e). Daemon_err st e) r)))"

definition http_client :: "'z addr_text_scheme \<Rightarrow> config cli_op" where
  "http_client A = lift_res (\<lambda>w. map_err Bad_config (config_load A (c_home w)))"

definition ask_daemon :: "'z addr_text_scheme \<Rightarrow> cli_env \<Rightarrow> (config \<Rightarrow> node_env \<Rightarrow> 'a ctl) \<Rightarrow> 'a cli_op" where
  "ask_daemon A X f = then_do (http_client A) (\<lambda>c. daemon_call X c (f c))"

definition is_running :: "cli \<Rightarrow> bool" where
  "is_running w \<longleftrightarrow> c_node w \<noteq> None"

definition live_client :: "'z addr_text_scheme \<Rightarrow> cli \<Rightarrow> config option" where
  "live_client A w =
     (case config_load A (c_home w) of Inl _ \<Rightarrow> None | Inr c \<Rightarrow> if is_running w then Some c else None)"

definition when_live :: "'z addr_text_scheme \<Rightarrow> (config \<Rightarrow> 'a cli_op) \<Rightarrow> 'a cli_op \<Rightarrow> 'a cli_op" where
  "when_live A f g w = (case live_client A w of Some c \<Rightarrow> f c w | None \<Rightarrow> g w)"

definition sync_lines :: "cli_env \<Rightarrow> nat \<times> (public_key \<times> err) list \<Rightarrow> string list" where
  "sync_lines X v = (''synced with '' @ show_nat (fst v) @ '' peer(s)'')
     # map (\<lambda>f. ''failed: '' @ ce_failed X f) (snd v)"

definition sync_all :: "'z net_crates_scheme \<Rightarrow> cli_env \<Rightarrow> config \<Rightarrow> unit cli_op" where
  "sync_all K X c w =
     (case daemon_call X c (\<lambda>E. ctl_sync K E None) w of
        (w', Inr v) \<Rightarrow> say (sync_lines X v) w' | (w', Inl _) \<Rightarrow> ret () w')"

text \<open>A daemon that does not answer, or refuses, is ignored.\<close>

definition cli_reload :: "'z crates_scheme \<Rightarrow> 'a addr_text_scheme \<Rightarrow> cli_env \<Rightarrow> unit cli_op" where
  "cli_reload K A X =
     when_live A (\<lambda>c. ignore_err (daemon_call X c (\<lambda>E. ctl_reload K E))) (ret ())"

section \<open>Policy commands\<close>

record mode_args =
  arg_full :: bool
  arg_latest :: bool
  arg_last :: "u32 option"

definition mode_of_args :: "mode_args \<Rightarrow> mode result" where
  "mode_of_args m =
     (if arg_full m then Inr Full
      else case arg_last m of
        Some n \<Rightarrow> mode_from_str (''last:'' @ show_nat (unat n))
      | None \<Rightarrow> Inr Latest)"

definition offline_note :: "unit cli_op" where
  "offline_note = say [''(daemon not running; will take effect when it starts)'']"

definition offline_domain_check :: "string \<Rightarrow> unit cli_op" where
  "offline_domain_check arg =
     (let first = (case split_once CHR ''/'' arg of Some (f, _) \<Rightarrow> f | None \<Rightarrow> arg)
      in if is_domain_name first then fail (Domain_offline first) else ret ())"

definition tag_or_mode :: "string \<Rightarrow> mode \<Rightarrow> string" where
  "tag_or_mode rf m = (if CHR '':'' \<in> set rf then ''this tag'' else ''mode '' @ show_mode m)"

text \<open>The offline form of a policy command: the policy is read, changed and saved.\<close>

definition save_policy :: "cli_env \<Rightarrow> policy \<Rightarrow> unit cli_op" where
  "save_policy X p = on_home (policy_save (boot_writes (ce_boot X) ''policy.toml'') p)"

definition offline_reference ::
  "'z crates_scheme \<Rightarrow> string \<Rightarrow> (bytes32 \<times> policy \<times> image_ref) cli_op" where
  "offline_reference K rf =
     then_do (offline_domain_check rf) (\<lambda>_.
     then_do (read_home (\<lambda>h. identity_load K (h_key h))) (\<lambda>key.
     then_do (read_home policy_load) (\<lambda>pol.
     then_do (lift_err (image_ref_parse K rf pol (identity_id K key))) (\<lambda>r.
     ret (key, pol, r)))))"

definition verb :: "string \<Rightarrow> string \<Rightarrow> bool \<Rightarrow> string" where
  "verb yes no b = (if b then yes else no)"

definition cli_seed ::
  "'z net_crates_scheme \<Rightarrow> 'a addr_text_scheme \<Rightarrow> cli_env \<Rightarrow> string \<Rightarrow> mode_args \<Rightarrow> unit cli_op" where
  "cli_seed K A X rf args =
     then_do (lift_err (mode_of_args args)) (\<lambda>m.
     when_live A (\<lambda>c.
       then_do (daemon_call X c (\<lambda>E. ctl_seed K E rf m)) (\<lambda>v.
       then_do (say [verb ''seeding'' ''already seeding'' (pc_changed v) @ '' '' @ pc_reference v
          @ '' ('' @ tag_or_mode (pc_reference v) m @ '')'']) (\<lambda>_.
       sync_all K X c)))
     (then_do (offline_reference K rf) (\<lambda>(key, pol, r).
       let t = show_image_ref K r in
       if ref_publisher r = identity_id K key then fail (Own_image t)
       else
         then_do (lift_err (add_seed K t m pol)) (\<lambda>(pol', changed).
         then_do (save_policy X pol') (\<lambda>_.
         then_do (say [verb ''seeding'' ''already seeding'' changed @ '' '' @ t @ '' ('' @ tag_or_mode t m @ '')'']) (\<lambda>_.
         offline_note))))))"

definition cli_unseed :: "'z crates_scheme \<Rightarrow> 'a addr_text_scheme \<Rightarrow> cli_env \<Rightarrow> string \<Rightarrow> unit cli_op" where
  "cli_unseed K A X rf =
     when_live A (\<lambda>c.
       then_do (daemon_call X c (\<lambda>E. ctl_unseed K E rf)) (\<lambda>v.
       say [verb ''no longer seeding'' ''was not seeding'' (pc_changed v) @ '' '' @ pc_reference v]))
     (then_do (offline_reference K rf) (\<lambda>(key, pol, r).
       let t = show_image_ref K r in
       then_do (lift_err (remove_seed K t pol)) (\<lambda>(pol', removed).
       then_do (save_policy X pol') (\<lambda>_.
       then_do (say [verb ''no longer seeding'' ''was not seeding'' removed @ '' '' @ t]) (\<lambda>_.
       offline_note)))))"

definition cli_follow ::
  "'z net_crates_scheme \<Rightarrow> 'a addr_text_scheme \<Rightarrow> cli_env \<Rightarrow> string \<Rightarrow> mode_args \<Rightarrow> unit cli_op" where
  "cli_follow K A X publisher args =
     then_do (lift_err (mode_of_args args)) (\<lambda>m.
     when_live A (\<lambda>c.
       then_do (daemon_call X c (\<lambda>E. ctl_follow K E publisher m)) (\<lambda>v.
       then_do (say [verb ''following'' ''already following'' (pc_changed v) @ '' '' @ pc_reference v
          @ '' mode '' @ show_mode m]) (\<lambda>_.
       sync_all K X c)))
     (then_do (offline_domain_check publisher) (\<lambda>_.
       then_do (lift_err (parse_publisher K publisher)) (\<lambda>p.
       then_do (read_home policy_load) (\<lambda>pol.
       then_do (lift_err (add_follow K (pk_display K p) m pol)) (\<lambda>(pol', changed).
       then_do (save_policy X pol') (\<lambda>_.
       then_do (say [verb ''following'' ''already following'' changed @ '' '' @ pk_display K p
          @ '' ('' @ did_key K p @ '') mode '' @ show_mode m]) (\<lambda>_.
       offline_note))))))))"

definition cli_pin :: "'z net_crates_scheme \<Rightarrow> 'a addr_text_scheme \<Rightarrow> cli_env \<Rightarrow> string \<Rightarrow> unit cli_op" where
  "cli_pin K A X rf =
     when_live A (\<lambda>c.
       then_do (daemon_call X c (\<lambda>E. ctl_pin K E rf)) (\<lambda>v.
       then_do (say [verb ''pinned'' ''already pinned'' (pc_changed v) @ '' '' @ pc_reference v]) (\<lambda>_.
       sync_all K X c)))
     (then_do (offline_reference K rf) (\<lambda>(key, pol, r).
       let t = show_image_ref K r in
       if ref_tag r = None then fail (Pin_tag t)
       else
         then_do (lift_err (add_pin K t pol)) (\<lambda>(pol', added).
         then_do (save_policy X pol') (\<lambda>_.
         then_do (say [verb ''pinned'' ''already pinned'' added @ '' '' @ t]) (\<lambda>_.
         offline_note)))))"

definition cli_unpin :: "'z crates_scheme \<Rightarrow> 'a addr_text_scheme \<Rightarrow> cli_env \<Rightarrow> string \<Rightarrow> unit cli_op" where
  "cli_unpin K A X rf =
     when_live A (\<lambda>c.
       then_do (daemon_call X c (\<lambda>E. ctl_unpin K E rf)) (\<lambda>v.
       say [verb ''unpinned'' ''was not pinned'' (pc_changed v) @ '' '' @ pc_reference v]))
     (then_do (offline_reference K rf) (\<lambda>(key, pol, r).
       let t = show_image_ref K r in
       then_do (lift_err (remove_pin K t pol)) (\<lambda>(pol', removed).
       then_do (save_policy X pol') (\<lambda>_.
       then_do (say [verb ''unpinned'' ''was not pinned'' removed @ '' '' @ t]) (\<lambda>_.
       offline_note)))))"

definition cli_unfollow :: "'z crates_scheme \<Rightarrow> 'a addr_text_scheme \<Rightarrow> cli_env \<Rightarrow> string \<Rightarrow> unit cli_op" where
  "cli_unfollow K A X publisher =
     when_live A (\<lambda>c.
       then_do (daemon_call X c (\<lambda>E. ctl_unfollow K E publisher)) (\<lambda>v.
       say [verb ''unfollowed'' ''was not following'' (pc_changed v) @ '' '' @ pc_reference v]))
     (then_do (offline_domain_check publisher) (\<lambda>_.
       then_do (lift_err (parse_publisher K publisher)) (\<lambda>p.
       then_do (read_home policy_load) (\<lambda>pol.
       then_do (lift_err (remove_follow K (pk_display K p) pol)) (\<lambda>(pol', removed).
       then_do (save_policy X pol') (\<lambda>_.
       then_do (say [verb ''unfollowed'' ''was not following'' removed @ '' '' @ pk_display K p]) (\<lambda>_.
       offline_note)))))))"

text \<open>Aliases are edited in the file at once; the daemon is asked to read it again.\<close>

definition cli_track ::
  "'z crates_scheme \<Rightarrow> 'a addr_text_scheme \<Rightarrow> cli_env \<Rightarrow> string \<Rightarrow> string \<Rightarrow> unit cli_op" where
  "cli_track K A X target a =
     then_do (read_home policy_load) (\<lambda>pol.
     then_do (lift_err (set_alias K a target pol)) (\<lambda>pol'.
     then_do (save_policy X pol') (\<lambda>_.
     then_do (read_home (config_load A)) (\<lambda>c.
     then_do (say [a @ '' -> '' @ opt_text (tget (pol_alias pol') a) id,
        ''use it as '' @ show_addr A (cfg_listen c) @ ''/'' @ a @ ''[/<name>]:<tag>'']) (\<lambda>_.
     cli_reload K A X)))))"

definition cli_untrack :: "'z crates_scheme \<Rightarrow> 'a addr_text_scheme \<Rightarrow> cli_env \<Rightarrow> string \<Rightarrow> unit cli_op" where
  "cli_untrack K A X a =
     then_do (read_home policy_load) (\<lambda>pol.
     case remove_alias a pol of (pol', removed) \<Rightarrow>
     then_do (save_policy X pol') (\<lambda>_.
     then_do (say [verb ''alias removed'' ''no such alias'' removed]) (\<lambda>_.
     cli_reload K A X)))"

definition cli_policy :: "cli_env \<Rightarrow> unit cli_op" where
  "cli_policy X =
     then_do (read_home policy_load) (\<lambda>pol.
     then_do (lift_err (policy_to_toml pol)) (\<lambda>v.
     say [ce_toml X v]))"

section \<open>The identity of the node\<close>

definition identity_lines :: "'z crates_scheme \<Rightarrow> string \<Rightarrow> bytes32 \<Rightarrow> string list" where
  "identity_lines K gap key = [''id'' @ gap @ pk_display K (identity_id K key), ''did'' @ tl gap @ did_key K (identity_id K key)]"

definition cli_init :: "'z crates_scheme \<Rightarrow> 'a addr_text_scheme \<Rightarrow> cli_env \<Rightarrow> unit cli_op" where
  "cli_init K A X w =
     (if is_initialized (c_home w) then
        then_do (read_home (\<lambda>h. identity_load K (h_key h))) (\<lambda>key.
        say ((''already initialized at '' @ ce_path X) # identity_lines K ''   '' key)) w
      else
        then_do (on_home (init_home K A (ce_boot X))) (\<lambda>_.
        say ((''initialized '' @ ce_path X) # identity_lines K ''   '' (boot_key (ce_boot X))
          @ [[], ''next: start `ocid`, then `podman push <image> 127.0.0.1:5050/<name>:<tag>`''])) w)"

definition cli_whoami :: "'z crates_scheme \<Rightarrow> cli_env \<Rightarrow> unit cli_op" where
  "cli_whoami K X =
     then_do (read_home (\<lambda>h. identity_load K (h_key h))) (\<lambda>key.
     say (identity_lines K ''    '' key @ [''home  '' @ ce_path X]))"

definition quoted :: "string \<Rightarrow> string" where
  "quoted s = [CHR 0x22] @ s @ [CHR 0x22]"

definition hint_lines :: "string \<Rightarrow> string list" where
  "hint_lines zone = [[], ''The relay/seed hints make `ocictl connect '' @ zone @ ''` work without'',
     ''a ticket: the relay is a dial hint, the seed an introducer peer.'',
     ''Hints are covered by the signature but can go stale '' @ em_dash @ '' re-run'',
     ''and re-publish whenever your relay or seed peer changes.'']"

definition record_lines :: "'z crates_scheme \<Rightarrow> 'a addr_text_scheme \<Rightarrow> config \<Rightarrow> string \<Rightarrow> bool \<Rightarrow> dns_record \<Rightarrow> string list" where
  "record_lines K A c zone hints rcd =
     [''Publish this record in the '' @ zone @ '' zone:'', [],
      ''  _ocid.'' @ zone @ ''. 300 IN TXT '' @ join_with '' '' (map quoted (txt_strings K rcd)), [],
      ''Once it propagates, pulls use the name instead of hex:'', [],
      ''  podman pull '' @ scheme (cfg_tls c) @ ''://'' @ show_addr A (cfg_listen c) @ ''/'' @ zone @ ''/<name>:<tag>'']
     @ (if hints then hint_lines zone else [])
     @ [[], ''The signature binds the record to this zone and your publisher'',
        ''key (run `ocictl whoami` to see both forms).'',
        ''Peers verify it and pin the key locally on first use; re-run'',
        ''and re-publish to refresh the timestamp when it ages out.'']"

definition cli_dns_record ::
  "'z crates_scheme \<Rightarrow> 'a addr_text_scheme \<Rightarrow> cli_env \<Rightarrow> string \<Rightarrow> u64 option \<Rightarrow> string option \<Rightarrow> string option
     \<Rightarrow> unit cli_op" where
  "cli_dns_record K A X zone ts relay seed =
     then_do (read_home (\<lambda>h. identity_load K (h_key h))) (\<lambda>key.
     then_do (lift_err (case seed of None \<Rightarrow> Inr None
        | Some s \<Rightarrow> and_then (parse_publisher K s) (\<lambda>p. Inr (Some p)))) (\<lambda>introducer.
     then_do (lift_err (sign_full K zone key (case ts of Some t \<Rightarrow> t | None \<Rightarrow> ce_now X) relay introducer)) (\<lambda>rcd.
     then_do (read_home (config_load A)) (\<lambda>c.
     say (record_lines K A c zone (relay \<noteq> None \<or> introducer \<noteq> None) rcd)))))"

section \<open>Asking the daemon\<close>

definition daemon_status_of ::
  "'z crates_scheme \<Rightarrow> 'a addr_text_scheme \<Rightarrow> cli_env \<Rightarrow> config \<Rightarrow> node_env \<Rightarrow> daemon_status ctl" where
  "daemon_status_of K A X c E = (\<lambda>s. ret (node_status K A E c (ce_ticket X) (ce_version X) (ce_started X) s) s)"

definition cli_status :: "'z crates_scheme \<Rightarrow> 'a addr_text_scheme \<Rightarrow> cli_env \<Rightarrow> unit cli_op" where
  "cli_status K A X =
     then_do (ask_daemon A X (daemon_status_of K A X)) (\<lambda>s.
     say [''version    '' @ st_version s, ''id         '' @ pk_display K (st_id s), ''did        '' @ st_did s,
       ''registry   '' @ st_registry s, ''uptime     '' @ show_nat (st_uptime s) @ ''s'', ''pkarr      '' @ st_pkarr s,
       ''neighbors  '' @ show_nat (length (st_neighbors s)), ''peers      '' @ show_nat (st_known_peers s),
       ''releases   '' @ show_nat (st_releases s), ''seeds      '' @ show_nat (length (st_seeds s)),
       ''follows    '' @ show_nat (length (st_follows s)), ''pins       '' @ show_nat (length (st_pins s)),
       ''ticket     '' @ st_ticket s])"

definition cli_ticket :: "'z crates_scheme \<Rightarrow> 'a addr_text_scheme \<Rightarrow> cli_env \<Rightarrow> unit cli_op" where
  "cli_ticket K A X = then_do (ask_daemon A X (daemon_status_of K A X)) (\<lambda>s. say [st_ticket s])"

definition yes_no :: "bool \<Rightarrow> string" where
  "yes_no b = (if b then ''yes'' else ''no'')"

definition peer_row :: "'z crates_scheme \<Rightarrow> peer_info \<Rightarrow> string list" where
  "peer_row K p = [pk_display K (pi_id p), did_key K (pi_id p), yes_no (pi_neighbor p), yes_no (pi_known p),
     (case pi_last_seen p of Some t \<Rightarrow> show_nat t @ ''s ago'' | None \<Rightarrow> ''-'')]"

definition cli_peers :: "'z crates_scheme \<Rightarrow> 'a addr_text_scheme \<Rightarrow> cli_env \<Rightarrow> unit cli_op" where
  "cli_peers K A X =
     then_do (ask_daemon A X (\<lambda>_. ctl_peers)) (\<lambda>ps.
     if ps = [] then say [''no peers known (use `ocictl connect <peer>`)'']
     else show_rows [''PEER'', ''DID'', ''NEIGHBOR'', ''KNOWN'', ''LAST SEEN''] (map (peer_row K) ps))"

definition cli_connect :: "'z net_crates_scheme \<Rightarrow> 'a addr_text_scheme \<Rightarrow> cli_env \<Rightarrow> string \<Rightarrow> unit cli_op" where
  "cli_connect K A X peer =
     then_do (ask_daemon A X (\<lambda>_ E. ctl_add_peer K E peer)) (\<lambda>p. say [''connected to '' @ pk_display K p])"

definition cli_pull :: "'z net_crates_scheme \<Rightarrow> 'a addr_text_scheme \<Rightarrow> cli_env \<Rightarrow> string \<Rightarrow> unit cli_op" where
  "cli_pull K A X rf =
     then_do (ask_daemon A X (\<lambda>_ E. ctl_pull K E rf)) (\<lambda>s.
     then_do (read_home (config_load A)) (\<lambda>c.
     let image = pk_display K (sum_publisher s) @ ''/'' @ sum_name s @ '':'' @ sum_tag s
     in say [image @ ''  '' @ digest_str (sum_digest s),
          ''podman pull '' @ show_addr A (cfg_listen c) @ ''/'' @ image]))"

definition cli_publish :: "'z net_crates_scheme \<Rightarrow> 'a addr_text_scheme \<Rightarrow> cli_env \<Rightarrow> string option \<Rightarrow> unit cli_op" where
  "cli_publish K A X rf =
     then_do (ask_daemon A X (\<lambda>_ E. ctl_announce K E rf)) (\<lambda>n.
     say [''announced '' @ show_nat n @ '' release(s)''])"

definition cli_sync :: "'z net_crates_scheme \<Rightarrow> 'a addr_text_scheme \<Rightarrow> cli_env \<Rightarrow> string option \<Rightarrow> unit cli_op" where
  "cli_sync K A X peer =
     then_do (ask_daemon A X (\<lambda>_ E. ctl_sync K E peer)) (\<lambda>v. say (sync_lines X v))"

definition cli_rm :: "'z crates_scheme \<Rightarrow> 'a addr_text_scheme \<Rightarrow> cli_env \<Rightarrow> string \<Rightarrow> bool \<Rightarrow> unit cli_op" where
  "cli_rm K A X rf all_tags =
     then_do (ask_daemon A X (\<lambda>_ E. ctl_rm K E rf all_tags)) (\<lambda>v.
     say ((if rm_removed v = [] then [''nothing removed''] else [])
       @ map (\<lambda>r. ''removed '' @ r) (rm_removed v)
       @ (if still_wanted v then [''note: the policy still seeds/follows this image; ''
            @ ''it will be replicated again (see `ocictl unseed` / `unfollow`)''] else [])))"

text \<open>The routine is the dashboard's.\<close>

definition human_size :: "u64 \<Rightarrow> string" where
  "human_size n = human_bytes n"

definition gc_lines :: "gc_report \<Rightarrow> string list" where
  "gc_lines r =
     (let v = (if rep_dry r then ''would remove'' else ''removed'')
      in map (\<lambda>x. v @ '' release '' @ x) (rep_releases r)
         @ [v @ '' '' @ show_nat (length (rep_releases r)) @ '' release(s), '' @ show_nat (rep_blobs r)
            @ '' blob(s), '' @ human_size (rep_bytes r) @ '' freed''
            @ (if rep_uploads r > 0 then '', '' @ show_nat (rep_uploads r) @ '' stale upload(s)'' else [])])"

definition cli_gc :: "'z crates_scheme \<Rightarrow> 'a addr_text_scheme \<Rightarrow> cli_env \<Rightarrow> bool \<Rightarrow> bool \<Rightarrow> unit cli_op" where
  "cli_gc K A X dry force =
     then_do (ask_daemon A X (\<lambda>_ E. ctl_gc K E \<lparr>gc_dry = dry, gc_force = force\<rparr>)) (\<lambda>r. say (gc_lines r))"

text \<open>The lookup of a zone never fails on the daemon's side; its state says how it went.\<close>

definition lookup_zone :: "'z crates_scheme \<Rightarrow> string \<Rightarrow> node_env \<Rightarrow> dns_resolve_resp ctl" where
  "lookup_zone K zone E s = (case ctl_dns_resolve K E zone s of (s', r) \<Rightarrow> ret r s')"

definition cli_resolve :: "'z crates_scheme \<Rightarrow> 'a addr_text_scheme \<Rightarrow> cli_env \<Rightarrow> string \<Rightarrow> unit cli_op" where
  "cli_resolve K A X zone =
     then_do (ask_daemon A X (\<lambda>_. lookup_zone K zone)) (\<lambda>r.
     let zone_line = ''zone       '' @ dr_zone r in
     if dr_state r = ''new'' \<or> dr_state r = ''pinned'' then
       (case dr_publisher r of
          None \<Rightarrow> fail No_publisher
        | Some p \<Rightarrow> say ([zone_line, ''publisher  '' @ p,
            ''state      '' @ dr_state r @ '' (verified, fresh, TOFU-pinned)'']
            @ (case dr_relay r of Some u \<Rightarrow> [''relay      '' @ u @ '' (signed hint)''] | None \<Rightarrow> [])
            @ (case dr_seed r of Some i \<Rightarrow> [''seed       '' @ i @ '' (signed introducer hint)''] | None \<Rightarrow> [])
            @ (if dr_relay r \<noteq> None \<or> dr_seed r \<noteq> None
               then [''connect:   ocictl connect '' @ zone @ '' (no ticket needed)''] else [])
            @ [[], ''pulls via:  podman pull <registry>/'' @ zone @ ''/<name>:<tag>'']))
     else if dr_state r = ''no-record'' then
       say [zone_line, ''state      no record '' @ em_dash @ '' falls through to the name rules'']
     else if dr_state r = ''disabled'' then
       say [zone_line, ''state      disabled (dns = '' @ quoted ''off'' @ '' in config.toml)'']
     else if dr_state r = ''error'' then
       then_do (say [zone_line, ''state      error'', []]) (\<lambda>_.
       case dr_detail r of
         None \<Rightarrow> fail No_detail
       | Some e \<Rightarrow>
           then_do (say [ce_error X e, [], ''if this key change is intentional: ocictl dns-unpin '' @ dr_zone r]) (\<lambda>_.
           fail (Zone_failed (dr_zone r))))
     else fail (Bad_state (dr_state r)))"

definition cli_dns_unpin :: "'a addr_text_scheme \<Rightarrow> cli_env \<Rightarrow> string \<Rightarrow> unit cli_op" where
  "cli_dns_unpin A X zone =
     then_do (ask_daemon A X (\<lambda>_ E. ctl_dns_unpin (env_pin_save E) zone)) (\<lambda>removed.
     say [if removed then ''unpinned '' @ zone @ '' '' @ em_dash @ '' the next resolve re-pins whatever the zone publishes''
          else ''no pin existed for '' @ zone])"

section \<open>Listing the images\<close>

text \<open>Without a daemon the index is read; a release counts as complete when all its blobs have an entry.\<close>

definition offline_info :: "'z crates_scheme \<Rightarrow> bytes32 \<Rightarrow> fs \<Rightarrow> release \<Rightarrow> release_info" where
  "offline_info K key ix r = \<lparr>ri_summary = summary_of r, ri_complete = is_indexed ix r, ri_size = total_size r,
     ri_blobs = length (all_blobs r), ri_mine = (p_publisher (payload r) = identity_id K key)\<rparr>"

definition ls_releases :: "'z crates_scheme \<Rightarrow> cli_env \<Rightarrow> config \<Rightarrow> (release_info list \<times> bool) cli_op" where
  "ls_releases K X c w =
     (if is_running w then
        then_do (daemon_call X c (\<lambda>_. ctl_releases K)) (\<lambda>rs. ret (rs, False)) w
      else
        then_do (read_home (\<lambda>h. identity_load K (h_key h))) (\<lambda>key.
        then_do (on_home (make_dirs (ce_boot X))) (\<lambda>_.
        then_do (read_home (\<lambda>h. Inr (map (offline_info K key (h_index h)) (list_releases K (h_index h))))) (\<lambda>rs.
        ret (rs, True)))) w)"

text \<open>Of several aliases of a target the last one in order is shown.\<close>

definition alias_names :: "policy \<Rightarrow> (string, string) table" where
  "alias_names pol = fold (\<lambda>(a, target). tput target a) (pol_alias pol) []"

definition ls_row :: "'z crates_scheme \<Rightarrow> policy \<Rightarrow> release_info \<Rightarrow> string list" where
  "ls_row K pol r =
     (let sm = ri_summary r; pubs = pk_display K (sum_publisher sm); aliases = alias_names pol;
          rule = (if ri_mine r then ''own''
                  else if is_pinned K pol (sum_publisher sm) (sum_name sm) (sum_tag sm) then ''pin''
                  else window_describe (policy_window K pol (sum_publisher sm) (sum_name sm)));
          publisher = (if ri_mine r then ''(me)''
                  else case tget aliases pubs of Some a \<Rightarrow> a | None \<Rightarrow> take 12 pubs @ ellipsis);
          image = (case tget aliases (pubs @ ''/'' @ sum_name sm) of
                    Some a \<Rightarrow> a @ '' ('' @ sum_name sm @ '')'' | None \<Rightarrow> sum_name sm)
      in [publisher, image, sum_tag sm, take 12 (digest_hex (sum_digest sm)) @ ellipsis, human_size (ri_size r),
          show_nat (ri_blobs r), if ri_complete r then ''complete'' else ''partial'', rule])"

definition cli_ls :: "'z crates_scheme \<Rightarrow> 'a addr_text_scheme \<Rightarrow> cli_env \<Rightarrow> unit cli_op" where
  "cli_ls K A X =
     then_do (read_home (config_load A)) (\<lambda>c.
     then_do (read_home policy_load) (\<lambda>pol.
     then_do (ls_releases K X c) (\<lambda>(rs, offline).
     if rs = [] then
       say [''no images. push one: podman push <image> '' @ show_addr A (cfg_listen c) @ ''/<name>:<tag>'']
     else
       then_do (show_rows [''PUBLISHER'', ''IMAGE'', ''TAG'', ''DIGEST'', ''SIZE'', ''BLOBS'', ''STATE'', ''POLICY'']
         (map (ls_row K pol) rs)) (\<lambda>_.
       if offline then say [''(daemon not running; listing from on-disk index)''] else ret ()))))"

section \<open>Commands\<close>

datatype command =
    Cmd_init
  | Cmd_whoami
  | Cmd_dns_record string "u64 option" "string option" "string option"
  | Cmd_resolve string
  | Cmd_dns_unpin string
  | Cmd_status
  | Cmd_ticket
  | Cmd_peers
  | Cmd_connect string
  | Cmd_ls
  | Cmd_pull string
  | Cmd_publish "string option"
  | Cmd_seed string mode_args
  | Cmd_unseed string
  | Cmd_follow string mode_args
  | Cmd_unfollow string
  | Cmd_pin string
  | Cmd_unpin string
  | Cmd_track string string
  | Cmd_untrack string
  | Cmd_policy
  | Cmd_sync "string option"
  | Cmd_rm string bool
  | Cmd_gc bool bool

fun run_command :: "'z net_crates_scheme \<Rightarrow> 'a addr_text_scheme \<Rightarrow> cli_env \<Rightarrow> command \<Rightarrow> unit cli_op" where
  "run_command K A X Cmd_init = cli_init K A X"
| "run_command K A X Cmd_whoami = cli_whoami K X"
| "run_command K A X (Cmd_dns_record zone ts relay seed) = cli_dns_record K A X zone ts relay seed"
| "run_command K A X (Cmd_resolve zone) = cli_resolve K A X zone"
| "run_command K A X (Cmd_dns_unpin zone) = cli_dns_unpin A X zone"
| "run_command K A X Cmd_status = cli_status K A X"
| "run_command K A X Cmd_ticket = cli_ticket K A X"
| "run_command K A X Cmd_peers = cli_peers K A X"
| "run_command K A X (Cmd_connect peer) = cli_connect K A X peer"
| "run_command K A X Cmd_ls = cli_ls K A X"
| "run_command K A X (Cmd_pull rf) = cli_pull K A X rf"
| "run_command K A X (Cmd_publish rf) = cli_publish K A X rf"
| "run_command K A X (Cmd_seed rf m) = cli_seed K A X rf m"
| "run_command K A X (Cmd_unseed rf) = cli_unseed K A X rf"
| "run_command K A X (Cmd_follow p m) = cli_follow K A X p m"
| "run_command K A X (Cmd_unfollow p) = cli_unfollow K A X p"
| "run_command K A X (Cmd_pin rf) = cli_pin K A X rf"
| "run_command K A X (Cmd_unpin rf) = cli_unpin K A X rf"
| "run_command K A X (Cmd_track target a) = cli_track K A X target a"
| "run_command K A X (Cmd_untrack a) = cli_untrack K A X a"
| "run_command K A X Cmd_policy = cli_policy X"
| "run_command K A X (Cmd_sync peer) = cli_sync K A X peer"
| "run_command K A X (Cmd_rm rf all_tags) = cli_rm K A X rf all_tags"
| "run_command K A X (Cmd_gc dry force) = cli_gc K A X dry force"

end
