(* ===== verification/References.thy ===== *)
theory References
  imports Node_Policy
begin

text \<open>
  Image references with an explicit publisher (\<^verbatim>\<open>ImageRef::parse\<close> of \<^verbatim>\<open>crates/ocid-core/src/oci.rs\<close>): which
  printed references read back, and which rules the commands and the node take them for.
\<close>

section \<open>Reading a canonical reference\<close>

lemma lhex_plain:
  assumes "is_lhex c"
  shows "name_char c" "is_alnum c" "c \<noteq> CHR ''.''" "c \<noteq> CHR ''h''"
proof -
  have "c \<le> CHR ''f'' \<Longrightarrow> c \<le> CHR ''z''" by (erule order.trans) simp
  with assms show "name_char c" "is_alnum c" by (auto simp: is_lhex_def name_char_def char_class_defs)
  show "c \<noteq> CHR ''.''" "c \<noteq> CHR ''h''" using assms by (auto simp: is_lhex_def char_class_defs)
qed

lemma split_on_prefix:
  assumes "c \<notin> set a"
  shows "split_on c (a @ [c] @ b) = a # split_on c b"
proof -
  have "split_on c a = [a]" using assms by (induction a) auto
  then show ?thesis using split_on_append_sep [of c a b] by simp
qed

lemma display_plain_chars:
  assumes "key_laws K"
  shows "CHR '':'' \<notin> set (pk_display K p)" "CHR ''.'' \<notin> set (pk_display K p)" "CHR ''h'' \<notin> set (pk_display K p)"
    "CHR ''/'' \<notin> set (pk_display K p)"
proof -
  have "list_all is_lhex (pk_display K p)" using assms by (simp add: key_lawsD)
  then show "CHR '':'' \<notin> set (pk_display K p)" "CHR ''.'' \<notin> set (pk_display K p)" "CHR ''h'' \<notin> set (pk_display K p)"
    "CHR ''/'' \<notin> set (pk_display K p)"
    using lhex_plain name_char_plain by (fastforce simp: list_all_iff)+
qed

lemma display_no_domain: "key_laws K \<Longrightarrow> \<not> is_domain_name (pk_display K p)"
  by (simp add: not_domain_name display_plain_chars)

lemma explicit_repo_no_slot: "key_laws K \<Longrightarrow> domain_slot (pk_display K p @ ''/'' @ n) = None"
  using display_plain_chars [of K p] display_no_domain [of K p] by (simp add: domain_slot_def split_once_append)

lemma explicit_name_ok:
  assumes "key_laws K" "name_ok n"
  shows "name_ok (pk_display K p @ ''/'' @ n) \<longleftrightarrow> length n \<le> 190"
proof -
  let ?h = "pk_display K p"
  have hex: "length ?h = 64" "list_all is_lhex ?h" using assms(1) by (simp_all add: key_lawsD)
  have "split_on CHR ''/'' (?h @ ''/'' @ n) = ?h # split_on CHR ''/'' n"
    using split_on_prefix [of "CHR ''/''" ?h n] lhex_no_slash [OF hex(2)] by simp
  moreover have "name_component_ok ?h"
    using hex lhex_plain by (cases ?h) (auto simp: name_component_ok_def list_all_iff)
  ultimately show ?thesis using assms(2) hex(1) by (auto simp: name_ok_iff)
qed

text \<open>A text that begins with a hexadecimal publisher has no other prefix that is looked for.\<close>

lemma no_prefix: "i < length p \<Longrightarrow> s ! i \<noteq> p ! i \<Longrightarrow> strip_prefix p s = None"
  by (metis nth_append strip_prefix_Some_iff not_Some_eq)

lemma explicit_prefixes:
  assumes "key_laws K"
  shows "strip_prefix ''did:key:'' (pk_display K p @ r) = None" "strip_prefix ''https://'' (pk_display K p @ r) = None"
    "strip_prefix ''http://'' (pk_display K p @ r) = None"
proof -
  let ?h = "pk_display K p"
  have len: "length ?h = 64" using assms by (simp add: key_lawsD)
  have char: "(?h @ r) ! i \<noteq> c" if "i < 64" "c \<notin> set ?h" for i c
    using that nth_mem [of i ?h] len by (auto simp: nth_append)
  show "strip_prefix ''did:key:'' (?h @ r) = None"
    by (rule no_prefix [of 3]) (use char [of 3] display_plain_chars(1) [OF assms] in simp_all)
  show "strip_prefix ''https://'' (?h @ r) = None" "strip_prefix ''http://'' (?h @ r) = None"
    by (rule no_prefix [of 0]; use char [of 0] display_plain_chars(3) [OF assms] in simp)+
qed

lemma explicit_location:
  assumes "key_laws K" "trim (pk_display K p @ ''/'' @ r) = pk_display K p @ ''/'' @ r"
  shows "strip_registry_location (pk_display K p @ ''/'' @ r) = pk_display K p @ ''/'' @ r"
proof -
  let ?h = "pk_display K p"
  have "length ?h = 64" using assms by (simp add: key_lawsD)
  then have "?h \<noteq> ''localhost''" by auto
  with display_plain_chars [OF assms(1), of p] have "\<not> is_location ?h" by (simp add: is_location_def)
  moreover have "split_once CHR ''/'' (?h @ ''/'' @ r) = Some (?h, r)"
    using display_plain_chars [OF assms(1), of p] by (simp add: split_once_Some_iff)
  ultimately show ?thesis
    using explicit_prefixes(2,3) [OF assms(1), of p "''/'' @ r"] assms(2)
    by (cases r) (simp_all add: strip_registry_location_def)
qed

lemma explicit_text_plain:
  assumes "key_laws K" "name_ok n" "tag_opt_ok t"
  shows "trim (pk_display K p @ ''/'' @ name_and_tag n t) = pk_display K p @ ''/'' @ name_and_tag n t"
  using assms name_and_tag_plain(1) [OF assms(2,3)] lhex_no_space [of "pk_display K p"]
  by (intro trim_no_space) (simp add: key_lawsD is_space_def)

lemma colon_position:
  assumes "CHR '':'' \<notin> set a" "CHR '':'' \<notin> set b" "name_and_tag a t = name_and_tag b u"
  shows "a = b"
  using assms split_once_Some_iff [of "CHR '':''" "name_and_tag a t"] split_once_Some_iff [of "CHR '':''" "name_and_tag b u"]
  by (cases t; cases u) (auto simp: name_and_tag_def append_eq_append_conv2 append_eq_Cons_conv Cons_eq_append_conv)

lemma name_and_tag_append: "a @ name_and_tag n t = name_and_tag (a @ n) t"
  by (simp add: name_and_tag_def)

text \<open>The name is counted together with the publisher before it.\<close>

lemma image_ref_parse_explicit:
  assumes "key_laws K" "image_ref_ok r"
  shows "length (ref_name r) \<le> 190 \<Longrightarrow> image_ref_parse K (show_image_ref K r) pol self = Inr r"
    "length (ref_name r) > 190 \<Longrightarrow> \<not> is_ok (image_ref_parse K (show_image_ref K r) pol self)"
proof -
  let ?p = "ref_publisher r" and ?n = "ref_name r" and ?t = "ref_tag r"
  let ?h = "pk_display K ?p" and ?s = "show_image_ref K r"
  let ?full = "?h @ ''/'' @ ?n"
  have n: "name_ok ?n" and t: "tag_opt_ok ?t" using assms(2) by (simp_all add: image_ref_ok_def)
  have s: "?s = ?h @ ''/'' @ name_and_tag ?n ?t" by (rule show_image_ref_alt)
  then have s': "?s = name_and_tag ?full ?t" by (simp add: name_and_tag_def)
  note trim = explicit_text_plain [OF assms(1) n t, of ?p, folded s]
  have parse: "image_ref_parse K ?s pol self = and_then (split_tag ?s) (\<lambda>(repo, tag).
      and_then (resolve_repo K repo pol self) (\<lambda>(publisher, name).
      Inr \<lparr>ref_publisher = publisher, ref_name = name, ref_tag = tag\<rparr>))"
    using trim explicit_prefixes(1) [OF assms(1), of ?p "''/'' @ name_and_tag ?n ?t", folded s]
      explicit_location [OF assms(1), of ?p "name_and_tag ?n ?t", folded s]
    by (simp add: image_ref_parse_def)
  show "image_ref_parse K ?s pol self = Inr r" if "length ?n \<le> 190"
  proof -
    have "split_tag ?s = Inr (?full, ?t)"
      unfolding s' using that explicit_name_ok [OF assms(1) n] by (intro split_tag_complete t) simp
    moreover have "resolve_repo K ?full pol self = Inr (?p, ?n)" by (rule resolve_repo_explicit [OF assms(1) n])
    ultimately show ?thesis by (simp add: parse)
  qed
  show "\<not> is_ok (image_ref_parse K ?s pol self)" if "length ?n > 190"
  proof
    assume "is_ok (image_ref_parse K ?s pol self)"
    then obtain n' t' where sp: "split_tag ?s = Inr (n', t')"
      unfolding parse by (cases "split_tag ?s") (auto simp: is_ok_def)
    then have n': "name_ok n'" "name_and_tag ?full ?t = name_and_tag n' t'" by (auto simp: split_tag_iff s')
    have "CHR '':'' \<notin> set ?full"
      using display_plain_chars(1) [OF assms(1)] name_ok_no_colon [OF n] by simp
    from colon_position [OF this name_ok_no_colon [OF n'(1)] n'(2)] n'(1) have "name_ok ?full" by simp
    with explicit_name_ok [OF assms(1) n, of ?p] that show False by simp
  qed
qed

lemma image_ref_parse_did:
  assumes "key_laws K" "b58_laws K" "name_ok n" "tag_opt_ok t"
  shows "image_ref_parse K (did_key K p @ ''/'' @ name_and_tag n t) pol self
    = Inr \<lparr>ref_publisher = p, ref_name = n, ref_tag = t\<rparr>"
proof -
  let ?s = "did_key K p @ ''/'' @ name_and_tag n t"
  have "trim ?s = ?s"
    using did_key_no_space [OF assms(2), of p] name_and_tag_plain(1) [OF assms(3,4)]
    by (intro trim_no_space) (simp add: is_space_def)
  moreover have "strip_prefix ''did:key:'' ?s \<noteq> None" by (simp add: did_key_def strip_prefix_def)
  moreover have "parse_explicit K ?s = Inr \<lparr>ref_publisher = p, ref_name = n, ref_tag = t\<rparr>"
    by (rule parse_explicit_text [OF parse_publisher_did_key [OF assms(2,1)] did_key_no_space [OF assms(2)]
        did_key_chars(1) [OF assms(2)] assms(3,4)])
  ultimately show ?thesis by (simp add: image_ref_parse_def)
qed

section \<open>Property\<close>

text \<open>C34: A reference printed with its publisher in hexadecimal reads back to itself exactly when the name has at
  most 190 characters, because the limit of 255 is applied to publisher and name together; the same reference
  with the \<open>did:key\<close> of the publisher, and the same text as a rule of the policy, are read for every valid
  name.\<close>

theorem canonical_reference_limit:
  assumes "key_laws K" "b58_laws K" "name_ok (ref_name r)" "tag_opt_ok (ref_tag r)"
  shows "(image_ref_parse K (show_image_ref K r) pol self = Inr r \<longleftrightarrow> length (ref_name r) \<le> 190)
    \<and> image_ref_parse K (did_key K (ref_publisher r) @ ''/'' @ name_and_tag (ref_name r) (ref_tag r)) pol self = Inr r
    \<and> parse_seed_rule K pol (show_image_ref K r) m = Inr \<lparr>sr_publisher = ref_publisher r, sr_name = ref_name r,
         sr_tag = ref_tag r, sr_mode = m\<rparr>"
proof -
  have ok: "image_ref_ok r" using assms(3,4) by (simp add: image_ref_ok_def)
  have "image_ref_parse K (show_image_ref K r) pol self = Inr r \<longleftrightarrow> length (ref_name r) \<le> 190"
    using image_ref_parse_explicit [OF assms(1) ok, of pol self]
    by (cases "length (ref_name r) \<le> 190") (auto simp: is_ok_def)
  with image_ref_parse_did [OF assms, of "ref_publisher r"] parse_seed_rule_did(2) [OF assms(2,1,3,4)]
  show ?thesis by (simp add: show_image_ref_alt)
qed

theorem canonical_reference_limit_witness:
  "\<exists>r :: image_ref. length (ref_name r) = 191
     \<and> image_ref_parse demo_crates (show_image_ref demo_crates r) policy_default (PublicKey 1) \<noteq> Inr r
     \<and> image_ref_parse demo_crates (did_key demo_crates (ref_publisher r) @ ''/'' @ ref_name r) policy_default
         (PublicKey 1) = Inr r"
proof -
  let ?n = "replicate 191 CHR ''a''" and ?p = "PublicKey 7"
  let ?r = "\<lparr>ref_publisher = ?p, ref_name = ?n, ref_tag = None\<rparr>"
  have "split_on CHR ''/'' (replicate k CHR ''a'') = [replicate k CHR ''a'']" for k by (induction k) simp_all
  moreover have "name_component_ok ?n"
  proof -
    have "list_all (\<lambda>c. name_char c \<and> is_alnum c) ?n" by (simp add: list_all_iff name_char_def char_class_defs)
    moreover have "length ?n = 191" by simp
    then obtain c cs where "?n = c # cs" by (cases ?n) simp_all
    moreover have "?n \<noteq> ''.''" "?n \<noteq> ''..''" by (auto dest: arg_cong [where f = length])
    ultimately show ?thesis by (simp add: name_component_ok_def list_all_iff)
  qed
  ultimately have "name_ok ?n" by (simp add: name_ok_iff)
  then show ?thesis
    using canonical_reference_limit [OF demo_key_laws demo_b58_laws, of ?r policy_default "PublicKey 1"]
    by (intro exI [of _ ?r]) (simp add: name_and_tag_def)
qed

end
