(* ===== verification/Cli_Safety.thy ===== *)
theory Cli_Safety
  imports Cli References
begin

text \<open>
  The policy commands of \<open>Cli\<close>: with and without a running daemon they write the same policy, for references
  with an explicit publisher; through an alias they do not.
\<close>

section \<open>Replication leaves the policy alone\<close>

definition same_policy :: "node \<Rightarrow> node \<Rightarrow> bool" where
  "same_policy s s' \<longleftrightarrow> node_policy s' = node_policy s \<and> policy_disk s' = policy_disk s \<and> node_key s' = node_key s"

lemma same_policy_preorder: "preorder_on_states same_policy"
  by (auto simp: preorder_on_states_def same_policy_def reflp_def transp_def)

lemma core_same_policy:
  assumes "keeps same_core m"
  shows "keeps same_policy m"
proof -
  have "same_policy s t" if "same_core s t" for s t
    using that [unfolded same_core_def, THEN arg_cong [where f = node_policy]]
      that [unfolded same_core_def, THEN arg_cong [where f = policy_disk]]
      that [unfolded same_core_def, THEN arg_cong [where f = node_key]]
    by (simp add: same_policy_def)
  with assms show ?thesis by (simp add: keeps_def)
qed

lemma dns_same_policy: "keeps same_but_dns m \<Longrightarrow> keeps same_policy m"
  using same_but_dnsD by (simp add: keeps_def same_policy_def)

lemma same_policy_modify: "(\<And>s. same_policy s (g s)) \<Longrightarrow> keeps same_policy (modify g)"
  by (rule keeps_modify)

lemmas policy_intros = keeps_then [OF same_policy_preorder] keeps_basic [OF same_policy_preorder]
  keeps_for_each [OF same_policy_preorder] keeps_fold_op [OF same_policy_preorder] core_same_policy [OF keeps_on_index]
  core_same_policy [OF keeps_enforce] keeps_if keeps_ignore same_policy_modify

lemma emit_same_policy: "same_policy s (emit e s)"
  by (simp add: same_policy_def emit_def)

lemma fetch_blob_same_policy: "keeps same_policy (fetch_blob K E providers b)"
proof -
  have entry: "keeps same_policy (verify_and_record K b)"
    unfolding verify_and_record_def record_blob_def index_put_blob_def
    by (intro policy_intros) (simp add: set_tag_def same_policy_def)
  have fetch: "keeps same_policy (then_do (fetch_data E b providers) (\<lambda>_. verify_and_record K b))"
    by (intro policy_intros entry) (simp add: keeps_def fetch_data_def add_data_def same_policy_def split: option.split)
  have known: "keeps same_policy (then_do (lift_res (\<lambda>s. blob_ref_get (idx s) (br_digest b)))
      (\<lambda>known. if known = None then verify_and_record K b else ret ()))"
    by (intro policy_intros entry)
  show ?thesis
    using keepsD [OF fetch] keepsD [OF known] by (simp add: keeps_def fetch_blob_def same_policy_def)
qed

lemma fetch_release_same_policy: "keeps same_policy (fetch_release K E r providers)"
proof -
  have step: "keeps same_policy (fetch_step K E r ps b acc)" for ps b acc
    unfolding fetch_step_def Let_def
    by (intro policy_intros fetch_blob_same_policy) (simp add: progress_def emit_same_policy)
  have inner: "same_policy t (fst (fetch_release_inner K E r providers t))" for t
    unfolding fetch_release_inner_def Let_def
    by (rule keepsD) (intro policy_intros step; simp add: progress_def emit_same_policy)
  show ?thesis
    unfolding keeps_def
  proof
    fix s
    obtain s2 res where run: "fetch_release_inner K E r providers (s\<lparr>inflight := insert (reference K r) (inflight s)\<rparr>)
        = (s2, res)" by force
    then show "same_policy s (fst (fetch_release K E r providers s))"
      using inner [of "s\<lparr>inflight := insert (reference K r) (inflight s)\<rparr>"]
      by (simp add: fetch_release_def Let_def same_policy_def emit_def split: sum.split)
  qed
qed

lemma sync_with_same_policy: "keeps same_policy (sync_with K E peer)"
proof -
  have one: "keeps same_policy (sync_one K E peer x)" for x
    unfolding sync_one_def
    by (intro policy_intros) (auto intro: policy_intros fetch_release_same_policy split: option.split)
  have repo: "keeps same_policy (sync_repo K E peer pol theirs repo)" for pol theirs repo
    by (cases repo) (simp add: sync_repo_def Let_def, intro policy_intros one)
  have loop: "keeps same_policy (\<lambda>s. for_each (h offers s) (sync_repo K E peer (node_policy s) (g offers s)) s)" for h g offers
    by (rule keeps_at [where g = "\<lambda>s. (h offers s, node_policy s, g offers s)"
          and m = "\<lambda>(repos, pol, theirs). for_each repos (sync_repo K E peer pol theirs)", simplified])
      (auto intro: policy_intros repo)
  show ?thesis
    unfolding sync_with_def Let_def
    by (intro policy_intros loop) (simp add: note_peer_seen_def same_policy_def)
qed

lemma ctl_sync_same_policy: "same_policy s (fst (ctl_sync K E peer s))"
proof -
  have "keeps same_policy (sync_next K E p acc)" for p acc
    using keepsD [OF sync_with_same_policy, of _ K E p]
    by (auto simp: keeps_def sync_next_def split: prod.split sum.split) (metis fst_conv)+
  then have "keeps same_policy (then_do (lift_res (\<lambda>s. case peer of
          Some p \<Rightarrow> and_then (parse_publisher K p) (\<lambda>k. Inr [k])
        | None \<Rightarrow> Inr (map pi_id (peer_infos E s)))) (\<lambda>peers.
      fold_op (sync_next K E) peers (0, [])))"
    by (intro policy_intros)
  then show ?thesis by (simp add: ctl_sync_def ctl_result_def keeps_def split: prod.split) (metis fst_conv)
qed

section \<open>What a change of the policy comes to\<close>

text \<open>A continuation that only reports: it succeeds and leaves the policy file.\<close>

definition reports :: "('x \<Rightarrow> unit cli_op) \<Rightarrow> bool" where
  "reports k \<longleftrightarrow> (\<forall>v w. is_ok (snd (k v w)) \<and> policy_load (c_home (fst (k v w))) = policy_load (c_home w))"

lemma say_reports: "reports (\<lambda>v. say (l v))"
  by (simp add: reports_def say_def is_ok_def)

lemma reports_then:
  assumes "reports k" "reports (\<lambda>_ :: unit. m)"
  shows "reports (\<lambda>v. then_do (k v) (\<lambda>_. m))"
  unfolding reports_def
proof (intro allI)
  fix v w
  obtain w1 r where one: "k v w = (w1, r)" by force
  have "is_ok r" "policy_load (c_home w1) = policy_load (c_home w)"
    using assms(1) one unfolding reports_def by (metis fst_conv snd_conv)+
  moreover from this one have "then_do (k v) (\<lambda>_. m) w = m w1" by (cases r) (simp_all add: then_do_def is_ok_def)
  ultimately show "is_ok (snd (then_do (k v) (\<lambda>_. m) w))
      \<and> policy_load (c_home (fst (then_do (k v) (\<lambda>_. m) w))) = policy_load (c_home w)"
    using assms(2) by (simp add: reports_def)
qed

lemma sync_all_reports: "reports (\<lambda>_. sync_all K X c)"
  unfolding reports_def
proof (intro allI)
  fix w
  show "is_ok (snd (sync_all K X c w)) \<and> policy_load (c_home (fst (sync_all K X c w))) = policy_load (c_home w)"
  proof (cases "c_node w")
    case None
    then show ?thesis by (simp add: sync_all_def daemon_call_def is_ok_def)
  next
    case (Some s)
    let ?s = "s\<lparr>policy_disk := to_option (policy_load (c_home w))\<rparr>"
    obtain s' r where run: "ctl_sync K (configured c (boot_node (ce_boot X))) None ?s = (s', r)" by force
    with ctl_sync_same_policy [of ?s K "configured c (boot_node (ce_boot X))" None]
    have "policy_disk s' = to_option (policy_load (c_home w))" by (simp add: same_policy_def)
    with Some run show ?thesis
      by (cases r) (simp_all add: sync_all_def daemon_call_def daemon_saved_def say_def is_ok_def map_err_def)
  qed
qed

text \<open>The outcome of a command that makes an edit of the policy in the file.\<close>

definition outcome :: "cli \<Rightarrow> (policy \<times> bool) result \<Rightarrow> cli \<times> (cli_err + unit) \<Rightarrow> bool" where
  "outcome w edit res \<longleftrightarrow> (case edit of
     Inl _ \<Rightarrow> \<not> is_ok (snd res) \<and> policy_load (c_home (fst res)) = policy_load (c_home w)
   | Inr (p, _) \<Rightarrow> is_ok (snd res) \<and> policy_load (c_home (fst res)) = Inr p)"

lemma outcomes_agree:
  assumes "outcome w e r1" "outcome w' e r2" "c_home w' = c_home w"
  shows "is_ok (snd r1) = is_ok (snd r2) \<and> policy_load (c_home (fst r1)) = policy_load (c_home (fst r2))"
  using assms by (auto simp: outcome_def split: sum.splits)

lemma file_outcome:
  assumes "\<And>p b. edit = Inr (p, b) \<Longrightarrow> policy_ok p" "boot_writes (ce_boot X) ''policy.toml''"
    and "\<And>p b. reports (\<lambda>_ :: unit. k p b)"
  shows "outcome w edit (then_do (lift_err edit) (\<lambda>(p, b). then_do (save_policy X p) (\<lambda>_. k p b)) w)"
proof (cases edit)
  case (Inl e)
  then show ?thesis by (simp add: outcome_def then_do_def lift_err_def map_err_def is_ok_def)
next
  case (Inr pb)
  obtain p b where pb: "pb = (p, b)" by force
  have "policy_ok p" by (rule assms(1)) (simp add: Inr pb)
  from policy_form [OF this] obtain v where v: "policy_to_toml p = Inr v" "policy_of_toml v = Inr p" by blast
  let ?w = "w\<lparr>c_home := (c_home w)\<lparr>h_policy := Stored v\<rparr>\<rparr>"
  have "save_policy X p w = (?w, Inr ())"
    using v(1) assms(2) by (simp add: save_policy_def on_home_def policy_save_def save_file_def map_err_def)
  moreover have "policy_load (c_home ?w) = Inr p" using v(2) by (simp add: policy_load_def load_file_def)
  ultimately show ?thesis
    using Inr pb assms(3) [of p b] by (simp add: outcome_def then_do_def lift_err_def map_err_def reports_def)
qed

lemma daemon_outcome:
  assumes "c_node w = Some s" "policy_load (c_home w) = Inr (node_policy s)"
    and "\<And>p b. edit (node_policy s) = Inr (p, b) \<Longrightarrow> policy_ok p" "env_policy_save (boot_node (ce_boot X))"
    and "G (configured c (boot_node (ce_boot X))) (s\<lparr>policy_disk := Some (node_policy s)\<rparr>)
      = mutate_policy K (configured c (boot_node (ce_boot X))) (\<lambda>p. and_then (edit p) (\<lambda>pb. Inr (change_resp rule pb)))
          (s\<lparr>policy_disk := Some (node_policy s)\<rparr>)"
    and "reports k"
  shows "outcome w (edit (node_policy s)) (then_do (daemon_call X c (\<lambda>E. ctl_result (G E))) k w)"
proof (cases "edit (node_policy s)")
  case (Inl e)
  let ?s = "s\<lparr>policy_disk := Some (node_policy s)\<rparr>"
  have "G (configured c (boot_node (ce_boot X))) ?s = (?s, Inl e)" unfolding assms(5) by (simp add: mutate_policy_def Inl)
  then have "daemon_call X c (\<lambda>E. ctl_result (G E)) w = (w\<lparr>c_node := Some ?s\<rparr>, Inl (Daemon_err 500 e))"
    using assms(1,2) by (simp add: daemon_call_def ctl_result_def map_err_def daemon_saved_def)
  then show ?thesis by (simp add: outcome_def then_do_def is_ok_def Inl)
next
  case (Inr pb)
  obtain p b where pb: "pb = (p, b)" by force
  have "policy_ok p" by (rule assms(3)) (simp add: Inr pb)
  from policy_form [OF this] obtain v where v: "policy_to_toml p = Inr v" "policy_of_toml v = Inr p" by blast
  let ?s = "s\<lparr>policy_disk := Some (node_policy s)\<rparr>"
  let ?s' = "apply_policy K (configured c (boot_node (ce_boot X))) p (?s\<lparr>policy_disk := Some p\<rparr>)"
  let ?w = "w\<lparr>c_node := Some ?s', c_home := daemon_saved (Some (node_policy s)) ?s' (c_home w)\<rparr>"
  have "env_policy_save (configured c (boot_node (ce_boot X)))" using assms(4) by (simp add: configured_def)
  then have "G (configured c (boot_node (ce_boot X))) ?s = (?s', Inr \<lparr>pc_changed = b, pc_reference = rule\<rparr>)"
    using assms(5) Inr pb by (simp add: mutate_policy_def change_resp_def)
  then have "daemon_call X c (\<lambda>E. ctl_result (G E)) w = (?w, Inr \<lparr>pc_changed = b, pc_reference = rule\<rparr>)"
    using assms(1,2) by (simp add: daemon_call_def ctl_result_def map_err_def)
  moreover have "policy_load (c_home ?w) = Inr p"
    using v assms(2)
    by (cases "p = node_policy s") (simp_all add: daemon_saved_def apply_policy_fields policy_load_def load_file_def)
  ultimately show ?thesis
    using Inr pb assms(6) by (simp add: outcome_def then_do_def reports_def)
qed

section \<open>Edits of a policy\<close>

lemma update_first_all: "list_all P xs \<Longrightarrow> (\<And>x. P x \<Longrightarrow> P (f x)) \<Longrightarrow> list_all P (update_first Q f xs)"
  by (induction xs) auto

lemma edits_keep_policy_ok:
  assumes "policy_ok p" "mode_ok m"
  shows "add_seed K t m p = Inr (q, b) \<Longrightarrow> policy_ok q" "remove_seed K t p = Inr (q, b) \<Longrightarrow> policy_ok q"
    "add_follow K t m p = Inr (q, b) \<Longrightarrow> policy_ok q" "remove_follow K t p = Inr (q, b) \<Longrightarrow> policy_ok q"
    "add_pin K t p = Inr (q, b) \<Longrightarrow> policy_ok q" "remove_pin K t p = Inr (q, b) \<Longrightarrow> policy_ok q"
proof -
  have filter: "list_all P xs \<Longrightarrow> list_all P (filter Q xs)" for P Q and xs :: "'x list"
    by (simp add: list_all_iff)
  show "add_seed K t m p = Inr (q, b) \<Longrightarrow> policy_ok q"
    using assms by (auto simp: add_seed_def policy_ok_def update_first_all split: option.splits if_splits)
  show "remove_seed K t p = Inr (q, b) \<Longrightarrow> policy_ok q"
    using assms by (auto simp: remove_seed_def policy_ok_def Let_def filter)
  show "add_follow K t m p = Inr (q, b) \<Longrightarrow> policy_ok q"
    using assms by (auto simp: add_follow_def policy_ok_def update_first_all split: option.splits if_splits)
  show "remove_follow K t p = Inr (q, b) \<Longrightarrow> policy_ok q"
    using assms by (auto simp: remove_follow_def policy_ok_def Let_def filter)
  show "add_pin K t p = Inr (q, b) \<Longrightarrow> policy_ok q" "remove_pin K t p = Inr (q, b) \<Longrightarrow> policy_ok q"
    using assms by (auto simp: add_pin_def remove_pin_def policy_ok_def Let_def split: if_splits)
qed

lemma latest_ok: "mode_ok Latest"
  by (simp add: mode_ok_def show_mode_def mode_from_str_def trim_no_space is_space_def)

lemma mode_of_args_ok: "mode_of_args args = Inr m \<Longrightarrow> mode_ok m"
proof -
  have "mode_ok Full" by (simp add: mode_ok_def show_mode_def mode_from_str_def trim_no_space is_space_def)
  with latest_ok show "mode_of_args args = Inr m \<Longrightarrow> mode_ok m"
    using mode_text_stable by (auto simp: mode_of_args_def mode_ok_def split: if_splits option.splits)
qed

section \<open>References with an explicit publisher\<close>

lemma explicit_no_slot:
  assumes "key_laws K"
  shows "domain_slot (show_image_ref K r) = None" "offline_domain_check (show_image_ref K r) = ret ()"
    "offline_domain_check (pk_display K p) = ret ()"
proof -
  have split: "split_once CHR ''/'' (show_image_ref K r)
      = Some (pk_display K (ref_publisher r), name_and_tag (ref_name r) (ref_tag r))"
    using display_plain_chars [OF assms] by (simp add: show_image_ref_alt split_once_Some_iff)
  then show "domain_slot (show_image_ref K r) = None" "offline_domain_check (show_image_ref K r) = ret ()"
    using display_no_domain [OF assms] by (simp_all add: domain_slot_def offline_domain_check_def)
  have "split_once CHR ''/'' (pk_display K p) = None"
    using display_plain_chars [OF assms] by (simp add: split_once_None_iff)
  then show "offline_domain_check (pk_display K p) = ret ()"
    using display_no_domain [OF assms] by (simp add: offline_domain_check_def)
qed

text \<open>A daemon that could be running on the home: it has its key and its policy, and both can write it.\<close>

definition serves_home :: "'z crates_scheme \<Rightarrow> cli_env \<Rightarrow> cli \<Rightarrow> node \<Rightarrow> bool" where
  "serves_home K X w s \<longleftrightarrow> identity_load K (h_key (c_home w)) = Inr (node_key s)
     \<and> policy_load (c_home w) = Inr (node_policy s) \<and> policy_ok (node_policy s)
     \<and> boot_writes (ce_boot X) ''policy.toml'' \<and> env_policy_save (boot_node (ce_boot X))"

abbreviation with_daemon :: "cli \<Rightarrow> node \<Rightarrow> cli" where
  "with_daemon w s \<equiv> w\<lparr>c_node := Some s\<rparr>"

lemma offline_reference_explicit:
  assumes "key_laws K" "image_ref_ok r" "length (ref_name r) \<le> 190" "serves_home K X w s"
  shows "then_do (offline_reference K (show_image_ref K r)) f w = f (node_key s, node_policy s, r) w"
  using assms image_ref_parse_explicit(1) [OF assms(1-3)] explicit_no_slot [OF assms(1)]
  by (simp add: offline_reference_def then_do_def read_home_def on_home_def map_err_def lift_err_def serves_home_def)

lemma resolve_rule_explicit:
  assumes "key_laws K" "image_ref_ok r" "length (ref_name r) \<le> 190"
  shows "then_do (resolve_rule K E (show_image_ref K r)) f s = f (show_image_ref K r, r) s"
  using image_ref_parse_explicit(1) [OF assms] explicit_no_slot(1) [OF assms(1)]
  by (simp add: resolve_rule_def then_do_def)

lemma map_domain_explicit:
  assumes "key_laws K"
  shows "map_domain K (show_image_ref K r) q p = p"
  using explicit_no_slot(1) [OF assms] by (simp add: map_domain_def)

lemma when_live_cases:
  "c_node w = None \<Longrightarrow> when_live A f g w = g w"
  "c_node w = Some s \<Longrightarrow> config_load A (c_home w) = Inr c \<Longrightarrow> when_live A f g w = f c w"
  by (simp_all add: when_live_def live_client_def is_running_def split: sum.split)

lemma note_reports: "reports (\<lambda>_ :: unit. offline_note)" "reports (\<lambda>_ :: unit. then_do (say l) (\<lambda>_. offline_note))"
proof -
  show one: "reports (\<lambda>_ :: unit. offline_note)" unfolding offline_note_def by (rule say_reports)
  show "reports (\<lambda>_ :: unit. then_do (say l) (\<lambda>_. offline_note))" by (rule reports_then [OF say_reports one])
qed

lemma said_and_synced: "reports (\<lambda>v. then_do (say (l v)) (\<lambda>_. sync_all K X c))"
  by (rule reports_then [OF say_reports sync_all_reports])

lemma then_lift_ok: "r = Inr x \<Longrightarrow> then_do (lift_err r) f w = f x w"
  by (simp add: then_do_def lift_err_def map_err_def)

text \<open>Both forms of a command that makes an edit come to the same.\<close>

definition agree :: "cli \<times> (cli_err + unit) \<Rightarrow> cli \<times> (cli_err + unit) \<Rightarrow> bool" where
  "agree r1 r2 \<longleftrightarrow> is_ok (snd r1) = is_ok (snd r2) \<and> policy_load (c_home (fst r1)) = policy_load (c_home (fst r2))"

lemma forms_agree:
  assumes "serves_home K X w s" "c_node w = None" "config_load A (c_home w) = Inr c"
    and offline: "g w = then_do (lift_err (edit (node_policy s))) (\<lambda>(p, b). then_do (save_policy X p) (\<lambda>_. note p b)) w"
    and online: "\<And>E t. node_key t = node_key s \<Longrightarrow>
      G E t = mutate_policy K E (\<lambda>p. and_then (edit p) (\<lambda>pb. Inr (change_resp rule pb))) t"
    and "\<And>p b. edit (node_policy s) = Inr (p, b) \<Longrightarrow> policy_ok p" "\<And>c. reports (k c)" "\<And>p b. reports (\<lambda>_ :: unit. note p b)"
  shows "agree (when_live A (\<lambda>c. then_do (daemon_call X c (\<lambda>E. ctl_result (G E))) (k c)) g w)
     (when_live A (\<lambda>c. then_do (daemon_call X c (\<lambda>E. ctl_result (G E))) (k c)) g (with_daemon w s))"
proof -
  have h: "policy_load (c_home w) = Inr (node_policy s)" "boot_writes (ce_boot X) ''policy.toml''"
    "env_policy_save (boot_node (ce_boot X))"
    using assms(1) by (simp_all add: serves_home_def)
  have off: "outcome w (edit (node_policy s)) (g w)"
    unfolding offline by (rule file_outcome [OF assms(6) h(2) assms(8)])
  have on: "outcome (with_daemon w s) (edit (node_policy s))
      (then_do (daemon_call X c (\<lambda>E. ctl_result (G E))) (k c) (with_daemon w s))"
    by (rule daemon_outcome [where K = K and rule = rule, OF _ _ assms(6) h(3) _ assms(7)]) (simp_all add: h(1) online)
  show ?thesis
    using outcomes_agree [OF off on] assms(2,3) by (simp add: agree_def when_live_cases)
qed

lemma both_refused:
  assumes "c_node w = None" "config_load A (c_home w) = Inr c" "policy_load (c_home w) = Inr (node_policy s)"
    and "g w = (w, Inl e)" "\<And>E t. node_key t = node_key s \<Longrightarrow> G E t = (t, Inl e')"
  shows "agree (when_live A (\<lambda>c. then_do (daemon_call X c (\<lambda>E. ctl_result (G E))) (k c)) g w)
     (when_live A (\<lambda>c. then_do (daemon_call X c (\<lambda>E. ctl_result (G E))) (k c)) g (with_daemon w s))"
  using assms
  by (simp add: agree_def when_live_cases then_do_def daemon_call_def ctl_result_def daemon_saved_def map_err_def is_ok_def)

lemma seed_agrees:
  assumes "key_laws K" "image_ref_ok r" "length (ref_name r) \<le> 190" "serves_home K X w s"
    and "c_node w = None" "config_load A (c_home w) = Inr c"
  shows "agree (cli_seed K A X (show_image_ref K r) args w) (cli_seed K A X (show_image_ref K r) args (with_daemon w s))"
proof (cases "mode_of_args args")
  case (Inl e)
  then show ?thesis by (simp add: cli_seed_def agree_def then_do_lift lift_err_def map_err_def)
next
  case (Inr m)
  let ?t = "show_image_ref K r" and ?own = "ref_publisher r = identity_id K (node_key s)"
  have h: "policy_load (c_home w) = Inr (node_policy s)" "policy_ok (node_policy s)"
    using assms(4) by (simp_all add: serves_home_def)
  note ok = edits_keep_policy_ok(1) [OF h(2) mode_of_args_ok [OF Inr]]
  have seed: "node_seed K E ?t m t = (if ?own then (t, Inl (Node_err OwnRelease))
      else mutate_policy K E (\<lambda>p. and_then (add_seed K ?t m p) (\<lambda>pb. Inr (change_resp ?t pb))) t)"
    if "node_key t = node_key s" for E t
    using that by (simp add: node_seed_def resolve_rule_explicit [OF assms(1-3)] node_id_def map_domain_explicit [OF assms(1)])
  show ?thesis
  proof (cases ?own)
    case True
    then show ?thesis
      unfolding cli_seed_def ctl_seed_def then_lift_ok [OF Inr]
      by (intro both_refused [OF assms(5,6) h(1)]) (simp_all add: offline_reference_explicit [OF assms(1-4)] seed)
  next
    case False
    then show ?thesis
      unfolding cli_seed_def ctl_seed_def then_lift_ok [OF Inr]
      by (intro forms_agree [OF assms(4-6), where edit = "add_seed K ?t m" and rule = ?t])
        (auto simp: offline_reference_explicit [OF assms(1-4)] seed Let_def
          intro: ok note_reports said_and_synced)
  qed
qed

lemma pin_agrees:
  assumes "key_laws K" "image_ref_ok r" "length (ref_name r) \<le> 190" "serves_home K X w s"
    and "c_node w = None" "config_load A (c_home w) = Inr c"
  shows "agree (cli_pin K A X (show_image_ref K r) w) (cli_pin K A X (show_image_ref K r) (with_daemon w s))"
proof -
  let ?t = "show_image_ref K r"
  have h: "policy_load (c_home w) = Inr (node_policy s)" "policy_ok (node_policy s)"
    using assms(4) by (simp_all add: serves_home_def)
  have pin: "node_pin K E ?t t = (if ref_tag r = None then (t, Inl (Policy_err PinNeedsTag))
      else mutate_policy K E (\<lambda>p. and_then (add_pin K ?t p) (\<lambda>pb. Inr (change_resp ?t pb))) t)" for E t
    by (simp add: node_pin_def resolve_rule_explicit [OF assms(1-3)] map_domain_explicit [OF assms(1)])
  show ?thesis
  proof (cases "ref_tag r = None")
    case True
    then show ?thesis
      unfolding cli_pin_def ctl_pin_def
      by (intro both_refused [OF assms(5,6) h(1)]) (simp_all add: offline_reference_explicit [OF assms(1-4)] pin)
  next
    case False
    then show ?thesis
      unfolding cli_pin_def ctl_pin_def
      by (intro forms_agree [OF assms(4-6), where edit = "add_pin K ?t" and rule = ?t])
        (auto simp: offline_reference_explicit [OF assms(1-4)] pin Let_def
          intro: edits_keep_policy_ok(5) [OF h(2) latest_ok] note_reports said_and_synced)
  qed
qed

lemma removals_agree:
  assumes "key_laws K" "image_ref_ok r" "length (ref_name r) \<le> 190" "serves_home K X w s"
    and "c_node w = None" "config_load A (c_home w) = Inr c"
  shows "agree (cli_unseed K A X (show_image_ref K r) w) (cli_unseed K A X (show_image_ref K r) (with_daemon w s))"
    "agree (cli_unpin K A X (show_image_ref K r) w) (cli_unpin K A X (show_image_ref K r) (with_daemon w s))"
proof -
  let ?t = "show_image_ref K r"
  have p: "policy_ok (node_policy s)" using assms(4) by (simp add: serves_home_def)
  show "agree (cli_unseed K A X ?t w) (cli_unseed K A X ?t (with_daemon w s))"
    unfolding cli_unseed_def ctl_unseed_def
    by (intro forms_agree [OF assms(4-6), where edit = "remove_seed K ?t" and rule = ?t])
      (auto simp: offline_reference_explicit [OF assms(1-4)] node_unseed_def resolve_rule_explicit [OF assms(1-3)]
        Let_def intro: edits_keep_policy_ok(2) [OF p latest_ok] note_reports say_reports)
  show "agree (cli_unpin K A X ?t w) (cli_unpin K A X ?t (with_daemon w s))"
    unfolding cli_unpin_def ctl_unpin_def
    by (intro forms_agree [OF assms(4-6), where edit = "remove_pin K ?t" and rule = ?t])
      (auto simp: offline_reference_explicit [OF assms(1-4)] node_unpin_def resolve_rule_explicit [OF assms(1-3)]
        Let_def intro: edits_keep_policy_ok(6) [OF p latest_ok] note_reports say_reports)
qed

text \<open>The commands on publishers; the file gets the hexadecimal form.\<close>

lemma resolve_publisher_explicit:
  "key_laws K \<Longrightarrow> then_do (resolve_publisher_rule K E (pk_display K p)) f s = f (pk_display K p, p) s"
  by (simp add: resolve_publisher_rule_def then_do_def parse_publisher_display)

lemma offline_publisher:
  assumes "key_laws K" "serves_home K X w s"
  shows "then_do (offline_domain_check (pk_display K p)) (\<lambda>_. then_do (lift_err (parse_publisher K (pk_display K p)))
      (\<lambda>q. then_do (read_home policy_load) (f q))) w = f p (node_policy s) w"
  using assms(2) explicit_no_slot(3) [OF assms(1)] parse_publisher_display [OF assms(1)]
  by (simp add: then_do_def read_home_def on_home_def map_err_def lift_err_def serves_home_def)

lemma follows_agree:
  assumes "key_laws K" "serves_home K X w s" "c_node w = None" "config_load A (c_home w) = Inr c"
  shows "agree (cli_follow K A X (pk_display K p) args w) (cli_follow K A X (pk_display K p) args (with_daemon w s))"
    "agree (cli_unfollow K A X (pk_display K p) w) (cli_unfollow K A X (pk_display K p) (with_daemon w s))"
proof -
  let ?t = "pk_display K p"
  have pol: "policy_ok (node_policy s)" using assms(2) by (simp add: serves_home_def)
  show "agree (cli_follow K A X ?t args w) (cli_follow K A X ?t args (with_daemon w s))"
  proof (cases "mode_of_args args")
    case (Inl e)
    then show ?thesis by (simp add: cli_follow_def agree_def then_do_lift lift_err_def map_err_def)
  next
    case (Inr m)
    show ?thesis
      unfolding cli_follow_def ctl_follow_def then_lift_ok [OF Inr]
      by (intro forms_agree [OF assms(2-4), where edit = "add_follow K ?t m" and rule = ?t])
        (auto simp: offline_publisher [OF assms(1,2)] node_follow_def
          resolve_publisher_explicit [OF assms(1)] display_no_domain [OF assms(1)] Let_def
          intro: edits_keep_policy_ok(3) [OF pol mode_of_args_ok [OF Inr]] note_reports said_and_synced)
  qed
  show "agree (cli_unfollow K A X ?t w) (cli_unfollow K A X ?t (with_daemon w s))"
    unfolding cli_unfollow_def ctl_unfollow_def
    by (intro forms_agree [OF assms(2-4), where edit = "remove_follow K ?t" and rule = ?t])
      (auto simp: offline_publisher [OF assms(1,2)] node_unfollow_def resolve_publisher_explicit [OF assms(1)] Let_def
        intro: edits_keep_policy_ok(4) [OF pol latest_ok] note_reports say_reports)
qed

section \<open>References through an alias\<close>

text \<open>The rule is refused as a rule of the policy although it is understood as a reference.\<close>

lemma alias_no_rule:
  assumes "split_once CHR ''/'' rf = Some (a, rest)" "\<not> is_domain_name a" "parse_publisher K a = Inl e"
  shows "domain_slot rf = None" "offline_domain_check rf = ret ()" "add_seed K rf m p = Inl e"
  using assms by (simp_all add: domain_slot_def offline_domain_check_def add_seed_def parse_seed_rule_def parse_publisher_arg_def)

section \<open>Properties\<close>


text \<open>A home with the key 5, the defaults and one alias, and its daemon.\<close>

definition demo_home :: home where
  "demo_home = fresh_home\<lparr>h_key := Some \<lparr>contents = hex_encode demo_net (bytes_of 32 (5 :: bytes32)), mode_bits = 384\<rparr>\<rparr>"

definition demo_cli_env :: cli_env where
  "demo_cli_env = \<lparr>ce_boot = demo_boot, ce_path = ''/home'', ce_now = 0, ce_ticket = [], ce_version = ''0'', ce_started = 0,
     ce_failed = (\<lambda>_. []), ce_error = (\<lambda>_. []), ce_toml = (\<lambda>_. [])\<rparr>"

lemma demo_serves:
  assumes "policy_to_toml p = Inr v" "policy_of_toml v = Inr p"
  shows "serves_home demo_net demo_cli_env \<lparr>c_home = demo_home\<lparr>h_policy := Stored v\<rparr>, c_node = None, c_out = []\<rparr> (demo_node p)"
    "config_load A (demo_home\<lparr>h_policy := f\<rparr>) = Inr config_default"
proof -
  have "identity_load demo_net (h_key demo_home) = Inr 5"
    using identity_save_load [OF demo_net_laws(1), of 5] by (simp add: identity_save_def demo_home_def)
  then show "serves_home demo_net demo_cli_env \<lparr>c_home = demo_home\<lparr>h_policy := Stored v\<rparr>, c_node = None, c_out = []\<rparr> (demo_node p)"
    using assms policy_of_toml_ok [OF assms(2)]
    by (simp add: serves_home_def demo_node_def policy_load_def load_file_def demo_cli_env_def demo_boot_def demo_env_def)
  show "config_load A (demo_home\<lparr>h_policy := f\<rparr>) = Inr config_default"
    by (simp add: demo_home_def fresh_home_def config_load_def load_file_def)
qed


text \<open>An alias works in a policy command only while the daemon is not running. For a reference whose first
  part is an alias, \<open>seed\<close> without the daemon writes the rule for the publisher behind the alias; with
  the daemon the same command is refused and the policy file stays as it was, although the daemon
  resolves the reference too.\<close>

theorem alias_only_offline:
  assumes "key_laws K" "b58_laws K" "serves_home K X w s" "c_node w = None" "config_load A (c_home w) = Inr c"
    and "split_once CHR ''/'' rf = Some (a, rest)" "\<not> is_domain_name a" "\<not> is_ok (parse_publisher K a)"
    and "image_ref_parse K rf (node_policy s) (identity_id K (node_key s)) = Inr r" "image_ref_ok r"
    and "ref_publisher r \<noteq> identity_id K (node_key s)" "mode_of_args args = Inr m"
  shows "is_ok (snd (run_command K A X (Cmd_seed rf args) w))
    \<and> (\<exists>q. policy_load (c_home (fst (run_command K A X (Cmd_seed rf args) w))) = Inr q
        \<and> \<lparr>se_reference = show_image_ref K r, se_mode = m\<rparr> \<in> set (pol_seed q))
    \<and> \<not> is_ok (snd (run_command K A X (Cmd_seed rf args) (with_daemon w s)))
    \<and> policy_load (c_home (fst (run_command K A X (Cmd_seed rf args) (with_daemon w s)))) = policy_load (c_home w)"
proof -
  let ?t = "show_image_ref K r"
  have h: "identity_load K (h_key (c_home w)) = Inr (node_key s)" "policy_load (c_home w) = Inr (node_policy s)"
    "policy_ok (node_policy s)" "boot_writes (ce_boot X) ''policy.toml''"
    using assms(3) by (simp_all add: serves_home_def)
  obtain e where e: "parse_publisher K a = Inl e" using assms(8) by (cases "parse_publisher K a") (simp_all add: is_ok_def)
  note raw = alias_no_rule [OF assms(6,7) e]
  obtain x where "parse_seed_rule K (node_policy s) ?t m = Inr x"
    using parse_seed_rule_did(2) [OF assms(2,1)] assms(10) by (auto simp: image_ref_ok_def show_image_ref_alt)
  then have "is_ok (add_seed K ?t m (node_policy s))" by (simp add: add_seed_def is_ok_def split: option.split)
  then obtain q b where q: "add_seed K ?t m (node_policy s) = Inr (q, b)"
    by (cases "add_seed K ?t m (node_policy s)") (auto simp: is_ok_def)
  have "offline_reference K rf w = (w, Inr (node_key s, node_policy s, r))"
    using raw(2) h assms(9)
    by (simp add: offline_reference_def then_do_def read_home_def on_home_def map_err_def lift_err_def)
  then have run: "cli_seed K A X rf args w = then_do (lift_err (add_seed K ?t m (node_policy s))) (\<lambda>(p, changed).
      then_do (save_policy X p) (\<lambda>_. then_do (say [verb ''seeding'' ''already seeding'' changed @ '' '' @ ?t @ '' (''
        @ tag_or_mode ?t m @ '')'']) (\<lambda>_. offline_note))) w"
    using assms(11) by (simp add: cli_seed_def then_lift_ok [OF assms(12)] when_live_cases(1) [OF assms(4)] then_do_Inr Let_def)
  have "outcome w (add_seed K ?t m (node_policy s)) (cli_seed K A X rf args w)"
    unfolding run
    by (rule file_outcome [OF edits_keep_policy_ok(1) [OF h(3) mode_of_args_ok [OF assms(12)]] h(4) note_reports(2)])
  moreover have "resolve_rule K E rf t = (t, Inr (rf, r))" if "node_policy t = node_policy s" "node_key t = node_key s" for E t
    using that raw(1) assms(9) by (simp add: resolve_rule_def then_do_def node_id_def)
  then have "node_seed K E rf m t = (t, Inl e)" if "node_policy t = node_policy s" "node_key t = node_key s" for E t
    using that raw(3) assms(11) by (simp add: node_seed_def then_do_Inr node_id_def mutate_policy_def)
  then have "daemon_call X c (\<lambda>E. ctl_seed K E rf m) (with_daemon w s)
      = (with_daemon w (s\<lparr>policy_disk := Some (node_policy s)\<rparr>), Inl (Daemon_err 500 e))"
    using h(2) by (simp add: daemon_call_def ctl_seed_def ctl_result_def map_err_def daemon_saved_def)
  then have "then_do (daemon_call X c (\<lambda>E. ctl_seed K E rf m)) k (with_daemon w s)
      = (with_daemon w (s\<lparr>policy_disk := Some (node_policy s)\<rparr>), Inl (Daemon_err 500 e))" for k :: "_ \<Rightarrow> unit cli_op"
    by (rule then_do_Inl)
  then have "\<not> is_ok (snd (cli_seed K A X rf args (with_daemon w s)))
      \<and> policy_load (c_home (fst (cli_seed K A X rf args (with_daemon w s)))) = policy_load (c_home w)"
    using assms(5) by (simp add: cli_seed_def then_lift_ok [OF assms(12)] when_live_cases(2) is_ok_def)
  ultimately show ?thesis
    using add_seed_entry [OF q] q by (auto simp: outcome_def)
qed

theorem alias_only_offline_witness:
  "\<exists>w s r args. resolve_alias demo_net (node_policy s) ''al'' = Some (Alias_Publisher (PublicKey 7))
     \<and> (let off = run_command demo_net demo_text demo_cli_env (Cmd_seed ''al/app'' args) w;
           on = run_command demo_net demo_text demo_cli_env (Cmd_seed ''al/app'' args) (w\<lparr>c_node := Some s\<rparr>)
        in is_ok (snd off) \<and> \<not> is_ok (snd on)
         \<and> (\<exists>q. policy_load (c_home (fst off)) = Inr q \<and> \<lparr>se_reference = show_image_ref demo_net r, se_mode = Full\<rparr> \<in> set (pol_seed q))
         \<and> policy_load (c_home (fst on)) = Inr (node_policy s))"
proof -
  let ?p = "policy_default\<lparr>pol_alias := [(''al'', pk_display demo_net (PublicKey 7))]\<rparr>"
  have "policy_ok ?p" by (simp add: policy_ok_def policy_default_def)
  then obtain v where v: "policy_to_toml ?p = Inr v" "policy_of_toml v = Inr ?p" using policy_form by blast
  let ?w = "\<lparr>c_home = demo_home\<lparr>h_policy := Stored v\<rparr>, c_node = None, c_out = []\<rparr>" and ?s = "demo_node ?p"
  let ?r = "\<lparr>ref_publisher = PublicKey 7, ref_name = ''app'', ref_tag = None\<rparr>"
  let ?m = "\<lparr>arg_full = True, arg_latest = False, arg_last = None\<rparr>"
  note serves = demo_serves(1) [OF v]
  have c: "config_load demo_text (c_home ?w) = Inr config_default" by (simp add: demo_serves(2) [OF v])
  have target: "resolve_alias demo_net ?p ''al'' = Some (Alias_Publisher (PublicKey 7))"
    by (simp add: resolve_alias_def parse_alias_target_def parse_publisher_display [OF demo_net_laws(2)])
  have own: "identity_id demo_net (5 :: bytes32) = PublicKey 5"
    using demo_net_same(4) [THEN fun_cong, of ?s]
    by (simp add: node_id_def identity_id_def demo_node_def demo_node_crates_def codecs.defs demo_codecs_def crates.defs demo_crates_def)
  have bad: "\<not> is_ok (parse_publisher demo_net ''al'')"
    by (simp add: parse_publisher_def trim_no_space is_space_def strip_prefix_def demo_net_def node_crates.defs
        demo_node_crates_def codecs.defs demo_codecs_def crates.defs demo_crates_def demo_unhex.simps demo_nibble_val_def is_ok_def)
  have plain: "\<not> is_domain_name ''al''" by (simp add: not_domain_name)
  have "\<not> is_ok (parse_publisher_arg demo_net ?p ''al'')"
    using bad plain by (simp add: parse_publisher_arg_def is_ok_def split: sum.splits)
  then have repo: "resolve_repo demo_net ''al/app'' ?p (PublicKey 5) = Inr (PublicKey 7, ''app'')"
    using resolve_repo_alias [OF demo_app_ok(1), of "''al''" demo_net ?p "PublicKey 7" "PublicKey 5"] target
    by (simp add: is_hex_publisher_def resolve_alias_def)
  have "split_tag ''al/app'' = Inr (''al/app'', None)"
    by (simp add: split_tag_iff name_and_tag_def name_ok_iff name_component_ok_def name_char_def char_class_defs)
  moreover have "strip_registry_location ''al/app'' = ''al/app''"
    by (simp add: strip_registry_location_def trim_no_space is_space_def strip_prefix_def is_location_def is_digit_def Let_def)
  ultimately have read: "image_ref_parse demo_net ''al/app'' (node_policy ?s) (identity_id demo_net (node_key ?s)) = Inr ?r"
    using repo own by (simp add: image_ref_parse_def trim_no_space is_space_def strip_prefix_def demo_node_def)
  have ok: "image_ref_ok ?r" using demo_app_ok(1) by (simp add: image_ref_ok_def)
  have "split_once CHR ''/'' ''al/app'' = Some (''al'', ''app'')" by simp
  from alias_only_offline [OF demo_net_laws(2,5) serves _ c this plain bad read ok, of ?m Full] own
  have "is_ok (snd (run_command demo_net demo_text demo_cli_env (Cmd_seed ''al/app'' ?m) ?w))
    \<and> (\<exists>q. policy_load (c_home (fst (run_command demo_net demo_text demo_cli_env (Cmd_seed ''al/app'' ?m) ?w))) = Inr q
        \<and> \<lparr>se_reference = show_image_ref demo_net ?r, se_mode = Full\<rparr> \<in> set (pol_seed q))
    \<and> \<not> is_ok (snd (run_command demo_net demo_text demo_cli_env (Cmd_seed ''al/app'' ?m) (with_daemon ?w ?s)))
    \<and> policy_load (c_home (fst (run_command demo_net demo_text demo_cli_env (Cmd_seed ''al/app'' ?m) (with_daemon ?w ?s))))
      = policy_load (c_home ?w)"
    by (simp add: demo_node_def mode_of_args_def)
  moreover have "policy_load (c_home ?w) = Inr (node_policy ?s)"
    using v(2) by (simp add: policy_load_def load_file_def demo_node_def)
  moreover have "resolve_alias demo_net (node_policy ?s) ''al'' = Some (Alias_Publisher (PublicKey 7))"
    using target by (simp add: demo_node_def)
  ultimately show ?thesis
    unfolding Let_def by (intro exI [of _ ?w] exI [of _ ?s] exI [of _ ?r] exI [of _ ?m]) (simp only: simp_thms)
qed

end
