(* ===== verification/Http.thy ===== *)
theory Http
  imports Server Boot
begin

text \<open>
  The HTTP server around the handlers (\<^verbatim>\<open>serve\<close> and \<^verbatim>\<open>count_requests\<close> of \<^verbatim>\<open>crates/ocid/src/registry.rs\<close>,
  \<^verbatim>\<open>crates/ocid/src/metrics.rs\<close>): the table of routes, the control requests with their answers, the metrics page,
  and the layer that counts every request and reports it to the dashboards that listen. Reading the JSON body of a
  control request, and writing the text of the metrics, are parameters.
\<close>

section \<open>Routes of the server\<close>

datatype endpoint =
    Ep_v2_root
  | Ep_v2 string
  | Ep_status
  | Ep_peers
  | Ep_add_peer
  | Ep_releases
  | Ep_pull
  | Ep_announce
  | Ep_sync
  | Ep_reload
  | Ep_seed
  | Ep_unseed
  | Ep_follow
  | Ep_unfollow
  | Ep_pin
  | Ep_unpin
  | Ep_dns_resolve
  | Ep_dns_unpin
  | Ep_gc
  | Ep_rm
  | Ep_events
  | Ep_metrics

definition server_routes :: "(string \<times> (string \<times> endpoint) list) list" where
  "server_routes =
     [(''/v2'', [(''GET'', Ep_v2_root)]),
      (''/v2/'', [(''GET'', Ep_v2_root)]),
      (''/_ocid/status'', [(''GET'', Ep_status)]),
      (''/_ocid/peers'', [(''GET'', Ep_peers), (''POST'', Ep_add_peer)]),
      (''/_ocid/releases'', [(''GET'', Ep_releases)]),
      (''/_ocid/pull'', [(''POST'', Ep_pull)]),
      (''/_ocid/announce'', [(''POST'', Ep_announce)]),
      (''/_ocid/sync'', [(''POST'', Ep_sync)]),
      (''/_ocid/policy/reload'', [(''POST'', Ep_reload)]),
      (''/_ocid/policy/seed'', [(''POST'', Ep_seed)]),
      (''/_ocid/policy/unseed'', [(''POST'', Ep_unseed)]),
      (''/_ocid/policy/follow'', [(''POST'', Ep_follow)]),
      (''/_ocid/policy/unfollow'', [(''POST'', Ep_unfollow)]),
      (''/_ocid/policy/pin'', [(''POST'', Ep_pin)]),
      (''/_ocid/policy/unpin'', [(''POST'', Ep_unpin)]),
      (''/_ocid/dns/resolve'', [(''GET'', Ep_dns_resolve)]),
      (''/_ocid/dns/unpin'', [(''POST'', Ep_dns_unpin)]),
      (''/_ocid/gc'', [(''POST'', Ep_gc)]),
      (''/_ocid/rm'', [(''POST'', Ep_rm)]),
      (''/_ocid/events'', [(''GET'', Ep_events)]),
      (''/metrics'', [(''GET'', Ep_metrics)])]"

datatype routing = Found endpoint | Wrong_method | No_path

text \<open>A handler of \<open>GET\<close> serves \<open>HEAD\<close> too; below \<open>/v2/\<close> every method is dispatched.\<close>

definition method_key :: "string \<Rightarrow> string" where
  "method_key m = (if m = ''HEAD'' then ''GET'' else m)"

definition route_request :: "string \<Rightarrow> string \<Rightarrow> routing" where
  "route_request m path =
     (case map_of server_routes path of
        Some methods \<Rightarrow> (case map_of methods (method_key m) of Some ep \<Rightarrow> Found ep | None \<Rightarrow> Wrong_method)
      | None \<Rightarrow> (case strip_prefix ''/v2/'' path of Some rest \<Rightarrow> Found (Ep_v2 rest) | None \<Rightarrow> No_path))"

section \<open>Control requests\<close>

datatype ctl_call =
    Call_status
  | Call_peers
  | Call_add_peer string
  | Call_releases
  | Call_pull string
  | Call_announce "string option"
  | Call_sync "string option"
  | Call_reload
  | Call_seed string mode
  | Call_unseed string
  | Call_follow string mode
  | Call_unfollow string
  | Call_pin string
  | Call_unpin string
  | Call_dns_resolve string
  | Call_dns_unpin string
  | Call_gc gc_req
  | Call_rm string bool
  | Call_events

datatype ctl_value =
    Val_status daemon_status
  | Val_peers "peer_info list"
  | Val_peer public_key
  | Val_releases "release_info list"
  | Val_release release_summary
  | Val_announced nat
  | Val_synced nat "(public_key \<times> err) list"
  | Val_ok bool
  | Val_change policy_change
  | Val_resolved dns_resolve_resp
  | Val_unpinned bool
  | Val_gc gc_report
  | Val_rm rm_resp
  | Val_stream
  | Val_error err

text \<open>What the node says of itself needs the configuration, the ticket, the version and the time of the start.\<close>

record about =
  ab_config :: config
  ab_ticket :: string
  ab_version :: string
  ab_started :: nat

definition answer_with :: "('a \<Rightarrow> ctl_value) \<Rightarrow> 'a ctl \<Rightarrow> node \<Rightarrow> node \<times> nat \<times> ctl_value" where
  "answer_with f m s = (case m s of
     (s', Inr v) \<Rightarrow> (s', 200, f v) | (s', Inl (st, e)) \<Rightarrow> (s', st, Val_error e))"

fun run_ctl :: "'z net_crates_scheme \<Rightarrow> 'a addr_text_scheme \<Rightarrow> about \<Rightarrow> node_env \<Rightarrow> ctl_call \<Rightarrow> node
    \<Rightarrow> node \<times> nat \<times> ctl_value" where
  "run_ctl K A ab E Call_status =
     answer_with Val_status (ctl_result (\<lambda>s. ret (node_status K A E (ab_config ab) (ab_ticket ab) (ab_version ab) (ab_started ab) s) s))"
| "run_ctl K A ab E Call_peers = answer_with Val_peers (ctl_peers E)"
| "run_ctl K A ab E (Call_add_peer p) = answer_with Val_peer (ctl_add_peer K E p)"
| "run_ctl K A ab E Call_releases = answer_with Val_releases (ctl_releases K)"
| "run_ctl K A ab E (Call_pull rf) = answer_with Val_release (ctl_pull K E rf)"
| "run_ctl K A ab E (Call_announce rf) = answer_with Val_announced (ctl_announce K E rf)"
| "run_ctl K A ab E (Call_sync p) = answer_with (\<lambda>(n, failed). Val_synced n failed) (ctl_sync K E p)"
| "run_ctl K A ab E Call_reload = answer_with Val_ok (ctl_reload K E)"
| "run_ctl K A ab E (Call_seed rf m) = answer_with Val_change (ctl_seed K E rf m)"
| "run_ctl K A ab E (Call_unseed rf) = answer_with Val_change (ctl_unseed K E rf)"
| "run_ctl K A ab E (Call_follow p m) = answer_with Val_change (ctl_follow K E p m)"
| "run_ctl K A ab E (Call_unfollow p) = answer_with Val_change (ctl_unfollow K E p)"
| "run_ctl K A ab E (Call_pin rf) = answer_with Val_change (ctl_pin K E rf)"
| "run_ctl K A ab E (Call_unpin rf) = answer_with Val_change (ctl_unpin K E rf)"
| "run_ctl K A ab E (Call_dns_resolve zone) = (\<lambda>s. case ctl_dns_resolve K E zone s of (s', v) \<Rightarrow> (s', 200, Val_resolved v))"
| "run_ctl K A ab E (Call_dns_unpin zone) = answer_with Val_unpinned (ctl_dns_unpin (env_pin_save E) zone)"
| "run_ctl K A ab E (Call_gc q) = answer_with Val_gc (ctl_gc K E q)"
| "run_ctl K A ab E (Call_rm rf all_tags) = answer_with Val_rm (ctl_rm K E rf all_tags)"
| "run_ctl K A ab E Call_events = (\<lambda>s. (s, 200, Val_stream))"

fun endpoint_of :: "ctl_call \<Rightarrow> endpoint" where
  "endpoint_of Call_status = Ep_status"
| "endpoint_of Call_peers = Ep_peers"
| "endpoint_of (Call_add_peer p) = Ep_add_peer"
| "endpoint_of Call_releases = Ep_releases"
| "endpoint_of (Call_pull rf) = Ep_pull"
| "endpoint_of (Call_announce rf) = Ep_announce"
| "endpoint_of (Call_sync p) = Ep_sync"
| "endpoint_of Call_reload = Ep_reload"
| "endpoint_of (Call_seed rf m) = Ep_seed"
| "endpoint_of (Call_unseed rf) = Ep_unseed"
| "endpoint_of (Call_follow p m) = Ep_follow"
| "endpoint_of (Call_unfollow p) = Ep_unfollow"
| "endpoint_of (Call_pin rf) = Ep_pin"
| "endpoint_of (Call_unpin rf) = Ep_unpin"
| "endpoint_of (Call_dns_resolve zone) = Ep_dns_resolve"
| "endpoint_of (Call_dns_unpin zone) = Ep_dns_unpin"
| "endpoint_of (Call_gc q) = Ep_gc"
| "endpoint_of (Call_rm rf all_tags) = Ep_rm"
| "endpoint_of Call_events = Ep_events"

section \<open>The whole server\<close>

text \<open>The family of a route, for the counters.\<close>

definition route_family :: "string \<Rightarrow> string" where
  "route_family path =
     (if path = ''/metrics'' then ''metrics''
      else if strip_prefix ''/_ocid/'' path \<noteq> None then ''control''
      else case strip_prefix ''/v2'' path of
        None \<Rightarrow> ''other''
      | Some rest \<Rightarrow>
          if rest = [] \<or> rest = ''/'' then ''root''
          else if rest = ''/_catalog'' then ''catalog''
          else if strip_suffix ''/tags/list'' rest \<noteq> None then ''tags''
          else if contains_str ''/blobs/uploads'' rest then ''uploads''
          else if contains_str ''/manifests/'' rest then ''manifests''
          else if contains_str ''/referrers/'' rest then ''referrers''
          else if contains_str ''/blobs/'' rest then ''blobs''
          else ''other'')"

record request_labels =
  lb_method :: string
  lb_route :: string
  lb_status :: nat

text \<open>The state of the server: the handlers' state, and how often each kind of request was answered.\<close>

record server =
  sv_app :: app
  sv_counts :: "request_labels \<Rightarrow> nat"

datatype reply =
    V2_reply http_resp
  | Ctl_reply nat ctl_value
  | Text_reply nat string

definition reply_status :: "reply \<Rightarrow> nat" where
  "reply_status r = (case r of V2_reply h \<Rightarrow> status h | Ctl_reply st _ \<Rightarrow> st | Text_reply st _ \<Rightarrow> st)"

text \<open>The extractor of a control request, which answers for itself what it refuses, and the text of the counters and
  gauges, which can fail.\<close>

record server_crates =
  read_call :: "endpoint \<Rightarrow> http_req \<Rightarrow> nat + ctl_call"
  openmetrics :: "gauges \<Rightarrow> (request_labels \<Rightarrow> nat) \<Rightarrow> string option"

definition metrics_page ::
  "'z crates_scheme \<Rightarrow> server_crates \<Rightarrow> about \<Rightarrow> node_env \<Rightarrow> server \<Rightarrow> reply" where
  "metrics_page K J ab E s =
     (if \<not> cfg_metrics (ab_config ab) then Text_reply 404 ''metrics disabled''
      else case openmetrics J (refresh_gauges K E (ab_started ab) (app_node (sv_app s))) (sv_counts s) of
        Some body \<Rightarrow> Text_reply 200 body
      | None \<Rightarrow> Text_reply 500 [])"

definition run_endpoint ::
  "'z json_crates_scheme \<Rightarrow> 'a addr_text_scheme \<Rightarrow> server_crates \<Rightarrow> about \<Rightarrow> http_env \<Rightarrow> endpoint
     \<Rightarrow> http_req \<Rightarrow> server \<Rightarrow> server \<times> reply" where
  "run_endpoint K A J ab E ep q s =
     (case ep of
        Ep_v2_root \<Rightarrow> (s, V2_reply v2_root)
      | Ep_v2 rest \<Rightarrow> (case v2_dispatch K E (q\<lparr>rq_path := rest\<rparr>) (sv_app s) of
          (a, r) \<Rightarrow> (s\<lparr>sv_app := a\<rparr>, V2_reply r))
      | Ep_metrics \<Rightarrow> (s, metrics_page K J ab (net_env E) s)
      | _ \<Rightarrow> (case read_call J ep q of
          Inl st \<Rightarrow> (s, Text_reply st [])
        | Inr call \<Rightarrow> (case run_ctl K A ab (net_env E) call (app_node (sv_app s)) of
            (n, st, v) \<Rightarrow> (s\<lparr>sv_app := (sv_app s)\<lparr>app_node := n\<rparr>\<rparr>, Ctl_reply st v))))"

definition answer_request ::
  "'z json_crates_scheme \<Rightarrow> 'a addr_text_scheme \<Rightarrow> server_crates \<Rightarrow> about \<Rightarrow> http_env
     \<Rightarrow> http_req \<Rightarrow> server \<Rightarrow> server \<times> reply" where
  "answer_request K A J ab E q s =
     (case route_request (rq_method q) (rq_path q) of
        Found ep \<Rightarrow> run_endpoint K A J ab E ep q s
      | Wrong_method \<Rightarrow> (s, Text_reply 405 [])
      | No_path \<Rightarrow> (s, Text_reply 404 []))"

text \<open>The layer around it. The polling of the dashboards is not reported to them.\<close>

definition is_poll :: "string \<Rightarrow> string \<Rightarrow> bool" where
  "is_poll m path \<longleftrightarrow> m = ''GET'' \<and> strip_prefix ''/_ocid/'' path \<noteq> None"

definition count_requests :: "bool \<Rightarrow> http_req \<Rightarrow> (server \<Rightarrow> server \<times> reply) \<Rightarrow> server \<Rightarrow> server \<times> reply" where
  "count_requests listeners q next_layer s =
     (let reported = (if listeners \<and> \<not> is_poll (rq_method q) (rq_path q) then Some (rq_path q) else None);
          (s1, r) = next_layer s;
          lb = \<lparr>lb_method = rq_method q, lb_route = route_family (rq_path q), lb_status = reply_status r\<rparr>;
          s2 = s1\<lparr>sv_counts := (sv_counts s1)(lb := sv_counts s1 lb + 1)\<rparr>
      in (case reported of
            None \<Rightarrow> s2
          | Some path \<Rightarrow> s2\<lparr>sv_app := (sv_app s2)\<lparr>app_node :=
              emit (HttpRequest (rq_method q) path (reply_status r)) (app_node (sv_app s2))\<rparr>\<rparr>, r))"

definition serve_request ::
  "'z json_crates_scheme \<Rightarrow> 'a addr_text_scheme \<Rightarrow> server_crates \<Rightarrow> about \<Rightarrow> http_env \<Rightarrow> bool
     \<Rightarrow> http_req \<Rightarrow> server \<Rightarrow> server \<times> reply" where
  "serve_request K A J ab E listeners q = count_requests listeners q (answer_request K A J ab E q)"

section \<open>Accounting\<close>

text \<open>The requests of a client, as \<^verbatim>\<open>ocictl\<close> and \<^verbatim>\<open>ocitop\<close> write them, reach the handler they are meant for.\<close>

fun call_target :: "ctl_call \<Rightarrow> string \<times> string" where
  "call_target Call_status = (''GET'', ''/_ocid/status'')"
| "call_target Call_peers = (''GET'', ''/_ocid/peers'')"
| "call_target (Call_add_peer p) = (''POST'', ''/_ocid/peers'')"
| "call_target Call_releases = (''GET'', ''/_ocid/releases'')"
| "call_target (Call_pull rf) = (''POST'', ''/_ocid/pull'')"
| "call_target (Call_announce rf) = (''POST'', ''/_ocid/announce'')"
| "call_target (Call_sync p) = (''POST'', ''/_ocid/sync'')"
| "call_target Call_reload = (''POST'', ''/_ocid/policy/reload'')"
| "call_target (Call_seed rf m) = (''POST'', ''/_ocid/policy/seed'')"
| "call_target (Call_unseed rf) = (''POST'', ''/_ocid/policy/unseed'')"
| "call_target (Call_follow p m) = (''POST'', ''/_ocid/policy/follow'')"
| "call_target (Call_unfollow p) = (''POST'', ''/_ocid/policy/unfollow'')"
| "call_target (Call_pin rf) = (''POST'', ''/_ocid/policy/pin'')"
| "call_target (Call_unpin rf) = (''POST'', ''/_ocid/policy/unpin'')"
| "call_target (Call_dns_resolve zone) = (''GET'', ''/_ocid/dns/resolve'')"
| "call_target (Call_dns_unpin zone) = (''POST'', ''/_ocid/dns/unpin'')"
| "call_target (Call_gc q) = (''POST'', ''/_ocid/gc'')"
| "call_target (Call_rm rf all_tags) = (''POST'', ''/_ocid/rm'')"
| "call_target Call_events = (''GET'', ''/_ocid/events'')"

lemma calls_routed: "route_request (fst (call_target call)) (snd (call_target call)) = Found (endpoint_of call)"
  by (cases call) (simp_all add: route_request_def server_routes_def method_key_def)

lemma endpoint_keeps_counts: "sv_counts (fst (run_endpoint K A J ab E ep q s)) = sv_counts s"
  by (cases ep) (simp_all add: run_endpoint_def split: sum.split prod.split)

lemma answer_keeps_counts: "sv_counts (fst (answer_request K A J ab E q s)) = sv_counts s"
  by (simp add: answer_request_def endpoint_keeps_counts split: routing.split)

lemma count_requests_counts:
  assumes "next_layer s = (s1, r)" "sv_counts s1 = sv_counts s"
  shows "sv_counts (fst (count_requests b q next_layer s)) lb = sv_counts s lb
    + (if lb = \<lparr>lb_method = rq_method q, lb_route = route_family (rq_path q), lb_status = reply_status r\<rparr> then 1 else 0)"
    "snd (count_requests b q next_layer s) = r"
  using assms by (simp_all add: count_requests_def Let_def)

text \<open>A series of requests, each in its own circumstances, with the replies in order.\<close>

fun serve_all ::
  "'z json_crates_scheme \<Rightarrow> 'a addr_text_scheme \<Rightarrow> server_crates \<Rightarrow> about \<Rightarrow> (http_env \<times> bool \<times> http_req) list \<Rightarrow> server
     \<Rightarrow> server \<times> (http_req \<times> reply) list" where
  "serve_all K A J ab [] s = (s, [])"
| "serve_all K A J ab ((E, b, q) # rest) s =
     (case serve_request K A J ab E b q s of
        (s1, r) \<Rightarrow> (case serve_all K A J ab rest s1 of (s2, rs) \<Rightarrow> (s2, (q, r) # rs)))"

definition labels_of :: "http_req \<times> reply \<Rightarrow> request_labels" where
  "labels_of x = \<lparr>lb_method = rq_method (fst x), lb_route = route_family (rq_path (fst x)), lb_status = reply_status (snd x)\<rparr>"

text \<open>Every request is counted once, under its method, its family and the status it was answered with.\<close>

theorem requests_counted:
  assumes "serve_all K A J ab qs s = (s', rs)"
  shows "sv_counts s' lb = sv_counts s lb + count_list (map labels_of rs) lb \<and> map fst rs = map (\<lambda>(E, b, q). q) qs"
  using assms
proof (induction qs arbitrary: s s' rs)
  case (Cons x qs)
  obtain E b q where x: "x = (E, b, q)" by (cases x)
  obtain s1 r where one: "serve_request K A J ab E b q s = (s1, r)" by force
  obtain s2 rs2 where two: "serve_all K A J ab qs s1 = (s2, rs2)" by force
  obtain t r' where ans: "answer_request K A J ab E q s = (t, r')" by force
  with answer_keeps_counts [of K A J ab E q s] have "sv_counts t = sv_counts s" by simp
  from count_requests_counts [where next_layer = "answer_request K A J ab E q", OF ans this, where b = b and q = q]
  have "sv_counts s1 lb = sv_counts s lb + (if lb = labels_of (q, r) then 1 else 0)"
    using one by (simp add: serve_request_def labels_of_def)
  with Cons.IH [OF two] Cons.prems one two x show ?case by auto
qed simp

end
