(* ===== verification/Wire.thy ===== *)
theory Wire
  imports Push_Pull
begin

text \<open>
  The bytes of the peer protocol (\<^verbatim>\<open>crates/ocid/src/p2p\<close>): the frame of a request and its answer on a
  stream with their bound, the announcement of a release, and the topics it is broadcast on. The
  encoding itself (postcard) is a parameter of which nothing is known but that what it writes it
  reads back. With it, what a peer replies to a request of another node is what its handlers answer.
\<close>

section \<open>The encoding\<close>

record wire =
  request_bytes :: "request \<Rightarrow> byte list option"
  request_of_bytes :: "byte list \<Rightarrow> request option"
  response_bytes :: "response \<Rightarrow> byte list option"
  response_of_bytes :: "byte list \<Rightarrow> response option"
  announcement_bytes :: "release_summary \<Rightarrow> byte list option"
  announcement_of_bytes :: "byte list \<Rightarrow> release_summary option"

definition wire_laws :: "wire \<Rightarrow> bool" where
  "wire_laws W \<longleftrightarrow>
     (\<forall>rq bs. request_bytes W rq = Some bs \<longrightarrow> request_of_bytes W bs = Some rq)
     \<and> (\<forall>r bs. response_bytes W r = Some bs \<longrightarrow> response_of_bytes W bs = Some r)
     \<and> (\<forall>x bs. announcement_bytes W x = Some bs \<longrightarrow> announcement_of_bytes W bs = Some x)"

lemma wire_lawsD:
  assumes "wire_laws W"
  shows "request_bytes W rq = Some bs \<Longrightarrow> request_of_bytes W bs = Some rq"
    "response_bytes W r = Some bs \<Longrightarrow> response_of_bytes W bs = Some r"
    "announcement_bytes W x = Some bs \<Longrightarrow> announcement_of_bytes W bs = Some x"
  using assms unfolding wire_laws_def by blast+

section \<open>Requests on a stream\<close>

definition max_message :: nat where
  "max_message = 16 * 1024 * 1024"

text \<open>\<open>read_to_end\<close> of a stream of QUIC: all of it, or an error when it is longer than the bound.\<close>

definition read_to_end :: "nat \<Rightarrow> byte list \<Rightarrow> byte list option" where
  "read_to_end bound bs = (if length bs \<le> bound then Some bs else None)"

text \<open>The task of one stream: what it reads, what it writes back, if anything.\<close>

definition serve_stream ::
  "'z net_crates_scheme \<Rightarrow> wire \<Rightarrow> public_key \<Rightarrow> byte list \<Rightarrow> node \<Rightarrow> node \<times> byte list option" where
  "serve_stream K W from_peer sent s =
     (case Option.bind (read_to_end max_message sent) (request_of_bytes W) of
        None \<Rightarrow> (s, None)
      | Some rq \<Rightarrow> (case handle_request K from_peer rq s of (s', resp) \<Rightarrow> (s', response_bytes W resp)))"

text \<open>The client on a stream whose other end writes \<open>peer sent\<close> back for what it is sent: the message
  that comes, before an error in it is told from an answer (\<open>request_on\<close>).\<close>

definition exchange :: "wire \<Rightarrow> (byte list \<Rightarrow> byte list option) \<Rightarrow> request \<Rightarrow> response option" where
  "exchange W peer rq =
     Option.bind (request_bytes W rq) (\<lambda>sent.
     Option.bind (peer sent) (\<lambda>out.
     Option.bind (read_to_end max_message out) (response_of_bytes W)))"

text \<open>A node whose peer \<open>peer\<close> is a node in the state \<open>t\<close>: it can be connected to, and its replies are
  what that node answers to the one with the key \<open>me\<close>.\<close>

definition talks_to ::
  "'z net_crates_scheme \<Rightarrow> wire \<Rightarrow> public_key \<Rightarrow> node_env \<Rightarrow> public_key \<Rightarrow> node \<Rightarrow> bool" where
  "talks_to K W me E peer t \<longleftrightarrow> env_connect E peer
     \<and> (\<forall>rq. env_reply E peer rq = exchange W (\<lambda>sent. snd (serve_stream K W me sent t)) rq)"

section \<open>Announcements and topics\<close>

definition bytes_of_text :: "string \<Rightarrow> byte list" where
  "bytes_of_text t = map of_char t"

definition swarm_topic :: "'z node_crates_scheme \<Rightarrow> blake3" where
  "swarm_topic K = blake3_of K (bytes_of_text ''ocid/swarm/v1'')"

definition publisher_topic :: "'z node_crates_scheme \<Rightarrow> public_key \<Rightarrow> blake3" where
  "publisher_topic K p = blake3_of K (bytes_of_text ''ocid/publisher/v1/'' @ key_bytes p)"

definition announcement_encode :: "wire \<Rightarrow> release_summary \<Rightarrow> byte list result" where
  "announcement_encode W x = (case announcement_bytes W x of Some bs \<Rightarrow> Inr bs | None \<Rightarrow> Inl Io_err)"

definition announcement_decode :: "wire \<Rightarrow> byte list \<Rightarrow> release_summary result" where
  "announcement_decode W bs = (case announcement_of_bytes W bs of Some x \<Rightarrow> Inr x | None \<Rightarrow> Inl Io_err)"

text \<open>A message of a topic as the receive loop handles it.\<close>

definition gossip_message :: "wire \<Rightarrow> public_key \<Rightarrow> byte list \<Rightarrow> gossip_msg" where
  "gossip_message W from_peer bs =
     (case announcement_decode W bs of Inr x \<Rightarrow> Received from_peer (Some x) | Inl _ \<Rightarrow> Received from_peer None)"

section \<open>Lemmas\<close>

lemma read_to_end_Some [simp]: "read_to_end n bs = Some cs \<longleftrightarrow> cs = bs \<and> length bs \<le> n"
  by (auto simp: read_to_end_def)

text \<open>The streams of a connection are the requests of \<open>serve_streams\<close>, encoded.\<close>

fun serve_bytes ::
  "'z net_crates_scheme \<Rightarrow> wire \<Rightarrow> public_key \<Rightarrow> byte list list \<Rightarrow> node \<Rightarrow> node \<times> byte list option list" where
  "serve_bytes K W p [] s = (s, [])"
| "serve_bytes K W p (m # ms) s =
     (let (s1, r) = serve_stream K W p m s; (s2, rs) = serve_bytes K W p ms s1 in (s2, r # rs))"

lemma serve_bytes_streams:
  "serve_bytes K W p ms s =
     (case serve_streams K p (map (\<lambda>m. Option.bind (read_to_end max_message m) (request_of_bytes W)) ms) s of
        (s', rs) \<Rightarrow> (s', map (\<lambda>r. Option.bind r (response_bytes W)) rs))"
  by (induction ms arbitrary: s) (auto simp: serve_stream_def split: option.split prod.split)

text \<open>What is asked of a node is what its handler answers, when both messages fit.\<close>

lemma talks_answer:
  assumes laws: "wire_laws W" and peer: "talks_to K W me E peer t"
    and sent: "request_bytes W rq = Some q" "length q \<le> max_message"
    and answer: "response_bytes W (snd (handle_request K me rq t)) = Some out"
  shows "env_connect E peer"
    "env_reply E peer rq = (if length out \<le> max_message then Some (snd (handle_request K me rq t)) else None)"
proof -
  show "env_connect E peer" using peer by (simp add: talks_to_def)
  have "Option.bind (read_to_end max_message q) (request_of_bytes W) = Some rq"
    using wire_lawsD(1) [OF laws sent(1)] sent(2) by (simp add: read_to_end_def)
  then have "snd (serve_stream K W me q t) = Some out"
    using answer by (simp add: serve_stream_def split_beta)
  then show "env_reply E peer rq = (if length out \<le> max_message then Some (snd (handle_request K me rq t)) else None)"
    using peer sent(1) wire_lawsD(2) [OF laws answer] by (simp add: talks_to_def exchange_def read_to_end_def)
qed

lemma announced_message:
  assumes "wire_laws W" "announcement_encode W x = Inr bs"
  shows "gossip_message W p bs = Received p (Some x)"
  using assms wire_lawsD(3) [OF assms(1)]
  by (auto simp: announcement_encode_def gossip_message_def announcement_decode_def split: option.splits)

text \<open>Publishers have topics of their own, apart from that of the swarm, if the hash tells their texts apart.\<close>

lemma key_bytes_inject: "key_bytes p = key_bytes q \<longleftrightarrow> p = q"
  by (metis key_bytes_def public_key.expand try_array_32 option.inject)

lemma topics_apart:
  assumes "inj_on (blake3_of K) {bs. \<exists>p. bs = bytes_of_text ''ocid/publisher/v1/'' @ key_bytes p
      \<or> bs = bytes_of_text ''ocid/swarm/v1''}"
  shows "inj (publisher_topic K)" "swarm_topic K \<notin> range (publisher_topic K)"
proof -
  show "inj (publisher_topic K)"
    by (rule injI) (use inj_onD [OF assms] in \<open>fastforce simp: publisher_topic_def key_bytes_inject\<close>)
  have "bytes_of_text ''ocid/swarm/v1'' \<noteq> bytes_of_text ''ocid/publisher/v1/'' @ key_bytes p" for p
    by (simp add: bytes_of_text_def of_char_of)
  then show "swarm_topic K \<notin> range (publisher_topic K)"
    using inj_onD [OF assms] by (fastforce simp: publisher_topic_def swarm_topic_def)
qed

section \<open>A codec and a peer to evaluate on\<close>

text \<open>The codec that knows one request and one answer.\<close>

definition wire_for :: "request \<Rightarrow> response \<Rightarrow> byte list \<Rightarrow> wire" where
  "wire_for rq resp out = \<lparr>request_bytes = (\<lambda>x. if x = rq then Some [1] else None), request_of_bytes = (\<lambda>_. Some rq),
     response_bytes = (\<lambda>x. if x = resp then Some out else None), response_of_bytes = (\<lambda>_. Some resp),
     announcement_bytes = (\<lambda>_. None), announcement_of_bytes = (\<lambda>_. None)\<rparr>"

lemma wire_for_laws: "wire_laws (wire_for rq resp out)"
  by (simp add: wire_laws_def wire_for_def)

text \<open>The world in which the node \<open>t\<close> is the only one to be reached.\<close>

definition linked :: "'z net_crates_scheme \<Rightarrow> wire \<Rightarrow> public_key \<Rightarrow> public_key \<Rightarrow> node \<Rightarrow> node_env \<Rightarrow> node_env" where
  "linked K W me peer t E = E\<lparr>env_connect := (\<lambda>q. q = peer),
     env_reply := (\<lambda>_. exchange W (\<lambda>sent. snd (serve_stream K W me sent t))),
     env_download := (\<lambda>h ps. if peer \<in> set ps then tget (blob_data t) h else None)\<rparr>"

lemma linked_talks: "talks_to K W me (linked K W me peer t E) peer t"
  by (simp add: talks_to_def linked_def)

section \<open>Properties\<close>

text \<open>C35: An inventory goes through exactly when it fits into one message. A peer sends what it holds
  completely in one answer; when its encoding has at most 16 MiB the node that asks reads it, and when it is
  longer every synchronisation with that peer ends in an error, with nothing but the time the peer was seen.\<close>

theorem inventory_fits_or_fails:
  assumes "wire_laws W" "talks_to K W (node_id K s) E peer t"
    and "request_bytes W Inventory = Some q" "length q \<le> max_message"
    and "response_bytes W (snd (handle_request K (node_id K s) Inventory t)) = Some out"
  shows "request_on E peer Inventory = (if length out \<le> max_message
       then Inr (Inventory_resp (map summary_of (filter (\<lambda>r. is_complete r t) (list_releases K (idx t)))))
       else Inl Io_err)
    \<and> (max_message < length out \<longrightarrow> sync_with K E peer s = (note_peer_seen E peer s, Inl Io_err))"
proof -
  have "snd (handle_request K (node_id K s) Inventory t)
      = Inventory_resp (map summary_of (filter (\<lambda>r. is_complete r t) (list_releases K (idx t))))"
    by (simp add: handle_request_def handle_inner_def)
  with talks_answer [OF assms] have up: "env_connect E peer"
    and on: "request_on E peer Inventory = (if length out \<le> max_message
       then Inr (Inventory_resp (map summary_of (filter (\<lambda>r. is_complete r t) (list_releases K (idx t)))))
       else Inl Io_err)"
    by (simp_all add: request_on_def)
  have "sync_with K E peer s = (note_peer_seen E peer s, Inl Io_err)" if "max_message < length out"
    using that on up by (simp add: sync_with_def then_do_def)
  with on show ?thesis by blast
qed

theorem inventory_fits_or_fails_witness:
  "\<exists>E. sync_with demo_net E (PublicKey 7) (demo_node policy_default)
     = (note_peer_seen E (PublicKey 7) (demo_node policy_default), Inl Io_err)"
proof -
  let ?s = "demo_node policy_default" and ?out = "replicate (Suc max_message) (0 :: byte)"
  let ?me = "node_id demo_net ?s"
  let ?W = "wire_for Inventory (snd (handle_request demo_net ?me Inventory ?s)) ?out"
  let ?E = "linked demo_net ?W ?me (PublicKey 7) ?s demo_env"
  have codec: "request_bytes ?W Inventory = Some [1]" "response_bytes ?W (snd (handle_request demo_net ?me Inventory ?s)) = Some ?out"
    by (simp_all add: wire_for_def)
  have "length [1 :: byte] \<le> max_message" by (simp add: max_message_def)
  from inventory_fits_or_fails [OF wire_for_laws linked_talks codec(1) this codec(2)]
  have "max_message < length ?out \<longrightarrow> sync_with demo_net ?E (PublicKey 7) ?s = (note_peer_seen ?E (PublicKey 7) ?s, Inl Io_err)"
    by (rule conjunct2)
  then show ?thesis by auto
qed

end
