(* ===== verification/Two_Nodes.thy ===== *)
theory Two_Nodes
  imports Wire References
begin

text \<open>
  Two nodes together: what is pushed on one is pulled on another. The requests of the second node go
  over the wire to the handlers of the first, and the blobs it downloads are the data of the first.
\<close>

section \<open>A node as the peer of another\<close>

text \<open>
  The world of a node with the key \<open>me\<close> that has the node \<open>t\<close> as its peer \<open>peer\<close>: its requests to the peer are
  answered by \<open>t\<close>, the downloader finds the blobs of \<open>t\<close> and checks what it streams, and nobody else has a
  release to give.
\<close>

definition served_by :: "'z net_crates_scheme \<Rightarrow> wire \<Rightarrow> public_key \<Rightarrow> node_env \<Rightarrow> public_key \<Rightarrow> node \<Rightarrow> bool" where
  "served_by K W me E peer t \<longleftrightarrow> talks_to K W me E peer t \<and> honest_download K E
     \<and> (\<forall>h ps x. peer \<in> set ps \<longrightarrow> tget (blob_data t) h = Some x \<longrightarrow> env_download E h ps = Some x)
     \<and> (\<forall>q rq r. q \<noteq> peer \<longrightarrow> and_then (sync_request E q rq) (into_release K) \<noteq> Inr (Some r))"

text \<open>A request and the release it is answered with fit into messages.\<close>

definition carries :: "'z net_crates_scheme \<Rightarrow> wire \<Rightarrow> request \<Rightarrow> release \<Rightarrow> bool" where
  "carries K W rq r \<longleftrightarrow> (\<exists>q out. request_bytes W rq = Some q \<and> length q \<le> max_message
     \<and> response_bytes W (Release_resp (Some (release_json K r))) = Some out \<and> length out \<le> max_message)"

definition release_json_laws :: "'z net_crates_scheme \<Rightarrow> bool" where
  "release_json_laws K \<longleftrightarrow> (\<forall>r. digests_ok r \<longrightarrow> release_of_json K (release_json K r) = Some r)"

text \<open>Where two nodes have data under the same hash, it is the same data.\<close>

definition data_agree :: "node \<Rightarrow> node \<Rightarrow> bool" where
  "data_agree s t \<longleftrightarrow> (\<forall>h x y. tget (blob_data s) h = Some x \<longrightarrow> tget (blob_data t) h = Some y \<longrightarrow> x = y)"

section \<open>Asking\<close>

lemma push_new_set: "set (push_new p xs) = insert p (set xs)"
  by (auto simp: push_new_def)

lemma publisher_is_asked: "p \<noteq> node_id K s \<Longrightarrow> p \<in> set (candidate_peers K p s)"
  by (simp add: candidate_peers_def Let_def push_new_set)

lemma ask_peers_reaches:
  assumes "peer \<in> set ps"
    and "\<And>q r. q \<noteq> peer \<Longrightarrow> and_then (sync_request E q rq) (into_release K) \<noteq> Inr (Some r)"
    and "and_then (sync_request E peer rq) (into_release K) = Inr (Some rel)"
  shows "ask_peers K E p rq ps s
    = then_do (fetch_release K E rel (if p \<noteq> peer then [peer, p] else [peer])) (\<lambda>_. ret (Some rel)) s"
  using assms(1)
proof (induction ps)
  case (Cons q qs)
  show ?case
  proof (cases "q = peer")
    case True
    show ?thesis unfolding True ask_peers.simps assms(3) sum.case option.case by (rule refl)
  next
    case False
    with assms(2) [OF this] Cons show ?thesis by (auto split: sum.split option.split)
  qed
qed simp

text \<open>A node that holds a release completely gives it to the one that asks.\<close>

lemma held_is_answered:
  assumes laws: "wire_laws W" "release_json_laws K" and peer: "talks_to K W me E peer t" and fit: "carries K W (GetRelease p img tag) r"
    and held: "release_at K (idx t) (p, img, tag) = Some r" "name_ok img" "tag_ok tag" "is_complete r t" "digests_ok r"
  shows "answers K E peer (GetRelease p img tag) r"
proof -
  obtain q out where msg: "request_bytes W (GetRelease p img tag) = Some q" "length q \<le> max_message"
    "response_bytes W (Release_resp (Some (release_json K r))) = Some out" "length out \<le> max_message"
    using fit unfolding carries_def by blast
  have serve: "snd (handle_request K me (GetRelease p img tag) t) = Release_resp (Some (release_json K r))"
    using get_release_found [OF held(1-3)] held(4)
    by (simp add: handle_request_def handle_inner_def then_do_def)
  note reply = talks_answer [OF laws(1) peer msg(1,2), unfolded serve, OF msg(3)]
  show ?thesis
    using reply msg(4) laws(2) held(5) by (simp add: answers_def release_json_laws_def)
qed

lemma served_offers:
  assumes laws: "wire_laws W" "release_json_laws K" and peer: "served_by K W me E peer t"
    and fit: "carries K W (GetRelease p img tag) r" and left: "left_by_push K t (p, img, tag) bytes mt r"
    and agree: "data_agree s t" and names: "name_ok img" "tag_ok tag"
  shows "offers K E peer (GetRelease p img tag) r s"
proof -
  note left = left [unfolded left_by_push_def]
  have full: "is_complete r t" by (rule verified_complete) (use left in blast)
  have blobs: "\<exists>x. tget (blob_data t) (br_hash b) = Some x \<and> digest_sha256 K x = br_digest b \<and> of_nat (length x) = br_size b"
    if "b \<in> set (all_blobs r)" for b
    using left that unfolding list_all_iff verify_blob_iff by blast
  have down: "peer \<in> set ps \<Longrightarrow> tget (blob_data t) h = Some x \<Longrightarrow> env_download E h ps = Some x" for h ps x
    using peer unfolding served_by_def by blast
  have "list_all (provides K E peer) (all_blobs r)"
    unfolding list_all_iff provides_def using blobs down by blast
  moreover have "agrees E peer (all_blobs r) s"
    unfolding list_all_iff agrees_def using blobs down agree [unfolded data_agree_def] by metis
  moreover have "answers K E peer (GetRelease p img tag) r"
    by (rule held_is_answered [OF laws _ fit, of me]) (use peer left full names in \<open>simp_all add: served_by_def\<close>)
  ultimately show ?thesis using left by (simp add: offers_def)
qed

text \<open>The node that asks has the release and its data afterwards.\<close>

lemma fetched_from_peer:
  assumes ok: "store_ok K s" "key_laws K" and laws: "wire_laws W" "release_json_laws K" and peer: "served_by K W me E p t"
    and fit: "carries K W (GetRelease p img tag) r" and left: "left_by_push K t (p, img, tag) bytes mt r"
    and agree: "data_agree s t" and names: "name_ok img" "tag_ok tag"
    and new: "p \<noteq> node_id K s" "release_at K (idx s) (p, img, tag) = None" "slot_free K (idx s) (p, img, tag)"
  obtains s' where "get_or_fetch K E p img tag s = (s', Inr (Some r))" "tget (blob_data s') (blake3_of K bytes) = Some bytes"
    "release_at K (idx s') (p, img, tag) = Some r" "is_complete r s'" "store_ok K s'"
proof -
  let ?rq = "GetRelease p img tag"
  note left' = left [unfolded left_by_push_def]
  have honest: "honest_download K E" using peer by (simp add: served_by_def)
  have off: "offers K E p ?rq r s" by (rule served_offers [OF laws peer fit left agree names])
  then have o': "list_all (provides K E p) (all_blobs r)" "agrees E p (all_blobs r) s"
    and ans: "and_then (sync_request E p ?rq) (into_release K) = Inr (Some r)"
    unfolding offers_def by (blast, blast, blast intro: answers_release)
  have slot: "slot_of r = (p, img, tag)" and ver: "release_verify K r = Inr ()" "digests_ok r" using left' by simp_all
  obtain s' where run: "fetch_release K E r [p] s = (s', Inr ())" and ag: "agrees E p (all_blobs r) s'"
    by (rule fetch_release_succeeds [OF ok(1) honest ver _ _ new(1) o', of "[p]"]) (simp_all add: slot new)
  have others: "q \<noteq> p \<Longrightarrow> and_then (sync_request E q ?rq) (into_release K) \<noteq> Inr (Some x)" for q x
    using peer unfolding served_by_def by blast
  have "index_ok K (idx s)" using ok(1) by (simp add: store_ok_def)
  from get_release_free [OF this new(3) names] have "get_release K (idx s) p img tag = Inr None" by (simp add: new(2))
  then have got: "get_or_fetch K E p img tag s = (s', Inr (Some r))"
    using ask_peers_reaches [OF publisher_is_asked [OF new(1)] others ans, of p s] run new(1)
    by (simp add: get_or_fetch_def then_do_def)
  note spec = fetch_release_spec [OF ok honest ver(2) run]
  then have f: "fetched K r True s s'" and ok': "store_ok K s'" by simp_all
  have all: "list_all (\<lambda>b. has_hash (br_hash b) s' \<and> blob_at (idx s') (br_digest b) \<noteq> None) (all_blobs r)"
    using fetchedD(4) [OF f] by simp
  have at: "release_at K (idx s') (p, img, tag) = Some r" using fetchedD(2) [OF f, of "(p, img, tag)"] new(2) by (simp add: slot)
  let ?h = "blake3_of K bytes"
  have m: "br_hash (p_manifest (payload r)) = ?h" "p_manifest (payload r) \<in> set (all_blobs r)"
    using left' by (simp_all add: all_blobs_def)
  then obtain y where y: "tget (blob_data s') ?h = Some y" using all unfolding list_all_iff has_hash_def by fastforce
  have "env_download E ?h [p] = Some y" using ag m y unfolding agrees_def list_all_iff by fastforce
  moreover have "env_download E ?h [p] = Some bytes" using peer left' unfolding served_by_def by simp
  ultimately have "tget (blob_data s') ?h = Some bytes" using y by simp
  moreover have "is_complete r s'" using all by (simp add: is_complete_def list_all_iff)
  ultimately show ?thesis using that got at ok' by blast
qed

text \<open>The world with one other node in it serves.\<close>

lemma linked_serves:
  assumes "store_ok K t"
  shows "served_by K W me (linked K W me peer t E) peer t"
  using assms linked_talks [of K W me peer t E]
  by (auto simp: served_by_def linked_def honest_download_def store_ok_def sync_request_def)

lemma demo_json_json: "release_json_laws demo_json"
  using decode_code_release
  by (simp add: release_json_laws_def demo_json_def net_crates.defs demo_net_def node_crates.defs)

section \<open>Properties\<close>

text \<open>C4: What is pushed on one node is pulled on another. A manifest is pushed under a tag of a plain name on
  one node. A second node, that has nothing under the tag and room for it, is asked for it by a name that
  stands for the publisher of the first, with that node as its peer: the messages go over the wire and fit
  into their bound, releases survive their JSON form, nobody else answers, and no hash stands for two pieces
  of data. Then the second node answers 200 with the bytes that were pushed, under their SHA-256 digest and
  media type, and holds the release of the first from then on, complete and in a sound store.\<close>

theorem pushed_here_pulled_there:
  assumes "store_ok K (app_node a)" "hex_laws K" "sha_laws K" "key_laws K" "domain_slot name = None" "tag_ok tag"
    and "resolve_repo K name (node_policy (app_node a)) (node_id K (app_node a)) = Inr (p, img)"
    and "manifest_parse K (concat (chunks body)) (map_option essence ct) = Inr m" "manifest_subject m = None"
    and "\<And>ex. release_at K (idx (app_node a)) (p, img, tag) = Some ex \<Longrightarrow> p_timestamp (payload ex) < env_unix (net_env E)"
    and "\<And>bs. tget (blob_data (app_node a)) (blake3_of K (concat (chunks body))) = Some bs \<Longrightarrow> bs = concat (chunks body)"
    and "manifest_put K E name tag ct body a = (a', Inr r)"
    and there: "store_ok K (app_node c)" "domain_slot name' = None"
      "resolve_repo K name' (node_policy (app_node c)) (node_id K (app_node c)) = Inr (p, img)"
      "p \<noteq> node_id K (app_node c)" "release_at K (idx (app_node c)) (p, img, tag) = None"
      "slot_free K (idx (app_node c)) (p, img, tag)" "data_agree (app_node c) (app_node a')"
    and net: "wire_laws W" "release_json_laws K" "served_by K W (node_id K (app_node c)) (net_env E') p (app_node a')"
      "\<And>rel. release_at K (idx (app_node a')) (p, img, tag) = Some rel \<Longrightarrow> carries K W (GetRelease p img tag) rel"
  shows "\<exists>c' q rel. manifest_get K E' name' tag False c = (c', Inr q) \<and> status q = 200
    \<and> resp_body q = Data (concat (chunks body))
    \<and> (''Docker-Content-Digest'', digest_str (digest_sha256 K (concat (chunks body)))) \<in> set (headers q)
    \<and> (''Content-Type'', case map_option essence ct of Some t \<Rightarrow> t | None \<Rightarrow> manifest_media_type m) \<in> set (headers q)
    \<and> release_at K (idx (app_node a')) (p, img, tag) = Some rel \<and> release_at K (idx (app_node c')) (p, img, tag) = Some rel
    \<and> is_complete rel (app_node c') \<and> store_ok K (app_node c')"
proof -
  from push_leaves [OF assms(1-12)] obtain rel where left: "left_by_push K (app_node a') (p, img, tag) (concat (chunks body))
      (case map_option essence ct of Some t \<Rightarrow> t | None \<Rightarrow> manifest_media_type m) rel" by blast
  note left' = left [unfolded left_by_push_def]
  have name: "name_ok img" by (rule resolve_repo_name_ok [OF assms(7)])
  have fit: "carries K W (GetRelease p img tag) rel" by (rule net(4)) (use left' in blast)
  obtain s' where s': "get_or_fetch K (net_env E') p img tag (app_node c) = (s', Inr (Some rel))"
    "tget (blob_data s') (blake3_of K (concat (chunks body))) = Some (concat (chunks body))"
    "release_at K (idx s') (p, img, tag) = Some rel" "is_complete rel s'" "store_ok K s'"
    by (rule fetched_from_peer [OF there(1) assms(4) net(1-3) fit left there(7) name assms(6) there(4-6)])
  have m: "p_manifest (payload rel) = \<lparr>br_digest = digest_sha256 K (concat (chunks body)),
      br_hash = blake3_of K (concat (chunks body)), br_size = of_nat (length (concat (chunks body))),
      br_media_type = Some (case map_option essence ct of Some t \<Rightarrow> t | None \<Rightarrow> manifest_media_type m)\<rparr>"
    and at: "release_at K (idx (app_node a')) (p, img, tag) = Some rel" using left' by blast+
  from pull_fetched [OF there(2) assms(6) there(3) s'(1), unfolded m blob_ref.simps, OF s'(2)] obtain q where
    "manifest_get K E' name' tag False c = (c\<lparr>app_node := s'\<rparr>, Inr q)" "status q = 200"
    "resp_body q = Data (concat (chunks body))"
    "(''Docker-Content-Digest'', digest_str (digest_sha256 K (concat (chunks body)))) \<in> set (headers q)"
    "(''Content-Type'', case map_option essence ct of Some t \<Rightarrow> t | None \<Rightarrow> manifest_media_type m) \<in> set (headers q)"
    by (simp add: response_media_type_def) blast
  then show ?thesis using s'(3-5) at by (intro exI [of _ "c\<lparr>app_node := s'\<rparr>"] exI [of _ q] exI [of _ rel]) simp
qed

theorem pushed_here_pulled_there_witness:
  "\<exists>a a' r c c' q E name'. manifest_put demo_json demo_http ''app'' ''v1'' None \<lparr>chunks = [[2]], broken = False\<rparr> a = (a', Inr r)
     \<and> node_id demo_json (app_node c) \<noteq> node_id demo_json (app_node a) \<and> blob_data (app_node c) = []
     \<and> manifest_get demo_json E name' ''v1'' False c = (c', Inr q) \<and> resp_body q = Data [2]
     \<and> (''Content-Type'', mt_oci_manifest) \<in> set (headers q)"
proof -
  let ?a = "\<lparr>app_node = demo_pushed, app_uploads = []\<rparr>" and ?body = "\<lparr>chunks = [[2]], broken = False\<rparr> :: http_body"
  let ?p = "node_id demo_json demo_pushed" and ?c = "\<lparr>app_node = (demo_node policy_default)\<lparr>node_key := 6\<rparr>, app_uploads = []\<rparr>"
  let ?rq = "GetRelease ?p ''app'' ''v1''" and ?name = "pk_display demo_json ?p @ ''/'' @ ''app''"
  obtain a' r where put: "manifest_put demo_json demo_http ''app'' ''v1'' None ?body ?a = (a', Inr r)"
    by (rule demo_push)
  note ready = demo_push_ready
  note push = ready(7) demo_json_laws(1,4,2) ready(5) demo_app_ok(2) ready(4,1,6)
  have "\<exists>rel. left_by_push demo_json (app_node a') (?p, ''app'', ''v1'') (concat (chunks ?body))
      (case map_option essence None of Some t \<Rightarrow> t | None \<Rightarrow> manifest_media_type (Image demo_image)) rel"
    by (rule exE [OF push_leaves [OF push _ _ put]]) (blast dest: ready(2) elim: notE [OF ready(3)])+
  then obtain rel where "left_by_push demo_json (app_node a') (?p, ''app'', ''v1'') (concat (chunks ?body))
      (case map_option essence None of Some t \<Rightarrow> t | None \<Rightarrow> manifest_media_type (Image demo_image)) rel" by blast
  then have left: "store_ok demo_json (app_node a')" "release_at demo_json (idx (app_node a')) (?p, ''app'', ''v1'') = Some rel"
    by (simp_all add: left_by_push_def)
  let ?W = "wire_for ?rq (Release_resp (Some (release_json demo_json rel))) [1]"
  let ?E = "demo_http\<lparr>net_env := linked demo_json ?W (node_id demo_json (app_node ?c)) ?p (app_node a') demo_env\<rparr>"
  have ids: "?p \<noteq> node_id demo_json (app_node ?c)"
    by (simp add: node_id_def demo_pushed_fields identity_id_def demo_json_def net_crates.defs demo_net_def node_crates.defs
        demo_node_crates_def codecs.defs demo_codecs_def crates.defs demo_crates_def)
  have empty: "idx (app_node ?c) = empty_index" "blob_data (app_node ?c) = []" by (simp_all add: demo_node_def)
  have ok_c: "store_ok demo_json (app_node ?c)"
    by (rule store_ok_same [OF demo_json_ok [of policy_default]]) (simp_all add: demo_node_def demo_member_def empty_index_ok)
  have none: "release_at demo_json (idx (app_node ?c)) sl = None" "slot_free demo_json (idx (app_node ?c)) sl" for sl
    using demo_node_nothing(1) [of demo_json policy_default] demo_free by (simp_all add: demo_node_nothing(3))
  have resolve: "resolve_repo demo_json ?name (node_policy (app_node ?c)) (node_id demo_json (app_node ?c)) = Inr (?p, ''app'')"
    by (rule resolve_repo_explicit [OF demo_json_laws(2) demo_app_ok(1)])
  have agree: "data_agree (app_node ?c) (app_node a')" by (simp add: data_agree_def demo_node_nothing(2))
  have serve: "served_by demo_json ?W (node_id demo_json (app_node ?c)) (net_env ?E) ?p (app_node a')"
    using linked_serves [OF left(1)] by simp
  have fit: "carries demo_json ?W ?rq x" if "release_at demo_json (idx (app_node a')) (?p, ''app'', ''v1'') = Some x" for x
    using that left(2) by (simp add: carries_def wire_for_def max_message_def)
  have "\<exists>c' q. manifest_get demo_json ?E ?name ''v1'' False ?c = (c', Inr q) \<and> resp_body q = Data (concat (chunks ?body))
    \<and> (''Content-Type'', case map_option essence None of Some t \<Rightarrow> t | None \<Rightarrow> manifest_media_type (Image demo_image))
      \<in> set (headers q)"
    by (rule exE [OF pushed_here_pulled_there [OF push _ _ put ok_c explicit_repo_no_slot [OF demo_json_laws(2)] resolve ids
        none agree wire_for_laws demo_json_json serve fit]]) (blast dest: ready(2) elim: notE [OF ready(3)])+
  then obtain c' q where get: "manifest_get demo_json ?E ?name ''v1'' False ?c = (c', Inr q)"
    "resp_body q = Data (concat (chunks ?body))" "(''Content-Type'', case map_option essence None of Some t \<Rightarrow> t
      | None \<Rightarrow> manifest_media_type (Image demo_image)) \<in> set (headers q)" by blast
  from get(2,3) have "resp_body q = Data [2]" "(''Content-Type'', mt_oci_manifest) \<in> set (headers q)"
    by (simp_all add: manifest_media_type_def demo_image_def)
  moreover have "node_id demo_json (app_node ?c) \<noteq> node_id demo_json (app_node ?a)" using ids by simp
  ultimately show ?thesis using put get(1) empty(2) by blast
qed

end
