(* ===== verification/Tls.thy ===== *)
theory Tls
  imports State_Result
begin

text \<open>
  The TLS material of the registry (\<^verbatim>\<open>crates/ocid-core/src/tls.rs\<close>): four files of one directory that are used
  as they are when none is missing or empty, and else all written again. Keys and certificates are the rcgen
  crate's: drawing a key pair is an input of each call, and the PEM texts and the check of a certificate are
  parameters.
\<close>

section \<open>Parameters and state\<close>

record tls_crates =
  key_pem :: "bytes32 \<Rightarrow> byte list"
  ca_pem :: "bytes32 \<Rightarrow> byte list"
  server_pem :: "bytes32 \<Rightarrow> bytes32 \<Rightarrow> byte list"
  issued_by :: "byte list \<Rightarrow> byte list \<Rightarrow> bool"
  belongs_to :: "byte list \<Rightarrow> byte list \<Rightarrow> bool"

text \<open>PEM texts are not empty; a certificate verifies under the authority that issued it and no other, and
  belongs to the key it was made for and no other.\<close>

definition tls_laws :: "'z tls_crates_scheme \<Rightarrow> bool" where
  "tls_laws T \<longleftrightarrow> (\<forall>k. key_pem T k \<noteq> [] \<and> ca_pem T k \<noteq> [])
     \<and> (\<forall>a k. server_pem T a k \<noteq> [])
     \<and> (\<forall>a k b. issued_by T (server_pem T a k) (ca_pem T b) \<longleftrightarrow> a = b)
     \<and> (\<forall>a k l. belongs_to T (server_pem T a k) (key_pem T l) \<longleftrightarrow> k = l)"

record tls_file =
  tf_data :: "byte list"
  tf_mode :: nat

type_synonym tls_dir = "(string, tls_file) table"

text \<open>What one call meets: the key pairs drawn, and which system calls succeed.\<close>

record tls_env =
  new_ca :: bytes32
  new_server :: bytes32
  tls_mkdir :: bool
  tls_writes :: "string \<Rightarrow> bool"
  tls_chmods :: "string \<Rightarrow> bool"

definition ca_cert_file :: string where
  "ca_cert_file = ''ca.crt''"

definition ca_key_file :: string where
  "ca_key_file = ''ca.key''"

definition server_cert_file :: string where
  "server_cert_file = ''server.crt''"

definition server_key_file :: string where
  "server_key_file = ''server.key''"

lemmas tls_files = ca_cert_file_def ca_key_file_def server_cert_file_def server_key_file_def

section \<open>Operations\<close>

text \<open>A temporary file that is renamed: the file is replaced as a whole, with the default mode.\<close>

definition tls_write :: "tls_env \<Rightarrow> string \<Rightarrow> byte list \<Rightarrow> (tls_dir, unit) op" where
  "tls_write E f bs d =
     (if tls_writes E f then ret () (tput f \<lparr>tf_data = bs, tf_mode = 420\<rparr> d) else fail Io_err d)"

definition tls_chmod :: "tls_env \<Rightarrow> string \<Rightarrow> (tls_dir, unit) op" where
  "tls_chmod E f d =
     (case tget d f of
        Some x \<Rightarrow> if tls_chmods E f then ret () (tput f (x\<lparr>tf_mode := 384\<rparr>) d) else fail Io_err d
      | None \<Rightarrow> fail Io_err d)"

definition write_private :: "tls_env \<Rightarrow> string \<Rightarrow> byte list \<Rightarrow> (tls_dir, unit) op" where
  "write_private E f bs = then_do (tls_write E f bs) (\<lambda>_. tls_chmod E f)"

definition present :: "tls_dir \<Rightarrow> string \<Rightarrow> bool" where
  "present d f \<longleftrightarrow> (case tget d f of Some x \<Rightarrow> length (tf_data x) > 0 | None \<Rightarrow> False)"

definition tls_complete :: "tls_dir \<Rightarrow> bool" where
  "tls_complete d \<longleftrightarrow> present d ca_cert_file \<and> present d ca_key_file \<and> present d server_cert_file
     \<and> present d server_key_file"

definition ensure_material :: "'z tls_crates_scheme \<Rightarrow> tls_env \<Rightarrow> (tls_dir, unit) op" where
  "ensure_material T E d =
     (if tls_complete d then ret () d
      else
        then_do (lift_res (\<lambda>_. ensure (tls_mkdir E) Io_err)) (\<lambda>_.
        then_do (write_private E ca_key_file (key_pem T (new_ca E))) (\<lambda>_.
        then_do (tls_write E ca_cert_file (ca_pem T (new_ca E))) (\<lambda>_.
        then_do (write_private E server_key_file (key_pem T (new_server E))) (\<lambda>_.
        tls_write E server_cert_file (server_pem T (new_ca E) (new_server E)))))) d)"

section \<open>What a call leaves\<close>

text \<open>A set that works: the server's certificate verifies under the CA that clients trust and belongs to the
  server's key; the private keys are readable by the owner only.\<close>

definition usable :: "'z tls_crates_scheme \<Rightarrow> tls_dir \<Rightarrow> bool" where
  "usable T d \<longleftrightarrow> (\<exists>ca cak crt key. tget d ca_cert_file = Some ca \<and> tget d ca_key_file = Some cak
     \<and> tget d server_cert_file = Some crt \<and> tget d server_key_file = Some key
     \<and> issued_by T (tf_data crt) (tf_data ca) \<and> belongs_to T (tf_data crt) (tf_data key)
     \<and> tf_mode cak = 384 \<and> tf_mode key = 384)"

text \<open>A write puts the file in place or leaves everything; a private one that fails can leave the file unlocked.\<close>

lemma tls_write_cases:
  assumes "tls_write E f bs d = (d', r)"
  shows "(r = Inr () \<and> (\<forall>g. tget d' g = (if g = f then Some \<lparr>tf_data = bs, tf_mode = 420\<rparr> else tget d g)))
    \<or> (\<exists>e. r = Inl e \<and> d' = d)"
  using assms by (auto simp: tls_write_def split: if_splits)

lemma write_private_cases:
  assumes "write_private E f bs d = (d', r)"
  shows "(r = Inr () \<and> (\<forall>g. tget d' g = (if g = f then Some \<lparr>tf_data = bs, tf_mode = 384\<rparr> else tget d g)))
    \<or> (\<exists>e. r = Inl e \<and> (\<forall>g. g \<noteq> f \<longrightarrow> tget d' g = tget d g))"
  using assms
  by (auto simp: write_private_def then_do_def tls_write_def tls_chmod_def split: if_splits)

definition written :: "'z tls_crates_scheme \<Rightarrow> tls_env \<Rightarrow> tls_dir \<Rightarrow> bool" where
  "written T E d \<longleftrightarrow> tget d ca_key_file = Some \<lparr>tf_data = key_pem T (new_ca E), tf_mode = 384\<rparr>
     \<and> tget d ca_cert_file = Some \<lparr>tf_data = ca_pem T (new_ca E), tf_mode = 420\<rparr>
     \<and> tget d server_key_file = Some \<lparr>tf_data = key_pem T (new_server E), tf_mode = 384\<rparr>
     \<and> tget d server_cert_file = Some \<lparr>tf_data = server_pem T (new_ca E) (new_server E), tf_mode = 420\<rparr>"

lemma ensure_material_cases:
  assumes "\<not> tls_complete d" "ensure_material T E d = (d', r)"
  shows "(r = Inr () \<and> written T E d') \<or> (\<exists>e. r = Inl e \<and> tget d' server_cert_file = tget d server_cert_file)"
proof -
  obtain d1 r1 where one: "write_private E ca_key_file (key_pem T (new_ca E)) d = (d1, r1)" by force
  obtain d2 r2 where two: "tls_write E ca_cert_file (ca_pem T (new_ca E)) d1 = (d2, r2)" by force
  obtain d3 r3 where three: "write_private E server_key_file (key_pem T (new_server E)) d2 = (d3, r3)" by force
  obtain d4 r4 where four: "tls_write E server_cert_file (server_pem T (new_ca E) (new_server E)) d3 = (d4, r4)" by force
  have run: "(d', r) = (if \<not> tls_mkdir E then (d, Inl Io_err) else case r1 of Inl e \<Rightarrow> (d1, Inl e)
      | Inr _ \<Rightarrow> case r2 of Inl e \<Rightarrow> (d2, Inl e) | Inr _ \<Rightarrow> case r3 of Inl e \<Rightarrow> (d3, Inl e) | Inr _ \<Rightarrow> (d4, r4))"
    using assms one two three four
    by (cases r1; cases r2; cases r3) (auto simp: ensure_material_def then_do_def ensure_def split: if_splits)
  have distinct: "server_cert_file \<noteq> ca_key_file" "server_cert_file \<noteq> ca_cert_file" "server_cert_file \<noteq> server_key_file"
    "ca_key_file \<noteq> ca_cert_file" "ca_key_file \<noteq> server_key_file" "ca_cert_file \<noteq> server_key_file"
    by (simp_all add: tls_files)
  have k1: "tget d1 server_cert_file = tget d server_cert_file" using write_private_cases [OF one] distinct(1) by auto
  have k2: "tget d2 server_cert_file = tget d1 server_cert_file" using tls_write_cases [OF two] distinct(2) by auto
  have k3: "tget d3 server_cert_file = tget d2 server_cert_file" using write_private_cases [OF three] distinct(3) by auto
  have k4: "tget d4 server_cert_file = tget d3 server_cert_file" if "r4 = Inl e" for e
    using tls_write_cases [OF four] that by auto
  have "written T E d4" if "r1 = Inr ()" "r2 = Inr ()" "r3 = Inr ()" "r4 = Inr ()"
    using write_private_cases [OF one] tls_write_cases [OF two] write_private_cases [OF three] tls_write_cases [OF four]
      that distinct by (simp add: written_def)
  with run k1 k2 k3 k4 show ?thesis
    by (cases r1; cases r2; cases r3; cases r4) (auto split: if_splits)
qed

lemma written_usable: "tls_laws T \<Longrightarrow> written T E d \<Longrightarrow> usable T d \<and> tls_complete d"
  by (simp add: written_def usable_def tls_complete_def present_def tls_laws_def)

text \<open>The server's certificate is the last file: without it the set is incomplete, with it everything is there.\<close>

definition tls_sound :: "'z tls_crates_scheme \<Rightarrow> tls_dir \<Rightarrow> bool" where
  "tls_sound T d \<longleftrightarrow> \<not> present d server_cert_file \<or> usable T d \<and> tls_complete d"

lemma ensure_material_sound:
  assumes "tls_laws T" "tls_sound T d" "ensure_material T E d = (d', r)"
  shows "tls_sound T d'" "r = Inr () \<Longrightarrow> usable T d' \<and> tls_complete d'"
proof -
  have "tls_sound T d' \<and> (r = Inr () \<longrightarrow> usable T d' \<and> tls_complete d')"
  proof (cases "tls_complete d")
    case True
    then have "d' = d" using assms(3) by (simp add: ensure_material_def)
    with True assms(2) show ?thesis by (auto simp: tls_sound_def tls_complete_def)
  next
    case False
    with assms(2) have "\<not> present d server_cert_file" by (simp add: tls_sound_def)
    with ensure_material_cases [OF False assms(3)] written_usable [OF assms(1)] show ?thesis
      by (auto simp: tls_sound_def present_def)
  qed
  then show "tls_sound T d'" "r = Inr () \<Longrightarrow> usable T d' \<and> tls_complete d'" by simp_all
qed

text \<open>Starts, each in its own circumstances.\<close>

definition tls_starts :: "'z tls_crates_scheme \<Rightarrow> tls_env list \<Rightarrow> tls_dir \<Rightarrow> tls_dir" where
  "tls_starts T Es d = fold (\<lambda>E d. fst (ensure_material T E d)) Es d"

lemma tls_starts_sound: "tls_laws T \<Longrightarrow> tls_sound T d \<Longrightarrow> tls_sound T (tls_starts T Es d)"
proof (induction Es arbitrary: d)
  case (Cons E Es)
  obtain d' r where run: "ensure_material T E d = (d', r)" by force
  with Cons.IH [OF Cons.prems(1) ensure_material_sound(1) [OF Cons.prems run]] show ?case
    by (simp add: tls_starts_def)
qed (simp add: tls_starts_def)

section \<open>A renewal that fails half-way\<close>

text \<open>When another file than the server's certificate is lost, the order of the writes does not protect: if the
  CA certificate is replaced and the server's files are not, the set counts as complete from then on, and
  the certificate that is served verifies under another CA than the one clients are given.\<close>

lemma tls_mismatch_stays:
  assumes "tls_laws T" "written T E d" "tls_mkdir E'" "new_ca E' \<noteq> new_ca E"
    and "tls_writes E' ca_key_file" "tls_chmods E' ca_key_file" "tls_writes E' ca_cert_file" "\<not> tls_writes E' server_key_file"
  shows "\<exists>d' e. ensure_material T E' (tdel ca_key_file d) = (d', Inl e) \<and> \<not> usable T d'
    \<and> (\<forall>E''. ensure_material T E'' d' = (d', Inr ()))"
proof -
  let ?d = "tdel ca_key_file d"
  let ?d' = "tput ca_cert_file \<lparr>tf_data = ca_pem T (new_ca E'), tf_mode = 420\<rparr>
    (tput ca_key_file \<lparr>tf_data = key_pem T (new_ca E'), tf_mode = 384\<rparr>
      (tput ca_key_file \<lparr>tf_data = key_pem T (new_ca E'), tf_mode = 420\<rparr> ?d))"
  have "\<not> tls_complete ?d" by (simp add: tls_complete_def present_def)
  then have "ensure_material T E' ?d = (?d', Inl Io_err)"
    using assms(3,5-8) by (simp add: ensure_material_def then_do_def write_private_def tls_write_def tls_chmod_def ensure_def tls_files)
  moreover have "tls_complete ?d'"
    using assms(1,2) by (simp add: tls_complete_def present_def tls_laws_def written_def tls_files)
  then have "ensure_material T E'' ?d' = (?d', Inr ())" for E'' by (simp add: ensure_material_def)
  moreover have "\<not> usable T ?d'"
    using assms(1,2,4) by (auto simp: usable_def tls_laws_def written_def tls_files)
  ultimately show ?thesis by blast
qed

section \<open>Properties\<close>

text \<open>C37: From an empty directory on, whatever writes fail during any number of starts, a set of TLS files that
  the next start would take as complete works: the server's certificate verifies under the CA certificate that
  clients trust, belongs to the server's key, and both private keys are readable by the owner only. A start that
  succeeds leaves such a set, and a later one keeps it as it is.\<close>

theorem tls_material_usable:
  assumes "tls_laws T"
  shows "(tls_complete (tls_starts T Es []) \<longrightarrow> usable T (tls_starts T Es []))
    \<and> (ensure_material T E (tls_starts T Es []) = (d, Inr ()) \<longrightarrow> usable T d \<and> ensure_material T E' d = (d, Inr ()))"
proof -
  let ?d = "tls_starts T Es []"
  have s: "tls_sound T ?d" by (rule tls_starts_sound [OF assms]) (simp add: tls_sound_def present_def)
  then have "tls_complete ?d \<longrightarrow> usable T ?d" by (auto simp: tls_sound_def tls_complete_def)
  moreover have "usable T d \<and> ensure_material T E' d = (d, Inr ())" if "ensure_material T E ?d = (d, Inr ())"
    using ensure_material_sound(2) [OF assms s that] by (simp add: ensure_material_def)
  ultimately show ?thesis by blast
qed

text \<open>PEM texts that name their keys.\<close>

definition demo_tls :: tls_crates where
  "demo_tls = \<lparr>key_pem = bytes_of 32, ca_pem = bytes_of 32, server_pem = (\<lambda>a k. bytes_of 32 a @ bytes_of 32 k),
     issued_by = (\<lambda>c a. take 32 c = a), belongs_to = (\<lambda>c k. drop 32 c = k)\<rparr>"

definition demo_tls_env :: "(string \<Rightarrow> bool) \<Rightarrow> bytes32 \<Rightarrow> tls_env" where
  "demo_tls_env w k = \<lparr>new_ca = k, new_server = k + 1, tls_mkdir = True, tls_writes = w, tls_chmods = (\<lambda>_. True)\<rparr>"

lemma demo_tls_laws: "tls_laws demo_tls"
proof -
  have "bytes_of 32 (a :: bytes32) = bytes_of 32 b \<longleftrightarrow> a = b" for a b by (metis option.inject try_array_32)
  moreover have "bytes_of 32 (a :: bytes32) \<noteq> []" for a by (metis length_0_conv length_bytes_of zero_neq_numeral)
  ultimately show ?thesis by (auto simp: tls_laws_def demo_tls_def)
qed

theorem tls_material_usable_witness:
  "\<exists>d. ensure_material demo_tls (demo_tls_env (\<lambda>_. True) 3)
       (tls_starts demo_tls [demo_tls_env (\<lambda>f. f \<noteq> ca_cert_file) 1] []) = (d, Inr ())
     \<and> usable demo_tls d \<and> tget d ca_key_file = Some \<lparr>tf_data = bytes_of 32 (3 :: bytes32), tf_mode = 384\<rparr>"
proof -
  let ?d0 = "tls_starts demo_tls [demo_tls_env (\<lambda>f. f \<noteq> ca_cert_file) 1] []"
  obtain d r where run: "ensure_material demo_tls (demo_tls_env (\<lambda>_. True) 3) ?d0 = (d, r)" by force
  have "r = Inr () \<and> tget d ca_key_file = Some \<lparr>tf_data = bytes_of 32 (3 :: bytes32), tf_mode = 384\<rparr>"
    using run by (auto simp: ensure_material_def tls_starts_def tls_complete_def present_def then_do_def write_private_def
        tls_write_def tls_chmod_def demo_tls_env_def tls_files ensure_def demo_tls_def)
  with run tls_material_usable [OF demo_tls_laws, of "[demo_tls_env (\<lambda>f. f \<noteq> ca_cert_file) 1]"
      "demo_tls_env (\<lambda>_. True) 3" d] show ?thesis by blast
qed

end
