(* ===== verification/Node_Paths.thy ===== *)
theory Node_Paths
  imports Index
begin

text \<open>
  Where a node lives (\<^verbatim>\<open>crates/ocid-core/src/paths.rs\<close>): which directory is its home, from the command line, the
  environment and what exists already, and the files and directories in it. A path is its text.
\<close>

definition path_join :: "string \<Rightarrow> string \<Rightarrow> string" where
  "path_join p c = (if p = [] \<or> last p = CHR ''/'' then p @ c else p @ ''/'' @ c)"

text \<open>What the process finds: environment variables, the user's home directory, and the paths that exist.\<close>

record process_env =
  env_var :: "string \<Rightarrow> string option"
  user_home :: "string option"
  path_exists :: "string \<Rightarrow> bool"

definition nonempty :: "string option \<Rightarrow> string option" where
  "nonempty v = (case v of Some s \<Rightarrow> if s = [] then None else Some s | None \<Rightarrow> None)"

definition paths_from_env :: "process_env \<Rightarrow> string result" where
  "paths_from_env P =
     (case nonempty (env_var P ''OCID_HOME'') of
        Some v \<Rightarrow> Inr v
      | None \<Rightarrow>
          and_then (ok_or (user_home P) Io_err) (\<lambda>home_dir.
          let data = (case nonempty (env_var P ''XDG_DATA_HOME'') of
                Some x \<Rightarrow> x | None \<Rightarrow> path_join (path_join home_dir ''.local'') ''share'');
              xdg = path_join data ''ocid'';
              legacy = path_join home_dir ''.ocid''
          in Inr (choose_home (path_exists P) xdg legacy)))"

definition paths_resolve :: "process_env \<Rightarrow> string option \<Rightarrow> string result" where
  "paths_resolve P arg = (case arg of Some h \<Rightarrow> Inr h | None \<Rightarrow> paths_from_env P)"

section \<open>The files of a home\<close>

definition secret_key_path :: "string \<Rightarrow> string" where
  "secret_key_path h = path_join h ''secret.key''"

definition config_path :: "string \<Rightarrow> string" where
  "config_path h = path_join h ''config.toml''"

definition policy_path :: "string \<Rightarrow> string" where
  "policy_path h = path_join h ''policy.toml''"

definition peers_path :: "string \<Rightarrow> string" where
  "peers_path h = path_join h ''peers.json''"

definition dns_pins_path :: "string \<Rightarrow> string" where
  "dns_pins_path h = path_join h ''dns-pins.json''"

definition tls_path :: "string \<Rightarrow> string" where
  "tls_path h = path_join h ''tls''"

definition blobs_path :: "string \<Rightarrow> string" where
  "blobs_path h = path_join h ''blobs''"

definition index_path :: "string \<Rightarrow> string" where
  "index_path h = path_join h ''index''"

definition digests_path :: "string \<Rightarrow> string" where
  "digests_path h = path_join (index_path h) ''digests''"

definition releases_path :: "string \<Rightarrow> string" where
  "releases_path h = path_join (index_path h) ''releases''"

definition uploads_path :: "string \<Rightarrow> string" where
  "uploads_path h = path_join h ''uploads''"

lemmas home_paths = secret_key_path_def config_path_def policy_path_def peers_path_def dns_pins_path_def tls_path_def
  blobs_path_def index_path_def digests_path_def releases_path_def uploads_path_def

section \<open>What the rules come to\<close>

lemma path_join_inj: "path_join p a = path_join p b \<longleftrightarrow> a = b"
  by (simp add: path_join_def)

text \<open>No two of the parts of a home are the same path.\<close>

lemma home_paths_distinct:
  "distinct [secret_key_path h, config_path h, policy_path h, peers_path h, dns_pins_path h, tls_path h, blobs_path h,
     index_path h, uploads_path h]"
  "digests_path h \<noteq> releases_path h"
  by (simp_all add: home_paths path_join_inj)

text \<open>An existing home is found again: without other instructions a node that lives in the XDG directory stays
  there, and one that lives in the legacy directory stays there unless the XDG one exists too.\<close>

lemma home_is_found_again:
  assumes "nonempty (env_var P ''OCID_HOME'') = None" "nonempty (env_var P ''XDG_DATA_HOME'') = Some x" "user_home P = Some u"
  shows "path_exists P (path_join x ''ocid'') \<Longrightarrow> paths_resolve P None = Inr (path_join x ''ocid'')"
    "path_exists P (path_join u ''.ocid'') \<Longrightarrow> \<not> path_exists P (path_join x ''ocid'') \<Longrightarrow>
       paths_resolve P None = Inr (path_join u ''.ocid'')"
  using assms by (simp_all add: paths_resolve_def paths_from_env_def choose_home_def Let_def)

end
