(* ===== verification/Daemon.thy ===== *)
theory Daemon
  imports Boot Tls Wire Node_Paths
begin

text \<open>
  The daemon process (\<^verbatim>\<open>crates/ocid/src/main.rs\<close> and the second half of \<^verbatim>\<open>run\<close> in
  \<^verbatim>\<open>node.rs\<close>): the choice of the home, the services that come up one after the other and what they are
  started with, the lines it prints, the peers that mDNS finds and the timer of the collection. The
  services are in \<open>Boot\<close> one answer of the world; here it is what becomes of starting them.
\<close>

section \<open>The endpoint\<close>

datatype endpoint_preset = N0 | Minimal

datatype relay_use = Preset_relays | Default_relays | No_relays

record endpoint_plan =
  ep_preset :: endpoint_preset
  ep_relays :: relay_use
  ep_port :: "16 word option"

text \<open>The presets decide whether the address is published; relays are set apart from them.\<close>

definition plan_endpoint :: "config \<Rightarrow> endpoint_plan" where
  "plan_endpoint c =
     (let p = (case cfg_pkarr c of
            Pkarr_On \<Rightarrow> \<lparr>ep_preset = N0, ep_relays = Preset_relays, ep_port = None\<rparr>
          | Pkarr_Off \<Rightarrow> \<lparr>ep_preset = Minimal, ep_relays = Default_relays, ep_port = None\<rparr>);
          q = (if cfg_relay c = Relay_Disabled then p\<lparr>ep_relays := No_relays\<rparr> else p)
      in if cfg_p2p_port c \<noteq> 0 then q\<lparr>ep_port := Some (cfg_p2p_port c)\<rparr> else q)"

section \<open>The services\<close>

text \<open>What the world answers: whether the endpoint binds, mDNS and the swarm topic come up, the certificate
  and key load, and the listener gets its address.\<close>

record service_env =
  sv_bind :: "endpoint_plan \<Rightarrow> bool"
  sv_mdns :: bool
  sv_subscribe :: "blake3 \<Rightarrow> bool"
  sv_tls :: tls_env
  sv_load :: "byte list \<Rightarrow> byte list \<Rightarrow> bool"
  sv_listen :: "socket_addr \<Rightarrow> bool"

datatype service =
    Endpoint_bound endpoint_plan
  | Mdns_lookup
  | Swarm_joined blake3 "public_key list"
  | Protocols
  | Swarm_loop
  | Publisher_topics
  | Lan_loop
  | Registry_served socket_addr "(byte list \<times> byte list) option"

record services =
  sd_tls :: tls_dir
  sd_up :: "service list"

definition bring_up :: "bool \<Rightarrow> service list \<Rightarrow> (services, unit) op" where
  "bring_up ok svs = then_do (lift_res (\<lambda>_. ensure ok Io_err)) (\<lambda>_. modify (\<lambda>d. d\<lparr>sd_up := sd_up d @ svs\<rparr>))"

definition on_tls :: "(tls_dir, 'a) op \<Rightarrow> (services, 'a) op" where
  "on_tls m d = (case m (sd_tls d) of (t, r) \<Rightarrow> (d\<lparr>sd_tls := t\<rparr>, r))"

text \<open>The certificate and the key that the registry is served with, if it is over TLS.\<close>

definition load_tls :: "'t tls_crates_scheme \<Rightarrow> service_env \<Rightarrow> config \<Rightarrow> (services, (byte list \<times> byte list) option) op" where
  "load_tls T V c =
     (case cfg_tls c of
        Tls_Off \<Rightarrow> ret None
      | Tls_Auto \<Rightarrow>
          then_do (on_tls (ensure_material T (sv_tls V))) (\<lambda>_.
          lift_res (\<lambda>d. case (tget (sd_tls d) server_cert_file, tget (sd_tls d) server_key_file) of
            (Some crt, Some key) \<Rightarrow>
              if sv_load V (tf_data crt) (tf_data key) then Inr (Some (tf_data crt, tf_data key)) else Inl Io_err
          | _ \<Rightarrow> Inl Io_err)))"

definition start_services ::
  "'z node_crates_scheme \<Rightarrow> 't tls_crates_scheme \<Rightarrow> service_env \<Rightarrow> config \<Rightarrow> endpoint_addr list \<Rightarrow> (services, unit) op" where
  "start_services K T V c peers =
     then_do (bring_up (sv_bind V (plan_endpoint c)) [Endpoint_bound (plan_endpoint c)]) (\<lambda>_.
     then_do (if cfg_mdns c then bring_up (sv_mdns V) [Mdns_lookup] else ret ()) (\<lambda>_.
     then_do (bring_up (sv_subscribe V (swarm_topic K)) [Swarm_joined (swarm_topic K) (map addr_id peers)]) (\<lambda>_.
     then_do (bring_up True [Protocols, Swarm_loop, Publisher_topics]) (\<lambda>_.
     then_do (if cfg_mdns c then bring_up True [Lan_loop] else ret ()) (\<lambda>_.
     then_do (load_tls T V c) (\<lambda>tls.
     bring_up (sv_listen V (cfg_listen c)) [Registry_served (cfg_listen c) tls]))))))"

text \<open>Whether all come up does not depend on the peers the swarm is joined with.\<close>

definition services_up :: "'z node_crates_scheme \<Rightarrow> 't tls_crates_scheme \<Rightarrow> service_env \<Rightarrow> tls_dir \<Rightarrow> config \<Rightarrow> bool" where
  "services_up K T V dir c \<longleftrightarrow> is_ok (snd (start_services K T V c [] \<lparr>sd_tls = dir, sd_up = []\<rparr>))"

section \<open>The process\<close>

record daemon_args =
  arg_home :: "string option"
  arg_options :: run_options

text \<open>The homes are the directories of the machine. What the process does until its node runs.\<close>

definition daemon_main ::
  "'z net_crates_scheme \<Rightarrow> 'a addr_text_scheme \<Rightarrow> 't tls_crates_scheme \<Rightarrow> process_env \<Rightarrow> service_env \<Rightarrow> tls_dir \<Rightarrow> boot_env
     \<Rightarrow> daemon_args \<Rightarrow> (string \<Rightarrow> home, config \<times> node) op" where
  "daemon_main K A T P V dir B args homes =
     (case paths_resolve P (arg_home args) of
        Inl e \<Rightarrow> fail e homes
      | Inr p \<Rightarrow>
          (case boot K A (B\<lparr>boot_services := services_up K T V dir\<rparr>) (arg_options args) (homes p) of
             (h, r) \<Rightarrow> (homes(p := h), r)))"

definition banner ::
  "'z crates_scheme \<Rightarrow> 'a addr_text_scheme \<Rightarrow> config \<Rightarrow> string \<Rightarrow> string \<Rightarrow> string \<Rightarrow> public_key \<Rightarrow> nat \<Rightarrow> string list" where
  "banner K A c version ticket dir p known =
     (let base = scheme (cfg_tls c) @ ''://'' @ show_addr A (cfg_listen c) in
      [''ocid '' @ version, ''  id        '' @ pk_display K p, ''  did       '' @ did_key K p, ''  registry  '' @ base]
      @ (if cfg_metrics c then [''  metrics   '' @ base @ ''/metrics''] else [])
      @ (if cfg_mdns c then [''  mdns      on (_ocid._udp.local)''] else [])
      @ (if cfg_dns c = Dns_On
         then [''  dns       on ('' @ (case cfg_nameserver c of Some n \<Rightarrow> n | None \<Rightarrow> ''system resolver'') @ ''  publisher names)'']
         else [])
      @ [''  ticket    '' @ ticket, ''  home      '' @ dir]
      @ (if known \<noteq> 0 then [''  peers     '' @ show_nat known] else []) @ ['''']
      @ (if cfg_tls c = Tls_Auto
         then [''trust: podman/curl need the CA at '' @ path_join (tls_path dir) ca_cert_file, ''''] else [])
      @ [''push:  podman push <image> '' @ base @ ''/<name>:<tag>'', ''pull:  podman pull '' @ base @ ''/<publisher>/<name>:<tag>''])"

text \<open>A peer found by mDNS, and one turn of the timer of the collection, if it runs at all; an error is dropped.\<close>

definition lan_discovered :: "'z net_crates_scheme \<Rightarrow> node_env \<Rightarrow> public_key \<Rightarrow> node \<Rightarrow> node" where
  "lan_discovered K E p s = (if p = node_id K s then s else on_lan_peer K E p s)"

definition gc_timer :: "'z crates_scheme \<Rightarrow> node_env \<Rightarrow> config \<Rightarrow> node \<Rightarrow> node" where
  "gc_timer K E c s = (if cfg_gc_interval c > 0 then fst (gc K E \<lparr>gc_dry = False, gc_force = False\<rparr> s) else s)"

section \<open>What comes up\<close>

lemma bring_up_eq: "bring_up ok svs d = (if ok then (d\<lparr>sd_up := sd_up d @ svs\<rparr>, Inr ()) else (d, Inl Io_err))"
  by (simp add: bring_up_def then_do_def ensure_def)

text \<open>What is loaded: nothing without TLS, and else the certificate and the key that are on disk then.\<close>

definition tls_loaded ::
  "'t tls_crates_scheme \<Rightarrow> service_env \<Rightarrow> config \<Rightarrow> services \<Rightarrow> services \<Rightarrow> (byte list \<times> byte list) option \<Rightarrow> bool" where
  "tls_loaded T V c d d' k \<longleftrightarrow> (case k of
       None \<Rightarrow> cfg_tls c = Tls_Off \<and> d' = d
     | Some (crt, key) \<Rightarrow> cfg_tls c = Tls_Auto \<and> ensure_material T (sv_tls V) (sd_tls d) = (sd_tls d', Inr ())
         \<and> sv_load V crt key \<and> map_option tf_data (tget (sd_tls d') server_cert_file) = Some crt
         \<and> map_option tf_data (tget (sd_tls d') server_key_file) = Some key)"

lemma load_tls_spec:
  assumes "load_tls T V c d = (d', r)"
  shows "sd_up d' = sd_up d" "r = Inr k \<Longrightarrow> tls_loaded T V c d d' k"
proof -
  have "sd_up d' = sd_up d \<and> (\<forall>k. r = Inr k \<longrightarrow> tls_loaded T V c d d' k)"
  proof (cases "cfg_tls c")
    case Tls_Off
    with assms show ?thesis by (auto simp: load_tls_def tls_loaded_def)
  next
    case Tls_Auto
    obtain t x where "ensure_material T (sv_tls V) (sd_tls d) = (t, x)" by force
    with assms Tls_Auto show ?thesis
      by (cases x) (auto simp: load_tls_def then_do_def on_tls_def tls_loaded_def split: option.splits if_splits)
  qed
  then show "sd_up d' = sd_up d" "r = Inr k \<Longrightarrow> tls_loaded T V c d d' k" by blast+
qed

text \<open>The services before the TLS material, which none of their answers changes.\<close>

definition peer_services :: "'z node_crates_scheme \<Rightarrow> config \<Rightarrow> endpoint_addr list \<Rightarrow> service list" where
  "peer_services K c peers = Endpoint_bound (plan_endpoint c) # (if cfg_mdns c then [Mdns_lookup] else [])
     @ [Swarm_joined (swarm_topic K) (map addr_id peers), Protocols, Swarm_loop, Publisher_topics]
     @ (if cfg_mdns c then [Lan_loop] else [])"

lemma start_services_eq:
  "start_services K T V c peers d =
     (if \<not> sv_bind V (plan_endpoint c) then (d, Inl Io_err)
      else if cfg_mdns c \<and> \<not> sv_mdns V then (d\<lparr>sd_up := sd_up d @ [Endpoint_bound (plan_endpoint c)]\<rparr>, Inl Io_err)
      else if \<not> sv_subscribe V (swarm_topic K)
        then (d\<lparr>sd_up := sd_up d @ Endpoint_bound (plan_endpoint c) # (if cfg_mdns c then [Mdns_lookup] else [])\<rparr>, Inl Io_err)
      else then_do (load_tls T V c) (\<lambda>tls. bring_up (sv_listen V (cfg_listen c)) [Registry_served (cfg_listen c) tls])
        (d\<lparr>sd_up := sd_up d @ peer_services K c peers\<rparr>))"
  by (auto simp: start_services_def peer_services_def then_do_def bring_up_eq)

text \<open>The registry is served last: whoever reaches it finds the node with its peers, at the configured address, in
  plain text only where TLS is off, and else with a certificate of the set that is on disk.\<close>

lemma registry_is_last:
  assumes run: "start_services K T V c peers \<lparr>sd_tls = dir, sd_up = []\<rparr> = (d, r)"
    and up: "Registry_served l k \<in> set (sd_up d)"
  shows "r = Inr ()" "sd_up d = peer_services K c peers @ [Registry_served (cfg_listen c) k]" "l = cfg_listen c"
    "k = None \<longleftrightarrow> cfg_tls c = Tls_Off"
    "tls_laws T \<Longrightarrow> tls_sound T dir \<Longrightarrow> k \<noteq> None \<Longrightarrow> usable T (sd_tls d)
       \<and> Option.bind k (\<lambda>p. Some (fst p)) = map_option tf_data (tget (sd_tls d) server_cert_file)"
proof -
  have none: "Registry_served l k \<notin> set (peer_services K c ps)" for ps by (simp add: peer_services_def)
  let ?d0 = "\<lparr>sd_tls = dir, sd_up = peer_services K c peers\<rparr>"
  have early: "sd_up d = [Endpoint_bound (plan_endpoint c)] \<Longrightarrow> False"
    "sd_up d = Endpoint_bound (plan_endpoint c) # (if cfg_mdns c then [Mdns_lookup] else []) \<Longrightarrow> False" "sd_up d = [] \<Longrightarrow> False"
    using up by (simp_all split: if_splits)
  have run': "then_do (load_tls T V c) (\<lambda>tls. bring_up (sv_listen V (cfg_listen c)) [Registry_served (cfg_listen c) tls]) ?d0
      = (d, r)"
    using run early unfolding start_services_eq by (auto split: if_splits)
  obtain d1 x where load: "load_tls T V c ?d0 = (d1, x)" by force
  note l = load_tls_spec [OF load]
  obtain k' where x: "x = Inr k'" using run' load l(1) up none by (cases x) (auto simp: then_do_def)
  with run' load have tail: "bring_up (sv_listen V (cfg_listen c)) [Registry_served (cfg_listen c) k'] d1 = (d, r)"
    by (simp add: then_do_def)
  have d: "d = d1\<lparr>sd_up := sd_up d1 @ [Registry_served (cfg_listen c) k']\<rparr>" and r: "r = Inr ()"
    using tail l(1) up none by (auto simp: bring_up_eq split: if_splits)
  then have k: "k' = k" "l = cfg_listen c" using l(1) up none by auto
  show "r = Inr ()" "l = cfg_listen c" "sd_up d = peer_services K c peers @ [Registry_served (cfg_listen c) k]"
    using r k d l(1) by simp_all
  note m = l(2) [OF x, unfolded k(1) tls_loaded_def]
  show "k = None \<longleftrightarrow> cfg_tls c = Tls_Off" using m by (auto split: option.splits)
  show "tls_laws T \<Longrightarrow> tls_sound T dir \<Longrightarrow> k \<noteq> None \<Longrightarrow> usable T (sd_tls d)
       \<and> Option.bind k (\<lambda>p. Some (fst p)) = map_option tf_data (tget (sd_tls d) server_cert_file)"
    using m ensure_material_sound [of T dir "sv_tls V" "sd_tls d1" "Inr ()"] by (auto simp: d split: option.splits)
qed

lemma services_need_listener: "services_up K T V dir c \<Longrightarrow> sv_listen V (cfg_listen c)"
proof (rule ccontr)
  assume up: "services_up K T V dir c" and no: "\<not> sv_listen V (cfg_listen c)"
  obtain d x where "load_tls T V c \<lparr>sd_tls = dir, sd_up = peer_services K c []\<rparr> = (d, x)" by force
  with up no show False
    by (cases x) (auto simp: services_up_def start_services_eq then_do_def bring_up_eq is_ok_def split: if_splits)
qed

lemma plan_endpoint_relays: "ep_relays (plan_endpoint c) = No_relays \<longleftrightarrow> cfg_relay c = Relay_Disabled"
  "ep_preset (plan_endpoint c) = N0 \<longleftrightarrow> cfg_pkarr c = Pkarr_On"
  by (cases "cfg_pkarr c"; cases "cfg_relay c"; simp add: plan_endpoint_def Let_def)+

section \<open>Properties\<close>

text \<open>C39: A start that fails at its listener leaves its address behind. The address of the command line is saved
  before anything is started; when the listener cannot get it the start fails, but the saved configuration
  has the new address from then on, and every later start without options fails too, as long as that
  address cannot be had.\<close>

theorem failed_listen_sticks:
  assumes "addr_laws A" "identity_load K (h_key h) = Inr key" "config_load A h = Inr c0"
    and "cfg_listen c0 \<noteq> l" "boot_writes B ''config.toml''" "\<not> sv_listen V l"
    and "boot K A (B\<lparr>boot_services := services_up K T V dir\<rparr>) (no_options\<lparr>opt_listen := Some l\<rparr>) h = (h1, r)"
    and "\<not> sv_listen V' l"
    and "boot K A (B'\<lparr>boot_services := services_up K T V' dir'\<rparr>) no_options h1 = (h2, r2)"
  shows "\<not> is_ok r \<and> config_load A h1 = Inr (c0\<lparr>cfg_listen := l\<rparr>) \<and> \<not> is_ok r2 \<and> config_load A h2 = config_load A h1"
proof -
  let ?c = "c0\<lparr>cfg_listen := l\<rparr>"
  have ok: "config_ok ?c" using loaded_config_ok [OF assms(3)] by (simp add: config_ok_def)
  have ov: "override (no_options\<lparr>opt_listen := Some l\<rparr>) c0 = (?c, True)"
    using assms(4) by (simp add: override_def no_options_def)
  obtain v where "config_to_toml A ?c = Inr v" using config_form [OF assms(1) ok] by blast
  then obtain h0 where save: "config_save A (B\<lparr>boot_services := services_up K T V dir\<rparr>) ?c h = (h0, Inr ())"
    using assms(5) by (simp add: config_save_def save_file_def)
  note first = boot_initialized [OF assms(2,3) ov _ assms(7), unfolded if_True, OF save]
  have "config_load A h1 = config_load A h0" using first(1) by (simp add: config_load_def)
  with config_saved [OF assms(1) ok save] have load: "config_load A h1 = Inr ?c" by simp
  have down: "\<not> services_up K T V dir ?c" "\<not> services_up K T V' dir' ?c"
    using services_need_listener [of K T _ _ ?c] assms(6,8) by auto
  have key: "identity_load K (h_key h1) = Inr key" using assms(2) first(2) by simp
  note second = boot_initialized [OF key load override_no_options _ assms(9), unfolded if_False ret_def, OF refl]
  show ?thesis using first(3) second(1,3) load down by (simp add: config_load_def)
qed

text \<open>A home that was set up, and an address that is taken.\<close>

theorem failed_listen_sticks_witness:
  "\<exists>h B h1 r h2 r2. boot demo_net demo_text B (no_options\<lparr>opt_listen := Some (localhost 1)\<rparr>) h = (h1, r)
     \<and> config_load demo_text h = Inr config_default
     \<and> config_load demo_text h1 = Inr (config_default\<lparr>cfg_listen := localhost 1\<rparr>)
     \<and> boot demo_net demo_text B no_options h1 = (h2, r2) \<and> \<not> is_ok r2"
proof -
  let ?V = "\<lparr>sv_bind = (\<lambda>_. True), sv_mdns = True, sv_subscribe = (\<lambda>_. True), sv_tls = demo_tls_env (\<lambda>_. True) 1,
      sv_load = (\<lambda>_ _. True), sv_listen = (\<lambda>a. a \<noteq> localhost 1)\<rparr>"
  let ?B = "demo_boot\<lparr>boot_services := services_up demo_net demo_tls ?V []\<rparr>"
  let ?o = "no_options\<lparr>opt_listen := Some (localhost 1)\<rparr>"
  obtain kf where kf: "identity_save demo_net 5 None = (Some kf, Inr ())" by (simp add: identity_save_def)
  have key: "identity_load demo_net (Some kf) = Inr 5" using identity_save_load [OF demo_net_laws(1) kf] by simp
  let ?h = "fresh_home\<lparr>h_key := Some kf\<rparr>"
  have key': "identity_load demo_net (h_key ?h) = Inr 5" using key by simp
  have conf: "config_load demo_text ?h = Inr config_default" by (simp add: config_load_def fresh_home_def load_file_def)
  have l: "cfg_listen config_default \<noteq> localhost 1" by (simp add: config_default_def localhost_def)
  have can: "boot_writes demo_boot ''config.toml''" and taken: "\<not> sv_listen ?V (localhost 1)" by (simp_all add: demo_boot_def)
  obtain h1 r where first: "boot demo_net demo_text ?B ?o ?h = (h1, r)" by force
  obtain h2 r2 where second: "boot demo_net demo_text ?B no_options h1 = (h2, r2)" by force
  from failed_listen_sticks [OF demo_text_laws key' conf l can taken first taken second] first second conf
  show ?thesis by blast
qed

end
