(* ===== verification/Fetch_Tasks.thy ===== *)
theory Fetch_Tasks
  imports Node_Runs
begin

text \<open>
  A fetch as the scheduler sees it (\<^verbatim>\<open>fetch_release_inner\<close> of \<^verbatim>\<open>crates/ocid/src/node.rs\<close>): one step between
  two suspension points of its loop, with the place it has reached as a value. \<open>Replication\<close> has the same
  function as one operation; here it is shown that the steps of a task that nothing interrupts are that operation.
\<close>

section \<open>The steps of a fetch\<close>

text \<open>The stages of a blob. The flag tells whether the task holds a temporary tag of the blob: it does from
  \<open>protect\<close> on when it had to download the data, and it does not when the data was there already.\<close>

datatype fetch_pc =
    Acquire
  | Next "nat \<times> u64" "blob_ref list"
  | Download "nat \<times> u64" blob_ref "blob_ref list"
  | Verify bool "nat \<times> u64" blob_ref "blob_ref list"
  | Tag bool "nat \<times> u64" blob_ref "blob_ref list"
  | Entry bool "nat \<times> u64" blob_ref "blob_ref list"
  | Done "unit result"

text \<open>The file of the release is written once no blob is left.\<close>

definition save_release :: "'z codecs_scheme \<Rightarrow> release \<Rightarrow> unit node_op" where
  "save_release K r =
     then_do (on_index (\<lambda>ix. put_release K ix r)) (\<lambda>_.
     modify (emit (ReleaseSaved (p_publisher (payload r)) (p_name (payload r)) (p_tag (payload r))
       (length (all_blobs r)))))"

fun fetch_advance ::
  "'z node_crates_scheme \<Rightarrow> node_env \<Rightarrow> release \<Rightarrow> public_key list \<Rightarrow> node \<times> fetch_pc \<Rightarrow> node \<times> fetch_pc" where
  "fetch_advance K E r ps (s, Acquire) = (progress r 0 0 s, Next (0, 0) (all_blobs r))"
| "fetch_advance K E r ps (s, Next acc []) = (case save_release K r s of (s', res) \<Rightarrow> (s', Done res))"
| "fetch_advance K E r ps (s, Next acc (b # bs)) =
     (if \<not> has_hash (br_hash b) s then
        (s, if ps = [] then Done (Inl (Store_err NoProviders)) else Download acc b bs)
      else case blob_ref_get (idx s) (br_digest b) of
        Inl e \<Rightarrow> (s, Done (Inl e))
      | Inr None \<Rightarrow> (s, Verify False acc b bs)
      | Inr (Some _) \<Rightarrow> (progress r (fst acc + 1) (snd acc + br_size b) s,
          Next (fst acc + 1, snd acc + br_size b) bs))"
| "fetch_advance K E r ps (s, Download acc b bs) =
     (case fetch_data E b ps s of
        (s', Inl e) \<Rightarrow> (s', Done (Inl e))
      | (s', Inr _) \<Rightarrow> (s', Verify True acc b bs))"
| "fetch_advance K E r ps (s, Verify g acc b bs) =
     (case verify_blob K b s of
        Inl e \<Rightarrow> (s, Done (Inl e))
      | Inr _ \<Rightarrow> (s, Tag g acc b bs))"
| "fetch_advance K E r ps (s, Tag g acc b bs) =
     (set_tag (tag_name (br_digest b)) (br_hash b) s, Entry g acc b bs)"
| "fetch_advance K E r ps (s, Entry g acc b bs) =
     (case index_put_blob b s of
        (s', Inl e) \<Rightarrow> (s', Done (Inl e))
      | (s', Inr _) \<Rightarrow> (progress r (fst acc + 1) (snd acc + br_size b) s',
          Next (fst acc + 1, snd acc + br_size b) bs))"
| "fetch_advance K E r ps (s, Done res) = (s, Done res)"

section \<open>A task that nothing interrupts\<close>

lemma done_stays: "((fetch_advance K E r ps) ^^ k) (s, Done res) = (s, Done res)"
  by (induction k) simp_all

lemma advance_Suc: "((fetch_advance K E r ps) ^^ Suc k) x = ((fetch_advance K E r ps) ^^ k) (fetch_advance K E r ps x)"
  by (simp add: funpow_swap1)

lemma advance_plus:
  "((fetch_advance K E r ps) ^^ (m + k)) x = ((fetch_advance K E r ps) ^^ k) (((fetch_advance K E r ps) ^^ m) x)"
  by (simp add: funpow_add add.commute [of m])

text \<open>One blob takes at most five steps: an error ends the task, and a success is at the next blob.\<close>

lemma one_blob_steps:
  assumes "fetch_blob K E ps b s = (s', res)"
  shows "\<exists>k \<le> 5. ((fetch_advance K E r ps) ^^ k) (s, Next acc (b # bs)) = (case res of
      Inl e \<Rightarrow> (s', Done (Inl e))
    | Inr _ \<Rightarrow> (progress r (fst acc + 1) (snd acc + br_size b) s', Next (fst acc + 1, snd acc + br_size b) bs))"
    (is "\<exists>k \<le> 5. ?run k (s, _) = ?end")
proof -
  have rec: "\<exists>k \<le> 3. ?run k (t, Verify g acc b bs) = ?end" if "verify_and_record K b t = (s', res)" for t g
  proof (cases "verify_blob K b t")
    case (Inl e)
    with that have "s' = t" "res = Inl e" by (simp_all add: verify_and_record_def then_do_def)
    with Inl show ?thesis by (intro exI [of _ 1]) simp
  next
    case (Inr u)
    let ?t = "set_tag (tag_name (br_digest b)) (br_hash b) t"
    have "index_put_blob b ?t = (s', res)"
      using that Inr by (simp add: verify_and_record_def then_do_def record_blob_def)
    with Inr show ?thesis
      by (intro exI [of _ 3]) (simp add: numeral_3_eq_3 advance_Suc split: sum.split)
  qed
  show ?thesis
  proof (cases "has_hash (br_hash b) s")
    case True
    then show ?thesis
    proof (cases "blob_ref_get (idx s) (br_digest b)")
      case (Inl e)
      with True assms show ?thesis
        by (intro exI [of _ 1]) (auto simp: fetch_blob_def then_do_def)
    next
      case (Inr known)
      show ?thesis
      proof (cases known)
        case None
        with True Inr assms have "verify_and_record K b s = (s', res)" by (simp add: fetch_blob_def then_do_def)
        from rec [OF this] obtain k where "k \<le> 3" "?run k (s, Verify False acc b bs) = ?end" by blast
        with True Inr None show ?thesis by (intro exI [of _ "Suc k"]) (simp add: advance_Suc del: funpow.simps)
      next
        case (Some c)
        with True Inr assms show ?thesis
          by (intro exI [of _ 1]) (auto simp: fetch_blob_def then_do_def)
      qed
    qed
  next
    case False
    show ?thesis
    proof (cases "ps = [] \<or> env_download E (br_hash b) ps = None")
      case True
      show ?thesis
      proof (cases "ps = []")
        case True
        with False assms show ?thesis by (intro exI [of _ 1]) (auto simp: fetch_blob_def)
      next
        case nonempty: False
        with True False assms have "s' = s" "res = Inl (Store_err DownloadFailed)"
          by (auto simp: fetch_blob_def then_do_def fetch_data_def)
        with True nonempty False show ?thesis
          by (intro exI [of _ 2]) (simp add: numeral_2_eq_2 advance_Suc fetch_data_def)
      qed
    next
      case ok: False
      then obtain x where x: "env_download E (br_hash b) ps = Some x" by auto
      with ok False assms have "verify_and_record K b (add_data (br_hash b) x s) = (s', res)"
        by (simp add: fetch_blob_def then_do_def fetch_data_def)
      from rec [OF this] obtain k where "k \<le> 3"
        "?run k (add_data (br_hash b) x s, Verify True acc b bs) = ?end" by blast
      with ok x False show ?thesis
        by (intro exI [of _ "Suc (Suc k)"]) (simp add: advance_Suc fetch_data_def del: funpow.simps)
    qed
  qed
qed

lemma all_blob_steps:
  "then_do (fold_op (fetch_step K E r ps) bs acc) (\<lambda>_. save_release K r) s = (s', res) \<Longrightarrow>
    \<exists>k \<le> 5 * length bs + 1. ((fetch_advance K E r ps) ^^ k) (s, Next acc bs) = (s', Done res)"
proof (induction bs arbitrary: acc s)
  case Nil
  then show ?case by (intro exI [of _ 1]) (simp add: then_do_def)
next
  case (Cons b bs)
  obtain s1 r1 where one: "fetch_blob K E ps b s = (s1, r1)" by force
  from one_blob_steps [OF one, of r acc bs] obtain k where k: "k \<le> 5"
    "((fetch_advance K E r ps) ^^ k) (s, Next acc (b # bs)) = (case r1 of Inl e \<Rightarrow> (s1, Done (Inl e))
      | Inr _ \<Rightarrow> (progress r (fst acc + 1) (snd acc + br_size b) s1, Next (fst acc + 1, snd acc + br_size b) bs))"
    by blast
  show ?case
  proof (cases r1)
    case (Inl e)
    with one Cons.prems have "s' = s1" "res = Inl e" by (simp_all add: fetch_step_def then_do_def)
    with k Inl show ?thesis by (intro exI [of _ k]) simp
  next
    case (Inr u)
    let ?acc = "(fst acc + 1, snd acc + br_size b)" and ?s2 = "progress r (fst acc + 1) (snd acc + br_size b) s1"
    have "fetch_step K E r ps b acc s = (?s2, Inr ?acc)"
      using one Inr by (simp add: fetch_step_def then_do_def Let_def)
    with Cons.prems have "then_do (fold_op (fetch_step K E r ps) bs ?acc) (\<lambda>_. save_release K r) ?s2 = (s', res)"
      by (simp add: then_do_def)
    from Cons.IH [OF this] obtain m where m: "m \<le> 5 * length bs + 1"
      "((fetch_advance K E r ps) ^^ m) (?s2, Next ?acc bs) = (s', Done res)" by blast
    have "((fetch_advance K E r ps) ^^ (k + m)) (s, Next acc (b # bs)) = (s', Done res)"
      unfolding advance_plus k(2) using Inr m(2) by simp
    with k(1) m(1) show ?thesis by (intro exI [of _ "k + m"]) simp
  qed
qed

lemma fetch_release_inner_steps:
  assumes "fetch_release_inner K E r ps s = (s', res)"
  shows "\<exists>k \<le> 5 * length (all_blobs r) + 2.
    ((fetch_advance K E r (filter (\<lambda>p. p \<noteq> node_id K s) ps)) ^^ k) (s, Acquire) = (s', Done res)"
proof -
  let ?ps = "filter (\<lambda>p. p \<noteq> node_id K s) ps"
  have "then_do (fold_op (fetch_step K E r ?ps) (all_blobs r) (0, 0)) (\<lambda>_. save_release K r) (progress r 0 0 s) = (s', res)"
    using assms unfolding fetch_release_inner_def Let_def save_release_def then_do_def modify_def by simp
  from all_blob_steps [OF this] obtain k where "k \<le> 5 * length (all_blobs r) + 1"
    "((fetch_advance K E r ?ps) ^^ k) (progress r 0 0 s, Next (0, 0) (all_blobs r)) = (s', Done res)" by blast
  then show ?thesis by (intro exI [of _ "Suc k"]) (simp add: advance_Suc del: funpow.simps)
qed

section \<open>Property\<close>


end
