(* ===== verification/Interleaving.thy ===== *)
theory Interleaving
  imports Fetch_Tasks
begin

text \<open>
  The tasks of a node in any order (\<^verbatim>\<open>crates/ocid/src/node.rs\<close>). Fetches run as tasks of \<open>Fetch_Tasks\<close>, under the
  read half of \<open>gc_lock\<close> and with their reference in \<open>inflight\<close>; the collector, the enforcement of a window and the
  sweep hold the write half and so are one step, which is taken when no fetch is reading; pushes, publications,
  deletions and the collector of the blob store take no lock and come at any time. It is shown that in every state
  so reached each release of the index has all its blobs, and what the two gaps in the locking can do.
\<close>

section \<open>Tasks and steps\<close>

record fetch_task =
  task_release :: release
  task_providers :: "public_key list"
  task_pc :: fetch_pc

record system =
  sys_node :: node
  sys_tasks :: "fetch_task list"

text \<open>The guard of the lock is held from \<open>Acquire\<close> to the result; a temporary tag from \<open>protect\<close> to the pin.\<close>

fun reading :: "fetch_pc \<Rightarrow> bool" where
  "reading Acquire = False"
| "reading (Done res) = False"
| "reading pc = True"

fun protected :: "fetch_pc \<Rightarrow> blake3 set" where
  "protected (Download acc b bs) = {br_hash b}"
| "protected (Verify g acc b bs) = (if g then {br_hash b} else {})"
| "protected (Tag g acc b bs) = (if g then {br_hash b} else {})"
| "protected (Entry g acc b bs) = (if g then {br_hash b} else {})"
| "protected pc = {}"

text \<open>The hash between its verification and its pin when no temporary tag keeps it.\<close>

fun exposed :: "fetch_pc \<Rightarrow> blake3 set" where
  "exposed (Tag g acc b bs) = (if g then {} else {br_hash b})"
| "exposed pc = {}"

abbreviation with_node :: "system \<Rightarrow> node \<Rightarrow> system" where
  "with_node S n \<equiv> S\<lparr>sys_node := n\<rparr>"

text \<open>Admission of a fetch: the signature, then the place in \<open>inflight\<close>.\<close>

definition enter_fetch :: "'z crates_scheme \<Rightarrow> release \<Rightarrow> public_key list \<Rightarrow> system \<Rightarrow> system" where
  "enter_fetch K r ps S = S\<lparr>
     sys_node := (sys_node S)\<lparr>inflight := insert (reference K r) (inflight (sys_node S))\<rparr>,
     sys_tasks := sys_tasks S @ [\<lparr>task_release = r,
       task_providers = filter (\<lambda>p. p \<noteq> node_id K (sys_node S)) ps, task_pc = Acquire\<rparr>]\<rparr>"

definition run_task :: "'z node_crates_scheme \<Rightarrow> node_env \<Rightarrow> nat \<Rightarrow> system \<Rightarrow> system" where
  "run_task K E i S = (let t = sys_tasks S ! i in
     case fetch_advance K E (task_release t) (task_providers t) (sys_node S, task_pc t) of
       (n, pc) \<Rightarrow> S\<lparr>sys_node := n, sys_tasks := (sys_tasks S)[i := t\<lparr>task_pc := pc\<rparr>]\<rparr>)"

text \<open>The end of \<open>fetch_release\<close>: the reference leaves \<open>inflight\<close>, and an error is reported.\<close>

definition leave_fetch :: "'z crates_scheme \<Rightarrow> nat \<Rightarrow> unit result \<Rightarrow> system \<Rightarrow> system" where
  "leave_fetch K i res S = (let r = task_release (sys_tasks S ! i); n = sys_node S;
       n' = n\<lparr>inflight := inflight n - {reference K r}\<rparr> in S\<lparr>
     sys_node := (case res of
         Inr _ \<Rightarrow> n'
       | Inl e \<Rightarrow> emit (FetchFailed (p_publisher (payload r)) (p_name (payload r)) (p_tag (payload r)) e) n'),
     sys_tasks := take i (sys_tasks S) @ drop (Suc i) (sys_tasks S)\<rparr>)"

text \<open>The rest of the node, seen from the store: the peers, the policy, the resolver and the referrers.\<close>

definition same_store :: "'z crates_scheme \<Rightarrow> node \<Rightarrow> node \<Rightarrow> bool" where
  "same_store K n n' \<longleftrightarrow> index_ok K (idx n') \<and> (\<forall>d. blob_at (idx n') d = blob_at (idx n) d)
     \<and> (\<forall>sl. release_at K (idx n') sl = release_at K (idx n) sl) \<and> pin_tags n' = pin_tags n
     \<and> blob_data n' = blob_data n \<and> inflight n' = inflight n"

text \<open>What a peer or a client can send is in \<open>D\<close>; two downloads differ only by what the environment answers.\<close>

definition sends :: "byte list set \<Rightarrow> 'z net_crates_scheme \<Rightarrow> node_env \<Rightarrow> bool" where
  "sends D K E \<longleftrightarrow> honest_download K E \<and> (\<forall>h ps bs. env_download E h ps = Some bs \<longrightarrow> bs \<in> D)"

inductive sys_step :: "'z net_crates_scheme \<Rightarrow> byte list set \<Rightarrow> system \<Rightarrow> system \<Rightarrow> bool" for K D where
  enter: "release_verify K r = Inr () \<Longrightarrow> digests_ok r \<Longrightarrow> reference K r \<notin> inflight (sys_node S)
    \<Longrightarrow> sys_step K D S (enter_fetch K r ps S)"
| advance: "i < length (sys_tasks S) \<Longrightarrow> sends D K E \<Longrightarrow> sys_step K D S (run_task K E i S)"
| leave: "i < length (sys_tasks S) \<Longrightarrow> task_pc (sys_tasks S ! i) = Done res
    \<Longrightarrow> sys_step K D S (leave_fetch K i res S)"
| collect: "list_all (\<lambda>t. \<not> reading (task_pc t)) (sys_tasks S)
    \<Longrightarrow> sys_step K D S (with_node S (fst (gc K E q (sys_node S))))"
| enforce: "list_all (\<lambda>t. \<not> reading (task_pc t)) (sys_tasks S)
    \<Longrightarrow> sys_step K D S (with_node S (fst (enforce_window K p n (sys_node S))))"
| sweep: "list_all (\<lambda>t. \<not> reading (task_pc t)) (sys_tasks S)
    \<Longrightarrow> sys_step K D S (with_node S (fst (sweep_blobs K dry (sys_node S))))"
| unlink: "sys_step K D S (with_node S (fst (drop_release K p n t (sys_node S))))"
| push: "data \<in> D \<Longrightarrow> sys_step K D S (with_node S (fst (put_blob_bytes K data expect mt (sys_node S))))"
| publish: "digests_ok r \<Longrightarrow> list_all (served (sys_node S)) (all_blobs r)
    \<Longrightarrow> sys_step K D S (with_node S (fst (publish K E r (sys_node S))))"
| reclaim: "(\<Union>t \<in> set (sys_tasks S). protected (task_pc t) \<union> exposed (task_pc t)) \<subseteq> temp
    \<Longrightarrow> sys_step K D S (with_node S (collect_data temp (sys_node S)))"
| other: "same_store K (sys_node S) n \<Longrightarrow> sys_step K D S (with_node S n)"

section \<open>What holds\<close>

text \<open>Neither hash collides among the data in \<open>D\<close>.\<close>

definition collision_free :: "'z node_crates_scheme \<Rightarrow> byte list set \<Rightarrow> bool" where
  "collision_free K D \<longleftrightarrow> inj_on (digest_sha256 K) D \<and> inj_on (blake3_of K) D"

text \<open>A reference whose two hashes are of one blob, as far as data in \<open>D\<close> shows.\<close>

definition truthful :: "'z node_crates_scheme \<Rightarrow> byte list set \<Rightarrow> blob_ref \<Rightarrow> bool" where
  "truthful K D b \<longleftrightarrow> (\<forall>x \<in> D. blake3_of K x = br_hash b \<longrightarrow> digest_sha256 K x = br_digest b)"

definition all_served :: "'z node_crates_scheme \<Rightarrow> byte list set \<Rightarrow> node \<Rightarrow> blob_ref set \<Rightarrow> bool" where
  "all_served K D n bs \<longleftrightarrow> (\<forall>b \<in> bs. truthful K D b \<longrightarrow> served n b)"

definition complete :: "'z node_crates_scheme \<Rightarrow> byte list set \<Rightarrow> node \<Rightarrow> bool" where
  "complete K D n \<longleftrightarrow> (\<forall>sl r. release_at K (idx n) sl = Some r \<longrightarrow> all_served K D n (set (all_blobs r)))"

definition secure :: "'z node_crates_scheme \<Rightarrow> byte list set \<Rightarrow> node \<Rightarrow> bool" where
  "secure K D n \<longleftrightarrow> healthy K n \<and> (\<forall>h x. tget (blob_data n) h = Some x \<longrightarrow> x \<in> D) \<and> complete K D n"

text \<open>The blobs before the rest are served.\<close>

definition got :: "'z node_crates_scheme \<Rightarrow> byte list set \<Rightarrow> node \<Rightarrow> release \<Rightarrow> blob_ref list \<Rightarrow> bool" where
  "got K D n r rest \<longleftrightarrow> (\<exists>bs. all_blobs r = bs @ rest \<and> all_served K D n (set bs))"

fun pc_ok :: "'z node_crates_scheme \<Rightarrow> byte list set \<Rightarrow> node \<Rightarrow> release \<Rightarrow> fetch_pc \<Rightarrow> bool" where
  "pc_ok K D n r (Next acc bs) \<longleftrightarrow> got K D n r bs"
| "pc_ok K D n r (Download acc b bs) \<longleftrightarrow> got K D n r (b # bs)"
| "pc_ok K D n r (Verify g acc b bs) \<longleftrightarrow> got K D n r (b # bs)"
| "pc_ok K D n r (Tag g acc b bs) \<longleftrightarrow> got K D n r (b # bs) \<and> verify_blob K b n = Inr ()"
| "pc_ok K D n r (Entry g acc b bs) \<longleftrightarrow> got K D n r (b # bs) \<and> verify_blob K b n = Inr ()
     \<and> tget (pin_tags n) (tag_name (br_digest b)) = Some (br_hash b)"
| "pc_ok K D n r pc \<longleftrightarrow> True"

definition task_ok :: "'z net_crates_scheme \<Rightarrow> byte list set \<Rightarrow> node \<Rightarrow> fetch_task \<Rightarrow> bool" where
  "task_ok K D n t \<longleftrightarrow> release_verify K (task_release t) = Inr () \<and> digests_ok (task_release t)
     \<and> pc_ok K D n (task_release t) (task_pc t)"

definition task_references :: "'z crates_scheme \<Rightarrow> system \<Rightarrow> string list" where
  "task_references K S = map (\<lambda>t. reference K (task_release t)) (sys_tasks S)"

definition sys_ok :: "'z net_crates_scheme \<Rightarrow> byte list set \<Rightarrow> system \<Rightarrow> bool" where
  "sys_ok K D S \<longleftrightarrow> secure K D (sys_node S) \<and> list_all (task_ok K D (sys_node S)) (sys_tasks S)
     \<and> distinct (task_references K S) \<and> set (task_references K S) \<subseteq> inflight (sys_node S)"

section \<open>What a step may do to the others\<close>

lemma secureD:
  assumes "secure K D n"
  shows "healthy K n" "store_ok K n" "index_ok K (idx n)" "complete K D n"
    "tget (blob_data n) h = Some x \<Longrightarrow> x \<in> D \<and> blake3_of K x = h"
  using assms healthyD(1,2) by (auto simp: secure_def store_ok_def)

lemma release_blob_digest: "digests_ok r \<Longrightarrow> b \<in> set (all_blobs r) \<Longrightarrow> digest_ok (br_digest b)"
  by (simp add: digests_ok_def list_all_iff)

text \<open>Under one digest there is data of one hash only.\<close>

lemma one_hash:
  assumes "collision_free K D" "secure K D n" "tget (blob_data n) h = Some x" "tget (blob_data n) h' = Some y"
    "digest_sha256 K x = digest_sha256 K y"
  shows "h = h'" "x = y"
  using assms(1,5) secureD(5) [OF assms(2,3)] secureD(5) [OF assms(2,4)]
  by (auto simp: collision_free_def inj_on_def)

lemma served_data:
  assumes "secure K D n" "digest_ok (br_digest b)" "served n b"
  shows "\<exists>x. tget (blob_data n) (br_hash b) = Some x \<and> digest_sha256 K x = br_digest b"
    "tget (pin_tags n) (tag_name (br_digest b)) = Some (br_hash b)"
  using assms(3) store_blobD(2,3) [OF secureD(2) [OF assms(1)] assms(2)] by (auto simp: served_def)

text \<open>Served blobs stay served, the data of the hashes in \<open>N\<close> stays, and so do the pins of checked blobs.\<close>

definition steady :: "'z node_crates_scheme \<Rightarrow> blake3 set \<Rightarrow> node \<Rightarrow> node \<Rightarrow> bool" where
  "steady K N n n' \<longleftrightarrow> (\<forall>b. digest_ok (br_digest b) \<longrightarrow> served n b \<longrightarrow> served n' b)
     \<and> (\<forall>h x. h \<in> N \<longrightarrow> tget (blob_data n) h = Some x \<longrightarrow> tget (blob_data n') h = Some x)
     \<and> (\<forall>d h x. digest_ok d \<longrightarrow> tget (pin_tags n) (tag_name d) = Some h \<longrightarrow> tget (blob_data n) h = Some x
          \<longrightarrow> digest_sha256 K x = d \<longrightarrow> tget (pin_tags n') (tag_name d) = Some h)"

lemma steadyD:
  assumes "steady K N n n'"
  shows "digest_ok (br_digest b) \<Longrightarrow> served n b \<Longrightarrow> served n' b"
    "h \<in> N \<Longrightarrow> tget (blob_data n) h = Some x \<Longrightarrow> tget (blob_data n') h = Some x"
    "digest_ok d \<Longrightarrow> tget (pin_tags n) (tag_name d) = Some h \<Longrightarrow> tget (blob_data n) h = Some x
       \<Longrightarrow> digest_sha256 K x = d \<Longrightarrow> tget (pin_tags n') (tag_name d) = Some h"
  using assms unfolding steady_def by blast+

lemma steady_less: "steady K N n n' \<Longrightarrow> N' \<subseteq> N \<Longrightarrow> steady K N' n n'"
  unfolding steady_def by blast

lemma steady_same:
  assumes "\<And>d. blob_at (idx n') d = blob_at (idx n) d" "pin_tags n' = pin_tags n" "blob_data n' = blob_data n"
  shows "steady K N n n'"
  using assms by (simp add: steady_def served_def)

lemma steady_trans:
  assumes "steady K UNIV n t" "steady K N t n'"
  shows "steady K N n n'"
  unfolding steady_def
proof (intro conjI allI impI)
  fix d h x
  assume a: "digest_ok d" "tget (pin_tags n) (tag_name d) = Some h" "tget (blob_data n) h = Some x" "digest_sha256 K x = d"
  show "tget (pin_tags n') (tag_name d) = Some h"
    by (rule steadyD(3) [OF assms(2) a(1) steadyD(3) [OF assms(1) a] steadyD(2) [OF assms(1) UNIV_I a(3)] a(4)])
qed (use steadyD(1,2) [OF assms(1)] steadyD(1,2) [OF assms(2)] in blast)+

text \<open>The hashes whose data a task counts on.\<close>

fun relied_on :: "fetch_pc \<Rightarrow> blake3 set" where
  "relied_on (Tag g acc b bs) = {br_hash b}"
| "relied_on (Entry g acc b bs) = {br_hash b}"
| "relied_on pc = {}"

lemma got_digests: "got K D n r (b # bs) \<Longrightarrow> digests_ok r \<Longrightarrow> digest_ok (br_digest b)"
  using release_blob_digest by (auto simp: got_def)

lemma got_next:
  assumes "got K D n r (b # bs)" "truthful K D b \<Longrightarrow> served n b"
  shows "got K D n r bs"
proof -
  from assms(1) obtain as where "all_blobs r = as @ b # bs" "all_served K D n (set as)" by (auto simp: got_def)
  with assms(2) show ?thesis unfolding got_def by (intro exI [of _ "as @ [b]"]) (auto simp: all_served_def)
qed

lemma got_steady:
  assumes "steady K N n n'" "digests_ok r" "got K D n r rest"
  shows "got K D n' r rest"
proof -
  from assms(3) obtain bs where bs: "all_blobs r = bs @ rest" "all_served K D n (set bs)" by (auto simp: got_def)
  have "all_served K D n' (set bs)"
    using bs steadyD(1) [OF assms(1)] release_blob_digest [OF assms(2)] by (simp add: all_served_def)
  with bs(1) show ?thesis unfolding got_def by blast
qed

lemma verify_steady:
  assumes "steady K N n n'" "br_hash b \<in> N" "verify_blob K b n = Inr ()"
  shows "verify_blob K b n' = Inr ()"
  using assms(3) steadyD(2) [OF assms(1,2)] unfolding verify_blob_iff by blast

lemma pc_ok_steady:
  assumes st: "steady K (relied_on pc) n n'" and d: "digests_ok r" and ok: "pc_ok K D n r pc"
  shows "pc_ok K D n' r pc"
proof (cases pc)
  case (Tag g acc b bs)
  with ok st show ?thesis using got_steady [OF st d] verify_steady [OF st] by simp
next
  case (Entry g acc b bs)
  with ok have e: "got K D n r (b # bs)" "verify_blob K b n = Inr ()"
    "tget (pin_tags n) (tag_name (br_digest b)) = Some (br_hash b)" by simp_all
  from e(2) obtain x where "tget (blob_data n) (br_hash b) = Some x" "digest_sha256 K x = br_digest b"
    by (auto simp: verify_blob_iff)
  from steadyD(3) [OF st got_digests [OF e(1) d] e(3) this] Entry
  show ?thesis using e(1,2) got_steady [OF st d] verify_steady [OF st] by simp
qed (use ok got_steady [OF st d] in simp_all)

lemma task_ok_steady: "steady K (relied_on (task_pc t)) n n' \<Longrightarrow> task_ok K D n t \<Longrightarrow> task_ok K D n' t"
  using pc_ok_steady by (auto simp: task_ok_def)

lemma complete_kept:
  assumes sec: "secure K D n"
    and kept: "\<And>sl r b. release_at K (idx n') sl = Some r \<Longrightarrow> release_at K (idx n) sl = Some r
      \<and> (digests_ok r \<longrightarrow> b \<in> set (all_blobs r) \<longrightarrow> served n b \<longrightarrow> served n' b)"
  shows "complete K D n'"
  unfolding complete_def all_served_def
proof (intro allI impI ballI)
  fix sl r b
  assume r: "release_at K (idx n') sl = Some r" and b: "b \<in> set (all_blobs r)" "truthful K D b"
  have old: "release_at K (idx n) sl = Some r" using kept [OF r] by simp
  have "all_served K D n (set (all_blobs r))"
    using secureD(4) [OF sec] old unfolding complete_def by blast
  with b have "served n b" by (simp add: all_served_def)
  moreover have "digests_ok r" using healthyD(3) [OF secureD(1) [OF sec] old] by simp
  ultimately show "served n' b" using kept [OF r] b(1) by blast
qed

lemma complete_less:
  assumes "secure K D n" "\<And>b. digest_ok (br_digest b) \<Longrightarrow> served n b \<Longrightarrow> served n' b"
    and "\<And>sl r. release_at K (idx n') sl = Some r \<Longrightarrow> release_at K (idx n) sl = Some r"
  shows "complete K D n'"
  by (rule complete_kept [OF assms(1)]) (use assms(2,3) release_blob_digest in blast)

lemma secure_views:
  assumes sec: "secure K D n" and ix: "index_ok K (idx n')"
    and same: "\<And>d. blob_at (idx n') d = blob_at (idx n) d" "pin_tags n' = pin_tags n" "blob_data n' = blob_data n"
    and less: "\<And>sl r. release_at K (idx n') sl = Some r \<Longrightarrow> release_at K (idx n) sl = Some r"
  shows "secure K D n'"
proof -
  have "store_ok K n'" by (rule store_ok_same [OF secureD(2) [OF sec] ix same(2,3,1)])
  from healthy_less [OF secureD(1) [OF sec] this less] have "healthy K n'" .
  moreover have "complete K D n'"
    by (rule complete_less [OF sec _ less]) (simp_all add: served_def same)
  ultimately show ?thesis using sec by (simp add: secure_def same)
qed

lemma secure_same:
  assumes "secure K D n" "idx n' = idx n" "pin_tags n' = pin_tags n" "blob_data n' = blob_data n"
  shows "secure K D n'"
  by (rule secure_views [OF assms(1)]) (use assms secureD(3) in auto)

section \<open>Each operation\<close>

text \<open>A pin of a checked blob.\<close>

lemma pin_secure:
  assumes cf: "collision_free K D" and sec: "secure K D n" and d: "digest_ok (br_digest b)"
    and v: "verify_blob K b n = Inr ()"
  shows "secure K D (set_tag (tag_name (br_digest b)) (br_hash b) n)"
    "steady K UNIV n (set_tag (tag_name (br_digest b)) (br_hash b) n)"
proof -
  let ?n = "set_tag (tag_name (br_digest b)) (br_hash b) n"
  obtain x where x: "tget (blob_data n) (br_hash b) = Some x" "digest_sha256 K x = br_digest b"
    using v by (auto simp: verify_blob_iff)
  have same: "idx ?n = idx n" "blob_data ?n = blob_data n" by (simp_all add: set_tag_def)
  have pin: "tget (pin_tags ?n) (tag_name e) = (if e = br_digest b then Some (br_hash b) else tget (pin_tags n) (tag_name e))"
    if "digest_ok e" for e
    using tag_name_inject [OF that d] by (simp add: set_tag_def)
  have keep: "tget (pin_tags ?n) (tag_name e) = Some h"
    if e: "digest_ok e" "tget (pin_tags n) (tag_name e) = Some h" "tget (blob_data n) h = Some y" "digest_sha256 K y = e"
    for e h y
    using pin [OF e(1)] e one_hash(1) [OF cf sec x(1) e(3)] x(2) by auto
  have "store_ok K ?n"
    unfolding store_ok_def same
  proof (intro conjI allI impI)
    fix e c
    assume e: "digest_ok e" "blob_at (idx n) e = Some c"
    note c = store_blobD [OF secureD(2) [OF sec] e]
    show "br_digest c = e" by (rule c(1))
    with c e(1) keep show "blob_sound K ?n c" unfolding blob_sound_def same by blast
  qed (use secureD(2) [OF sec] in \<open>auto simp: store_ok_def set_tag_def\<close>)
  from healthy_less [OF secureD(1) [OF sec] this] have h: "healthy K ?n" unfolding same by blast
  have "complete K D ?n" by (rule complete_less [OF sec]) (simp_all add: served_def same)
  with h sec show "secure K D ?n" by (simp add: secure_def same)
  show "steady K UNIV n ?n"
    using keep by (auto simp: steady_def served_def same)
qed

text \<open>The entry of a blob that is checked and pinned.\<close>

lemma entry_secure:
  assumes cf: "collision_free K D" and sec: "secure K D n" and d: "digest_ok (br_digest b)"
    and v: "verify_blob K b n = Inr ()" and pin: "tget (pin_tags n) (tag_name (br_digest b)) = Some (br_hash b)"
  obtains n' where "index_put_blob b n = (n', Inr ())" "secure K D n'" "steady K UNIV n n'" "served n' b"
proof -
  obtain ix where put: "index_put_blob b n = (n\<lparr>idx := ix\<rparr>, Inr ())" and ix: "index_ok K ix"
    and blobs: "\<And>e. digest_ok e \<Longrightarrow> blob_at ix e = (if e = br_digest b then Some b else blob_at (idx n) e)"
    and rels: "\<And>sl. release_at K ix sl = release_at K (idx n) sl"
    by (rule index_put_blob_spec [OF secureD(3) [OF sec] d]) (rule that)
  let ?n = "n\<lparr>idx := ix\<rparr>"
  obtain x where x: "tget (blob_data n) (br_hash b) = Some x" "digest_sha256 K x = br_digest b"
    "of_nat (length x) = br_size b"
    using v by (auto simp: verify_blob_iff)
  have serve: "served ?n c" if c: "digest_ok (br_digest c)" "served n c" for c
  proof (cases "br_digest c = br_digest b")
    case True
    obtain y where "tget (blob_data n) (br_hash c) = Some y" "digest_sha256 K y = br_digest c"
      using served_data(1) [OF sec c] by blast
    with one_hash(1) [OF cf sec x(1), of "br_hash c" y] x(2) True have "br_hash c = br_hash b" by simp
    with blobs [OF d] True show ?thesis by (simp add: served_def)
  next
    case False
    with blobs [OF c(1)] c(2) show ?thesis by (simp add: served_def)
  qed
  have "store_ok K ?n"
    unfolding store_ok_def
  proof (intro conjI allI impI)
    fix e c
    assume e: "digest_ok e" and c: "blob_at (idx ?n) e = Some c"
    have "br_digest c = e \<and> blob_sound K n c"
    proof (cases "e = br_digest b")
      case True
      with c blobs [OF e] have "c = b" by simp
      with True d pin x show ?thesis by (simp add: blob_sound_def)
    next
      case False
      with c blobs [OF e] have "blob_at (idx n) e = Some c" by simp
      with secureD(2) [OF sec] e show ?thesis unfolding store_ok_def by blast
    qed
    then show "br_digest c = e" "blob_sound K ?n c" by (auto simp: blob_sound_def)
  qed (use secureD(2) [OF sec] ix in \<open>auto simp: store_ok_def\<close>)
  from healthy_less [OF secureD(1) [OF sec] this] have "healthy K ?n" by (simp add: rels del: split_paired_All)
  moreover have "complete K D ?n" by (rule complete_less [OF sec serve]) (simp_all add: rels)
  ultimately have "secure K D ?n" using sec by (simp add: secure_def)
  moreover have "steady K UNIV n ?n" using serve by (simp add: steady_def)
  moreover have "served ?n b" using blobs [OF d] by (simp add: served_def)
  ultimately show ?thesis using that put by blast
qed

text \<open>Data arrives.\<close>

lemma data_secure:
  assumes "secure K D n" "blake3_of K x = h" "x \<in> D"
  shows "secure K D (add_data h x n)" "steady K UNIV n (add_data h x n)"
proof -
  let ?n = "add_data h x n"
  note add = add_data_ok [OF secureD(2) [OF assms(1)] assms(2)]
  have same: "idx ?n = idx n" "pin_tags ?n = pin_tags n" by (simp_all add: add_data_def)
  have "healthy K ?n" by (rule healthy_less [OF secureD(1) [OF assms(1)] add(1)]) (simp add: same)
  moreover have "complete K D ?n" by (rule complete_less [OF assms(1)]) (simp_all add: served_def same)
  moreover have "y \<in> D" if "tget (blob_data ?n) k = Some y" for k y
    using that secureD(5) [OF assms(1)] assms(3) unfolding add(2) by (auto split: if_splits)
  ultimately show "secure K D ?n" by (simp add: secure_def)
  show "steady K UNIV n ?n"
    using add(2) by (auto simp: steady_def served_def same has_hash_def)
qed

text \<open>A release whose blobs are served.\<close>

lemma saved_secure:
  assumes sec: "secure K D n" and keys: "key_laws K" and r: "release_verify K r = Inr ()" "digests_ok r"
    and all: "all_served K D n (set (all_blobs r))"
    and put: "put_release K (idx n) r = (ix, res)"
  shows "secure K D (n\<lparr>idx := ix\<rparr>)" "steady K N n (n\<lparr>idx := ix\<rparr>)"
proof -
  let ?n = "n\<lparr>idx := ix\<rparr>"
  note p = put_release_spec [OF secureD(3) [OF sec] keys r(2) put]
  have blobs: "blob_at ix d = blob_at (idx n) d" for d using p by simp
  have "keeps (stays_healthy K) (on_index (\<lambda>ix. put_release K ix r))" by (rule put_release_healthy [OF keys r(2,1)])
  then have "healthy K (fst (on_index (\<lambda>ix. put_release K ix r) n))" using secureD(1) [OF sec] by (simp add: keeps_def)
  then have "healthy K ?n" by (simp add: on_index_def put)
  moreover have "all_served K D ?n (set (all_blobs x))" if x: "release_at K ix sl = Some x" for sl x
  proof -
    have "x = r \<or> release_at K (idx n) sl = Some x" using x p by (auto split: if_splits)
    then have "all_served K D n (set (all_blobs x))"
      using all secureD(4) [OF sec] unfolding complete_def by blast
    then show ?thesis by (simp add: all_served_def served_def blobs)
  qed
  ultimately show "secure K D ?n" using sec by (simp add: secure_def complete_def del: split_paired_All)
  show "steady K N n ?n" by (rule steady_same) (simp_all add: blobs)
qed

text \<open>A push: data, pin and entry.\<close>

lemma push_secure:
  assumes cf: "collision_free K D" and laws: "hex_laws K" "sha_laws K" and sec: "secure K D n" and x: "x \<in> D"
  shows "secure K D (fst (put_blob_bytes K x expect mt n))" "steady K UNIV n (fst (put_blob_bytes K x expect mt n))"
proof -
  let ?r = "\<lparr>br_digest = digest_sha256 K x, br_hash = blake3_of K x, br_size = of_nat (length x),
    br_media_type = mt\<rparr> :: blob_ref"
  let ?n1 = "add_data (br_hash ?r) x n" and ?tag = "tag_name (br_digest ?r)"
  have data: "secure K D ?n1" "steady K UNIV n ?n1" by (rule data_secure [OF sec _ x]; simp)+
  have "tget (blob_data ?n1) (br_hash ?r) = Some x"
  proof (cases "tget (blob_data n) (br_hash ?r)")
    case (Some y)
    with secureD(5) [OF sec Some] cf x have "y = x" by (auto simp: collision_free_def inj_on_def)
    with Some show ?thesis by (simp add: add_data_def has_hash_def)
  qed (simp add: add_data_def has_hash_def)
  then have v: "verify_blob K ?r ?n1 = Inr ()" by (simp add: verify_blob_iff)
  have d: "digest_ok (br_digest ?r)" using digest_sha256_ok [OF laws] by simp
  let ?n2 = "set_tag ?tag (br_hash ?r) ?n1"
  note pin = pin_secure [OF cf data(1) d v]
  have v2: "verify_blob K ?r ?n2 = Inr ()" by (rule verify_steady [OF pin(2) _ v]) simp
  have "tget (pin_tags ?n2) ?tag = Some (br_hash ?r)" by (simp add: set_tag_def)
  from entry_secure [OF cf pin(1) d v2 this] obtain n3 where
    n3: "index_put_blob ?r ?n2 = (n3, Inr ())" "secure K D n3" "steady K UNIV ?n2 n3" by blast
  show "secure K D (fst (put_blob_bytes K x expect mt n))" "steady K UNIV n (fst (put_blob_bytes K x expect mt n))"
    using n3 sec steady_trans [OF data(2) steady_trans [OF pin(2) n3(3)]]
    by (simp_all add: put_blob_bytes_def Let_def then_do_def steady_same)
qed

text \<open>A publication whose blobs are served.\<close>

lemma announce_views:
  "idx (fst (announce K E r n)) = idx n" "pin_tags (fst (announce K E r n)) = pin_tags n"
  "blob_data (fst (announce K E r n)) = blob_data n" "inflight (fst (announce K E r n)) = inflight n"
  by (simp_all add: announce_def Let_def emit_def)

lemma publish_secure:
  assumes sec: "secure K D n" and keys: "key_laws K" and d: "digests_ok r" and all: "list_all (served n) (all_blobs r)"
  shows "secure K D (fst (publish K E r n))" "steady K N n (fst (publish K E r n))"
    "inflight (fst (publish K E r n)) = inflight n"
proof -
  obtain ix res where put: "put_release K (idx n) r = (ix, res)" by force
  let ?n = "n\<lparr>idx := ix\<rparr>"
  have "secure K D (fst (publish K E r n)) \<and> steady K N n (fst (publish K E r n))
    \<and> inflight (fst (publish K E r n)) = inflight n"
  proof (cases "release_verify K r = Inr () \<and> p_publisher (payload r) = node_id K n")
    case False
    then have "fst (publish K E r n) = n"
      by (cases "release_verify K r") (auto simp: publish_def then_do_def)
    with sec show ?thesis by (simp add: steady_same)
  next
    case True
    have "all_served K D n (set (all_blobs r))" using all by (simp add: all_served_def list_all_iff)
    note saved = saved_secure [OF sec keys _ d this put]
    have "idx (fst (publish K E r n)) = ix \<and> pin_tags (fst (publish K E r n)) = pin_tags n
        \<and> blob_data (fst (publish K E r n)) = blob_data n \<and> inflight (fst (publish K E r n)) = inflight n"
      using True put by (cases res) (simp_all add: publish_def then_do_def on_index_def announce_views, simp_all add: emit_def)
    moreover from calculation have "secure K D (fst (publish K E r n))"
      using secure_same [OF saved(1)] True by simp
    moreover have "steady K N n (fst (publish K E r n))"
      by (rule steady_same) (use calculation put_release_spec [OF secureD(3) [OF sec] keys d put] in simp_all)
    ultimately show ?thesis by simp
  qed
  then show "secure K D (fst (publish K E r n))" "steady K N n (fst (publish K E r n))"
    "inflight (fst (publish K E r n)) = inflight n" by simp_all
qed

lemma publish_blobs:
  assumes ix: "index_ok K (idx n)" and keys: "key_laws K" and d: "digests_ok r"
  shows "blob_at (idx (fst (publish K E r n))) e = blob_at (idx n) e"
proof -
  obtain ix' res where put: "put_release K (idx n) r = (ix', res)" by force
  have "idx (fst (publish K E r n)) = idx n \<or> idx (fst (publish K E r n)) = ix'"
    using put by (cases "release_verify K r"; cases "p_publisher (payload r) = node_id K n"; cases res)
      (simp_all add: publish_def then_do_def on_index_def announce_views, simp_all add: emit_def)
  with put_release_spec [OF ix keys d put] show ?thesis by auto
qed

text \<open>A release file is deleted.\<close>

lemma drop_secure:
  assumes sec: "secure K D n" and keys: "key_laws K"
  shows "secure K D (fst (drop_release K p m t n))" "steady K N n (fst (drop_release K p m t n))"
proof -
  obtain ix r where rm: "remove_release K (idx n) p m t = (ix, r)" by force
  note spec = remove_release_spec [OF secureD(3) [OF sec] keys rm]
  have n': "fst (drop_release K p m t n) = n\<lparr>idx := ix\<rparr>" by (simp add: drop_release_def on_index_def rm)
  have less: "release_at K ix sl = Some x \<Longrightarrow> release_at K (idx n) sl = Some x" for sl x
    using spec by (auto split: if_splits)
  have views: "index_ok K ix" "\<And>d. blob_at ix d = blob_at (idx n) d" using spec by blast+
  show "secure K D (fst (drop_release K p m t n))"
    unfolding n' by (rule secure_views [OF sec]) (use less in \<open>simp_all add: views\<close>)
  show "steady K N n (fst (drop_release K p m t n))"
    unfolding n' by (rule steady_same) (simp_all add: views)
qed

text \<open>The blob store reclaims data that neither a tag nor a temporary tag names.\<close>

lemma reclaim_data:
  "tget (blob_data (collect_data temp n)) h
     = (if h \<in> snd ` set (pin_tags n) \<or> h \<in> temp then tget (blob_data n) h else None)"
  by (simp add: collect_data_def tget_filter_key)

lemma reclaim_secure:
  assumes "secure K D n"
  shows "secure K D (collect_data temp n)"
proof -
  have "healthy K (collect_data temp n)" by (rule collect_data_healthy [OF secureD(1) [OF assms]])
  moreover have "complete K D (collect_data temp n)"
    by (rule complete_less [OF assms]) (simp_all add: served_def collect_data_def)
  ultimately show ?thesis
    using secureD(5) [OF assms] by (auto simp: secure_def reclaim_data split: if_splits)
qed

lemma reclaim_task:
  assumes "protected (task_pc t) \<union> exposed (task_pc t) \<subseteq> temp" "task_ok K D n t"
  shows "task_ok K D (collect_data temp n) t"
proof -
  have "h \<in> snd ` set (pin_tags n) \<or> h \<in> temp" if h: "h \<in> relied_on (task_pc t)" for h
  proof (cases "task_pc t")
    case (Tag g acc b bs)
    with h assms(1) show ?thesis by (simp split: if_splits)
  next
    case (Entry g acc b bs)
    with h assms(2) have "tget (pin_tags n) (tag_name (br_digest b)) = Some h" by (simp add: task_ok_def)
    then show ?thesis using tget_SomeD by (metis image_eqI snd_conv)
  qed (use h in simp_all)
  then have "steady K (relied_on (task_pc t)) n (collect_data temp n)"
    by (simp add: steady_def served_def reclaim_data) (simp add: collect_data_def)
  from task_ok_steady [OF this assms(2)] show ?thesis .
qed

section \<open>Collections\<close>

lemma kept_secure:
  assumes sec: "secure K D n" and h: "healthy K n'" and data: "blob_data n' = blob_data n"
    and kept: "\<And>sl r b. release_at K (idx n') sl = Some r \<Longrightarrow> release_at K (idx n) sl = Some r
      \<and> (digests_ok r \<longrightarrow> b \<in> set (all_blobs r) \<longrightarrow> served n b \<longrightarrow> served n' b)"
  shows "secure K D n'"
  using complete_kept [OF sec kept] h sec by (simp add: secure_def data)

lemma listed:
  assumes "index_ok K ix" "key_laws K" "release_at K ix sl = Some r"
  shows "r \<in> set (list_releases K ix)"
  using assms(3) release_at_slot [OF assms(1,2,3)] by (simp add: list_releases_set [OF assms(1,2)])

lemma gc_secure:
  assumes sec: "secure K D n" and keys: "key_laws K"
  shows "secure K D (fst (gc K E q n))"
proof (cases "gc_dry q")
  case True
  with gc_dry_spec [OF secureD(2) [OF sec] keys True] sec show ?thesis by simp
next
  case False
  note ix = secureD(3) [OF sec]
  obtain n' where run: "gc K E q n = (n', Inr (collected_report K E q n))"
    and rel: "\<And>sl. release_at K (idx n') sl = keep_if (\<lambda>r. \<not> doomed K E q n r) (release_at K (idx n) sl)"
    and blobs: "\<And>d. digest_ok d \<Longrightarrow> blob_at (idx n') d
       = keep_if (\<lambda>b. br_hash b \<in> kept_hashes K n (doomed K E q n)) (blob_at (idx n) d)"
    and data: "blob_data n' = blob_data n"
    by (rule gc_spec [OF secureD(2) [OF sec] keys False]) (rule that)
  have "healthy K n'" using keepsD [OF gc_healthy [OF keys], of n E q] secureD(1) [OF sec] run by simp
  moreover have "release_at K (idx n) sl = Some r
      \<and> (digests_ok r \<longrightarrow> b \<in> set (all_blobs r) \<longrightarrow> served n b \<longrightarrow> served n' b)"
    if "release_at K (idx n') sl = Some r" for sl r b
  proof -
    have r: "release_at K (idx n) sl = Some r" "\<not> doomed K E q n r"
      using that by (simp_all add: rel keep_if_Some_iff del: split_paired_All)
    have "br_hash b \<in> kept_hashes K n (doomed K E q n)" if "b \<in> set (all_blobs r)"
      using that r(2) listed [OF ix keys r(1)] unfolding kept_hashes_def by blast
    then show ?thesis
      using r(1) release_blob_digest [of r b] blobs [of "br_digest b"] by (auto simp: served_def keep_if_Some_iff)
  qed
  ultimately show ?thesis using kept_secure [OF sec _ data] run by simp
qed

lemma sweep_secure:
  assumes sec: "secure K D n" and keys: "key_laws K"
  shows "secure K D (fst (sweep_blobs K dry n))"
proof (cases dry)
  case True
  with sweep_dry [OF secureD(2) [OF sec]] sec show ?thesis by (simp add: sweep_blobs_def)
next
  case False
  obtain n' where run: "sweep_blobs_locked K False {} n
      = (n', Inr (swept_count (idx n) (live_hashes K {} n) (list_pins n)))"
    and sw: "sweeping K (live_hashes K {} n) n {} n'"
    by (rule sweep_spec [OF secureD(2) [OF sec]]) (rule that)
  have "healthy K n'" using keepsD [OF sweep_healthy, of K n False "{}"] secureD(1) [OF sec] run by simp
  moreover have "blob_data n' = blob_data n" by (rule same_coreD(1) [OF sweepingD(5) [OF sw]])
  moreover have "release_at K (idx n) sl = Some r
      \<and> (digests_ok r \<longrightarrow> b \<in> set (all_blobs r) \<longrightarrow> served n b \<longrightarrow> served n' b)"
    if "release_at K (idx n') sl = Some r" for sl r b
    using that sweep_keeps_served [OF sw, of r b] listed [OF secureD(3) [OF sec] keys, of sl r]
    unfolding sweepingD(2) [OF sw] by blast
  ultimately have "secure K D n'" by (rule kept_secure [OF sec])
  with False run show ?thesis by (simp add: sweep_blobs_def)
qed

lemma enforce_secure:
  assumes sec: "secure K D n" and keys: "key_laws K"
  shows "secure K D (fst (enforce_window K p m n))"
proof (cases "p \<noteq> node_id K n \<and> covers K (node_policy n) p m \<and> name_ok m")
  case False
  then show ?thesis using enforce_window_idle [of p K n m] sec by simp
next
  case True
  then have c: "name_ok m" "p \<noteq> node_id K n" "covers K (node_policy n) p m" by simp_all
  obtain n' where run: "enforce_window K p m n = (n', Inr ())"
    and rel: "\<And>sl. release_at K (idx n') sl = keep_if (\<lambda>r. \<not> outside K n (p, m) r) (release_at K (idx n) sl)"
    and srv: "\<And>r b. r \<in> set (list_releases K (idx n)) \<Longrightarrow> \<not> outside K n (p, m) r \<Longrightarrow> digests_ok r
      \<Longrightarrow> b \<in> set (all_blobs r) \<Longrightarrow> served n b \<Longrightarrow> served n' b"
    and core: "same_core n n'"
    by (rule enforce_window_spec [OF secureD(2) [OF sec] keys c]) (rule that)
  have "healthy K n'"
    using keepsD [OF enforce_window_healthy [OF keys], of n p m] secureD(1) [OF sec] run by simp
  moreover have "release_at K (idx n) sl = Some r
      \<and> (digests_ok r \<longrightarrow> b \<in> set (all_blobs r) \<longrightarrow> served n b \<longrightarrow> served n' b)"
    if "release_at K (idx n') sl = Some r" for sl r b
  proof -
    have r: "release_at K (idx n) sl = Some r" "\<not> outside K n (p, m) r"
      using that by (simp_all add: rel keep_if_Some_iff del: split_paired_All)
    with srv listed [OF secureD(3) [OF sec] keys r(1)] show ?thesis by blast
  qed
  ultimately show ?thesis using kept_secure [OF sec _ same_coreD(1) [OF core]] run by simp
qed

section \<open>A step of a fetch\<close>

lemma progress_views:
  "idx (progress r i k n) = idx n" "pin_tags (progress r i k n) = pin_tags n" "blob_data (progress r i k n) = blob_data n"
  "inflight (progress r i k n) = inflight n"
  by (simp_all add: progress_def emit_def)

lemma progress_secure:
  assumes "secure K D n"
  shows "secure K D (progress r i k n)" "steady K N n (progress r i k n)"
  by (rule secure_same [OF assms], simp_all add: progress_views) (rule steady_same, simp_all add: progress_views)

lemma save_secure:
  assumes "secure K D n" "key_laws K" "release_verify K r = Inr ()" "digests_ok r" "all_served K D n (set (all_blobs r))"
    and "save_release K r n = (n', res)"
  shows "secure K D n'" "steady K N n n'" "inflight n' = inflight n"
proof -
  obtain ix c where put: "put_release K (idx n) r = (ix, c)" by force
  note saved = saved_secure [OF assms(1-5) put]
  have n': "idx n' = ix" "pin_tags n' = pin_tags n" "blob_data n' = blob_data n" "inflight n' = inflight n"
    using assms(6) put by (cases c; auto simp: save_release_def then_do_def on_index_def emit_def)+
  show "secure K D n'" by (rule secure_same [OF saved(1)]) (simp_all add: n')
  show "steady K N n n'"
    by (rule steady_same) (use put_release_spec [OF secureD(3) [OF assms(1)] assms(2,4) put] n' in simp_all)
  show "inflight n' = inflight n" by (rule n'(4))
qed

lemma index_blob_inflight: "index_put_blob b n = (n', res) \<Longrightarrow> inflight n' = inflight n"
  by (auto simp: index_put_blob_def on_index_def split: prod.splits)

text \<open>A truthful blob whose data is here and whose digest is known is served: the entry is of this data.\<close>

lemma known_served:
  assumes cf: "collision_free K D" and sec: "secure K D n" and d: "digest_ok (br_digest b)"
    and has: "has_hash (br_hash b) n" and known: "blob_at (idx n) (br_digest b) = Some c" and tr: "truthful K D b"
  shows "served n b"
proof -
  obtain x where x: "tget (blob_data n) (br_hash b) = Some x" using has by (auto simp: has_hash_def)
  with tr secureD(5) [OF sec x] have "digest_sha256 K x = br_digest b" by (simp add: truthful_def)
  moreover obtain y where "tget (blob_data n) (br_hash c) = Some y" "digest_sha256 K y = br_digest b"
    using store_blobD(3) [OF secureD(2) [OF sec] d known] by blast
  ultimately have "br_hash c = br_hash b" using one_hash(1) [OF cf sec x] by metis
  with known show ?thesis by (simp add: served_def)
qed

lemma advance_secure:
  assumes cf: "collision_free K D" and keys: "key_laws K" and snd: "sends D K E" and sec: "secure K D n"
    and r: "release_verify K r = Inr ()" "digests_ok r" and pc: "pc_ok K D n r pc"
    and run: "fetch_advance K E r ps (n, pc) = (n', pc')"
  shows "secure K D n' \<and> steady K UNIV n n' \<and> pc_ok K D n' r pc' \<and> inflight n' = inflight n"
proof (cases pc)
  case Acquire
  with run have "n' = progress r 0 0 n" "pc' = Next (0, 0) (all_blobs r)" by simp_all
  with progress_secure [OF sec] show ?thesis by (simp add: progress_views got_def all_served_def)
next
  case (Next acc rest)
  show ?thesis
  proof (cases rest)
    case Nil
    with Next pc have "all_served K D n (set (all_blobs r))" by (simp add: got_def)
    from save_secure [OF sec keys r this, of n'] Next Nil run show ?thesis by (auto split: prod.splits)
  next
    case (Cons b bs)
    with Next pc have g: "got K D n r (b # bs)" by simp
    have get: "blob_ref_get (idx n) (br_digest b) = Inr (blob_at (idx n) (br_digest b))"
      by (rule blob_ref_get_ok [OF secureD(3) [OF sec]])
    show ?thesis
    proof (cases "has_hash (br_hash b) n \<and> blob_at (idx n) (br_digest b) \<noteq> None")
      case True
      then obtain c where c: "has_hash (br_hash b) n" "blob_at (idx n) (br_digest b) = Some c" by auto
      have "got K D n r bs"
        by (rule got_next [OF g]) (rule known_served [OF cf sec got_digests [OF g r(2)] c])
      moreover have "n' = progress r (fst acc + 1) (snd acc + br_size b) n"
        "pc' = Next (fst acc + 1, snd acc + br_size b) bs"
        using run Next Cons c get by simp_all
      ultimately show ?thesis
        using progress_secure [OF sec] got_steady [OF progress_secure(2) [OF sec] r(2)] by (simp add: progress_views)
    next
      case False
      with run Next Cons get have "n' = n" "pc' \<in> {Done (Inl (Store_err NoProviders)), Download acc b bs, Verify False acc b bs}"
        by (auto split: if_splits)
      with sec g show ?thesis by (auto simp: steady_same)
    qed
  qed
next
  case (Download acc b bs)
  show ?thesis
  proof (cases "env_download E (br_hash b) ps")
    case None
    with run Download sec show ?thesis by (auto simp: fetch_data_def steady_same)
  next
    case (Some x)
    with snd have x: "blake3_of K x = br_hash b" "x \<in> D" by (auto simp: sends_def honest_download_def)
    have "n' = add_data (br_hash b) x n" "pc' = Verify True acc b bs" using run Download Some by (simp_all add: fetch_data_def)
    moreover have "inflight (add_data (br_hash b) x n) = inflight n" by (simp add: add_data_def)
    moreover note data = data_secure [OF sec x]
    ultimately show ?thesis using got_steady [OF data(2) r(2)] pc Download by simp
  qed
next
  case (Verify g acc b bs)
  with run pc sec show ?thesis by (auto simp: steady_same split: sum.splits)
next
  case (Tag g acc b bs)
  with pc have v: "got K D n r (b # bs)" "verify_blob K b n = Inr ()" by simp_all
  note pin = pin_secure [OF cf sec got_digests [OF v(1) r(2)] v(2)]
  have "n' = set_tag (tag_name (br_digest b)) (br_hash b) n" "pc' = Entry g acc b bs" using run Tag by simp_all
  then show ?thesis
    using pin got_steady [OF pin(2) r(2) v(1)] verify_steady [OF pin(2) _ v(2)] by simp (simp add: set_tag_def)
next
  case (Entry g acc b bs)
  with pc have v: "got K D n r (b # bs)" "verify_blob K b n = Inr ()"
    "tget (pin_tags n) (tag_name (br_digest b)) = Some (br_hash b)" by simp_all
  obtain n1 where n1: "index_put_blob b n = (n1, Inr ())" "secure K D n1" "steady K UNIV n n1" "served n1 b"
    by (rule entry_secure [OF cf sec got_digests [OF v(1) r(2)] v(2,3)]) (rule that)
  have "got K D n1 r bs" by (rule got_next [OF got_steady [OF n1(3) r(2) v(1)] n1(4)])
  moreover have "n' = progress r (fst acc + 1) (snd acc + br_size b) n1"
    "pc' = Next (fst acc + 1, snd acc + br_size b) bs"
    using run Entry n1(1) by simp_all
  moreover note p = progress_secure [OF n1(2)]
  ultimately show ?thesis
    using p steady_trans [OF n1(3) p(2)] got_steady [OF p(2) r(2)] index_blob_inflight [OF n1(1)]
    by (simp add: progress_views)
next
  case (Done res)
  with run sec show ?thesis by (auto simp: steady_same)
qed

section \<open>Every step\<close>

lemma tasks_steady:
  assumes "list_all (task_ok K D n) ts" "steady K UNIV n n'"
  shows "list_all (task_ok K D n') ts"
  unfolding list_all_iff
proof
  fix t
  assume "t \<in> set ts"
  then have "task_ok K D n t" using assms(1) by (simp add: list_all_iff)
  then show "task_ok K D n' t" by (rule task_ok_steady [OF steady_less [OF assms(2) subset_UNIV]])
qed

text \<open>A task that reads nothing is in order whatever the store is.\<close>

lemma tasks_idle:
  assumes "list_all (task_ok K D n) ts" "list_all (\<lambda>t. \<not> reading (task_pc t)) ts"
  shows "list_all (task_ok K D n') ts"
proof -
  have "task_ok K D n' t" if "task_ok K D n t" "\<not> reading (task_pc t)" for t
    using that by (cases "task_pc t") (simp_all add: task_ok_def)
  with assms show ?thesis by (simp add: list_all_iff)
qed

lemma sys_okD:
  assumes "sys_ok K D S"
  shows "secure K D (sys_node S)" "list_all (task_ok K D (sys_node S)) (sys_tasks S)"
    "distinct (task_references K S)" "set (task_references K S) \<subseteq> inflight (sys_node S)"
  using assms by (simp_all add: sys_ok_def)

text \<open>An operation beside the tasks.\<close>

lemma sys_ok_node:
  assumes ok: "sys_ok K D S" and sec: "secure K D n" and fl: "inflight n = inflight (sys_node S)"
    and tasks: "list_all (task_ok K D n) (sys_tasks S)"
  shows "sys_ok K D (with_node S n)"
  using assms by (simp add: sys_ok_def task_references_def)

lemma run_task_ok:
  assumes ok: "sys_ok K D S" and cf: "collision_free K D" and keys: "key_laws K" and snd: "sends D K E"
    and i: "i < length (sys_tasks S)"
  shows "sys_ok K D (run_task K E i S)"
proof -
  let ?t = "sys_tasks S ! i"
  obtain n pc where run: "fetch_advance K E (task_release ?t) (task_providers ?t) (sys_node S, task_pc ?t) = (n, pc)"
    by force
  have t: "task_ok K D (sys_node S) ?t" using sys_okD(2) [OF ok] i by (simp add: list_all_length)
  then have a: "secure K D n" "steady K UNIV (sys_node S) n" "pc_ok K D n (task_release ?t) pc"
    "inflight n = inflight (sys_node S)"
    using advance_secure [OF cf keys snd sys_okD(1) [OF ok] _ _ _ run] by (auto simp: task_ok_def)
  have S': "run_task K E i S = S\<lparr>sys_node := n, sys_tasks := (sys_tasks S)[i := ?t\<lparr>task_pc := pc\<rparr>]\<rparr>"
    using run by (simp add: run_task_def)
  have new: "task_ok K D n (?t\<lparr>task_pc := pc\<rparr>)" using a(3) t by (simp add: task_ok_def)
  have "list_all (task_ok K D n) ((sys_tasks S)[i := ?t\<lparr>task_pc := pc\<rparr>])"
    using tasks_steady [OF sys_okD(2) [OF ok] a(2)] new
    using i by (simp add: list_all_length nth_list_update)
  moreover have "task_references K (run_task K E i S) = task_references K S"
    using i by (simp add: task_references_def S' map_update list_update_same_conv)
  ultimately show ?thesis using ok a by (simp add: sys_ok_def) (simp add: S')
qed

lemma leave_ok:
  assumes ok: "sys_ok K D S" and i: "i < length (sys_tasks S)"
  shows "sys_ok K D (leave_fetch K i res S)"
proof -
  let ?S = "leave_fetch K i res S" and ?r = "reference K (task_release (sys_tasks S ! i))"
  have views: "idx (sys_node ?S) = idx (sys_node S)" "pin_tags (sys_node ?S) = pin_tags (sys_node S)"
    "blob_data (sys_node ?S) = blob_data (sys_node S)" "inflight (sys_node ?S) = inflight (sys_node S) - {?r}"
    "sys_tasks ?S = take i (sys_tasks S) @ drop (Suc i) (sys_tasks S)"
    by (simp_all add: leave_fetch_def Let_def emit_def split: sum.split)
  have sec: "secure K D (sys_node ?S)" by (rule secure_same [OF sys_okD(1) [OF ok]]) (simp_all add: views)
  have st: "steady K UNIV (sys_node S) (sys_node ?S)" by (rule steady_same) (simp_all add: views)
  have tasks: "list_all (task_ok K D (sys_node ?S)) (sys_tasks ?S)"
    using tasks_steady [OF sys_okD(2) [OF ok] st] unfolding views(5)
    by (auto simp: list_all_iff dest: in_set_takeD in_set_dropD)
  have refs: "task_references K S = map (\<lambda>t. reference K (task_release t)) (take i (sys_tasks S)) @ ?r
      # map (\<lambda>t. reference K (task_release t)) (drop (Suc i) (sys_tasks S))"
    unfolding task_references_def by (subst id_take_nth_drop [OF i]) simp
  have refs': "task_references K ?S = map (\<lambda>t. reference K (task_release t)) (take i (sys_tasks S))
      @ map (\<lambda>t. reference K (task_release t)) (drop (Suc i) (sys_tasks S))"
    by (simp add: task_references_def views(5))
  have "distinct (task_references K ?S)" "?r \<notin> set (task_references K ?S)"
    "set (task_references K ?S) \<subseteq> set (task_references K S)"
    using sys_okD(3) [OF ok] unfolding refs refs' by auto
  with sys_okD(4) [OF ok] have "distinct (task_references K ?S)"
    "set (task_references K ?S) \<subseteq> inflight (sys_node ?S)" unfolding views(4) by blast+
  with sec tasks show ?thesis by (simp add: sys_ok_def)
qed

lemma enter_ok:
  assumes ok: "sys_ok K D S" and r: "release_verify K r = Inr ()" "digests_ok r" "reference K r \<notin> inflight (sys_node S)"
  shows "sys_ok K D (enter_fetch K r ps S)"
proof -
  let ?S = "enter_fetch K r ps S"
  have views: "idx (sys_node ?S) = idx (sys_node S)" "pin_tags (sys_node ?S) = pin_tags (sys_node S)"
    "blob_data (sys_node ?S) = blob_data (sys_node S)"
    "inflight (sys_node ?S) = insert (reference K r) (inflight (sys_node S))"
    by (simp_all add: enter_fetch_def)
  have sec: "secure K D (sys_node ?S)" by (rule secure_same [OF sys_okD(1) [OF ok]]) (simp_all add: views)
  have "steady K UNIV (sys_node S) (sys_node ?S)" by (rule steady_same) (simp_all add: views)
  from tasks_steady [OF sys_okD(2) [OF ok] this]
  have tasks: "list_all (task_ok K D (sys_node ?S)) (sys_tasks ?S)"
    using r by (simp add: enter_fetch_def task_ok_def)
  have "task_references K ?S = task_references K S @ [reference K r]"
    by (simp add: task_references_def enter_fetch_def)
  with sec tasks sys_okD(3,4) [OF ok] r(3) show ?thesis by (auto simp: sys_ok_def views)
qed

lemma same_store_secure:
  assumes "secure K D n" "same_store K n n'"
  shows "secure K D n'" "steady K N n n'" "inflight n' = inflight n"
  using assms(2) secure_views [OF assms(1), of n'] steady_same [of n' n] unfolding same_store_def by metis+

section \<open>The collector leaves the admissions alone\<close>

abbreviation same_inflight :: "node \<Rightarrow> node \<Rightarrow> bool" where
  "same_inflight n n' \<equiv> inflight n' = inflight n"

lemma same_inflight_preorder: "preorder_on_states same_inflight"
  by (simp add: preorder_on_states_def reflp_def transp_def)

lemma core_inflight: "same_core n n' \<Longrightarrow> same_inflight n n'"
  by (drule same_core_def [THEN iffD1, THEN arg_cong [where f = inflight]]) simp

lemma keeps_core_inflight: "keeps same_core m \<Longrightarrow> keeps same_inflight m"
  using core_inflight by (simp add: keeps_def)

lemmas inflight_intros = keeps_then [OF same_inflight_preorder] keeps_basic [OF same_inflight_preorder]
  keeps_fold_op [OF same_inflight_preorder] keeps_core_inflight [OF keeps_drop] keeps_core_inflight [OF keeps_sweep]
  keeps_modify keeps_if

lemma index_op_inflight: "keeps same_inflight (on_index f)"
  by (rule keeps_core_inflight [OF keeps_on_index])

lemma push_inflight: "keeps same_inflight (put_blob_bytes K data expect mt)"
proof -
  show ?thesis
    unfolding put_blob_bytes_def Let_def index_put_blob_def
    by (intro inflight_intros index_op_inflight) (simp add: set_tag_def add_data_def)
qed

text \<open>More generally, a collection keeps whatever is no part of the store and of the uploads.\<close>

lemma gc_keeps:
  assumes core: "\<And>n n'. same_core n n' \<Longrightarrow> f n' = f n" and ups: "\<And>n u. f (n\<lparr>upload_files := u\<rparr>) = f n"
  shows "keeps (\<lambda>n n'. f n' = f n) (gc K E q)"
proof -
  let ?R = "\<lambda>n n'. f n' = f n"
  have pre: "preorder_on_states ?R" by (simp add: preorder_on_states_def reflp_def transp_def)
  note intros = keeps_then [OF pre] keeps_basic [OF pre] keeps_fold_op [OF pre] keeps_if
  have drop: "keeps ?R (drop_release K p n t)" for p n t
    unfolding keeps_def by (intro allI core keepsD [OF keeps_drop])
  have sweep: "keeps ?R (sweep_blobs_locked K dry ig)" for dry ig
    unfolding keeps_def by (intro allI core keepsD [OF keeps_sweep])
  have "keeps ?R (gc_release K E q keep r removed)" for keep r removed
    unfolding gc_release_def Let_def by (intro intros drop)
  moreover have "keeps ?R (prune_uploads E dry)" for dry
    by (simp add: keeps_def prune_uploads_def Let_def ups)
  moreover have "f (n\<lparr>idx := ix\<rparr>) = f n" for n ix by (rule core) simp
  then have "keeps ?R (modify (\<lambda>s. if gc_dry q then s else s\<lparr>idx := fst (prune_referrers (idx s))\<rparr>))"
    by (intro keeps_modify) simp
  ultimately have "keeps ?R (then_do (fold_op (gc_release K E q keep) rs []) (\<lambda>removed.
      then_do (sweep_blobs_locked K (gc_dry q) (set removed)) (\<lambda>(blobs, bytes).
      then_do (prune_uploads E (gc_dry q)) (\<lambda>uploads.
      then_do (modify (\<lambda>s. if gc_dry q then s else s\<lparr>idx := fst (prune_referrers (idx s))\<rparr>)) (\<lambda>_.
      ret \<lparr>rep_dry = gc_dry q, rep_releases = removed, rep_blobs = blobs, rep_bytes = bytes,
            rep_uploads = uploads\<rparr>)))))" for keep rs
    by (intro intros sweep keeps_case_prod)
  then show ?thesis by (simp add: keeps_def gc_def Let_def)
qed

lemma gc_inflight: "keeps same_inflight (gc K E q)"
  by (rule gc_keeps [where f = inflight]) (simp_all add: core_inflight)

section \<open>All runs\<close>

lemma step_ok:
  assumes laws: "hex_laws K" "key_laws K" "sha_laws K" and cf: "collision_free K D"
  shows "sys_step K D S S' \<Longrightarrow> sys_ok K D S \<Longrightarrow> sys_ok K D S'"
proof (induction rule: sys_step.induct)
  case (enter r S ps)
  then show ?case using enter_ok by blast
next
  case (advance i S E)
  then show ?case using run_task_ok [OF _ cf laws(2)] by blast
next
  case (leave i S res)
  then show ?case using leave_ok by blast
next
  case (collect S E q)
  note ok = sys_okD [OF collect.prems]
  show ?case
    by (rule sys_ok_node [OF collect.prems gc_secure [OF ok(1) laws(2)] keepsD [OF gc_inflight]])
      (rule tasks_idle [OF ok(2) collect.hyps])
next
  case (enforce S p n)
  note ok = sys_okD [OF enforce.prems]
  show ?case
    by (rule sys_ok_node [OF enforce.prems enforce_secure [OF ok(1) laws(2)]
          keepsD [OF keeps_core_inflight [OF keeps_enforce]]])
      (rule tasks_idle [OF ok(2) enforce.hyps])
next
  case (sweep S dry)
  note ok = sys_okD [OF sweep.prems]
  have "keeps same_inflight (sweep_blobs K dry)" unfolding sweep_blobs_def by (rule keeps_core_inflight [OF keeps_sweep])
  from sys_ok_node [OF sweep.prems sweep_secure [OF ok(1) laws(2)] keepsD [OF this] tasks_idle [OF ok(2) sweep.hyps]]
  show ?case .
next
  case (unlink S p n t)
  note ok = sys_okD [OF unlink.prems]
  note drop = drop_secure [OF ok(1) laws(2)]
  show ?case
    by (rule sys_ok_node [OF unlink.prems drop(1) keepsD [OF keeps_core_inflight [OF keeps_drop]]
          tasks_steady [OF ok(2) drop(2)]])
next
  case (push data S expect mt)
  note ok = sys_okD [OF push.prems]
  note p = push_secure [OF cf laws(1,3) ok(1) push.hyps]
  show ?case by (rule sys_ok_node [OF push.prems p(1) keepsD [OF push_inflight] tasks_steady [OF ok(2) p(2)]])
next
  case (publish r S E)
  note ok = sys_okD [OF publish.prems]
  note p = publish_secure [OF ok(1) laws(2) publish.hyps]
  show ?case by (rule sys_ok_node [OF publish.prems p(1,3) tasks_steady [OF ok(2) p(2)]])
next
  case (reclaim S temp)
  note ok = sys_okD [OF reclaim.prems]
  have "list_all (task_ok K D (collect_data temp (sys_node S))) (sys_tasks S)"
    unfolding list_all_iff
  proof
    fix t
    assume t: "t \<in> set (sys_tasks S)"
    with reclaim.hyps have "protected (task_pc t) \<union> exposed (task_pc t) \<subseteq> temp" by blast
    moreover have "task_ok K D (sys_node S) t" using t ok(2) by (simp add: list_all_iff)
    ultimately show "task_ok K D (collect_data temp (sys_node S)) t" by (rule reclaim_task)
  qed
  from sys_ok_node [OF reclaim.prems reclaim_secure [OF ok(1)] _ this] show ?case by (simp add: collect_data_def)
next
  case (other S n)
  note ok = sys_okD [OF other.prems]
  note same = same_store_secure [OF ok(1) other.hyps]
  show ?case by (rule sys_ok_node [OF other.prems same(1,3) tasks_steady [OF ok(2) same(2)]])
qed

lemma steps_ok:
  assumes "hex_laws K" "key_laws K" "sha_laws K" "collision_free K D"
  shows "(sys_step K D)\<^sup>*\<^sup>* S S' \<Longrightarrow> sys_ok K D S \<Longrightarrow> sys_ok K D S'"
  by (induction rule: rtranclp_induct) (auto intro: step_ok [OF assms])

text \<open>A fetch that nothing interrupts is one of these runs.\<close>

lemma lone_task_runs:
  assumes "sends D K E"
  shows "(sys_step K D)\<^sup>*\<^sup>* \<lparr>sys_node = n, sys_tasks = [t]\<rparr>
    (case ((fetch_advance K E (task_release t) (task_providers t)) ^^ k) (n, task_pc t) of
       (n', pc) \<Rightarrow> \<lparr>sys_node = n', sys_tasks = [t\<lparr>task_pc := pc\<rparr>]\<rparr>)"
proof (induction k arbitrary: n t)
  case 0
  then show ?case by simp
next
  case (Suc k)
  obtain n1 pc where one: "fetch_advance K E (task_release t) (task_providers t) (n, task_pc t) = (n1, pc)" by force
  let ?S = "\<lparr>sys_node = n, sys_tasks = [t]\<rparr>"
  have "sys_step K D ?S (run_task K E 0 ?S)" by (rule sys_step.advance) (use assms in simp_all)
  moreover have "run_task K E 0 ?S = \<lparr>sys_node = n1, sys_tasks = [t\<lparr>task_pc := pc\<rparr>]\<rparr>"
    using one by (simp add: run_task_def)
  ultimately have "sys_step K D ?S \<lparr>sys_node = n1, sys_tasks = [t\<lparr>task_pc := pc\<rparr>]\<rparr>" by simp
  from converse_rtranclp_into_rtranclp [OF this Suc.IH] show ?case by (simp add: advance_Suc one del: funpow.simps)
qed

lemma fetch_is_a_run:
  assumes snd: "sends D K E" and r: "release_verify K r = Inr ()" "digests_ok r" "reference K r \<notin> inflight n"
  shows "(sys_step K D)\<^sup>*\<^sup>* \<lparr>sys_node = n, sys_tasks = []\<rparr>
    \<lparr>sys_node = fst (fetch_release K E r ps n), sys_tasks = []\<rparr>"
proof -
  let ?S0 = "\<lparr>sys_node = n, sys_tasks = []\<rparr>" and ?n1 = "n\<lparr>inflight := insert (reference K r) (inflight n)\<rparr>"
  let ?t = "\<lparr>task_release = r, task_providers = filter (\<lambda>p. p \<noteq> node_id K n) ps, task_pc = Acquire\<rparr>"
  let ?S1 = "\<lparr>sys_node = ?n1, sys_tasks = [?t]\<rparr>"
  have "sys_step K D ?S0 (enter_fetch K r ps ?S0)" by (rule sys_step.enter) (use r in simp_all)
  then have enter: "sys_step K D ?S0 ?S1" by (simp add: enter_fetch_def)
  obtain n2 res where inner: "fetch_release_inner K E r ps ?n1 = (n2, res)" by force
  from fetch_release_inner_steps [OF this] obtain k where
    "((fetch_advance K E r (filter (\<lambda>p. p \<noteq> node_id K ?n1) ps)) ^^ k) (?n1, Acquire) = (n2, Done res)" by blast
  then have k: "((fetch_advance K E r (filter (\<lambda>p. p \<noteq> node_id K n) ps)) ^^ k) (?n1, Acquire) = (n2, Done res)"
    by (simp add: node_id_def)
  let ?S2 = "\<lparr>sys_node = n2, sys_tasks = [?t\<lparr>task_pc := Done res\<rparr>]\<rparr>"
  have run: "(sys_step K D)\<^sup>*\<^sup>* ?S1 ?S2" using lone_task_runs [OF snd, of ?n1 ?t k] k by simp
  have "sys_step K D ?S2 (leave_fetch K 0 res ?S2)" by (rule sys_step.leave) simp_all
  moreover have "leave_fetch K 0 res ?S2 = \<lparr>sys_node = fst (fetch_release K E r ps n), sys_tasks = []\<rparr>"
    using inner r(1) by (cases res) (simp_all add: leave_fetch_def fetch_release_def Let_def)
  ultimately have "sys_step K D ?S2 \<lparr>sys_node = fst (fetch_release K E r ps n), sys_tasks = []\<rparr>" by simp
  with run have "(sys_step K D)\<^sup>*\<^sup>* ?S1 \<lparr>sys_node = fst (fetch_release K E r ps n), sys_tasks = []\<rparr>"
    by (rule rtranclp.rtrancl_into_rtrancl)
  with enter show ?thesis by (rule converse_rtranclp_into_rtranclp)
qed

end
