(* ===== verification/Interleaving_Safety.thy ===== *)
theory Interleaving_Safety
  imports Interleaving
begin

text \<open>
  What the locks of a node guarantee when its tasks interleave, and the two races that no lock covers.
\<close>

section \<open>Every release is complete\<close>

lemma demo_collision_free: "collision_free demo_net {[1]}"
  by (simp add: collision_free_def)

lemma demo_secure: "secure demo_net {[1]} (demo_node pol)"
  using demo_node_healthy [of pol]
  by (simp add: secure_def complete_def demo_node_nothing(1,2) del: split_paired_All)

lemma demo_sends: "sends {[1]} demo_net demo_net_env"
  using demo_net_honest by (simp add: sends_def demo_net_env_def)

lemma demo_app_truthful: "truthful demo_net {[1]} (p_manifest (payload (demo_app sk)))"
  by (simp add: truthful_def demo_app_fields demo_net_same)



section \<open>The unprotected blob\<close>

text \<open>The gap between \<open>verify_blob\<close> and \<open>record_blob\<close>. When the data of a blob is there but its digest is not
  indexed, because a sweep let it go and the blob store has not reclaimed it yet, the task checks it without a
  temporary tag. If the collector of the blob store comes between the check and the pin, the task records the
  blob and goes on: the index has an entry without data, and the store is not sound any more.\<close>

theorem unprotected_blob_lost:
  assumes "index_ok K (idx n)" "digest_ok (br_digest b)" "verify_blob K b n = Inr ()"
    and "blob_at (idx n) (br_digest b) = None" "br_hash b \<notin> snd ` set (pin_tags n)"
  shows "((fetch_advance K E r ps) ^^ 2) (n, Next acc (b # bs)) = (n, Tag False acc b bs)
    \<and> (\<exists>n'. ((fetch_advance K E r ps) ^^ 2) (collect_data {} n, Tag False acc b bs)
          = (n', Next (fst acc + 1, snd acc + br_size b) bs)
        \<and> blob_at (idx n') (br_digest b) = Some b \<and> \<not> has_hash (br_hash b) n' \<and> \<not> store_ok K n')"
proof -
  let ?n = "set_tag (tag_name (br_digest b)) (br_hash b) (collect_data {} n)"
  have "has_hash (br_hash b) n" using assms(3) by (auto simp: verify_blob_iff has_hash_def)
  then have first: "((fetch_advance K E r ps) ^^ 2) (n, Next acc (b # bs)) = (n, Tag False acc b bs)"
    using assms(3,4) blob_ref_get_ok [OF assms(1), of "br_digest b"] by (simp add: numeral_2_eq_2)
  have "index_ok K (idx ?n)" using assms(1) by (simp add: set_tag_def collect_data_def)
  from index_put_blob_spec [OF this assms(2)] obtain ix where
    put: "index_put_blob b ?n = (?n\<lparr>idx := ix\<rparr>, Inr ())"
    and at: "\<And>d. digest_ok d \<Longrightarrow> blob_at ix d = (if d = br_digest b then Some b else blob_at (idx ?n) d)" by metis
  let ?n' = "progress r (fst acc + 1) (snd acc + br_size b) (?n\<lparr>idx := ix\<rparr>)"
  have "((fetch_advance K E r ps) ^^ 2) (collect_data {} n, Tag False acc b bs)
      = (?n', Next (fst acc + 1, snd acc + br_size b) bs)"
    using put by (simp add: numeral_2_eq_2)
  moreover have entry: "blob_at (idx ?n') (br_digest b) = Some b" using at [OF assms(2)] by (simp add: progress_views)
  moreover have gone: "tget (blob_data ?n') (br_hash b) = None"
    using assms(5) reclaim_data [of "{}" n "br_hash b"] by (simp add: progress_views set_tag_def)
  moreover have "\<not> store_ok K ?n'" using store_blobD(3) [OF _ assms(2) entry] gone by auto
  ultimately show ?thesis using first by (auto simp: has_hash_def)
qed

theorem unprotected_blob_lost_witness:
  "\<exists>n n'. store_ok demo_net n \<and> ((fetch_advance demo_net demo_env (demo_app 7) []) ^^ 2)
       (n, Next (0, 0) (all_blobs (demo_app 7))) = (n, Tag False (0, 0) (p_manifest (payload (demo_app 7))) [])
     \<and> ((fetch_advance demo_net demo_env (demo_app 7) []) ^^ 2)
       (collect_data {} n, Tag False (0, 0) (p_manifest (payload (demo_app 7))) []) = (n', Next (1, 1) [])
     \<and> \<not> store_ok demo_net n'"
proof -
  let ?b = "p_manifest (payload (demo_app 7))" and ?s = "demo_node policy_default"
  let ?n = "add_data (br_hash ?b) [1] ?s"
  have h: "blake3_of demo_net [1] = br_hash ?b" by (simp add: demo_app_fields demo_net_same)
  note add = add_data_ok [OF demo_node_ok h, of policy_default]
  have views: "idx ?n = empty_index" "pin_tags ?n = []" by (simp_all add: add_data_def demo_node_def)
  have data: "tget (blob_data ?n) (br_hash ?b) = Some [1]"
    unfolding add(2) by (simp add: has_hash_def demo_node_nothing(2))
  have d: "digest_ok (br_digest ?b)"
    by (rule release_blob_digest [OF demo_app_shape(2) [of 7]]) (simp add: demo_app_fields(5))
  have v: "verify_blob demo_net ?b ?n = Inr ()"
    unfolding verify_blob_iff using data by (simp add: demo_app_fields demo_net_same)
  have none: "blob_at (idx ?n) (br_digest ?b) = None" "br_hash ?b \<notin> snd ` set (pin_tags ?n)"
    unfolding views by (simp_all add: blob_at_def file_at_def empty_index_def digest_path_def)
  have ix: "index_ok demo_net (idx ?n)" unfolding views by (rule empty_index_ok)
  have size: "br_size ?b = 1" "all_blobs (demo_app 7) = [?b]" by (simp_all add: demo_app_fields(5,6))
  from unprotected_blob_lost [OF ix d v none, of demo_env "demo_app 7" "[]" "(0, 0)" "[]"] add(1)
  show ?thesis unfolding size(2) by (fastforce simp: size(1))
qed

text \<open>When the data is there and the digest is known, nothing is checked, not even that the two belong together.\<close>

theorem known_blob_unchecked:
  assumes "index_ok K (idx n)" "has_hash (br_hash b) n" "blob_at (idx n) (br_digest b) \<noteq> None"
  shows "fetch_blob K E ps b n = (n, Inr ())"
  using assms blob_ref_get_ok [OF assms(1), of "br_digest b"] by (auto simp: fetch_blob_def then_do_lift)

section \<open>The unlocked push\<close>

lemma gc_same_id: "node_id K (fst (gc K' E q n)) = node_id K n"
proof -
  have "node_key (fst (gc K' E q n)) = node_key n"
    by (rule keepsD [OF gc_keeps [where f = node_key]]) (simp_all add: same_coreD(2))
  then show ?thesis by (simp add: node_id_def)
qed

text \<open>C40: A push is not protected from collection. \<open>manifest_put\<close> checks that the blobs of an image are there, and
  then publishes it; no lock is held from the first upload on, and a collection removes every blob that no
  release references, however new. When one comes in between, the blob that was checked loses its entry, and the
  new version of the image is published and stored all the same, without this blob.\<close>

theorem publish_races_collection:
  assumes "store_ok K n" "key_laws K" "\<not> gc_dry q"
    and "release_verify K r = Inr ()" "digests_ok r" "p_publisher (payload r) = node_id K n"
    and "release_at K (idx n) (slot_of r) = Some ex" "supersedes r ex"
    and "b \<in> set (all_blobs r)" "served n b"
    and "br_hash b \<notin> (\<Union>x \<in> set (list_releases K (idx n)). br_hash ` set (all_blobs x))"
  shows "\<exists>n1 rep n2 res. gc K E q n = (n1, Inr rep) \<and> publish K E r n1 = (n2, res)
    \<and> release_at K (idx n2) (slot_of r) = Some r
    \<and> blob_at (idx n) (br_digest b) \<noteq> None \<and> blob_at (idx n2) (br_digest b) = None"
proof -
  have ix: "index_ok K (idx n)" using assms(1) by (simp add: store_ok_def)
  obtain n1 where run: "gc K E q n = (n1, Inr (collected_report K E q n))" and ok1: "store_ok K n1"
    and rel: "\<And>sl. release_at K (idx n1) sl = keep_if (\<lambda>r. \<not> doomed K E q n r) (release_at K (idx n) sl)"
    and blobs: "\<And>d. digest_ok d \<Longrightarrow> blob_at (idx n1) d
       = keep_if (\<lambda>b. br_hash b \<in> kept_hashes K n (doomed K E q n)) (blob_at (idx n) d)"
    by (rule gc_spec [OF assms(1-3)]) (rule that)
  have ix1: "index_ok K (idx n1)" using ok1 by (simp add: store_ok_def)
  have "slot_of ex = slot_of r" using release_at_slot [OF ix assms(2,7)] by simp
  then have "p_publisher (payload ex) = node_id K n" using assms(6) by (simp add: slot_of_def)
  then have "\<not> doomed K E q n ex" by (simp add: doomed_def retained_def)
  then have ex: "release_at K (idx n1) (slot_of r) = Some ex" using assms(7) by (simp add: rel)
  have own: "p_publisher (payload r) = node_id K n1" using gc_same_id [of K K E q n] run assms(6) by simp
  obtain ix2 where pub: "publish K E r n1 = announce K E r (emit (ReleaseSaved (p_publisher (payload r))
      (p_name (payload r)) (p_tag (payload r)) (length (p_blobs (payload r)))) (n1\<lparr>idx := ix2\<rparr>))"
    and at: "\<And>sl. release_at K ix2 sl = (if sl = slot_of r
       \<and> (\<forall>ex. release_at K (idx n1) sl = Some ex \<longrightarrow> supersedes r ex) then Some r else release_at K (idx n1) sl)"
    by (rule publish_stores [OF ok1 assms(2,5,4) own held_free [OF ix1 ex]]) (rule that)
  let ?n2 = "fst (publish K E r n1)"
  have "idx ?n2 = ix2" unfolding pub by (simp add: announce_views emit_def)
  then have new: "release_at K (idx ?n2) (slot_of r) = Some r"
    using at [of "slot_of r"] ex assms(8) by simp
  obtain c where c: "blob_at (idx n) (br_digest b) = Some c" "br_hash c = br_hash b"
    using assms(10) by (auto simp: served_def)
  have "br_hash b \<notin> kept_hashes K n (doomed K E q n)" using assms(11) unfolding kept_hashes_def by blast
  with c blobs [OF release_blob_digest [OF assms(5,9)]] have "blob_at (idx n1) (br_digest b) = None" by simp
  then have "blob_at (idx ?n2) (br_digest b) = None" unfolding publish_blobs [OF ix1 assms(2,5)] .
  with run new c show ?thesis by (metis option.distinct(1) prod.collapse)
qed

text \<open>An older version of \<open>demo_app\<close>, with another manifest.\<close>

definition demo_old :: "bytes32 \<Rightarrow> release" where
  "demo_old sk = release_sign demo_node_crates 2 sk ((payload (demo_app sk))\<lparr>p_timestamp := 3,
     p_manifest := \<lparr>br_digest = digest_sha256 demo_node_crates [2], br_hash = blake3_of demo_node_crates [2],
       br_size = 1, br_media_type = None\<rparr>\<rparr>)"

lemma demo_old_fields:
  "slot_of (demo_old sk) = demo_slot sk" "slot_ok (demo_old sk)" "digests_ok (demo_old sk)"
  "supersedes (demo_app sk) (demo_old sk)"
  "br_hash ` set (all_blobs (demo_old sk)) = {blake3_of demo_node_crates [2]}"
proof -
  have pl: "payload (demo_old sk) = (payload (demo_app sk))\<lparr>p_version := release_version,
      p_publisher := sk_public demo_node_crates sk, p_timestamp := 3,
      p_manifest := \<lparr>br_digest = digest_sha256 demo_node_crates [2], br_hash = blake3_of demo_node_crates [2],
       br_size = 1, br_media_type = None\<rparr>\<rparr>"
    by (simp add: demo_old_def release_sign_payload)
  have pk: "sk_public demo_node_crates sk = PublicKey sk"
    by (simp add: demo_node_crates_def codecs.defs demo_codecs_def crates.defs demo_crates_def)
  have no: "p_blobs (payload (demo_app sk)) = []" using demo_app_fields(5) [of sk] by (simp add: all_blobs_def)
  have blobs: "all_blobs (demo_old sk) = [p_manifest (payload (demo_old sk))]" by (simp add: all_blobs_def pl no)
  show "slot_of (demo_old sk) = demo_slot sk" "slot_ok (demo_old sk)"
    using demo_app_fields(2,3) [of sk] demo_app_ok by (simp_all add: pl slot_of_def slot_ok_def pk)
  show "digests_ok (demo_old sk)"
    using digest_sha256_ok [OF demo_node_crate_laws(1,4)] demo_app_fields(8) [of sk]
    by (simp add: digests_ok_def blobs) (simp add: pl)
  show "supersedes (demo_app sk) (demo_old sk)"
    using demo_app_fields(4) [of sk] by (simp add: supersedes_def pl)
  show "br_hash ` set (all_blobs (demo_old sk)) = {blake3_of demo_node_crates [2]}"
    by (simp add: blobs) (simp add: pl)
qed

theorem publish_races_collection_witness:
  "\<exists>n n1 rep n2 res. gc demo_net demo_env \<lparr>gc_dry = False, gc_force = False\<rparr> n = (n1, Inr rep)
     \<and> publish demo_net demo_env (demo_app 5) n1 = (n2, res)
     \<and> release_at demo_net (idx n2) (demo_slot 5) = Some (demo_app 5)
     \<and> blob_at (idx n2) (digest_sha256 demo_net [1]) = None"
proof -
  let ?b = "p_manifest (payload (demo_app 5))" and ?s = "demo_node policy_default"
  have free: "slot_free demo_net empty_index (slot_of (demo_old 5))" by (rule empty_index_free)
  obtain ix res where put: "put_release demo_net empty_index (demo_old 5) = (ix, res)" by force
  obtain c where res: "res = Inr c"
    using put_release_free [OF empty_index_ok demo_old_fields(2,3) free] put by auto
  note spec = put_release_spec [OF empty_index_ok demo_net_laws(2) demo_old_fields(3) put]
  have none: "blob_at empty_index d = None" "release_at demo_net empty_index sl = None" for d sl
    by (simp_all add: blob_at_def release_at_def file_at_def empty_index_def digest_path_def slot_path_def
        split: prod.split)
  have rel: "release_at demo_net ix sl = (if sl = demo_slot 5 then Some (demo_old 5) else None)" for sl
    using spec none res by (simp add: demo_old_fields(1) del: split_paired_All)
  have ok: "store_ok demo_net (?s\<lparr>idx := ix\<rparr>)" using spec none by (simp add: store_ok_def demo_node_def)
  obtain n r where run: "put_blob_bytes demo_net [1] None None (?s\<lparr>idx := ix\<rparr>) = (n, r)" by force
  have "blob_data (?s\<lparr>idx := ix\<rparr>) = []" by (simp add: demo_node_def)
  note put2 = put_blob_bytes_spec [OF ok demo_net_laws(1,4) _ run]
  have rel2: "\<forall>sl. release_at demo_net (idx n) sl = (if sl = demo_slot 5 then Some (demo_old 5) else None)"
    using put2 rel by (simp add: demo_node_def del: split_paired_All)
  have n: "store_ok demo_net n" "served n ?b"
    using put2 by (auto simp: demo_node_def demo_app_fields demo_net_same served_def split: sum.splits)
  have "node_key n = 5"
    using run by (auto simp: put_blob_bytes_def Let_def then_do_def index_put_blob_def on_index_def add_data_def
        set_tag_def demo_node_def split: sum.splits prod.splits)
  then have own: "p_publisher (payload (demo_app 5)) = node_id demo_net n"
    by (simp add: demo_app_fields demo_net_same demo_node_id)
  have "index_ok demo_net (idx n)" using n(1) by (simp add: store_ok_def)
  from list_releases_set [OF this demo_net_laws(2)] rel2
  have "set (list_releases demo_net (idx n)) \<subseteq> {demo_old 5}" by (auto split: if_splits)
  moreover have "br_hash ?b \<noteq> blake3_of demo_node_crates [2]"
    by (simp add: demo_app_fields demo_node_crates_def codecs.defs node_crates.defs demo_checksum_def)
  ultimately have "br_hash ?b \<notin> (\<Union>x \<in> set (list_releases demo_net (idx n)). br_hash ` set (all_blobs x))"
    using demo_old_fields(5) [of 5] by blast
  from publish_races_collection [OF n(1) demo_net_laws(2) _ demo_app_verifies demo_app_shape(2) own _
      demo_old_fields(4) _ n(2) this, of "\<lparr>gc_dry = False, gc_force = False\<rparr>" demo_env] rel2
  show ?thesis by (auto simp: demo_app_fields demo_net_same)
qed

end
